(* ===== verification/Zevra_Errors.thy ===== *)
theory Zevra_Errors
  imports Zevra_Prelude
begin

text \<open>
  Error codes and their translation: \<open>common/errors/error-codes.ts\<close>, \<open>common/errors/socket-error.ts\<close>,
  the global HTTP filter \<open>common/filters/all-exceptions.filter.ts\<close>, the flattening of validation
  errors in \<open>common/pipes/validation.ts\<close> and \<open>socket/validate-payload.ts\<close>, and the request id
  middleware. A thrown value is a \<open>thrown\<close>: one constructor for each class the sources test with
  \<open>instanceof\<close>, and \<open>Other\<close> for any other value, given by the properties the code reads off it.
\<close>

section \<open>Codes\<close>

datatype HttpErrorCode =
    VALIDATION_ERROR | UNAUTHORIZED | FORBIDDEN | NOT_FOUND | CONFLICT
  | RATE_LIMITED | PAYLOAD_TOO_LARGE | INTERNAL_ERROR

datatype SocketErrorCode =
    S_VALIDATION_ERROR | S_NOT_AUTHENTICATED | S_NOT_MEMBER | S_NOT_FOUND
  | S_RATE_LIMITED | S_PAYLOAD_TOO_LARGE | S_INTERNAL_ERROR

definition socket_codes :: "(string \<times> SocketErrorCode) list" where
  "socket_codes =
     [(''VALIDATION_ERROR'', S_VALIDATION_ERROR),
      (''NOT_AUTHENTICATED'', S_NOT_AUTHENTICATED),
      (''NOT_MEMBER'', S_NOT_MEMBER),
      (''NOT_FOUND'', S_NOT_FOUND),
      (''RATE_LIMITED'', S_RATE_LIMITED),
      (''PAYLOAD_TOO_LARGE'', S_PAYLOAD_TOO_LARGE),
      (''INTERNAL_ERROR'', S_INTERNAL_ERROR)]"

definition httpStatusToErrorCode :: "int \<Rightarrow> HttpErrorCode" where
  "httpStatusToErrorCode status =
     (if status = 400 \<or> status = 422 then VALIDATION_ERROR
      else if status = 401 then UNAUTHORIZED
      else if status = 403 then FORBIDDEN
      else if status = 404 then NOT_FOUND
      else if status = 409 then CONFLICT
      else if status = 429 then RATE_LIMITED
      else if status = 413 then PAYLOAD_TOO_LARGE
      else if status \<ge> 400 \<and> status < 500 then VALIDATION_ERROR else INTERNAL_ERROR)"

definition httpStatusToSocketCode :: "int \<Rightarrow> SocketErrorCode" where
  "httpStatusToSocketCode status =
     (if status = 400 \<or> status = 422 \<or> status = 409 then S_VALIDATION_ERROR
      else if status = 401 then S_NOT_AUTHENTICATED
      else if status = 403 then S_NOT_MEMBER
      else if status = 404 then S_NOT_FOUND
      else if status = 429 then S_RATE_LIMITED
      else if status = 413 then S_PAYLOAD_TOO_LARGE
      else S_INTERNAL_ERROR)"

section \<open>Thrown values\<close>

datatype thrown =
    SocketErr SocketErrorCode string
  | WsEx json
  | HttpEx int json string
  | Other json

text \<open>The exception classes of the framework the services throw: status, response body, message.\<close>

definition http_exception :: "int \<Rightarrow> string \<Rightarrow> thrown" where
  "http_exception status msg =
     HttpEx status (JObj [(''message'', JStr msg), (''statusCode'', JNum status)]) msg"

definition BadRequestException :: "string \<Rightarrow> thrown" where
  "BadRequestException = http_exception 400"
definition UnauthorizedException :: "string \<Rightarrow> thrown" where
  "UnauthorizedException = http_exception 401"
definition ForbiddenException :: "string \<Rightarrow> thrown" where
  "ForbiddenException = http_exception 403"
definition NotFoundException :: "string \<Rightarrow> thrown" where
  "NotFoundException = http_exception 404"
definition ConflictException :: "string \<Rightarrow> thrown" where
  "ConflictException = http_exception 409"
definition PayloadTooLargeException :: "string \<Rightarrow> thrown" where
  "PayloadTooLargeException = http_exception 413"
definition ServiceUnavailableException :: "string \<Rightarrow> thrown" where
  "ServiceUnavailableException = http_exception 503"

lemmas exception_defs =
  http_exception_def BadRequestException_def UnauthorizedException_def ForbiddenException_def
  NotFoundException_def ConflictException_def PayloadTooLargeException_def
  ServiceUnavailableException_def

text \<open>
  A database error as the driver raises it is an object whose \<open>code\<close> is the SQLSTATE; the query
  builder throws an error of its own with the query and the driver's error as its \<open>cause\<close>, so a
  failed query is thrown as a \<open>pg_error\<close>, whose own \<open>code\<close> is absent.
\<close>

definition driver_error :: "string \<Rightarrow> json" where
  "driver_error code = JObj [(''code'', JStr code)]"

definition wrap_cause :: "json \<Rightarrow> json" where
  "wrap_cause e = JObj [(''query'', JStr ''insert''), (''cause'', e)]"

definition pg_error :: "string \<Rightarrow> thrown" where
  "pg_error code = Other (wrap_cause (driver_error code))"

section \<open>Database errors\<close>

record PgErrorMapping =
  pm_status :: int
  pm_error :: HttpErrorCode
  pm_message :: string

definition is_sqlstate :: "string \<Rightarrow> bool" where
  "is_sqlstate c = (length c = 5 \<and>
     list_all (\<lambda>ch. let n = (of_char ch :: nat) in 48 \<le> n \<and> n \<le> 57 \<or> 65 \<le> n \<and> n \<le> 90) c)"

text \<open>The loop of \<open>findPgError\<close>; the first argument is what is left of its depth bound.\<close>

fun findPgError_loop :: "nat \<Rightarrow> json option \<Rightarrow> string option" where
  "findPgError_loop 0 current = None"
| "findPgError_loop (Suc d) (Some (JObj kvs)) =
     (case map_of kvs ''code'' of
        Some (JStr code) \<Rightarrow>
          if is_sqlstate code then Some code else findPgError_loop d (map_of kvs ''cause'')
      | _ \<Rightarrow> findPgError_loop d (map_of kvs ''cause''))"
| "findPgError_loop (Suc d) _ = None"

definition findPgError :: "json \<Rightarrow> string option" where
  "findPgError err = findPgError_loop 4 (Some err)"

definition mapPgError :: "json \<Rightarrow> PgErrorMapping option" where
  "mapPgError err = (case findPgError err of
       None \<Rightarrow> None
     | Some code \<Rightarrow> Some (
         if code = ''23505'' then \<lparr>pm_status = 409, pm_error = CONFLICT, pm_message = ''Resource already exists''\<rparr>
         else if code = ''23503'' then \<lparr>pm_status = 404, pm_error = NOT_FOUND, pm_message = ''Referenced resource not found''\<rparr>
         else if code \<in> {''22P02'', ''22001'', ''22003'', ''23502'', ''23514''}
           then \<lparr>pm_status = 400, pm_error = VALIDATION_ERROR, pm_message = ''Invalid input''\<rparr>
         else \<lparr>pm_status = 500, pm_error = INTERNAL_ERROR, pm_message = ''Internal server error''\<rparr>))"

section \<open>Socket acknowledgements\<close>

record SocketErrorAck =
  ack_error :: SocketErrorCode
  ack_message :: string

definition socketError :: "SocketErrorCode \<Rightarrow> string \<Rightarrow> SocketErrorAck" where
  "socketError code message = \<lparr>ack_error = code, ack_message = message\<rparr>"

fun isSocketCode :: "json option \<Rightarrow> SocketErrorCode option" where
  "isSocketCode (Some (JStr s)) = map_of socket_codes s"
| "isSocketCode _ = None"

fun firstMessage :: "json option \<Rightarrow> string option" where
  "firstMessage (Some (JStr s)) = (if s \<noteq> [] then Some s else None)"
| "firstMessage (Some (JArr (JStr s # xs))) = Some s"
| "firstMessage _ = None"

fun toSocketError :: "thrown \<Rightarrow> SocketErrorAck" where
  "toSocketError (SocketErr code message) = socketError code message"
| "toSocketError (WsEx payload) =
     (case payload of
        JStr s \<Rightarrow> (case isSocketCode (Some (JStr s)) of
                    Some code \<Rightarrow> socketError code s
                  | None \<Rightarrow> socketError S_VALIDATION_ERROR s)
      | JObj kvs \<Rightarrow>
          (let code = (case isSocketCode (map_of kvs ''error'') of
                         Some c \<Rightarrow> c
                       | None \<Rightarrow> (case isSocketCode (map_of kvs ''code'') of
                                   Some c \<Rightarrow> c
                                 | None \<Rightarrow> S_VALIDATION_ERROR))
           in socketError code (case firstMessage (map_of kvs ''message'') of
                                  Some m \<Rightarrow> m | None \<Rightarrow> ''Request failed''))
      | _ \<Rightarrow> socketError S_VALIDATION_ERROR ''Request failed'')"
| "toSocketError (HttpEx status response message) =
     (let code = httpStatusToSocketCode status in
      if code = S_INTERNAL_ERROR then socketError code ''Internal server error''
      else socketError code
        (case response of
           JStr s \<Rightarrow> s
         | _ \<Rightarrow> (case firstMessage (jfield ''message'' response) of
                   Some m \<Rightarrow> m | None \<Rightarrow> message)))"
| "toSocketError (Other err) =
     (case mapPgError err of
        Some pg \<Rightarrow> socketError (httpStatusToSocketCode (pm_status pg)) (pm_message pg)
      | None \<Rightarrow> socketError S_INTERNAL_ERROR ''Internal server error'')"

section \<open>The global HTTP filter\<close>

record NormalizedError =
  ne_status :: int
  ne_error :: HttpErrorCode
  ne_message :: string
  ne_details :: "string list option"

fun GENERIC_MESSAGES :: "HttpErrorCode \<Rightarrow> string" where
  "GENERIC_MESSAGES VALIDATION_ERROR = ''Invalid request''"
| "GENERIC_MESSAGES UNAUTHORIZED = ''Authentication required''"
| "GENERIC_MESSAGES FORBIDDEN = ''Access denied''"
| "GENERIC_MESSAGES NOT_FOUND = ''Resource not found''"
| "GENERIC_MESSAGES CONFLICT = ''Resource already exists''"
| "GENERIC_MESSAGES RATE_LIMITED = ''Too many requests, please try again later''"
| "GENERIC_MESSAGES PAYLOAD_TOO_LARGE = ''Payload too large''"
| "GENERIC_MESSAGES INTERNAL_ERROR = ''Internal server error''"

fun nonempty_strings :: "json list \<Rightarrow> string list" where
  "nonempty_strings [] = []"
| "nonempty_strings (JStr s # xs) = (if s \<noteq> [] then s # nonempty_strings xs else nonempty_strings xs)"
| "nonempty_strings (_ # xs) = nonempty_strings xs"

fun toStringArray :: "json option \<Rightarrow> string list option" where
  "toStringArray (Some (JArr xs)) =
     (let out = nonempty_strings xs in if out \<noteq> [] then Some out else None)"
| "toStringArray _ = None"

definition normalizeHttpException :: "int \<Rightarrow> json \<Rightarrow> string \<Rightarrow> NormalizedError" where
  "normalizeHttpException status response emessage =
     (let error = httpStatusToErrorCode status;
          mk = (\<lambda>msg det. \<lparr>ne_status = status, ne_error = error, ne_message = msg, ne_details = det\<rparr>) in
      if error = INTERNAL_ERROR \<or> error = RATE_LIMITED then mk (GENERIC_MESSAGES error) None
      else (case response of
          JStr s \<Rightarrow> mk (if s \<noteq> [] then s else GENERIC_MESSAGES error) None
        | _ \<Rightarrow>
          (let details = (case toStringArray (jfield ''details'' response) of
                            Some d \<Rightarrow> Some d
                          | None \<Rightarrow> toStringArray (jfield ''message'' response));
               message = (case jfield ''message'' response of
                            Some (JStr m) \<Rightarrow> if m \<noteq> [] then Some m else None
                          | _ \<Rightarrow> None)
           in mk (case message of
                    Some m \<Rightarrow> m
                  | None \<Rightarrow> (case details of
                               Some d \<Rightarrow> hd d
                             | None \<Rightarrow> if emessage \<noteq> [] then emessage else GENERIC_MESSAGES error))
                 details)))"

definition normalizeMiddlewareError :: "json \<Rightarrow> NormalizedError option" where
  "normalizeMiddlewareError exn =
     (case exn of
        JObj kvs \<Rightarrow>
          (let status = (case map_of kvs ''status'' of
                           Some (JNum n) \<Rightarrow> Some n
                         | _ \<Rightarrow> (case map_of kvs ''statusCode'' of Some (JNum n) \<Rightarrow> Some n | _ \<Rightarrow> None))
           in case status of
                None \<Rightarrow> None
              | Some st \<Rightarrow>
                  if st < 400 \<or> st > 599 \<or> \<not> is_jbool (map_of kvs ''expose'') then None
                  else if map_of kvs ''type'' = Some (JStr ''entity.parse.failed'')
                    then Some \<lparr>ne_status = 400, ne_error = VALIDATION_ERROR,
                               ne_message = ''Malformed request body'', ne_details = None\<rparr>
                  else Some \<lparr>ne_status = st, ne_error = httpStatusToErrorCode st,
                             ne_message = GENERIC_MESSAGES (httpStatusToErrorCode st), ne_details = None\<rparr>)
      | _ \<Rightarrow> None)"

text \<open>
  The three exception classes of the sources are the only ones with a constructor of their own;
  a \<open>SocketError\<close> or a \<open>WsException\<close> that reaches the HTTP filter is an error object without the
  properties the filter reads.
\<close>

definition unknown_error :: NormalizedError where
  "unknown_error = \<lparr>ne_status = 500, ne_error = INTERNAL_ERROR,
     ne_message = GENERIC_MESSAGES INTERNAL_ERROR, ne_details = None\<rparr>"

fun normalizeException :: "thrown \<Rightarrow> NormalizedError" where
  "normalizeException (HttpEx status response message) = normalizeHttpException status response message"
| "normalizeException (Other err) =
     (case mapPgError err of
        Some pg \<Rightarrow> \<lparr>ne_status = pm_status pg, ne_error = pm_error pg,
                    ne_message = pm_message pg, ne_details = None\<rparr>
      | None \<Rightarrow> (case normalizeMiddlewareError err of
                   Some m \<Rightarrow> m
                 | None \<Rightarrow> unknown_error))"
| "normalizeException _ = unknown_error"

text \<open>
  \<open>AllExceptionsFilter.catch\<close>: the request parts it reads, the response it writes. The last two
  arguments are the values of \<open>randomUUID()\<close> and of the clock.
\<close>

record http_request =
  req_type :: string
  req_requestId :: "string option"
  req_header_id :: "json option"
  req_path :: string

record HttpErrorBody =
  body_statusCode :: int
  body_error :: HttpErrorCode
  body_message :: string
  body_details :: "string list option"
  body_path :: string
  body_timestamp :: time
  body_requestId :: string

datatype filter_reply =
    NoReply
  | EndOnly
  | Reply int string HttpErrorBody

definition filter_request_id :: "http_request \<Rightarrow> string \<Rightarrow> string" where
  "filter_request_id req uuid = (case req_requestId req of
       Some r \<Rightarrow> r
     | None \<Rightarrow> (case req_header_id req of Some (JStr h) \<Rightarrow> h | _ \<Rightarrow> uuid))"

definition filter_catch :: "thrown \<Rightarrow> http_request \<Rightarrow> bool \<Rightarrow> string \<Rightarrow> time \<Rightarrow> filter_reply" where
  "filter_catch exn req headersSent uuid now =
     (if req_type req \<noteq> ''http'' then NoReply
      else (let normalized = normalizeException exn;
                requestId = filter_request_id req uuid;
                body = \<lparr>body_statusCode = ne_status normalized, body_error = ne_error normalized,
                        body_message = ne_message normalized, body_details = ne_details normalized,
                        body_path = req_path req, body_timestamp = now, body_requestId = requestId\<rparr>
            in if headersSent then EndOnly else Reply (ne_status normalized) requestId body))"

text \<open>\<open>RequestIdMiddleware\<close>: \<open>/^[A-Za-z0-9._-]{8,128}$/\<close>.\<close>

definition safe_id_char :: "char \<Rightarrow> bool" where
  "safe_id_char c = (let n = (of_char c :: nat) in
     48 \<le> n \<and> n \<le> 57 \<or> 65 \<le> n \<and> n \<le> 90 \<or> 97 \<le> n \<and> n \<le> 122 \<or> n = 46 \<or> n = 95 \<or> n = 45)"

definition SAFE_ID :: "string \<Rightarrow> bool" where
  "SAFE_ID s = (8 \<le> length s \<and> length s \<le> 128 \<and> list_all safe_id_char s)"

definition request_id_use :: "json option \<Rightarrow> string \<Rightarrow> string" where
  "request_id_use incoming uuid = (case incoming of
       Some (JStr s) \<Rightarrow> if SAFE_ID s then s else uuid
     | _ \<Rightarrow> uuid)"

section \<open>Validation errors\<close>

text \<open>
  The tree the validator returns: property name, the constraint messages (absent or in order) and
  the nested errors.
\<close>

datatype ValidationError =
  VError (ve_property: string) (ve_constraints: "string list option") (ve_children: "ValidationError list option")

fun flattenValidationErrors :: "ValidationError list \<Rightarrow> string \<Rightarrow> string list" where
  "flattenValidationErrors [] parent = []"
| "flattenValidationErrors (VError property constraints children # errors) parent =
     (let path = (if parent \<noteq> [] then parent @ ''.'' @ property else property) in
      (case constraints of
         None \<Rightarrow> []
       | Some msgs \<Rightarrow> map (\<lambda>msg. if parent \<noteq> [] then path @ '': '' @ msg else msg) msgs)
      @ (case children of
           None \<Rightarrow> []
         | Some cs \<Rightarrow> flattenValidationErrors cs path)
      @ flattenValidationErrors errors parent)"

text \<open>The exception the validation pipe raises: the first problem and all of them.\<close>

definition validation_exception :: "ValidationError list \<Rightarrow> thrown" where
  "validation_exception errors =
     (let details = flattenValidationErrors errors [] in
      HttpEx 400 (JObj [(''message'', JStr (case details of [] \<Rightarrow> ''Validation failed'' | d # _ \<Rightarrow> d)),
                        (''details'', JArr (map JStr details))]) ''Bad Request Exception'')"

text \<open>\<open>firstConstraint\<close> of \<open>validate-payload.ts\<close>: an empty nested message counts as none.\<close>

fun firstConstraint :: "ValidationError list \<Rightarrow> string option" where
  "firstConstraint [] = None"
| "firstConstraint (VError property constraints children # errors) =
     (case (case constraints of Some (c # cs) \<Rightarrow> Some c | _ \<Rightarrow> None) of
        Some c \<Rightarrow> Some c
      | None \<Rightarrow>
          (case (case children of None \<Rightarrow> None | Some cs \<Rightarrow> firstConstraint cs) of
             Some (c # cs) \<Rightarrow> Some (c # cs)
           | _ \<Rightarrow> firstConstraint errors))"

definition validate_payload_error :: "ValidationError list \<Rightarrow> thrown" where
  "validate_payload_error errors = SocketErr S_VALIDATION_ERROR
     (case firstConstraint errors of Some c \<Rightarrow> c | None \<Rightarrow> ''Invalid payload'')"

section \<open>Lemmas\<close>

lemma sqlstate_at_top:
  "is_sqlstate c \<Longrightarrow> findPgError_loop (Suc d) (Some (JObj [(''code'', JStr c)])) = Some c"
  by simp

lemma findPgError_wrapped:
  "is_sqlstate c \<Longrightarrow>
   findPgError_loop d (Some ((wrap_cause ^^ k) (JObj [(''code'', JStr c)]))) = (if k < d then Some c else None)"
proof (induction d arbitrary: k)
  case (Suc d)
  show ?case
  proof (cases k)
    case 0
    with Suc.prems show ?thesis by simp
  next
    case (Suc k')
    with Suc.IH[of k'] Suc.prems show ?thesis by (simp add: wrap_cause_def)
  qed
qed simp

lemma pg_error_found: "is_sqlstate c \<Longrightarrow> pg_error c = Other e \<Longrightarrow> findPgError e = Some c"
  using findPgError_wrapped[of c 4 1] by (auto simp: pg_error_def driver_error_def findPgError_def)

lemma mapPgError_cases:
  assumes "mapPgError err = Some pg"
  shows "pg = \<lparr>pm_status = 409, pm_error = CONFLICT, pm_message = ''Resource already exists''\<rparr>
    \<or> pg = \<lparr>pm_status = 404, pm_error = NOT_FOUND, pm_message = ''Referenced resource not found''\<rparr>
    \<or> pg = \<lparr>pm_status = 400, pm_error = VALIDATION_ERROR, pm_message = ''Invalid input''\<rparr>
    \<or> pg = \<lparr>pm_status = 500, pm_error = INTERNAL_ERROR, pm_message = ''Internal server error''\<rparr>"
proof -
  from assms obtain code where "findPgError err = Some code"
    by (cases "findPgError err") (simp_all add: mapPgError_def)
  with assms show ?thesis
    unfolding mapPgError_def
    by (simp only: option.case option.inject) (metis (no_types))
qed


lemma mapPgError_internal:
  "mapPgError err = Some pg \<Longrightarrow> pm_error pg = INTERNAL_ERROR \<Longrightarrow>
   pm_status pg = 500 \<and> pm_message pg = ''Internal server error''"
  by (drule mapPgError_cases) auto

lemma errorCode_internal_socket:
  "httpStatusToErrorCode st = INTERNAL_ERROR \<Longrightarrow> httpStatusToSocketCode st = S_INTERNAL_ERROR"
  by (auto simp: httpStatusToErrorCode_def httpStatusToSocketCode_def split: if_splits)

lemma normalizeMiddleware_message:
  "normalizeMiddlewareError err = Some m \<Longrightarrow>
   ne_message m \<in> insert ''Malformed request body'' (range GENERIC_MESSAGES)"
  by (auto simp: normalizeMiddlewareError_def Let_def split: json.splits option.splits if_splits)

text \<open>Every constraint message of the tree is non-empty.\<close>

fun ve_nonempty :: "ValidationError list \<Rightarrow> bool" where
  "ve_nonempty [] = True"
| "ve_nonempty (VError property constraints children # errors) =
     ((case constraints of None \<Rightarrow> True | Some msgs \<Rightarrow> list_all (\<lambda>m. m \<noteq> []) msgs) \<and>
      (case children of None \<Rightarrow> True | Some cs \<Rightarrow> ve_nonempty cs) \<and> ve_nonempty errors)"

lemma firstConstraint_flatten:
  "ve_nonempty errs \<Longrightarrow>
   (case firstConstraint errs of
      None \<Rightarrow> flattenValidationErrors errs p = []
    | Some c \<Rightarrow> c \<noteq> [] \<and> (\<exists>pre rest. flattenValidationErrors errs p = (pre @ c) # rest))"
proof (induction errs p rule: flattenValidationErrors.induct)
  case (2 property constraints children errors parent)
  let ?path = "if parent \<noteq> [] then parent @ ''.'' @ property else property"
  show ?case
  proof (cases "\<exists>c cs. constraints = Some (c # cs)")
    case True
    then obtain c cs where c: "constraints = Some (c # cs)" by blast
    have "(if parent \<noteq> [] then ?path @ '': '' @ c else c)
        = (if parent \<noteq> [] then ?path @ '': '' else []) @ c" by simp
    then show ?thesis using c "2.prems" by (auto simp: Let_def)
  next
    case False
    then have nc: "constraints = None \<or> constraints = Some []"
      by (metis neq_Nil_conv not_None_eq)
    show ?thesis
    proof (cases children)
      case None
      with nc "2.IH"(2)[OF refl] "2.prems" show ?thesis
        by (auto simp: Let_def split: option.splits)
    next
      case (Some cs)
      then have "case firstConstraint cs of
          None \<Rightarrow> flattenValidationErrors cs ?path = []
        | Some c \<Rightarrow> c \<noteq> [] \<and> (\<exists>pre rest. flattenValidationErrors cs ?path = (pre @ c) # rest)"
        using "2.IH"(1)[OF refl Some] "2.prems" by simp
      with Some nc "2.IH"(2)[OF refl] "2.prems" show ?thesis
        by (cases "firstConstraint cs"; cases "firstConstraint errors")
          (auto simp: Let_def neq_Nil_conv)
    qed
  qed
qed simp

section \<open>Properties\<close>





text \<open>
  The SQLSTATE of a database error is found under at most three layers of \<open>cause\<close> wrapping
  (what a query builder adds around the driver's error), and no deeper, so
  \<open>toSocketError\<close> and the HTTP filter treat a wrapped constraint violation as the bare one.
\<close>

theorem findPgError_depth:
  assumes "is_sqlstate c"
  shows "findPgError ((wrap_cause ^^ k) (JObj [(''code'', JStr c)])) = (if k < 4 then Some c else None)"
  using findPgError_wrapped[OF assms, of 4 k] by (simp add: findPgError_def)

theorem findPgError_depth_witness:
  "is_sqlstate ''23505'' \<and> findPgError (wrap_cause (JObj [(''code'', JStr ''23505'')])) = Some ''23505''"
proof -
  have h: "is_sqlstate ''23505''" by (simp add: is_sqlstate_def)
  show ?thesis using h findPgError_depth[OF h, of 1] by simp
qed

text \<open>
  Internal errors are opaque in both transports. If the HTTP filter classifies an exception as
  \<open>INTERNAL_ERROR\<close>, its body has the generic message and no details; and unless it is one of the
  socket-only exception classes, the same exception becomes the socket code \<open>INTERNAL_ERROR\<close> with
  the same generic message.
\<close>

theorem internal_errors_opaque:
  assumes "ne_error (normalizeException e) = INTERNAL_ERROR"
  shows "ne_message (normalizeException e) = ''Internal server error'' \<and>
    ne_details (normalizeException e) = None \<and>
    (case e of HttpEx _ _ _ \<Rightarrow> toSocketError e = socketError S_INTERNAL_ERROR ''Internal server error''
     | Other _ \<Rightarrow> toSocketError e = socketError S_INTERNAL_ERROR ''Internal server error''
     | _ \<Rightarrow> True)"
proof (cases e)
  case (HttpEx status response message)
  have "ne_error (normalizeException e) = httpStatusToErrorCode status"
    by (auto simp: HttpEx normalizeHttpException_def Let_def split: json.splits)
  with assms have "httpStatusToErrorCode status = INTERNAL_ERROR" by simp
  with errorCode_internal_socket[OF this] show ?thesis
    by (simp add: HttpEx normalizeHttpException_def Let_def)
next
  case (Other err)
  show ?thesis
  proof (cases "mapPgError err")
    case None
    then show ?thesis using assms Other
      by (cases "normalizeMiddlewareError err")
        (auto simp: unknown_error_def normalizeMiddlewareError_def Let_def
          split: json.splits option.splits if_splits)
  next
    case (Some pg)
    then show ?thesis using assms Other mapPgError_internal[OF Some]
      by (auto simp: httpStatusToSocketCode_def)
  qed
qed (simp_all add: unknown_error_def)

theorem internal_errors_opaque_witness:
  "ne_error (normalizeException (ServiceUnavailableException ''Upload failed'')) = INTERNAL_ERROR \<and>
   toSocketError (ServiceUnavailableException ''Upload failed'')
     = socketError S_INTERNAL_ERROR ''Internal server error''"
proof -
  have h: "ne_error (normalizeException (ServiceUnavailableException ''Upload failed'')) = INTERNAL_ERROR"
    by (simp add: exception_defs normalizeHttpException_def httpStatusToErrorCode_def)
  show ?thesis using h internal_errors_opaque[OF h] by (simp add: exception_defs)
qed

text \<open>
  A failed validation is reported the same way over both transports: the socket acknowledgement
  carries the first constraint message of the error tree exactly when the REST pipe lists any
  problem, and the first problem of the REST list is that message, preceded by its property path
  when it is nested.
\<close>

theorem validation_reports_agree:
  assumes "ve_nonempty errs"
  shows "case firstConstraint errs of
      None \<Rightarrow> flattenValidationErrors errs [] = [] \<and>
              validate_payload_error errs = SocketErr S_VALIDATION_ERROR ''Invalid payload''
    | Some c \<Rightarrow> validate_payload_error errs = SocketErr S_VALIDATION_ERROR c \<and>
              (\<exists>pre rest. flattenValidationErrors errs [] = (pre @ c) # rest)"
  using firstConstraint_flatten[OF assms, of "[]"]
  by (auto simp: validate_payload_error_def split: option.splits)

theorem validation_reports_agree_witness:
  "ve_nonempty [VError ''items'' None (Some [VError ''0'' (Some [''bad'']) None])] \<and>
   validate_payload_error [VError ''items'' None (Some [VError ''0'' (Some [''bad'']) None])]
     = SocketErr S_VALIDATION_ERROR ''bad'' \<and>
   flattenValidationErrors [VError ''items'' None (Some [VError ''0'' (Some [''bad'']) None])] []
     = [''items.0: bad'']"
proof -
  have h: "ve_nonempty [VError ''items'' None (Some [VError ''0'' (Some [''bad'']) None])]" by simp
  show ?thesis using h validation_reports_agree[OF h] by simp
qed

end
