(* ===== verification/Zevra_Schema.thy ===== *)
theory Zevra_Schema
  imports Zevra_Errors
begin

text \<open>
  The tables of \<open>database/schema.ts\<close>: one record per \<open>pgTable\<close>, one list of rows per table, and the
  unique indexes as conflict relations. A statement of the sources is an operation on these lists:
  a \<open>WHERE\<close> clause is a filter, \<open>UPDATE\<close> is \<^const>\<open>update_where\<close>, an \<open>INSERT\<close> that would
  duplicate a unique key raises SQLSTATE 23505. The order of a list is the order in which the server
  returns rows when a query has no \<open>ORDER BY\<close>; every theorem holds for every order. Default ids
  (\<open>defaultRandom()\<close>) and times (\<open>defaultNow()\<close>) are arguments of the operations that insert.
\<close>

section \<open>Rows\<close>

record user_row =
  u_id :: uid
  u_username :: string
  u_email :: string
  u_srpSalt :: string
  u_srpVerifier :: string
  u_argon2Params :: json
  u_publicKey :: string
  u_encryptedPrivateKey :: string
  u_keySalt :: string
  u_publicKeySign :: string
  u_encryptedPrivateKeySign :: string
  u_keySaltSign :: string
  u_keyVersion :: int
  u_status :: string
  u_isActive :: bool
  u_createdAt :: time
  u_updatedAt :: time
  u_lastLoginAt :: "time option"

record channel_row =
  ch_id :: cid
  ch_name :: "string option"
  ch_type :: string
  ch_isArchived :: bool
  ch_lastMessageId :: "mid option"
  ch_lastMessageAt :: "time option"
  ch_createdAt :: time
  ch_updatedAt :: time

record membership_row =
  mb_id :: string
  mb_role :: string
  mb_joinedAt :: time
  mb_leftAt :: "time option"
  mb_muted :: bool
  mb_lastReadMessageId :: "mid option"
  mb_lastReadAt :: "time option"
  mb_userId :: uid
  mb_channelId :: cid

record message_row =
  ms_id :: mid
  ms_messageType :: string
  ms_encryptedContent :: string
  ms_contentIv :: string
  ms_contentTag :: string
  ms_signature :: string
  ms_sequenceNumber :: int
  ms_senderKeyEpoch :: int
  ms_metadata :: "json option"
  ms_isDeleted :: bool
  ms_createdAt :: time
  ms_updatedAt :: time
  ms_senderId :: uid
  ms_channelId :: cid

record sender_key_row =
  sk_id :: string
  sk_groupId :: cid
  sk_epoch :: int
  sk_encryptedKey :: string
  sk_keySignature :: string
  sk_createdAt :: time
  sk_ownerId :: uid
  sk_receiverId :: uid

record message_read_row =
  mr_id :: string
  mr_messageId :: mid
  mr_userId :: uid
  mr_readAt :: time

record refresh_token_row =
  rt_id :: string
  rt_tokenHash :: string
  rt_expiresAt :: time
  rt_createdAt :: time
  rt_userId :: uid

record audit_row =
  au_id :: string
  au_action :: string
  au_details :: "json option"
  au_ipAddress :: "string option"
  au_userId :: "uid option"
  au_createdAt :: time

record reaction_row =
  re_id :: string
  re_emoji :: string
  re_createdAt :: time
  re_messageId :: mid
  re_userId :: uid

record call_log_row =
  cl_id :: string
  cl_type :: string
  cl_callerId :: "uid option"
  cl_calleeId :: "uid option"
  cl_roomName :: "string option"
  cl_startedAt :: time
  cl_endedAt :: "time option"
  cl_duration :: "int option"
  cl_status :: string
  cl_channelId :: "cid option"

record call_participant_row =
  cp_id :: string
  cp_callLogId :: string
  cp_userId :: uid
  cp_username :: string
  cp_joinedAt :: time
  cp_leftAt :: "time option"
  cp_duration :: "int option"

record db =
  users :: "user_row list"
  channels :: "channel_row list"
  memberships :: "membership_row list"
  messages :: "message_row list"
  senderKeys :: "sender_key_row list"
  messageReads :: "message_read_row list"
  refreshTokens :: "refresh_token_row list"
  auditLog :: "audit_row list"
  reactions :: "reaction_row list"
  callLogs :: "call_log_row list"
  callParticipants :: "call_participant_row list"

section \<open>Unique indexes\<close>

definition user_conflict :: "user_row \<Rightarrow> user_row \<Rightarrow> bool" where
  "user_conflict a b \<longleftrightarrow> u_id a = u_id b \<or> u_username a = u_username b \<or> u_email a = u_email b"

definition channel_conflict :: "channel_row \<Rightarrow> channel_row \<Rightarrow> bool" where
  "channel_conflict a b \<longleftrightarrow> ch_id a = ch_id b"

definition membership_conflict :: "membership_row \<Rightarrow> membership_row \<Rightarrow> bool" where
  "membership_conflict a b \<longleftrightarrow>
     mb_id a = mb_id b \<or> mb_userId a = mb_userId b \<and> mb_channelId a = mb_channelId b"

definition message_conflict :: "message_row \<Rightarrow> message_row \<Rightarrow> bool" where
  "message_conflict a b \<longleftrightarrow>
     ms_id a = ms_id b \<or> ms_channelId a = ms_channelId b \<and> ms_sequenceNumber a = ms_sequenceNumber b"

definition sender_key_conflict :: "sender_key_row \<Rightarrow> sender_key_row \<Rightarrow> bool" where
  "sender_key_conflict a b \<longleftrightarrow> sk_id a = sk_id b \<or>
     sk_groupId a = sk_groupId b \<and> sk_ownerId a = sk_ownerId b \<and>
     sk_receiverId a = sk_receiverId b \<and> sk_epoch a = sk_epoch b"

definition message_read_conflict :: "message_read_row \<Rightarrow> message_read_row \<Rightarrow> bool" where
  "message_read_conflict a b \<longleftrightarrow>
     mr_id a = mr_id b \<or> mr_messageId a = mr_messageId b \<and> mr_userId a = mr_userId b"

definition refresh_token_conflict :: "refresh_token_row \<Rightarrow> refresh_token_row \<Rightarrow> bool" where
  "refresh_token_conflict a b \<longleftrightarrow> rt_id a = rt_id b \<or> rt_tokenHash a = rt_tokenHash b"

definition reaction_conflict :: "reaction_row \<Rightarrow> reaction_row \<Rightarrow> bool" where
  "reaction_conflict a b \<longleftrightarrow> re_id a = re_id b \<or>
     re_messageId a = re_messageId b \<and> re_userId a = re_userId b \<and> re_emoji a = re_emoji b"

definition call_participant_conflict :: "call_participant_row \<Rightarrow> call_participant_row \<Rightarrow> bool" where
  "call_participant_conflict a b \<longleftrightarrow>
     cp_id a = cp_id b \<or> cp_callLogId a = cp_callLogId b \<and> cp_userId a = cp_userId b"

definition call_log_conflict :: "call_log_row \<Rightarrow> call_log_row \<Rightarrow> bool" where
  "call_log_conflict a b \<longleftrightarrow> cl_id a = cl_id b"

lemmas conflict_defs =
  user_conflict_def channel_conflict_def membership_conflict_def message_conflict_def
  sender_key_conflict_def message_read_conflict_def refresh_token_conflict_def reaction_conflict_def
  call_participant_conflict_def call_log_conflict_def

text \<open>\<open>INSERT\<close>: raises 23505 when a row with an equal key is there.\<close>

definition insert_row :: "('a \<Rightarrow> 'a \<Rightarrow> bool) \<Rightarrow> 'a \<Rightarrow> 'a list \<Rightarrow> thrown + 'a list" where
  "insert_row conflict r rows =
     (if list_ex (conflict r) rows then Inl (pg_error ''23505'') else Inr (rows @ [r]))"

fun insert_rows :: "('a \<Rightarrow> 'a \<Rightarrow> bool) \<Rightarrow> 'a list \<Rightarrow> 'a list \<Rightarrow> thrown + 'a list" where
  "insert_rows conflict [] rows = Inr rows"
| "insert_rows conflict (r # rs) rows = bindE (insert_row conflict r rows) (insert_rows conflict rs)"

text \<open>\<open>INSERT ... ON CONFLICT DO NOTHING\<close>.\<close>

definition insert_or_nothing :: "('a \<Rightarrow> 'a \<Rightarrow> bool) \<Rightarrow> 'a \<Rightarrow> 'a list \<Rightarrow> 'a list" where
  "insert_or_nothing conflict r rows = (if list_ex (conflict r) rows then rows else rows @ [r])"

text \<open>
  The contract every table keeps: no two rows share a unique key. It is stated once for any
  symmetric conflict relation; the tables interpret it below.
\<close>

definition keys_unique :: "('a \<Rightarrow> 'a \<Rightarrow> bool) \<Rightarrow> 'a list \<Rightarrow> bool" where
  "keys_unique conflict rows = sorted_wrt (\<lambda>a b. \<not> conflict a b) rows"

locale unique_index =
  fixes conflict :: "'a \<Rightarrow> 'a \<Rightarrow> bool"
  assumes conflict_sym: "conflict a b \<Longrightarrow> conflict b a"
begin

lemma unique_Nil: "keys_unique conflict []"
  by (simp add: keys_unique_def)

lemma unique_snoc:
  "keys_unique conflict (rows @ [r]) \<longleftrightarrow> keys_unique conflict rows \<and> (\<forall>x \<in> set rows. \<not> conflict x r)"
  by (simp add: keys_unique_def sorted_wrt_append)

lemma unique_insert:
  "keys_unique conflict rows \<Longrightarrow> insert_row conflict r rows = Inr rows' \<Longrightarrow> keys_unique conflict rows'"
  using conflict_sym by (fastforce simp: insert_row_def unique_snoc list_ex_iff split: if_splits)

lemma unique_inserts:
  "keys_unique conflict rows \<Longrightarrow> insert_rows conflict rs rows = Inr rows' \<Longrightarrow> keys_unique conflict rows'"
  by (induction rs arbitrary: rows) (auto simp: bindE_Inr_iff dest: unique_insert)

lemma unique_insert_or_nothing:
  "keys_unique conflict rows \<Longrightarrow> keys_unique conflict (insert_or_nothing conflict r rows)"
  using conflict_sym by (fastforce simp: insert_or_nothing_def unique_snoc list_ex_iff)

lemma unique_delete: "keys_unique conflict rows \<Longrightarrow> keys_unique conflict (filter P rows)"
  by (simp add: keys_unique_def sorted_wrt_filter)

lemma unique_update:
  assumes "keys_unique conflict rows" and "\<And>a b. conflict (f a) b = conflict a b"
  shows "keys_unique conflict (update_where P f rows)"
proof -
  have c: "conflict a (f b) = conflict a b" for a b
    using assms(2) conflict_sym by blast
  show ?thesis
    using assms(1) by (simp add: keys_unique_def update_where_def sorted_wrt_map assms(2) c if_distrib
        if_distribR cong: if_cong)
qed

lemma unique_eq:
  assumes "keys_unique conflict rows" "a \<in> set rows" "b \<in> set rows" "conflict a b"
  shows "a = b"
  using assms
proof (induction rows)
  case (Cons r rows)
  then show ?case using conflict_sym by (fastforce simp: keys_unique_def)
qed simp

lemma unique_filter:
  assumes "keys_unique conflict rows" "x \<in> set rows" "P x" "\<And>y. y \<in> set rows \<Longrightarrow> P y \<Longrightarrow> conflict y x"
  shows "filter P rows = [x]"
  using assms
proof (induction rows)
  case (Cons r rows)
  have "keys_unique conflict rows" using Cons.prems(1) by (simp add: keys_unique_def)
  show ?case
  proof (cases "x \<in> set rows")
    case True
    then have "\<not> P r" using Cons.prems conflict_sym by (fastforce simp: keys_unique_def)
    then show ?thesis using Cons.IH[OF \<open>keys_unique conflict rows\<close> True] Cons.prems by simp
  next
    case False
    then have "x = r" using Cons.prems(2) by simp
    then have "\<forall>y \<in> set rows. \<not> P y" using Cons.prems conflict_sym by (fastforce simp: keys_unique_def)
    then show ?thesis using \<open>x = r\<close> Cons.prems(3) by simp
  qed
qed simp

end

interpretation users_tab: unique_index user_conflict
  by unfold_locales (auto simp: user_conflict_def)

interpretation channels_tab: unique_index channel_conflict
  by unfold_locales (auto simp: channel_conflict_def)

interpretation memberships_tab: unique_index membership_conflict
  by unfold_locales (auto simp: membership_conflict_def)

interpretation messages_tab: unique_index message_conflict
  by unfold_locales (auto simp: message_conflict_def)

interpretation senderKeys_tab: unique_index sender_key_conflict
  by unfold_locales (auto simp: sender_key_conflict_def)

interpretation messageReads_tab: unique_index message_read_conflict
  by unfold_locales (auto simp: message_read_conflict_def)

interpretation refreshTokens_tab: unique_index refresh_token_conflict
  by unfold_locales (auto simp: refresh_token_conflict_def)

interpretation reactions_tab: unique_index reaction_conflict
  by unfold_locales (auto simp: reaction_conflict_def)

interpretation callParticipants_tab: unique_index call_participant_conflict
  by unfold_locales (auto simp: call_participant_conflict_def)

interpretation callLogs_tab: unique_index call_log_conflict
  by unfold_locales (auto simp: call_log_conflict_def)

lemma insert_row_Inr_iff:
  "insert_row conflict r rows = Inr rows' \<longleftrightarrow>
   rows' = rows @ [r] \<and> (\<forall>x \<in> set rows. \<not> conflict r x)"
  by (auto simp: insert_row_def list_ex_iff)

lemma insert_rows_Inr:
  "insert_rows conflict rs rows = Inr rows' \<Longrightarrow> rows' = rows @ rs"
  by (induction rs arbitrary: rows) (fastforce simp: bindE_Inr_iff insert_row_Inr_iff)+

lemma insert_rows_fresh:
  assumes "\<forall>r \<in> set rs. \<forall>x \<in> set rows. \<not> conflict r x"
    and "sorted_wrt (\<lambda>a b. \<not> conflict b a) rs"
  shows "insert_rows conflict rs rows = Inr (rows @ rs)"
  using assms
proof (induction rs arbitrary: rows)
  case (Cons r rs)
  then have "insert_row conflict r rows = Inr (rows @ [r])"
    by (simp add: insert_row_Inr_iff)
  moreover have "insert_rows conflict rs (rows @ [r]) = Inr ((rows @ [r]) @ rs)"
    using Cons.prems by (intro Cons.IH) auto
  ultimately show ?case by simp
qed simp

text \<open>All unique indexes of the schema hold.\<close>

definition db_keys_ok :: "db \<Rightarrow> bool" where
  "db_keys_ok d \<longleftrightarrow>
     keys_unique user_conflict (users d) \<and> keys_unique channel_conflict (channels d) \<and>
     keys_unique membership_conflict (memberships d) \<and> keys_unique message_conflict (messages d) \<and>
     keys_unique sender_key_conflict (senderKeys d) \<and>
     keys_unique message_read_conflict (messageReads d) \<and>
     keys_unique refresh_token_conflict (refreshTokens d) \<and>
     keys_unique reaction_conflict (reactions d) \<and>
     keys_unique call_participant_conflict (callParticipants d) \<and>
     keys_unique call_log_conflict (callLogs d)"

definition empty_db :: db where
  "empty_db = \<lparr>users = [], channels = [], memberships = [], messages = [], senderKeys = [],
     messageReads = [], refreshTokens = [], auditLog = [], reactions = [], callLogs = [],
     callParticipants = []\<rparr>"

lemma empty_db_simps [simp]:
  "users empty_db = []" "channels empty_db = []" "memberships empty_db = []" "messages empty_db = []"
  "senderKeys empty_db = []" "messageReads empty_db = []" "refreshTokens empty_db = []"
  "auditLog empty_db = []" "reactions empty_db = []" "callLogs empty_db = []" "callParticipants empty_db = []"
  by (simp_all add: empty_db_def)

lemma db_keys_ok_empty: "db_keys_ok empty_db"
  by (simp add: db_keys_ok_def empty_db_def keys_unique_def)

end
