(* ===== verification/Zevra_Redis.thy ===== *)
theory Zevra_Redis
  imports Zevra_Schema "HOL-Library.Multiset"
begin

text \<open>
  The data the server keeps in Redis. \<open>redis/redis-keys.ts\<close> gives the key names and lifetimes; the
  keyspace is kept by kind of value, each entry with its expiry. What a command does to the value of
  its key is a list operation; a sorted set is a list of distinct members with scores, read in the
  order of score and then of the member's text. The interface its clients rely on (the socket
  registry, the typing indicator and the offline queue) is the locale \<open>sorted_set\<close>. The connection is
  a parameter: \<open>Down\<close> when \<open>getClient()\<close> is null, \<open>Failing\<close> when a command rejects, \<open>Up\<close> otherwise.
\<close>

section \<open>Keys and lifetimes\<close>

definition RedisKeys_sockets :: "uid \<Rightarrow> string" where
  "RedisKeys_sockets userId = ''zevra:sockets:'' @ userId"
definition RedisKeys_presence :: "uid \<Rightarrow> string" where
  "RedisKeys_presence userId = ''zevra:presence:'' @ userId"
definition RedisKeys_channelMembers :: "cid \<Rightarrow> string" where
  "RedisKeys_channelMembers channelId = ''zevra:channel:members:'' @ channelId"
definition RedisKeys_messageCache :: "cid \<Rightarrow> string" where
  "RedisKeys_messageCache channelId = ''zevra:cache:messages:'' @ channelId"
definition RedisKeys_unread :: "uid \<Rightarrow> cid \<Rightarrow> string" where
  "RedisKeys_unread userId channelId = ''zevra:unread:'' @ userId @ '':'' @ channelId"
definition RedisKeys_typing :: "cid \<Rightarrow> string" where
  "RedisKeys_typing channelId = ''zevra:typing:'' @ channelId"
definition RedisKeys_pending :: "uid \<Rightarrow> string" where
  "RedisKeys_pending userId = ''zevra:pending:'' @ userId"
definition RedisKeys_rateLimit :: "string \<Rightarrow> string \<Rightarrow> string" where
  "RedisKeys_rateLimit scope key = ''zevra:ratelimit:'' @ scope @ '':'' @ key"

lemmas redis_keys_defs =
  RedisKeys_sockets_def RedisKeys_presence_def RedisKeys_channelMembers_def RedisKeys_messageCache_def
  RedisKeys_unread_def RedisKeys_typing_def RedisKeys_pending_def RedisKeys_rateLimit_def

definition RedisTtl_socketsSeconds :: int where "RedisTtl_socketsSeconds = 120"
definition RedisTtl_socketStaleMs :: int where "RedisTtl_socketStaleMs = 95000"
definition RedisTtl_presenceSeconds :: int where "RedisTtl_presenceSeconds = 90"
definition RedisTtl_channelMembersSeconds :: int where "RedisTtl_channelMembersSeconds = 3600"
definition RedisTtl_messageCacheSeconds :: int where "RedisTtl_messageCacheSeconds = 86400"
definition RedisTtl_unreadSeconds :: int where "RedisTtl_unreadSeconds = 30 * 86400"
definition RedisTtl_typingSeconds :: int where "RedisTtl_typingSeconds = 10"
definition RedisTtl_typingEntryMs :: int where "RedisTtl_typingEntryMs = 6000"
definition RedisTtl_pendingSeconds :: int where "RedisTtl_pendingSeconds = 7 * 86400"
definition MESSAGE_CACHE_SIZE :: nat where "MESSAGE_CACHE_SIZE = 50"

lemmas redis_ttl_defs =
  RedisTtl_socketsSeconds_def RedisTtl_socketStaleMs_def RedisTtl_presenceSeconds_def
  RedisTtl_channelMembersSeconds_def RedisTtl_messageCacheSeconds_def RedisTtl_unreadSeconds_def
  RedisTtl_typingSeconds_def RedisTtl_typingEntryMs_def RedisTtl_pendingSeconds_def

lemma unread_key_inj:
  assumes "CHR '':'' \<notin> set u" "CHR '':'' \<notin> set u'"
  shows "RedisKeys_unread u c = RedisKeys_unread u' c' \<longleftrightarrow> u = u' \<and> c = c'"
proof
  assume "RedisKeys_unread u c = RedisKeys_unread u' c'"
  then have "u @ CHR '':'' # c = u' @ CHR '':'' # c'"
    by (simp add: RedisKeys_unread_def)
  moreover have "takeWhile (\<lambda>x. x \<noteq> CHR '':'') (v @ CHR '':'' # d) = v"
    if "CHR '':'' \<notin> set v" for v d :: string
    using that by (induction v) auto
  ultimately have "u = u'" using assms by metis
  with \<open>u @ CHR '':'' # c = u' @ CHR '':'' # c'\<close> show "u = u' \<and> c = c'" by simp
qed simp

text \<open>\<open>redisReconnectStrategy\<close>: exponential backoff capped at 5 s.\<close>

definition redisReconnectStrategy :: "nat \<Rightarrow> nat" where
  "redisReconnectStrategy retries = min (100 * 2 ^ min retries 6) 5000"

section \<open>The keyspace\<close>

datatype link = Down | Failing | Up

type_synonym 'a entry = "'a \<times> time option"
type_synonym 'a keyspace = "string \<Rightarrow> 'a entry option"

definition live :: "time \<Rightarrow> 'a keyspace \<Rightarrow> string \<Rightarrow> 'a option" where
  "live now ks k = (case ks k of
       None \<Rightarrow> None
     | Some (v, None) \<Rightarrow> Some v
     | Some (v, Some d) \<Rightarrow> if now < d then Some v else None)"

text \<open>A write followed by \<open>EXPIRE key secs\<close>; a write that keeps the key's expiry; \<open>DEL\<close>.\<close>

definition put_ex :: "time \<Rightarrow> int \<Rightarrow> string \<Rightarrow> 'a \<Rightarrow> 'a keyspace \<Rightarrow> 'a keyspace" where
  "put_ex now secs k v ks = ks(k \<mapsto> (v, Some (now + 1000 * secs)))"

definition put_keep :: "time \<Rightarrow> string \<Rightarrow> 'a \<Rightarrow> 'a keyspace \<Rightarrow> 'a keyspace" where
  "put_keep now k v ks = (case live now ks k of
       None \<Rightarrow> ks(k \<mapsto> (v, None))
     | Some _ \<Rightarrow> ks(k \<mapsto> (v, snd (the (ks k)))))"

definition del_key :: "string \<Rightarrow> 'a keyspace \<Rightarrow> 'a keyspace" where
  "del_key k ks = ks(k := None)"

lemma live_put_ex [simp]:
  "0 < secs \<Longrightarrow> live now (put_ex now secs k v ks) k' = (if k' = k then Some v else live now ks k')"
  by (simp add: live_def put_ex_def)

lemma live_put_keep [simp]:
  "live now (put_keep now k v ks) k' = (if k' = k then Some v else live now ks k')"
  by (auto simp: live_def put_keep_def split: option.splits prod.splits if_splits)

lemma live_del_key [simp]:
  "live now (del_key k ks) k' = (if k' = k then None else live now ks k')"
  by (simp add: live_def del_key_def)

lemma live_empty [simp]: "live now (\<lambda>_. None) k = None"
  by (simp add: live_def)

text \<open>Nothing comes back to life: what is live later was live before.\<close>

lemma live_mono: "live t ks k = Some v \<Longrightarrow> t' \<le> t \<Longrightarrow> live t' ks k = Some v"
  by (auto simp: live_def split: option.splits if_splits)

lemma live_put_ex_later:
  "live t (put_ex now secs k v ks) k = (if t < now + 1000 * secs then Some v else None)"
  by (simp add: live_def put_ex_def)

section \<open>Sorted sets\<close>

type_synonym 'm zset = "('m \<times> int) list"

definition zAdd :: "int \<Rightarrow> 'm \<Rightarrow> 'm zset \<Rightarrow> 'm zset" where
  "zAdd score m z = filter (\<lambda>e. fst e \<noteq> m) z @ [(m, score)]"

definition zRem :: "'m list \<Rightarrow> 'm zset \<Rightarrow> 'm zset" where
  "zRem ms z = filter (\<lambda>e. fst e \<notin> set ms) z"

text \<open>\<open>ZREMRANGEBYSCORE key -inf mx\<close>.\<close>

definition zRemRangeByScore :: "int \<Rightarrow> 'm zset \<Rightarrow> 'm zset" where
  "zRemRangeByScore mx z = filter (\<lambda>e. mx < snd e) z"

definition zCard :: "'m zset \<Rightarrow> nat" where
  "zCard z = length z"

definition zsorted :: "('m \<Rightarrow> string) \<Rightarrow> 'm zset \<Rightarrow> 'm zset" where
  "zsorted tx z = sort_key (\<lambda>e. (snd e, tx (fst e))) z"

text \<open>\<open>ZRANGEBYSCORE key mn +inf\<close> and \<open>ZRANGE key 0 (n - 1)\<close>.\<close>

definition zRangeByScore :: "('m \<Rightarrow> string) \<Rightarrow> int \<Rightarrow> 'm zset \<Rightarrow> 'm list" where
  "zRangeByScore tx mn z = map fst (filter (\<lambda>e. mn \<le> snd e) (zsorted tx z))"

definition zRange :: "('m \<Rightarrow> string) \<Rightarrow> nat \<Rightarrow> 'm zset \<Rightarrow> 'm list" where
  "zRange tx n z = map fst (take n (zsorted tx z))"

definition zinvar :: "'m zset \<Rightarrow> bool" where
  "zinvar z = distinct (map fst z)"

text \<open>The contract of a sorted set, in terms of the partial map from members to scores.\<close>

locale sorted_set =
  fixes zempty :: 'z
    and zadd :: "int \<Rightarrow> 'm \<Rightarrow> 'z \<Rightarrow> 'z"
    and zrem :: "'m list \<Rightarrow> 'z \<Rightarrow> 'z"
    and zremle :: "int \<Rightarrow> 'z \<Rightarrow> 'z"
    and zcard :: "'z \<Rightarrow> nat"
    and zfirst :: "nat \<Rightarrow> 'z \<Rightarrow> 'm list"
    and zfrom :: "int \<Rightarrow> 'z \<Rightarrow> 'm list"
    and score :: "'z \<Rightarrow> 'm \<Rightarrow> int option"
    and invar :: "'z \<Rightarrow> bool"
  assumes score_empty: "score zempty = (\<lambda>_. None)"
    and score_add: "invar z \<Longrightarrow> score (zadd s m z) = (score z)(m \<mapsto> s)"
    and score_rem: "invar z \<Longrightarrow> score (zrem ms z) x = (if x \<in> set ms then None else score z x)"
    and score_remle: "invar z \<Longrightarrow> score (zremle t z) x =
      (case score z x of None \<Rightarrow> None | Some s \<Rightarrow> if t < s then Some s else None)"
    and card_dom: "invar z \<Longrightarrow> zcard z = card (dom (score z))"
    and finite_dom: "invar z \<Longrightarrow> finite (dom (score z))"
    and first_sub: "invar z \<Longrightarrow> set (zfirst n z) \<subseteq> dom (score z)"
    and first_distinct: "invar z \<Longrightarrow> distinct (zfirst n z)"
    and first_length: "invar z \<Longrightarrow> length (zfirst n z) = min n (zcard z)"
    and first_least: "invar z \<Longrightarrow> x \<in> set (zfirst n z) \<Longrightarrow> y \<in> dom (score z) - set (zfirst n z) \<Longrightarrow>
      the (score z x) \<le> the (score z y)"
    and first_sorted: "invar z \<Longrightarrow> sorted (map (\<lambda>x. the (score z x)) (zfirst n z))"
    and from_set: "invar z \<Longrightarrow> set (zfrom t z) = {x. \<exists>s. score z x = Some s \<and> t \<le> s}"
    and invar_empty: "invar zempty"
    and invar_add: "invar z \<Longrightarrow> invar (zadd s m z)"
    and invar_rem: "invar z \<Longrightarrow> invar (zrem ms z)"
    and invar_remle: "invar z \<Longrightarrow> invar (zremle t z)"
begin

lemmas invars = invar_empty invar_add invar_rem invar_remle

text \<open>Registering a member after purging the stale ones counts the fresh ones and itself.\<close>

lemma register_card:
  assumes "invar z"
  shows "zcard (zadd now m (zremle t z)) = card (insert m {x. \<exists>s. score z x = Some s \<and> t < s})"
proof -
  have "dom (score (zadd now m (zremle t z))) = insert m {x. \<exists>s. score z x = Some s \<and> t < s}"
    using assms by (auto simp: score_add score_remle invars split: option.splits if_splits)
  then show ?thesis using assms by (simp add: card_dom invars)
qed

lemma unregister_card:
  assumes "invar z"
  shows "zcard (zremle t (zrem [m] z)) = card ({x. \<exists>s. score z x = Some s \<and> t < s} - {m})"
proof -
  have "dom (score (zremle t (zrem [m] z))) = {x. \<exists>s. score z x = Some s \<and> t < s} - {m}"
    using assms by (auto simp: score_rem score_remle invars split: option.splits if_splits)
  then show ?thesis using assms by (simp add: card_dom invars)
qed

text \<open>Popping the first \<open>n\<close> members removes exactly them and leaves nothing older behind.\<close>

lemma pop_partition:
  assumes "invar z"
  shows "dom (score z) = set (zfirst n z) \<union> dom (score (zrem (zfirst n z) z))"
    and "set (zfirst n z) \<inter> dom (score (zrem (zfirst n z) z)) = {}"
    and "zcard (zrem (zfirst n z) z) = zcard z - length (zfirst n z)"
proof -
  let ?f = "set (zfirst n z)"
  have rest: "dom (score (zrem (zfirst n z) z)) = dom (score z) - ?f"
    using assms by (auto simp: score_rem split: if_splits)
  have sub: "?f \<subseteq> dom (score z)" using assms by (rule first_sub)
  show "dom (score z) = ?f \<union> dom (score (zrem (zfirst n z) z))" using rest sub by auto
  show "?f \<inter> dom (score (zrem (zfirst n z) z)) = {}" using rest by auto
  have "card (dom (score z) - ?f) = card (dom (score z)) - card ?f"
    using sub by (intro card_Diff_subset) auto
  moreover have "card ?f = length (zfirst n z)"
    using assms first_distinct distinct_card by blast
  ultimately show "zcard (zrem (zfirst n z) z) = zcard z - length (zfirst n z)"
    using assms rest by (simp add: card_dom invars)
qed

lemma pop_order:
  assumes "invar z" "x \<in> set (zfirst n z)" "score (zrem (zfirst n z) z) y = Some s"
  shows "the (score z x) \<le> s"
proof -
  from assms have "y \<in> dom (score z) - set (zfirst n z)" and "score z y = Some s"
    by (auto simp: score_rem split: if_splits)
  with first_least[OF assms(1,2)] show ?thesis by force
qed

text \<open>A member added between the read and the removal of a pop is kept.\<close>

lemma pop_keeps_concurrent:
  assumes "invar z" "invar z'" "m \<notin> set (zfirst n z)"
  shows "score (zrem (zfirst n z) (zadd s m z')) m = Some s"
  using assms by (simp add: score_rem score_add invars)

end

lemma zinvar_simps [simp]:
  "zinvar []"
  "zinvar z \<Longrightarrow> zinvar (zAdd s m z)"
  "zinvar z \<Longrightarrow> zinvar (zRem ms z)"
  "zinvar z \<Longrightarrow> zinvar (zRemRangeByScore t z)"
  by (auto simp: zinvar_def zAdd_def zRem_def zRemRangeByScore_def distinct_map_filter)

lemma zinvar_inj_on: "zinvar z \<Longrightarrow> inj_on fst (set z)"
  by (simp add: zinvar_def distinct_map)

lemma zscore_in: "zinvar z \<Longrightarrow> map_of z x = Some s \<longleftrightarrow> (x, s) \<in> set z"
  by (simp add: zinvar_def map_of_eq_Some_iff)

lemma mset_zsorted [simp]: "set (zsorted tx z) = set z" "length (zsorted tx z) = length z"
  by (simp_all add: zsorted_def)

lemma zinvar_zsorted [simp]: "zinvar (zsorted tx z) = zinvar z"
proof -
  have "mset (map fst (zsorted tx z)) = mset (map fst z)" by (simp add: zsorted_def)
  then show ?thesis unfolding zinvar_def by (rule mset_eq_imp_distinct_iff)
qed

lemma zsorted_scores: "sorted (map snd (zsorted tx z))"
proof -
  have "sorted (map (\<lambda>e. (snd e, tx (fst e))) (zsorted tx z))"
    by (simp add: zsorted_def)
  then show ?thesis
    unfolding sorted_map by (rule sorted_wrt_mono_rel[rotated]) (auto simp: less_eq_prod_def)
qed

lemma zrange_take: "zRange tx n z = map fst (take n (zsorted tx z))"
  by (simp add: zRange_def)

lemma zRange_least:
  assumes "zinvar z" "x \<in> set (zRange tx n z)" "y \<in> dom (map_of z) - set (zRange tx n z)"
  shows "the (map_of z x) \<le> the (map_of z y)"
proof -
  let ?s = "zsorted tx z"
  from assms(2) obtain sx where x: "(x, sx) \<in> set (take n ?s)"
    by (auto simp: zRange_def)
  from assms(3) obtain sy where y: "(y, sy) \<in> set z" "y \<notin> set (zRange tx n z)"
    by (auto dest: map_of_SomeD)
  then have "(y, sy) \<in> set (drop n ?s)"
  proof -
    have "(y, sy) \<in> set (take n ?s @ drop n ?s)" using y by simp
    moreover have "(y, sy) \<notin> set (take n ?s)" using y(2) by (force simp: zRange_def)
    ultimately show ?thesis by (simp del: append_take_drop_id)
  qed
  have "sorted (map snd (take n ?s @ drop n ?s))" using zsorted_scores by simp
  then have "sx \<le> sy"
    using x \<open>(y, sy) \<in> set (drop n ?s)\<close> by (simp only: map_append sorted_append) force
  moreover have "(x, sx) \<in> set z" using x in_set_takeD by fastforce
  ultimately show ?thesis using assms(1) y(1) by (simp add: zscore_in[THEN iffD2])
qed

lemma zRange_sorted:
  assumes "zinvar z"
  shows "sorted (map (\<lambda>x. the (map_of z x)) (zRange tx n z))"
proof -
  have "map (\<lambda>x. the (map_of z x)) (zRange tx n z) = map snd (take n (zsorted tx z))"
  proof -
    have "the (map_of z (fst e)) = snd e" if "e \<in> set (take n (zsorted tx z))" for e
    proof -
      from that have "e \<in> set z" using in_set_takeD by fastforce
      then have "map_of z (fst e) = Some (snd e)" using zscore_in[OF assms] by simp
      then show ?thesis by simp
    qed
    then show ?thesis by (simp add: zRange_def)
  qed
  also have "\<dots> = take n (map snd (zsorted tx z))" by (simp add: take_map)
  finally show ?thesis using sorted_wrt_take[OF zsorted_scores] by simp
qed

lemma zscore_filter:
  assumes "zinvar z"
  shows "map_of (filter P z) x = (case map_of z x of None \<Rightarrow> None | Some s \<Rightarrow> if P (x, s) then Some s else None)"
proof -
  have "zinvar (filter P z)" using assms by (simp add: zinvar_def distinct_map_filter)
  note 1 = zscore_in[OF assms] and 2 = zscore_in[OF this]
  show ?thesis
  proof (cases "map_of z x")
    case None
    then have "x \<notin> fst ` set (filter P z)" by (force simp: map_of_eq_None_iff)
    then have "map_of (filter P z) x = None" by (simp only: map_of_eq_None_iff) simp
    then show ?thesis using None by simp
  next
    case (Some s)
    then have in_z: "(x, s) \<in> set z" using 1 by simp
    have only: "s' = s" if "(x, s') \<in> set z" for s'
      using 1[of x s'] that Some by simp
    show ?thesis
    proof (cases "P (x, s)")
      case True
      with in_z have "(x, s) \<in> set (filter P z)" by simp
      then show ?thesis using 2[of x s] Some True by simp
    next
      case False
      with only have "x \<notin> fst ` set (filter P z)" by auto
      then have "map_of (filter P z) x = None" by (simp only: map_of_eq_None_iff) simp
      then show ?thesis using Some False by simp
    qed
  qed
qed

interpretation redis_zset: sorted_set "[]" zAdd zRem zRemRangeByScore zCard "zRange tx"
  "zRangeByScore tx" map_of zinvar
  for tx :: "'m \<Rightarrow> string"
proof (unfold_locales, goal_cases)
  case (2 z s m)
  then show ?case
    by (auto simp: fun_eq_iff zAdd_def map_add_def zscore_filter split: option.splits)
next
  case (3 z ms x)
  then show ?case by (auto simp: zRem_def zscore_filter split: option.splits)
next
  case (4 z t x)
  then show ?case by (auto simp: zRemRangeByScore_def zscore_filter split: option.splits)
next
  case (5 z)
  then show ?case
    by (simp add: zCard_def dom_map_of_conv_image_fst zinvar_def distinct_card flip: set_map)
next
  case (7 z n)
  then show ?case
    by (auto simp: zRange_def dom_map_of_conv_image_fst dest!: in_set_takeD)
next
  case (8 z n)
  then have "distinct (map fst (zsorted tx z))" using zinvar_zsorted zinvar_def by blast
  then show ?case by (simp add: zRange_def take_map flip: take_map)
next
  case (9 z n)
  then show ?case by (simp add: zRange_def zCard_def)
next
  case (10 z x n y)
  then show ?case by (rule zRange_least)
next
  case (11 z n)
  then show ?case by (rule zRange_sorted)
next
  case (12 z t)
  then show ?case by (auto simp: zRangeByScore_def zscore_in intro!: rev_image_eqI)
qed (simp_all add: finite_dom_map_of)

section \<open>The Redis state\<close>

text \<open>
  The message cache, the offline queue and the login state hold text that \<open>JSON.stringify\<close> wrote; it
  is kept as the JSON value, or as a text that \<open>JSON.parse\<close> refuses.
\<close>

datatype stored = Stored json | Corrupt string

fun stored_text :: "stored \<Rightarrow> string" where
  "stored_text (Stored j) = json_text j"
| "stored_text (Corrupt s) = s"

text \<open>\<open>JSON.parse\<close>.\<close>

fun json_parse :: "stored \<Rightarrow> json option" where
  "json_parse (Stored j) = Some j"
| "json_parse (Corrupt s) = None"

record rstate =
  r_strings :: "string keyspace"
  r_counters :: "int keyspace"
  r_zsets :: "string zset keyspace"
  r_pending :: "stored zset keyspace"
  r_lists :: "stored list keyspace"
  r_sets :: "string list keyspace"
  r_hashes :: "(string \<times> string) list keyspace"
  r_json :: "stored keyspace"

definition empty_redis :: rstate where
  "empty_redis = \<lparr>r_strings = \<lambda>_. None, r_counters = \<lambda>_. None, r_zsets = \<lambda>_. None,
     r_pending = \<lambda>_. None, r_lists = \<lambda>_. None, r_sets = \<lambda>_. None, r_hashes = \<lambda>_. None,
     r_json = \<lambda>_. None\<rparr>"

lemma empty_redis_simps [simp]:
  "r_strings empty_redis = (\<lambda>_. None)" "r_counters empty_redis = (\<lambda>_. None)"
  "r_zsets empty_redis = (\<lambda>_. None)" "r_pending empty_redis = (\<lambda>_. None)"
  "r_lists empty_redis = (\<lambda>_. None)" "r_sets empty_redis = (\<lambda>_. None)"
  "r_hashes empty_redis = (\<lambda>_. None)" "r_json empty_redis = (\<lambda>_. None)"
  by (simp_all add: empty_redis_def)

text \<open>A container that becomes empty is removed with its key.\<close>

definition put_keep_list :: "time \<Rightarrow> string \<Rightarrow> 'a list \<Rightarrow> 'a list keyspace \<Rightarrow> 'a list keyspace" where
  "put_keep_list now k v ks = (if v = [] then del_key k ks else put_keep now k v ks)"

definition list_at :: "time \<Rightarrow> 'a list keyspace \<Rightarrow> string \<Rightarrow> 'a list" where
  "list_at now ks k = (case live now ks k of None \<Rightarrow> [] | Some v \<Rightarrow> v)"

lemma list_at_simps [simp]:
  "0 < secs \<Longrightarrow> list_at now (put_ex now secs k v ks) k' = (if k' = k then v else list_at now ks k')"
  "list_at now (put_keep_list now k v ks) k' = (if k' = k then v else list_at now ks k')"
  "list_at now (del_key k ks) k' = (if k' = k then [] else list_at now ks k')"
  by (auto simp: list_at_def put_keep_list_def)

text \<open>Every sorted set of the keyspace has distinct members.\<close>

definition zsets_ok :: "rstate \<Rightarrow> bool" where
  "zsets_ok r \<longleftrightarrow> (\<forall>k v d. r_zsets r k = Some (v, d) \<longrightarrow> zinvar v) \<and>
                 (\<forall>k v d. r_pending r k = Some (v, d) \<longrightarrow> zinvar v)"

lemma zsets_ok_list_at:
  "zsets_ok r \<Longrightarrow> zinvar (list_at now (r_zsets r) k)"
  "zsets_ok r \<Longrightarrow> zinvar (list_at now (r_pending r) k)"
  by (force simp: zsets_ok_def list_at_def live_def split: option.splits if_splits)+

lemma zsets_ok_empty: "zsets_ok empty_redis"
  by (simp add: zsets_ok_def empty_redis_def)

end
