(* ===== verification/Zevra_World.thy ===== *)
theory Zevra_World
  imports Zevra_Redis
begin

text \<open>
  The state the services act on and \<open>socket/socket.service.ts\<close>. A world holds the tables, the Redis
  keyspace and its connection, whether the Socket.IO server has been attached, the packets and
  room operations handed to it so far, in order, the delivery jobs the queue has accepted and the rooms
  (name, participant limit) the LiveKit server was asked for. What these servers do with them is outside
  the model; the sockets reported for a room (\<open>fetchSockets\<close>) are an argument.
\<close>

datatype emit =
    Emit (e_rooms: "string list") (e_except: "string list") (e_event: string) (e_data: json)
  | SocketsJoin "string list" string
  | SocketsLeave "string list" string

text \<open>The payload of a message and the delivery job that carries it.\<close>

record MessagePayload =
  pl_id :: mid
  pl_messageId :: mid
  pl_channelId :: cid
  pl_senderId :: uid
  pl_senderUsername :: "string option"
  pl_encryptedContent :: string
  pl_contentIv :: string
  pl_contentTag :: string
  pl_signature :: string
  pl_sequenceNumber :: int
  pl_senderKeyEpoch :: int
  pl_messageType :: string
  pl_metadata :: "json option"
  pl_isDeleted :: bool
  pl_createdAt :: time

record MessageDeliveryJob =
  jb_message :: MessagePayload
  jb_recipientIds :: "uid list"
  jb_offlineUserIds :: "uid list"

record world =
  w_db :: db
  w_redis :: rstate
  w_link :: link
  w_server :: bool
  w_out :: "emit list"
  w_jobs :: "MessageDeliveryJob list"
  w_rooms :: "(string \<times> nat) list"

definition empty_world :: world where
  "empty_world = \<lparr>w_db = empty_db, w_redis = empty_redis, w_link = Up, w_server = True, w_out = [],
     w_jobs = [], w_rooms = []\<rparr>"

lemma empty_world_simps [simp]:
  "w_db empty_world = empty_db" "w_redis empty_world = empty_redis" "w_link empty_world = Up"
  "w_server empty_world = True" "w_out empty_world = []" "w_jobs empty_world = []" "w_rooms empty_world = []"
  by (simp_all add: empty_world_def)

definition channelRoom :: "cid \<Rightarrow> string" where
  "channelRoom channelId = ''channel:'' @ channelId"

definition userRoom :: "uid \<Rightarrow> string" where
  "userRoom userId = ''user:'' @ userId"

record EmitOptions =
  exceptSocketId :: "string option"
  exceptUserId :: "uid option"

definition no_options :: EmitOptions where
  "no_options = \<lparr>exceptSocketId = None, exceptUserId = None\<rparr>"

text \<open>Every helper returns without effect while no server is attached.\<close>

definition send_out :: "emit \<Rightarrow> world \<Rightarrow> world" where
  "send_out e w = (if w_server w then w\<lparr>w_out := w_out w @ [e]\<rparr> else w)"

definition emitToUser :: "uid \<Rightarrow> string \<Rightarrow> json \<Rightarrow> world \<Rightarrow> bool \<times> world" where
  "emitToUser userId event data w = (w_server w, send_out (Emit [userRoom userId] [] event data) w)"

definition emitToUsers :: "uid list \<Rightarrow> string \<Rightarrow> json \<Rightarrow> world \<Rightarrow> world" where
  "emitToUsers userIds event data w =
     (if userIds = [] then w else send_out (Emit (map userRoom userIds) [] event data) w)"

definition emit_except :: "EmitOptions \<Rightarrow> string list" where
  "emit_except options =
     (case exceptSocketId options of Some s \<Rightarrow> if s \<noteq> [] then [s] else [] | None \<Rightarrow> []) @
     (case exceptUserId options of Some u \<Rightarrow> if u \<noteq> [] then [userRoom u] else [] | None \<Rightarrow> [])"

definition emitToChannel :: "cid \<Rightarrow> string \<Rightarrow> json \<Rightarrow> EmitOptions \<Rightarrow> world \<Rightarrow> world" where
  "emitToChannel channelId event data options w =
     send_out (Emit [channelRoom channelId] (emit_except options) event data) w"

definition emitToChannelAndUsers :: "cid \<Rightarrow> uid list \<Rightarrow> string \<Rightarrow> json \<Rightarrow> world \<Rightarrow> world" where
  "emitToChannelAndUsers channelId userIds event data w =
     send_out (Emit (channelRoom channelId # map userRoom userIds) [] event data) w"

definition joinUsersToChannel :: "uid list \<Rightarrow> cid \<Rightarrow> world \<Rightarrow> world" where
  "joinUsersToChannel userIds channelId w =
     (if userIds = [] then w else send_out (SocketsJoin (map userRoom userIds) (channelRoom channelId)) w)"

definition removeUserFromChannel :: "uid \<Rightarrow> cid \<Rightarrow> world \<Rightarrow> world" where
  "removeUserFromChannel userId channelId w =
     send_out (SocketsLeave [userRoom userId] (channelRoom channelId)) w"

text \<open>
  \<open>getConnectedUserIds\<close>: \<open>fetch room\<close> gives, for every socket of the room on any node, the user id on
  its data, or \<^const>\<open>None\<close> when the call rejects.
\<close>

definition getConnectedUserIds :: "(string \<Rightarrow> uid option list option) \<Rightarrow> cid \<Rightarrow> world \<Rightarrow> uid list option" where
  "getConnectedUserIds fetch channelId w =
     (if \<not> w_server w then None
      else (case fetch (channelRoom channelId) of
              None \<Rightarrow> None
            | Some ids \<Rightarrow> Some (js_uniq (filter (\<lambda>u. u \<noteq> []) (List.map_filter (\<lambda>x. x) ids)))))"

lemmas socket_service_defs [zevra_simps] =
  send_out_def emitToUser_def emitToUsers_def emitToChannel_def emitToChannelAndUsers_def
  joinUsersToChannel_def removeUserFromChannel_def

text \<open>Sending changes neither the tables nor Redis.\<close>

lemma send_out_frame [simp, zevra_frame]:
  "w_db (send_out e w) = w_db w"
  "w_redis (send_out e w) = w_redis w"
  "w_link (send_out e w) = w_link w"
  "w_server (send_out e w) = w_server w"
  "w_jobs (send_out e w) = w_jobs w"
  by (simp_all add: send_out_def)

lemma emits_frame [simp, zevra_frame]:
  "w_db (emitToUsers us ev d w) = w_db w"
  "w_redis (emitToUsers us ev d w) = w_redis w"
  "w_link (emitToUsers us ev d w) = w_link w"
  "w_server (emitToUsers us ev d w) = w_server w"
  "w_jobs (emitToUsers us ev d w) = w_jobs w"
  "w_db (snd (emitToUser u ev d w)) = w_db w"
  "w_redis (snd (emitToUser u ev d w)) = w_redis w"
  "w_link (snd (emitToUser u ev d w)) = w_link w"
  "w_server (snd (emitToUser u ev d w)) = w_server w"
  "w_jobs (snd (emitToUser u ev d w)) = w_jobs w"
  "w_db (emitToChannel c ev d opt w) = w_db w"
  "w_redis (emitToChannel c ev d opt w) = w_redis w"
  "w_link (emitToChannel c ev d opt w) = w_link w"
  "w_server (emitToChannel c ev d opt w) = w_server w"
  "w_jobs (emitToChannel c ev d opt w) = w_jobs w"
  "w_db (emitToChannelAndUsers c us ev d w) = w_db w"
  "w_redis (emitToChannelAndUsers c us ev d w) = w_redis w"
  "w_link (emitToChannelAndUsers c us ev d w) = w_link w"
  "w_server (emitToChannelAndUsers c us ev d w) = w_server w"
  "w_jobs (emitToChannelAndUsers c us ev d w) = w_jobs w"
  "w_db (joinUsersToChannel us c w) = w_db w"
  "w_redis (joinUsersToChannel us c w) = w_redis w"
  "w_link (joinUsersToChannel us c w) = w_link w"
  "w_server (joinUsersToChannel us c w) = w_server w"
  "w_jobs (joinUsersToChannel us c w) = w_jobs w"
  "w_db (removeUserFromChannel u c w) = w_db w"
  "w_redis (removeUserFromChannel u c w) = w_redis w"
  "w_link (removeUserFromChannel u c w) = w_link w"
  "w_server (removeUserFromChannel u c w) = w_server w"
  "w_jobs (removeUserFromChannel u c w) = w_jobs w"
  by (simp_all add: emitToUsers_def emitToUser_def emitToChannel_def emitToChannelAndUsers_def
      joinUsersToChannel_def removeUserFromChannel_def)

lemma getConnectedUserIds_mem:
  assumes "getConnectedUserIds fetch c w = Some ids"
  shows "u \<in> set ids \<longleftrightarrow> u \<noteq> [] \<and> (\<exists>xs. fetch (channelRoom c) = Some xs \<and> Some u \<in> set xs)"
proof -
  have "u \<in> set (List.map_filter (\<lambda>x. x) xs) \<longleftrightarrow> Some u \<in> set xs" for u :: uid and xs
    by (induction xs) (auto simp: List.map_filter_simps split: option.splits)
  with assms show ?thesis
    by (auto simp: getConnectedUserIds_def split: if_splits option.splits)
qed

end
