(* ===== verification/Redis_Services.thy ===== *)
theory Redis_Services
  imports Zevra_World
begin

text \<open>
  The services in front of Redis: the socket registry, presence and the offline queue
  (\<open>redis/redis-session.service.ts\<close>), the message cache, unread counters and typing indicators
  (\<open>redis/redis-cache.service.ts\<close>), the membership cache (\<open>redis/channel-members.service.ts\<close>), the
  payload of a message (\<open>modules/messages/message-payload.ts\<close>) and the delivery job
  (\<open>shared/queues/message-delivery.job.ts\<close> and its processor).

  Every method starts with \<open>if (!client) return d\<close> and wraps its commands in a \<open>try\<close> that returns the
  same default: \<open>with_redis\<close> is that shape. A \<open>multi\<close> block is one step. \<open>now\<close> is the clock.
\<close>

section \<open>The message payload\<close>

definition toMessagePayload :: "message_row \<Rightarrow> string option \<Rightarrow> MessagePayload" where
  "toMessagePayload row senderUsername =
     \<lparr>pl_id = ms_id row, pl_messageId = ms_id row, pl_channelId = ms_channelId row,
      pl_senderId = ms_senderId row, pl_senderUsername = senderUsername,
      pl_encryptedContent = (if ms_isDeleted row then [] else ms_encryptedContent row),
      pl_contentIv = ms_contentIv row, pl_contentTag = ms_contentTag row,
      pl_signature = ms_signature row, pl_sequenceNumber = ms_sequenceNumber row,
      pl_senderKeyEpoch = ms_senderKeyEpoch row, pl_messageType = ms_messageType row,
      pl_metadata = (if ms_isDeleted row then None else ms_metadata row),
      pl_isDeleted = ms_isDeleted row, pl_createdAt = ms_createdAt row\<rparr>"

text \<open>The payload as a JSON value, with the property order of \<open>toMessagePayload\<close>.\<close>

definition payload_json :: "MessagePayload \<Rightarrow> json" where
  "payload_json p = JObj
     [(''id'', JStr (pl_id p)), (''messageId'', JStr (pl_messageId p)),
      (''channelId'', JStr (pl_channelId p)), (''senderId'', JStr (pl_senderId p)),
      (''senderUsername'', jstr_of (pl_senderUsername p)),
      (''encryptedContent'', JStr (pl_encryptedContent p)), (''contentIv'', JStr (pl_contentIv p)),
      (''contentTag'', JStr (pl_contentTag p)), (''signature'', JStr (pl_signature p)),
      (''sequenceNumber'', JNum (pl_sequenceNumber p)), (''senderKeyEpoch'', JNum (pl_senderKeyEpoch p)),
      (''messageType'', JStr (pl_messageType p)),
      (''metadata'', case pl_metadata p of None \<Rightarrow> JNull | Some m \<Rightarrow> m),
      (''isDeleted'', JBool (pl_isDeleted p)), (''createdAt'', JDate (pl_createdAt p))]"

lemma payload_json_fields [simp]:
  "jfield ''id'' (payload_json p) = Some (JStr (pl_id p))"
  "jfield ''signature'' (payload_json p) = Some (JStr (pl_signature p))"
  "jfield ''sequenceNumber'' (payload_json p) = Some (JNum (pl_sequenceNumber p))"
  "jfield ''isDeleted'' (payload_json p) = Some (JBool (pl_isDeleted p))"
  by (simp_all add: payload_json_def)

section \<open>Running commands\<close>

definition with_redis :: "'a \<Rightarrow> (rstate \<Rightarrow> 'a \<times> rstate) \<Rightarrow> world \<Rightarrow> 'a \<times> world" where
  "with_redis d f w = (case w_link w of
       Up \<Rightarrow> (let (x, r) = f (w_redis w) in (x, w\<lparr>w_redis := r\<rparr>))
     | _ \<Rightarrow> (d, w))"

lemma with_redis_frame [simp, zevra_frame]:
  "w_db (snd (with_redis d f w)) = w_db w"
  "w_link (snd (with_redis d f w)) = w_link w"
  "w_server (snd (with_redis d f w)) = w_server w"
  "w_out (snd (with_redis d f w)) = w_out w"
  "w_jobs (snd (with_redis d f w)) = w_jobs w"
  by (simp_all add: with_redis_def split: link.splits prod.splits)

lemma with_redis_Up:
  "w_link w = Up \<Longrightarrow> with_redis d f w = (fst (f (w_redis w)), w\<lparr>w_redis := snd (f (w_redis w))\<rparr>)"
  by (simp add: with_redis_def split_beta)

lemma with_redis_not_Up: "w_link w \<noteq> Up \<Longrightarrow> with_redis d f w = (d, w)"
  by (cases "w_link w") (auto simp: with_redis_def)

section \<open>Socket registry and presence\<close>

definition addSocket :: "time \<Rightarrow> uid \<Rightarrow> string \<Rightarrow> world \<Rightarrow> nat option \<times> world" where
  "addSocket now userId socketId = with_redis None (\<lambda>r.
     let key = RedisKeys_sockets userId;
         z = zAdd now socketId (zRemRangeByScore (now - RedisTtl_socketStaleMs) (list_at now (r_zsets r) key))
     in (Some (zCard z), r\<lparr>r_zsets := put_ex now RedisTtl_socketsSeconds key z (r_zsets r)\<rparr>))"

definition refreshSocket :: "time \<Rightarrow> uid \<Rightarrow> string \<Rightarrow> world \<Rightarrow> world" where
  "refreshSocket now userId socketId w = snd (with_redis () (\<lambda>r.
     let key = RedisKeys_sockets userId;
         z = zAdd now socketId (list_at now (r_zsets r) key)
     in ((), r\<lparr>r_zsets := put_ex now RedisTtl_socketsSeconds key z (r_zsets r)\<rparr>)) w)"

definition removeSocket :: "time \<Rightarrow> uid \<Rightarrow> string \<Rightarrow> world \<Rightarrow> nat option \<times> world" where
  "removeSocket now userId socketId = with_redis None (\<lambda>r.
     let key = RedisKeys_sockets userId;
         z = zRemRangeByScore (now - RedisTtl_socketStaleMs) (zRem [socketId] (list_at now (r_zsets r) key))
     in (Some (zCard z), r\<lparr>r_zsets := put_keep_list now key z (r_zsets r)\<rparr>))"

definition setOnline :: "time \<Rightarrow> uid \<Rightarrow> world \<Rightarrow> world" where
  "setOnline now userId w = snd (with_redis () (\<lambda>r.
     ((), r\<lparr>r_strings := put_ex now RedisTtl_presenceSeconds (RedisKeys_presence userId) ''online'' (r_strings r)\<rparr>)) w)"

definition setOffline :: "uid \<Rightarrow> world \<Rightarrow> world" where
  "setOffline userId w = snd (with_redis () (\<lambda>r.
     ((), r\<lparr>r_strings := del_key (RedisKeys_presence userId) (r_strings r)\<rparr>)) w)"

definition isOnline :: "time \<Rightarrow> uid \<Rightarrow> world \<Rightarrow> bool" where
  "isOnline now userId w = fst (with_redis False (\<lambda>r.
     (live now (r_strings r) (RedisKeys_presence userId) = Some ''online'', r)) w)"

definition getOnlineUsers :: "time \<Rightarrow> uid list \<Rightarrow> world \<Rightarrow> uid list" where
  "getOnlineUsers now userIds w =
     (if userIds = [] then []
      else fst (with_redis [] (\<lambda>r.
        (js_uniq (filter (\<lambda>u. live now (r_strings r) (RedisKeys_presence u) = Some ''online'') userIds), r)) w))"

section \<open>Pending messages\<close>

definition add_pending :: "time \<Rightarrow> int \<Rightarrow> stored \<Rightarrow> uid \<Rightarrow> stored zset keyspace \<Rightarrow> stored zset keyspace" where
  "add_pending now score value userId ks =
     put_ex now RedisTtl_pendingSeconds (RedisKeys_pending userId)
       (zAdd score value (list_at now ks (RedisKeys_pending userId))) ks"

definition addPendingMessage :: "time \<Rightarrow> uid list \<Rightarrow> MessagePayload \<Rightarrow> world \<Rightarrow> world" where
  "addPendingMessage now userIds message w =
     (if userIds = [] then w
      else snd (with_redis () (\<lambda>r.
        let value = Stored (payload_json message);
            score = (if pl_createdAt message \<noteq> 0 then pl_createdAt message else now)
        in ((), r\<lparr>r_pending := fold (add_pending now score value) userIds (r_pending r)\<rparr>)) w))"

text \<open>
  \<open>popPendingMessages\<close> reads and removes in two commands; other clients may run between them.
  \<open>pop_read\<close> and \<open>pop_remove\<close> are the two halves, \<open>popPendingMessages\<close> their composition.
\<close>

definition pop_read :: "time \<Rightarrow> uid \<Rightarrow> nat \<Rightarrow> rstate \<Rightarrow> stored list" where
  "pop_read now userId limit r = zRange stored_text limit (list_at now (r_pending r) (RedisKeys_pending userId))"

definition pop_remove :: "time \<Rightarrow> uid \<Rightarrow> stored list \<Rightarrow> rstate \<Rightarrow> nat \<times> rstate" where
  "pop_remove now userId raw r =
     (let key = RedisKeys_pending userId;
          z = zRem raw (list_at now (r_pending r) key)
      in (zCard z, r\<lparr>r_pending := put_keep_list now key z (r_pending r)\<rparr>))"

definition popPendingMessages :: "time \<Rightarrow> uid \<Rightarrow> nat \<Rightarrow> world \<Rightarrow> (json list \<times> nat) \<times> world" where
  "popPendingMessages now userId limit = with_redis ([], 0) (\<lambda>r.
     let raw = pop_read now userId limit r in
     if raw = [] then (([], 0), r)
     else (let (remaining, r') = pop_remove now userId raw r
           in ((List.map_filter json_parse raw, remaining), r')))"

section \<open>Message cache\<close>

text \<open>\<open>LTRIM key -n -1\<close> and \<open>LRANGE key -n -1\<close> keep or read the last \<open>n\<close> items.\<close>

definition last_n :: "nat \<Rightarrow> 'a list \<Rightarrow> 'a list" where
  "last_n n xs = drop (length xs - n) xs"

definition cacheMessage :: "time \<Rightarrow> cid \<Rightarrow> json \<Rightarrow> world \<Rightarrow> world" where
  "cacheMessage now channelId message w = snd (with_redis () (\<lambda>r.
     let key = RedisKeys_messageCache channelId;
         items = last_n MESSAGE_CACHE_SIZE (list_at now (r_lists r) key @ [Stored message])
     in ((), r\<lparr>r_lists := put_ex now RedisTtl_messageCacheSeconds key items (r_lists r)\<rparr>)) w)"

text \<open>A text that does not parse makes the whole read return the empty list.\<close>

definition getRecentMessages :: "time \<Rightarrow> cid \<Rightarrow> nat \<Rightarrow> world \<Rightarrow> json list" where
  "getRecentMessages now channelId limit w = fst (with_redis [] (\<lambda>r.
     let items = map json_parse (last_n limit (list_at now (r_lists r) (RedisKeys_messageCache channelId)))
     in ((if None \<in> set items then [] else map the items), r)) w)"

definition invalidateMessages :: "cid \<Rightarrow> world \<Rightarrow> world" where
  "invalidateMessages channelId w = snd (with_redis () (\<lambda>r.
     ((), r\<lparr>r_lists := del_key (RedisKeys_messageCache channelId) (r_lists r)\<rparr>)) w)"

section \<open>Unread counters\<close>

definition counter_at :: "time \<Rightarrow> int keyspace \<Rightarrow> string \<Rightarrow> int" where
  "counter_at now ks k = (case live now ks k of None \<Rightarrow> 0 | Some v \<Rightarrow> v)"

definition incr_unread :: "time \<Rightarrow> cid \<Rightarrow> uid \<Rightarrow> int keyspace \<Rightarrow> int keyspace" where
  "incr_unread now channelId userId ks =
     (let key = RedisKeys_unread userId channelId
      in put_ex now RedisTtl_unreadSeconds key (counter_at now ks key + 1) ks)"

definition incrementUnread :: "time \<Rightarrow> uid \<Rightarrow> cid \<Rightarrow> world \<Rightarrow> int \<times> world" where
  "incrementUnread now userId channelId = with_redis 0 (\<lambda>r.
     let ks = incr_unread now channelId userId (r_counters r)
     in (counter_at now ks (RedisKeys_unread userId channelId), r\<lparr>r_counters := ks\<rparr>))"

definition incrementUnreadMany :: "time \<Rightarrow> uid list \<Rightarrow> cid \<Rightarrow> world \<Rightarrow> world" where
  "incrementUnreadMany now userIds channelId w =
     (if userIds = [] then w
      else snd (with_redis () (\<lambda>r.
        ((), r\<lparr>r_counters := fold (incr_unread now channelId) userIds (r_counters r)\<rparr>)) w))"

definition getUnreadCount :: "time \<Rightarrow> uid \<Rightarrow> cid \<Rightarrow> world \<Rightarrow> int" where
  "getUnreadCount now userId channelId w = fst (with_redis 0 (\<lambda>r.
     (counter_at now (r_counters r) (RedisKeys_unread userId channelId), r)) w)"

text \<open>The result object is a function of the channel id; ids that were not asked for are absent.\<close>

definition getUnreadCounts :: "time \<Rightarrow> uid \<Rightarrow> cid list \<Rightarrow> world \<Rightarrow> cid \<Rightarrow> int option" where
  "getUnreadCounts now userId channelIds w =
     (\<lambda>id. if id \<notin> set channelIds then None
           else Some (fst (with_redis 0 (\<lambda>r.
             (counter_at now (r_counters r) (RedisKeys_unread userId id), r)) w)))"

definition resetUnread :: "uid \<Rightarrow> cid \<Rightarrow> world \<Rightarrow> world" where
  "resetUnread userId channelId w = snd (with_redis () (\<lambda>r.
     ((), r\<lparr>r_counters := del_key (RedisKeys_unread userId channelId) (r_counters r)\<rparr>)) w)"

section \<open>Typing indicators\<close>

definition setTyping :: "time \<Rightarrow> cid \<Rightarrow> uid \<Rightarrow> world \<Rightarrow> world" where
  "setTyping now channelId userId w = snd (with_redis () (\<lambda>r.
     let key = RedisKeys_typing channelId;
         z = zAdd (now + RedisTtl_typingEntryMs) userId (list_at now (r_zsets r) key)
     in ((), r\<lparr>r_zsets := put_ex now RedisTtl_typingSeconds key z (r_zsets r)\<rparr>)) w)"

definition clearTyping :: "time \<Rightarrow> cid \<Rightarrow> uid \<Rightarrow> world \<Rightarrow> world" where
  "clearTyping now channelId userId w = snd (with_redis () (\<lambda>r.
     let key = RedisKeys_typing channelId;
         z = zRem [userId] (list_at now (r_zsets r) key)
     in ((), r\<lparr>r_zsets := put_keep_list now key z (r_zsets r)\<rparr>)) w)"

definition getTypingUsers :: "time \<Rightarrow> cid \<Rightarrow> world \<Rightarrow> uid list \<times> world" where
  "getTypingUsers now channelId = with_redis [] (\<lambda>r.
     let key = RedisKeys_typing channelId;
         z = zRemRangeByScore now (list_at now (r_zsets r) key)
     in (zRangeByScore id now z, r\<lparr>r_zsets := put_keep_list now key z (r_zsets r)\<rparr>))"

section \<open>Channel members\<close>

definition member_rows :: "cid \<Rightarrow> db \<Rightarrow> uid list" where
  "member_rows channelId d = map mb_userId (filter (\<lambda>m. mb_channelId m = channelId) (memberships d))"

definition setMembers :: "time \<Rightarrow> cid \<Rightarrow> uid list \<Rightarrow> world \<Rightarrow> world" where
  "setMembers now channelId userIds w =
     (if userIds = [] then w
      else snd (with_redis () (\<lambda>r.
        ((), r\<lparr>r_sets := put_ex now RedisTtl_channelMembersSeconds (RedisKeys_channelMembers channelId)
                 (js_uniq userIds) (r_sets r)\<rparr>)) w))"

definition cached_members :: "time \<Rightarrow> cid \<Rightarrow> world \<Rightarrow> uid list" where
  "cached_members now channelId w = fst (with_redis [] (\<lambda>r.
     (list_at now (r_sets r) (RedisKeys_channelMembers channelId), r)) w)"

definition getMembers :: "time \<Rightarrow> cid \<Rightarrow> world \<Rightarrow> uid list \<times> world" where
  "getMembers now channelId w =
     (let members = cached_members now channelId w in
      if members \<noteq> [] then (members, w)
      else (let rows = member_rows channelId (w_db w)
            in (rows, setMembers now channelId rows w)))"

text \<open>A set key exists exactly when it has a member.\<close>

definition isMember :: "time \<Rightarrow> cid \<Rightarrow> uid \<Rightarrow> world \<Rightarrow> bool \<times> world" where
  "isMember now channelId userId w =
     (if w_link w = Down
      then (list_ex (\<lambda>m. mb_channelId m = channelId \<and> mb_userId m = userId) (memberships (w_db w)), w)
      else (let cached = cached_members now channelId w in
            if cached \<noteq> [] then (userId \<in> set cached, w)
            else (let (members, w') = getMembers now channelId w in (userId \<in> set members, w'))))"

definition invalidate :: "cid \<Rightarrow> world \<Rightarrow> world" where
  "invalidate channelId w = snd (with_redis () (\<lambda>r.
     ((), r\<lparr>r_sets := del_key (RedisKeys_channelMembers channelId) (r_sets r)\<rparr>)) w)"

section \<open>The delivery job\<close>

definition runMessageDelivery :: "time \<Rightarrow> MessageDeliveryJob \<Rightarrow> world \<Rightarrow> (nat \<times> nat) \<times> world" where
  "runMessageDelivery now job w =
     ((length (jb_offlineUserIds job), length (jb_recipientIds job)),
      incrementUnreadMany now (jb_recipientIds job) (pl_channelId (jb_message job))
        (addPendingMessage now (jb_offlineUserIds job) (jb_message job) w))"

text \<open>What the queue hands to the processor: a field is \<^const>\<open>None\<close> when it is missing or not an array.\<close>

record job_data =
  jd_message :: "MessagePayload option"
  jd_recipientIds :: "uid list option"
  jd_offlineUserIds :: "uid list option"

definition process :: "time \<Rightarrow> job_data option \<Rightarrow> world \<Rightarrow> (nat \<times> nat) \<times> world" where
  "process now data w = (case data of
       None \<Rightarrow> ((0, 0), w)
     | Some d \<Rightarrow>
         (case (jd_message d, jd_recipientIds d, jd_offlineUserIds d) of
            (Some m, Some rs, Some os) \<Rightarrow>
              runMessageDelivery now \<lparr>jb_message = m, jb_recipientIds = rs, jb_offlineUserIds = os\<rparr> w
          | _ \<Rightarrow> ((0, 0), w)))"


section \<open>What the operations leave unchanged\<close>

lemmas redis_service_defs [zevra_simps] =
  addSocket_def refreshSocket_def removeSocket_def setOnline_def setOffline_def addPendingMessage_def
  popPendingMessages_def cacheMessage_def invalidateMessages_def incrementUnread_def
  incrementUnreadMany_def resetUnread_def setTyping_def clearTyping_def getTypingUsers_def
  setMembers_def getMembers_def invalidate_def

lemma redis_services_db [simp, zevra_frame]:
  "w_db (snd (addSocket now u s w)) = w_db w" "w_db (refreshSocket now u s w) = w_db w"
  "w_db (snd (removeSocket now u s w)) = w_db w" "w_db (setOnline now u w) = w_db w"
  "w_db (setOffline u w) = w_db w" "w_db (addPendingMessage now us m w) = w_db w"
  "w_db (snd (popPendingMessages now u n w)) = w_db w" "w_db (cacheMessage now c j w) = w_db w"
  "w_db (invalidateMessages c w) = w_db w" "w_db (snd (incrementUnread now u c w)) = w_db w"
  "w_db (incrementUnreadMany now us c w) = w_db w" "w_db (resetUnread u c w) = w_db w"
  "w_db (setTyping now c u w) = w_db w" "w_db (clearTyping now c u w) = w_db w"
  "w_db (snd (getTypingUsers now c w)) = w_db w" "w_db (setMembers now c us w) = w_db w"
  "w_db (snd (getMembers now c w)) = w_db w" "w_db (invalidate c w) = w_db w"
  by (simp_all add: redis_service_defs Let_def)

lemma redis_services_link [simp, zevra_frame]:
  "w_link (snd (addSocket now u s w)) = w_link w" "w_link (refreshSocket now u s w) = w_link w"
  "w_link (snd (removeSocket now u s w)) = w_link w" "w_link (setOnline now u w) = w_link w"
  "w_link (setOffline u w) = w_link w" "w_link (addPendingMessage now us m w) = w_link w"
  "w_link (snd (popPendingMessages now u n w)) = w_link w" "w_link (cacheMessage now c j w) = w_link w"
  "w_link (invalidateMessages c w) = w_link w" "w_link (snd (incrementUnread now u c w)) = w_link w"
  "w_link (incrementUnreadMany now us c w) = w_link w" "w_link (resetUnread u c w) = w_link w"
  "w_link (setTyping now c u w) = w_link w" "w_link (clearTyping now c u w) = w_link w"
  "w_link (snd (getTypingUsers now c w)) = w_link w" "w_link (setMembers now c us w) = w_link w"
  "w_link (snd (getMembers now c w)) = w_link w" "w_link (invalidate c w) = w_link w"
  by (simp_all add: redis_service_defs Let_def)

lemma redis_services_out [simp, zevra_frame]:
  "w_out (snd (addSocket now u s w)) = w_out w" "w_out (refreshSocket now u s w) = w_out w"
  "w_out (snd (removeSocket now u s w)) = w_out w" "w_out (setOnline now u w) = w_out w"
  "w_out (setOffline u w) = w_out w" "w_out (addPendingMessage now us m w) = w_out w"
  "w_out (snd (popPendingMessages now u n w)) = w_out w" "w_out (cacheMessage now c j w) = w_out w"
  "w_out (invalidateMessages c w) = w_out w" "w_out (snd (incrementUnread now u c w)) = w_out w"
  "w_out (incrementUnreadMany now us c w) = w_out w" "w_out (resetUnread u c w) = w_out w"
  "w_out (setTyping now c u w) = w_out w" "w_out (clearTyping now c u w) = w_out w"
  "w_out (snd (getTypingUsers now c w)) = w_out w" "w_out (setMembers now c us w) = w_out w"
  "w_out (snd (getMembers now c w)) = w_out w" "w_out (invalidate c w) = w_out w"
  by (simp_all add: redis_service_defs Let_def)

lemma redis_services_server [simp, zevra_frame]:
  "w_server (snd (addSocket now u s w)) = w_server w" "w_server (refreshSocket now u s w) = w_server w"
  "w_server (snd (removeSocket now u s w)) = w_server w" "w_server (setOnline now u w) = w_server w"
  "w_server (setOffline u w) = w_server w" "w_server (addPendingMessage now us m w) = w_server w"
  "w_server (snd (popPendingMessages now u n w)) = w_server w" "w_server (cacheMessage now c j w) = w_server w"
  "w_server (invalidateMessages c w) = w_server w" "w_server (snd (incrementUnread now u c w)) = w_server w"
  "w_server (incrementUnreadMany now us c w) = w_server w" "w_server (resetUnread u c w) = w_server w"
  "w_server (setTyping now c u w) = w_server w" "w_server (clearTyping now c u w) = w_server w"
  "w_server (snd (getTypingUsers now c w)) = w_server w" "w_server (setMembers now c us w) = w_server w"
  "w_server (snd (getMembers now c w)) = w_server w" "w_server (invalidate c w) = w_server w"
  by (simp_all add: redis_service_defs Let_def)

lemma redis_services_jobs [simp, zevra_frame]:
  "w_jobs (snd (addSocket now u s w)) = w_jobs w" "w_jobs (refreshSocket now u s w) = w_jobs w"
  "w_jobs (snd (removeSocket now u s w)) = w_jobs w" "w_jobs (setOnline now u w) = w_jobs w"
  "w_jobs (setOffline u w) = w_jobs w" "w_jobs (addPendingMessage now us m w) = w_jobs w"
  "w_jobs (snd (popPendingMessages now u n w)) = w_jobs w" "w_jobs (cacheMessage now c j w) = w_jobs w"
  "w_jobs (invalidateMessages c w) = w_jobs w" "w_jobs (snd (incrementUnread now u c w)) = w_jobs w"
  "w_jobs (incrementUnreadMany now us c w) = w_jobs w" "w_jobs (resetUnread u c w) = w_jobs w"
  "w_jobs (setTyping now c u w) = w_jobs w" "w_jobs (clearTyping now c u w) = w_jobs w"
  "w_jobs (snd (getTypingUsers now c w)) = w_jobs w" "w_jobs (setMembers now c us w) = w_jobs w"
  "w_jobs (snd (getMembers now c w)) = w_jobs w" "w_jobs (invalidate c w) = w_jobs w"
  by (simp_all add: redis_service_defs Let_def)

lemma isMember_frame [simp, zevra_frame]:
  "w_db (snd (isMember now c u w)) = w_db w" "w_link (snd (isMember now c u w)) = w_link w"
  "w_out (snd (isMember now c u w)) = w_out w" "w_server (snd (isMember now c u w)) = w_server w"
  "w_jobs (snd (isMember now c u w)) = w_jobs w"
  by (simp_all add: isMember_def Let_def split_beta)

section \<open>The socket registry\<close>

text \<open>The sockets of a user whose last heartbeat is less than \<open>socketStaleMs\<close> old.\<close>

definition live_sockets :: "time \<Rightarrow> uid \<Rightarrow> world \<Rightarrow> string set" where
  "live_sockets now userId w = {s. \<exists>t. map_of (list_at now (r_zsets (w_redis w)) (RedisKeys_sockets userId)) s = Some t \<and>
      now - RedisTtl_socketStaleMs < t}"

lemma zsets_ok_put:
  "zsets_ok r \<Longrightarrow> zinvar z \<Longrightarrow> zsets_ok (r\<lparr>r_zsets := put_ex now secs k z (r_zsets r)\<rparr>)"
  "zsets_ok r \<Longrightarrow> zinvar z \<Longrightarrow> zsets_ok (r\<lparr>r_zsets := put_keep_list now k z (r_zsets r)\<rparr>)"
  by (auto simp: zsets_ok_def put_ex_def put_keep_list_def put_keep_def del_key_def
      split: if_splits option.splits)

lemma zsets_ok_put_pending:
  "zsets_ok r \<Longrightarrow> zinvar z \<Longrightarrow> zsets_ok (r\<lparr>r_pending := put_ex now secs k z (r_pending r)\<rparr>)"
  "zsets_ok r \<Longrightarrow> zinvar z \<Longrightarrow> zsets_ok (r\<lparr>r_pending := put_keep_list now k z (r_pending r)\<rparr>)"
  by (auto simp: zsets_ok_def put_ex_def put_keep_list_def put_keep_def del_key_def
      split: if_splits option.splits)

lemma zsets_ok_other [simp]:
  "zsets_ok (r\<lparr>r_strings := a\<rparr>) = zsets_ok r" "zsets_ok (r\<lparr>r_counters := b\<rparr>) = zsets_ok r"
  "zsets_ok (r\<lparr>r_lists := c\<rparr>) = zsets_ok r" "zsets_ok (r\<lparr>r_sets := d\<rparr>) = zsets_ok r"
  "zsets_ok (r\<lparr>r_hashes := e\<rparr>) = zsets_ok r" "zsets_ok (r\<lparr>r_json := f\<rparr>) = zsets_ok r"
  by (simp_all add: zsets_ok_def)

lemma zsets_ok_fold_pending:
  "zsets_ok r \<Longrightarrow> zsets_ok (r\<lparr>r_pending := fold (add_pending now score v) us (r_pending r)\<rparr>)"
proof (induction us arbitrary: r)
  case (Cons u us)
  let ?r = "r\<lparr>r_pending := add_pending now score v u (r_pending r)\<rparr>"
  have "zsets_ok ?r"
    unfolding add_pending_def using Cons.prems by (intro zsets_ok_put_pending) (auto simp: zsets_ok_list_at)
  from Cons.IH[OF this] show ?case by simp
qed simp

lemma with_redis_zsets_ok:
  assumes "zsets_ok (w_redis w)" "\<And>r. zsets_ok r \<Longrightarrow> zsets_ok (snd (f r))"
  shows "zsets_ok (w_redis (snd (with_redis d f w)))"
  using assms(1) assms(2)[OF assms(1)] by (cases "w_link w") (auto simp: with_redis_def split: prod.splits)

text \<open>Every operation keeps the members of the sorted sets distinct.\<close>

lemma redis_services_zsets_ok [simp]:
  assumes "zsets_ok (w_redis w)"
  shows "zsets_ok (w_redis (snd (addSocket now u s w)))" "zsets_ok (w_redis (refreshSocket now u s w))"
    "zsets_ok (w_redis (snd (removeSocket now u s w)))" "zsets_ok (w_redis (addPendingMessage now us m w))"
    "zsets_ok (w_redis (snd (popPendingMessages now u n w)))" "zsets_ok (w_redis (setTyping now c u w))"
    "zsets_ok (w_redis (clearTyping now c u w))" "zsets_ok (w_redis (snd (getTypingUsers now c w)))"
  using assms
  by (auto simp: redis_service_defs pop_remove_def Let_def
      intro!: with_redis_zsets_ok zsets_ok_put zsets_ok_put_pending zsets_ok_fold_pending zinvar_simps(2-4) zsets_ok_list_at)

lemma addSocket_live:
  assumes "w_link w = Up" "zsets_ok (w_redis w)"
  shows "live_sockets now u (snd (addSocket now u s w)) = insert s (live_sockets now u w)"
    and "fst (addSocket now u s w) = Some (card (insert s (live_sockets now u w)))"
  using assms zsets_ok_list_at(1)[OF assms(2)]
  by (auto simp: addSocket_def with_redis_Up Let_def live_sockets_def redis_ttl_defs
      redis_zset.score_add redis_zset.score_remle redis_zset.invars redis_zset.register_card
      split: option.splits if_splits)

lemma removeSocket_live:
  assumes "w_link w = Up" "zsets_ok (w_redis w)"
  shows "live_sockets now u (snd (removeSocket now u s w)) = live_sockets now u w - {s}"
    and "fst (removeSocket now u s w) = Some (card (live_sockets now u w - {s}))"
  using assms zsets_ok_list_at(1)[OF assms(2)]
  by (auto simp: removeSocket_def with_redis_Up Let_def live_sockets_def redis_ttl_defs
      redis_zset.score_rem redis_zset.score_remle redis_zset.invars redis_zset.unregister_card
      split: option.splits if_splits)

lemma live_sockets_finite:
  "zsets_ok (w_redis w) \<Longrightarrow> finite (live_sockets now u w)"
  by (rule finite_subset[OF _ finite_dom_map_of[of "list_at now (r_zsets (w_redis w)) (RedisKeys_sockets u)"]])
    (auto simp: live_sockets_def)

text \<open>
  The count a connection or disconnection sees is the number of the user's live sockets, so
  \<open>removeSocket\<close> reports \<open>0\<close> exactly when the closing socket was the last live one, and
  \<open>addSocket\<close> reports \<open>1\<close> exactly when the new one is the only one; sockets without a heartbeat for
  \<open>socketStaleMs\<close> do not count.
\<close>

theorem socket_registry_counts:
  assumes "w_link w = Up" "zsets_ok (w_redis w)"
  shows "fst (addSocket now u s w) = Some (card (live_sockets now u (snd (addSocket now u s w)))) \<and>
    live_sockets now u (snd (addSocket now u s w)) = insert s (live_sockets now u w) \<and>
    fst (removeSocket now u s w) = Some (card (live_sockets now u (snd (removeSocket now u s w)))) \<and>
    live_sockets now u (snd (removeSocket now u s w)) = live_sockets now u w - {s} \<and>
    (fst (removeSocket now u s w) = Some 0 \<longleftrightarrow> live_sockets now u w \<subseteq> {s})"
  using addSocket_live[OF assms] removeSocket_live[OF assms] live_sockets_finite[OF assms(2)]
  by auto

theorem socket_registry_counts_witness:
  "fst (removeSocket 5 ''u'' ''s'' (snd (addSocket 3 ''u'' ''s'' empty_world))) = Some 0"
proof -
  let ?w = "snd (addSocket 3 ''u'' ''s'' empty_world)"
  have ok: "w_link ?w = Up" "zsets_ok (w_redis ?w)"
    by (simp_all add: empty_world_def zsets_ok_empty)
  have "live_sockets 5 ''u'' ?w \<subseteq> {''s''}"
    by (auto simp: live_sockets_def addSocket_def with_redis_Up empty_world_def empty_redis_def
        RedisKeys_sockets_def zAdd_def zRemRangeByScore_def list_at_def live_put_ex_later
        redis_ttl_defs Let_def split: if_splits)
  then show ?thesis using socket_registry_counts[OF ok, of 5 "''u''" "''s''"] by blast
qed

section \<open>The offline queue\<close>

definition pending_queue :: "time \<Rightarrow> uid \<Rightarrow> world \<Rightarrow> stored zset" where
  "pending_queue now userId w = list_at now (r_pending (w_redis w)) (RedisKeys_pending userId)"

lemma pending_queue_ok: "zsets_ok (w_redis w) \<Longrightarrow> zinvar (pending_queue now u w)"
  by (simp add: pending_queue_def zsets_ok_list_at)

lemma pending_key_inj [simp]: "RedisKeys_pending u = RedisKeys_pending v \<longleftrightarrow> u = v"
  by (simp add: RedisKeys_pending_def)

lemma zAdd_idem: "zAdd s v (zAdd s v z) = zAdd s v z"
  by (simp add: zAdd_def)

lemma fold_add_pending:
  "fold (add_pending now score v) us ks (RedisKeys_pending u) =
     (if u \<in> set us
      then Some (zAdd score v (list_at now ks (RedisKeys_pending u)), Some (now + 1000 * RedisTtl_pendingSeconds))
      else ks (RedisKeys_pending u))"
proof (induction us arbitrary: ks)
  case (Cons x us)
  have "list_at now (add_pending now score v x ks) (RedisKeys_pending u) =
      (if u = x then zAdd score v (list_at now ks (RedisKeys_pending u)) else list_at now ks (RedisKeys_pending u))"
    by (auto simp: add_pending_def redis_ttl_defs)
  with Cons.IH[of "add_pending now score v x ks"] show ?case
    by (auto simp: zAdd_idem add_pending_def put_ex_def)
qed simp

lemma addPendingMessage_entry:
  assumes "w_link w = Up"
  shows "r_pending (w_redis (addPendingMessage now us m w)) (RedisKeys_pending u) =
    (if u \<in> set us
     then Some (zAdd (if pl_createdAt m \<noteq> 0 then pl_createdAt m else now) (Stored (payload_json m)) (pending_queue now u w),
                Some (now + 1000 * RedisTtl_pendingSeconds))
     else r_pending (w_redis w) (RedisKeys_pending u))"
  using assms by (simp add: addPendingMessage_def with_redis_Up pending_queue_def Let_def fold_add_pending)

lemma popPendingMessages_Up:
  assumes "w_link w = Up"
  shows "popPendingMessages now u n w =
    (let q = pending_queue now u w; raw = zRange stored_text n q in
     if raw = [] then (([], 0), w)
     else ((List.map_filter json_parse raw, zCard (zRem raw q)),
           w\<lparr>w_redis := (w_redis w)\<lparr>r_pending :=
             put_keep_list now (RedisKeys_pending u) (zRem raw q) (r_pending (w_redis w))\<rparr>\<rparr>))"
  using assms by (simp add: popPendingMessages_def with_redis_Up pop_read_def pop_remove_def
      pending_queue_def Let_def)

text \<open>
  Popping the offline queue returns the oldest \<open>limit\<close> entries in the order of their times,
  removes exactly these, reports how many are left, and leaves nothing older behind than what it
  returned.
\<close>

theorem pop_pending_exact:
  assumes "w_link w = Up" "zsets_ok (w_redis w)"
    and pop: "popPendingMessages now u limit w = ((msgs, remaining), w')"
  shows "\<exists>raw. msgs = List.map_filter json_parse raw \<and>
    length raw = min limit (length (pending_queue now u w)) \<and>
    sorted (map (\<lambda>x. the (map_of (pending_queue now u w) x)) raw) \<and>
    set raw \<inter> dom (map_of (pending_queue now u w')) = {} \<and>
    set raw \<union> dom (map_of (pending_queue now u w')) = dom (map_of (pending_queue now u w)) \<and>
    (0 < limit \<longrightarrow> remaining = length (pending_queue now u w')) \<and>
    (\<forall>x \<in> set raw. \<forall>y s. map_of (pending_queue now u w') y = Some s \<longrightarrow>
       the (map_of (pending_queue now u w) x) \<le> s)"
proof -
  let ?q = "pending_queue now u w"
  let ?raw = "zRange stored_text limit ?q"
  note zi = pending_queue_ok[OF assms(2), of now u]
  have len: "length ?raw = min limit (length ?q)"
    using redis_zset.first_length[OF zi] by (simp add: zCard_def)
  have w': "pending_queue now u w' = zRem ?raw ?q"
    using pop assms(1) by (auto simp: popPendingMessages_Up Let_def pending_queue_def zRem_def split: if_splits)
  have "0 < limit \<longrightarrow> remaining = length (zRem ?raw ?q)" and "msgs = List.map_filter json_parse ?raw"
    using pop len by (auto simp: popPendingMessages_Up[OF assms(1)] Let_def zCard_def zRem_def
        List.map_filter_def min_def split: if_splits)
  with redis_zset.pop_partition[OF zi, where n = limit and tx = stored_text] redis_zset.pop_order[OF zi, where n = limit and tx = stored_text]
    redis_zset.first_sorted[OF zi, where n = limit and tx = stored_text] len
  show ?thesis unfolding w' by (intro exI[of _ ?raw]) auto
qed


lemma map_filter_parse_json: "List.map_filter json_parse (map Stored js) = js"
  by (induction js) (simp_all add: List.map_filter_simps)

text \<open>
  Deliveries in the order of creation: the queue of an offline user is the list of their payloads,
  as long as no two of them are more than \<open>pendingSeconds\<close> apart.
\<close>

fun deliver_all :: "(time \<times> uid list \<times> MessagePayload) list \<Rightarrow> world \<Rightarrow> world" where
  "deliver_all [] w = w"
| "deliver_all ((t, us, m) # ds) w = deliver_all ds (addPendingMessage t us m w)"

definition queue_entry :: "MessagePayload \<Rightarrow> stored \<times> int" where
  "queue_entry m = (Stored (payload_json m), pl_createdAt m)"

lemma zAdd_new: "x \<notin> fst ` set z \<Longrightarrow> zAdd s x z = z @ [(x, s)]"
proof -
  assume "x \<notin> fst ` set z"
  then have "filter (\<lambda>e. fst e \<noteq> x) z = z" by (force simp: filter_id_conv)
  then show ?thesis by (simp add: zAdd_def)
qed

lemma payload_json_inj_time: "payload_json m = payload_json m' \<Longrightarrow> pl_createdAt m = pl_createdAt m'"
  by (simp add: payload_json_def)

lemma deliver_all_queue:
  assumes "w_link w = Up" "\<forall>(t, us, m) \<in> set ds. t0 \<le> t \<and> t < t0 + 1000 * RedisTtl_pendingSeconds \<and> u \<in> set us"
    and "sorted_wrt (<) (map pl_createdAt (ms @ map (snd \<circ> snd) ds))" "\<forall>m \<in> set (map (snd \<circ> snd) ds). 0 < pl_createdAt m"
    and "ms = [] \<and> r_pending (w_redis w) (RedisKeys_pending u) = None \<or>
      (\<exists>e \<ge> t0 + 1000 * RedisTtl_pendingSeconds. r_pending (w_redis w) (RedisKeys_pending u) = Some (map queue_entry ms, Some e))"
    and "t0 \<le> now" "now < t0 + 1000 * RedisTtl_pendingSeconds"
  shows "pending_queue now u (deliver_all ds w) = map queue_entry (ms @ map (snd \<circ> snd) ds)"
  using assms(1-5)
proof (induction ds arbitrary: w ms)
  case Nil
  then show ?case using assms(6,7) by (auto simp: pending_queue_def list_at_def live_def)
next
  case (Cons d ds)
  obtain t us m where d: "d = (t, us, m)" by (cases d)
  have q: "pending_queue t u w = map queue_entry ms"
    using Cons.prems(2,5) d by (auto simp: pending_queue_def list_at_def live_def)
  have "\<forall>m' \<in> set ms. pl_createdAt m' < pl_createdAt m"
    using Cons.prems(3) d by (auto simp: sorted_wrt_append)
  then have "Stored (payload_json m) \<notin> fst ` set (map queue_entry ms)"
    by (force simp: queue_entry_def dest: payload_json_inj_time)
  from zAdd_new[OF this] have "r_pending (w_redis (addPendingMessage t us m w)) (RedisKeys_pending u) =
      Some (map queue_entry (ms @ [m]), Some (t + 1000 * RedisTtl_pendingSeconds))"
    using Cons.prems(1,2,4) d by (simp add: addPendingMessage_entry q queue_entry_def)
  then have "pending_queue now u (deliver_all ds (addPendingMessage t us m w)) =
      map queue_entry ((ms @ [m]) @ map (snd \<circ> snd) ds)"
    using Cons.prems d by (intro Cons.IH) auto
  then show ?case using d by simp
qed

lemma zsorted_sorted: "sorted_wrt (<) (map snd z) \<Longrightarrow> zsorted tx z = z"
proof -
  assume "sorted_wrt (<) (map snd z)"
  then have "sorted (map (\<lambda>e. (snd e, tx (fst e))) z)"
    unfolding sorted_map sorted_wrt_map by (rule sorted_wrt_mono_rel[rotated]) (auto simp: less_eq_prod_def)
  then show ?thesis unfolding zsorted_def by (rule sort_key_id_if_sorted)
qed


lemma zRem_prefix:
  assumes "zinvar z"
  shows "zRem (map fst (take n z)) z = drop n z"
proof -
  have d: "distinct (map fst (take n z) @ map fst (drop n z))"
    using assms unfolding zinvar_def by (metis append_take_drop_id map_append)
  have "zRem (map fst xs) (xs @ ys) = ys" if "distinct (map fst xs @ map fst ys)" for xs ys :: "'a zset"
    using that by (auto simp: zRem_def filter_empty_conv filter_id_conv)
  from this[OF d] show ?thesis by simp
qed

lemma pop_sorted_queue:
  assumes "w_link w = Up" "pending_queue now u w = map queue_entry ms" "sorted_wrt (<) (map pl_createdAt ms)" "0 < limit"
  shows "fst (popPendingMessages now u limit w) = (map payload_json (take limit ms), length ms - limit)"
    and "pending_queue now u (snd (popPendingMessages now u limit w)) = map queue_entry (drop limit ms)"
proof -
  let ?q = "map queue_entry ms"
  have scores: "map snd ?q = map pl_createdAt ms" by (simp add: queue_entry_def)
  then have srt: "zsorted stored_text ?q = ?q" using assms(3) by (intro zsorted_sorted) (simp only: scores)
  have "distinct (map pl_createdAt ms)" using assms(3) strict_sorted_iff by blast
  then have zi: "zinvar ?q"
    by (auto simp: zinvar_def queue_entry_def distinct_map comp_def inj_on_def dest: payload_json_inj_time)
  have raw: "zRange stored_text limit ?q = map (\<lambda>m. Stored (payload_json m)) (take limit ms)"
    by (simp add: zRange_def srt take_map queue_entry_def)
  have "zRem (zRange stored_text limit ?q) ?q = drop limit ?q"
    using zRem_prefix[OF zi] by (simp add: zRange_def srt)
  moreover have "List.map_filter json_parse (map (\<lambda>m. Stored (payload_json m)) (take limit ms)) = map payload_json (take limit ms)"
    using map_filter_parse_json[of "map payload_json (take limit ms)"] by (simp add: comp_def)
  ultimately show "fst (popPendingMessages now u limit w) = (map payload_json (take limit ms), length ms - limit)"
    "pending_queue now u (snd (popPendingMessages now u limit w)) = map queue_entry (drop limit ms)"
    using assms(1,2,4)
    by (auto simp: popPendingMessages_Up Let_def raw zCard_def drop_map pending_queue_def List.map_filter_simps)
qed

text \<open>
  C14: An offline user gets the messages queued for them back in the order they were created,
  unchanged, each once: after any number of deliveries, a pop returns the first \<open>limit\<close> payloads and
  the number of those left, and the next pop continues after them.
\<close>

theorem offline_queue_roundtrip:
  fixes ds :: "(time \<times> uid list \<times> MessagePayload) list" and now t0 :: time
  defines "ms \<equiv> map (snd \<circ> snd) ds"
  assumes "w_link w = Up" "r_pending (w_redis w) (RedisKeys_pending u) = None"
    and "\<forall>(t, us, m) \<in> set ds. t0 \<le> t \<and> t < t0 + 1000 * RedisTtl_pendingSeconds \<and> u \<in> set us \<and> 0 < pl_createdAt m"
    and "sorted_wrt (<) (map pl_createdAt ms)" "t0 \<le> now" "now < t0 + 1000 * RedisTtl_pendingSeconds" "0 < limit"
  shows "fst (popPendingMessages now u limit (deliver_all ds w)) = (map payload_json (take limit ms), length ms - limit) \<and>
    fst (popPendingMessages now u limit (snd (popPendingMessages now u limit (deliver_all ds w))))
      = (map payload_json (take limit (drop limit ms)), length ms - limit - limit)"
proof -
  let ?w = "deliver_all ds w"
  have "w_link (deliver_all ds v) = w_link v" for v
    by (induction ds arbitrary: v) auto
  then have up: "w_link ?w = Up" using assms(2) by simp
  have q: "pending_queue now u ?w = map queue_entry ([] @ ms)"
    unfolding ms_def using assms by (intro deliver_all_queue[where ?t0.0 = t0]) auto
  note pop = pop_sorted_queue[OF up q[simplified] assms(5,8)]
  have "sorted_wrt (<) (map pl_createdAt (drop limit ms))"
    using sorted_wrt_drop[OF assms(5), of limit] by (simp add: drop_map)
  from pop_sorted_queue(1)[OF _ pop(2) this assms(8)] pop(1) up show ?thesis by simp
qed

definition sample_payload :: MessagePayload where
  "sample_payload = \<lparr>pl_id = ''m1'', pl_messageId = ''m1'', pl_channelId = ''c1'', pl_senderId = ''u2'',
     pl_senderUsername = Some ''bob'', pl_encryptedContent = ''x'', pl_contentIv = ''iv'', pl_contentTag = ''tag'',
     pl_signature = [], pl_sequenceNumber = 1, pl_senderKeyEpoch = 0, pl_messageType = ''TEXT'',
     pl_metadata = None, pl_isDeleted = False, pl_createdAt = 7\<rparr>"

theorem offline_queue_roundtrip_witness:
  "fst (popPendingMessages 10 ''u1'' 1
      (deliver_all [(8, [''u1''], sample_payload), (9, [''u1''], sample_payload\<lparr>pl_createdAt := 8\<rparr>)] empty_world))
     = ([payload_json sample_payload], 1)"
  using offline_queue_roundtrip[of empty_world "''u1''"
      "[(8, [''u1''], sample_payload), (9, [''u1''], sample_payload\<lparr>pl_createdAt := 8\<rparr>)]" 0 10 1]
  by (simp add: empty_world_def empty_redis_def sample_payload_def redis_ttl_defs)

theorem pop_pending_exact_witness:
  "\<exists>msgs remaining w'. popPendingMessages 9 ''u1'' 5 (addPendingMessage 8 [''u1''] sample_payload empty_world)
      = ((msgs, remaining), w') \<and> remaining = length (pending_queue 9 ''u1'' w')"
proof -
  let ?w = "addPendingMessage 8 [''u1''] sample_payload empty_world"
  obtain msgs remaining w' where pop: "popPendingMessages 9 ''u1'' 5 ?w = ((msgs, remaining), w')"
    by (metis surj_pair)
  have "w_link ?w = Up" "zsets_ok (w_redis ?w)" by (simp_all add: empty_world_def zsets_ok_empty)
  from pop_pending_exact[OF this pop] pop show ?thesis by auto
qed


section \<open>Unread counters\<close>

lemma unread_key_inj_user [simp]: "RedisKeys_unread u c = RedisKeys_unread v c \<longleftrightarrow> u = v"
  by (simp add: RedisKeys_unread_def)

lemma fold_incr_unread:
  "fold (incr_unread now c) us ks (RedisKeys_unread u c) =
     (if u \<in> set us
      then Some (counter_at now ks (RedisKeys_unread u c) + int (count_list us u), Some (now + 1000 * RedisTtl_unreadSeconds))
      else ks (RedisKeys_unread u c))"
proof (induction us arbitrary: ks)
  case (Cons x us)
  have "counter_at now (incr_unread now c x ks) (RedisKeys_unread u c) =
      counter_at now ks (RedisKeys_unread u c) + (if u = x then 1 else 0)"
    by (auto simp: incr_unread_def Let_def counter_at_def redis_ttl_defs)
  moreover have "count_list us u = 0" if "u \<notin> set us" using that by (induction us) auto
  ultimately show ?case
    using Cons.IH[of "incr_unread now c x ks"] by (auto simp: incr_unread_def Let_def put_ex_def)
qed simp

fun count_unread :: "(time \<times> uid list) list \<Rightarrow> cid \<Rightarrow> world \<Rightarrow> world" where
  "count_unread [] c w = w"
| "count_unread ((t, us) # es) c w = count_unread es c (incrementUnreadMany t us c w)"

lemma incrementUnreadMany_counters:
  "w_link w = Up \<Longrightarrow> r_counters (w_redis (incrementUnreadMany now us c w)) = fold (incr_unread now c) us (r_counters (w_redis w))"
  by (simp add: incrementUnreadMany_def with_redis_Up)

lemma count_unread_total:
  assumes "w_link w = Up" "\<forall>(t, us) \<in> set es. t0 \<le> t \<and> t < t0 + 1000 * RedisTtl_unreadSeconds"
    and "n = 0 \<and> r_counters (w_redis w) (RedisKeys_unread u c) = None \<or>
      (\<exists>e \<ge> t0 + 1000 * RedisTtl_unreadSeconds. r_counters (w_redis w) (RedisKeys_unread u c) = Some (n, Some e))"
    and "t0 \<le> now" "now < t0 + 1000 * RedisTtl_unreadSeconds"
  shows "getUnreadCount now u c (count_unread es c w) = n + (\<Sum>(t, us)\<leftarrow>es. int (count_list us u))"
  using assms(1-3)
proof (induction es arbitrary: w n)
  case Nil
  then show ?case using assms(4,5) by (auto simp: getUnreadCount_def with_redis_Up counter_at_def live_def)
next
  case (Cons e es)
  obtain t us where e: "e = (t, us)" by (cases e)
  let ?w = "incrementUnreadMany t us c w"
  have "counter_at t (r_counters (w_redis w)) (RedisKeys_unread u c) = n"
    using Cons.prems(2,3) e by (auto simp: counter_at_def live_def)
  moreover have "count_list us u = 0" if "u \<notin> set us" using that by (induction us) auto
  ultimately have "getUnreadCount now u c (count_unread es c ?w) =
      (n + int (count_list us u)) + (\<Sum>(t, us)\<leftarrow>es. int (count_list us u))"
    using Cons.prems e by (intro Cons.IH) (auto simp: incrementUnreadMany_counters fold_incr_unread)
  then show ?case using e by simp
qed

text \<open>
  The unread counter of a user in a channel is the number of deliveries to them since it was
  last reset, and a delivery of one message counts once for each recipient of the list.
\<close>

theorem unread_counts_since_reset:
  assumes "w_link w = Up" "\<forall>(t, us) \<in> set es. t0 \<le> t \<and> t < t0 + 1000 * RedisTtl_unreadSeconds"
    and "t0 \<le> now" "now < t0 + 1000 * RedisTtl_unreadSeconds"
  shows "getUnreadCount now u c (count_unread es c (resetUnread u c w)) = (\<Sum>(t, us)\<leftarrow>es. int (count_list us u))"
  using assms count_unread_total[of "resetUnread u c w" es t0 0 u c now]
  by (simp add: resetUnread_def with_redis_Up del_key_def)

theorem unread_counts_since_reset_witness:
  "getUnreadCount 9 ''u1'' ''c1'' (count_unread [(5, [''u1'', ''u2'']), (6, [''u2'']), (7, [''u1''])] ''c1''
     (resetUnread ''u1'' ''c1'' empty_world)) = 2"
  using unread_counts_since_reset[of empty_world "[(5, [''u1'', ''u2'']), (6, [''u2'']), (7, [''u1''])]" 0 9 "''u1''" "''c1''"]
  by (simp add: empty_world_def redis_ttl_defs)

section \<open>Typing indicators\<close>

definition typing_set :: "time \<Rightarrow> cid \<Rightarrow> world \<Rightarrow> uid \<Rightarrow> int option" where
  "typing_set now channelId w = map_of (list_at now (r_zsets (w_redis w)) (RedisKeys_typing channelId))"

lemma getTypingUsers_set:
  assumes "w_link w = Up" "zsets_ok (w_redis w)"
  shows "set (fst (getTypingUsers now c w)) = {u. \<exists>s. typing_set now c w u = Some s \<and> now < s}"
proof -
  note zi = zsets_ok_list_at(1)[OF assms(2), of now "RedisKeys_typing c"]
  show ?thesis
    using assms zi by (auto simp: getTypingUsers_def with_redis_Up Let_def typing_set_def
        redis_zset.from_set redis_zset.score_remle redis_zset.invars split: option.splits if_splits)
qed

lemma setTyping_entry:
  assumes "w_link w = Up" "zsets_ok (w_redis w)" "now < t + 1000 * RedisTtl_typingSeconds"
  shows "typing_set now c (setTyping t c u w) = (typing_set t c w)(u \<mapsto> t + RedisTtl_typingEntryMs)"
  using assms zsets_ok_list_at(1)[OF assms(2), of t "RedisKeys_typing c"]
  by (simp add: setTyping_def with_redis_Up Let_def typing_set_def redis_zset.score_add
      list_at_def live_put_ex_later split: option.splits)

text \<open>
  A typing indicator lasts \<open>typingEntryMs\<close> milliseconds: a user who started typing is listed
  until then, is not listed from then on, is gone at once when they stop, and the other users of
  the channel are listed as before.
\<close>

theorem typing_expires:
  assumes "w_link w = Up" "zsets_ok (w_redis w)" "t \<le> now" "now < t + 1000 * RedisTtl_typingSeconds"
  shows "set (fst (getTypingUsers now c (setTyping t c u w))) =
      (if now < t + RedisTtl_typingEntryMs then {u} else {}) \<union>
      {v. v \<noteq> u \<and> (\<exists>s. typing_set t c w v = Some s \<and> now < s)} \<and>
    u \<notin> set (fst (getTypingUsers now c (clearTyping now c u (setTyping t c u w))))"
proof -
  let ?w = "setTyping t c u w"
  have up: "w_link ?w = Up" and ok: "zsets_ok (w_redis ?w)" using assms by simp_all
  have "typing_set now c (clearTyping now c u ?w) u = None"
    using up zsets_ok_list_at(1)[OF ok, of now "RedisKeys_typing c"]
    by (simp add: clearTyping_def with_redis_Up Let_def typing_set_def redis_zset.score_rem)
  then show ?thesis
    using getTypingUsers_set[OF up ok, of now c] setTyping_entry[OF assms(1,2,4), of c u]
      getTypingUsers_set[of "clearTyping now c u ?w" now c] up ok by auto
qed

theorem typing_expires_witness:
  "set (fst (getTypingUsers 5999 ''c'' (setTyping 0 ''c'' ''u'' empty_world))) = {''u''}"
  using typing_expires[of empty_world 0 5999 "''c''" "''u''"]
  by (simp add: zsets_ok_empty redis_ttl_defs typing_set_def list_at_def)

section \<open>The message cache\<close>

lemma last_n_snoc: "last_n n (last_n n xs @ [x]) = last_n n (xs @ [x])"
  by (cases "n \<le> length xs") (auto simp: last_n_def Suc_diff_le)

lemma last_n_last_n: "m \<le> n \<Longrightarrow> last_n m (last_n n xs) = last_n m xs"
  by (cases "n \<le> length xs") (simp_all add: last_n_def)

lemma last_n_map: "last_n n (map f xs) = map f (last_n n xs)"
  by (simp add: last_n_def drop_map)

lemma length_last_n [simp]: "length (last_n n xs) = min n (length xs)"
  by (simp add: last_n_def)

fun cache_all :: "(time \<times> json) list \<Rightarrow> cid \<Rightarrow> world \<Rightarrow> world" where
  "cache_all [] c w = w"
| "cache_all ((t, j) # es) c w = cache_all es c (cacheMessage t c j w)"

lemma cacheMessage_entry:
  assumes "w_link w = Up"
  shows "r_lists (w_redis (cacheMessage t c j w)) (RedisKeys_messageCache c) =
    Some (last_n MESSAGE_CACHE_SIZE (list_at t (r_lists (w_redis w)) (RedisKeys_messageCache c) @ [Stored j]),
          Some (t + 1000 * RedisTtl_messageCacheSeconds))"
  using assms by (simp add: cacheMessage_def with_redis_Up Let_def put_ex_def)

lemma cache_all_items:
  assumes "w_link w = Up" "\<forall>(t, j) \<in> set es. t0 \<le> t \<and> t < t0 + 1000 * RedisTtl_messageCacheSeconds"
    and "js = [] \<and> r_lists (w_redis w) (RedisKeys_messageCache c) = None \<or>
      (\<exists>e \<ge> t0 + 1000 * RedisTtl_messageCacheSeconds.
        r_lists (w_redis w) (RedisKeys_messageCache c) = Some (last_n MESSAGE_CACHE_SIZE (map Stored js), Some e))"
    and "t0 \<le> now" "now < t0 + 1000 * RedisTtl_messageCacheSeconds"
  shows "list_at now (r_lists (w_redis (cache_all es c w))) (RedisKeys_messageCache c) =
    last_n MESSAGE_CACHE_SIZE (map Stored (js @ map snd es))"
  using assms(1-3)
proof (induction es arbitrary: w js)
  case Nil
  then show ?case using assms(4,5) by (auto simp: list_at_def live_def last_n_def)
next
  case (Cons e es)
  obtain t j where e: "e = (t, j)" by (cases e)
  have "list_at t (r_lists (w_redis w)) (RedisKeys_messageCache c) = last_n MESSAGE_CACHE_SIZE (map Stored js)"
    using Cons.prems(2,3) e by (auto simp: list_at_def live_def last_n_def)
  then have "r_lists (w_redis (cacheMessage t c j w)) (RedisKeys_messageCache c) =
      Some (last_n MESSAGE_CACHE_SIZE (map Stored (js @ [j])), Some (t + 1000 * RedisTtl_messageCacheSeconds))"
    using Cons.prems(1) by (simp add: cacheMessage_entry last_n_snoc)
  then have "list_at now (r_lists (w_redis (cache_all es c (cacheMessage t c j w)))) (RedisKeys_messageCache c) =
      last_n MESSAGE_CACHE_SIZE (map Stored ((js @ [j]) @ map snd es))"
    using Cons.prems(1,2) e by (intro Cons.IH) auto
  then show ?case using e by simp
qed

lemma getRecentMessages_stored:
  assumes "w_link w = Up" "list_at now (r_lists (w_redis w)) (RedisKeys_messageCache c) = map Stored js"
  shows "getRecentMessages now c limit w = last_n limit js"
proof -
  have "map json_parse (last_n limit (map Stored js)) = map Some (last_n limit js)"
    by (simp add: last_n_map comp_def)
  then have "None \<notin> set (map json_parse (last_n limit (map Stored js)))"
    "map the (map json_parse (last_n limit (map Stored js))) = last_n limit js" by (simp_all del: map_map set_map) auto
  then show ?thesis using assms by (simp add: getRecentMessages_def with_redis_Up Let_def del: map_map set_map)
qed

text \<open>
  The message cache holds the last \<open>MESSAGE_CACHE_SIZE\<close> messages written to it, in order: reading
  \<open>limit\<close> of them returns the last \<open>limit\<close> messages cached.
\<close>

theorem message_cache_keeps_newest:
  assumes "w_link w = Up" "r_lists (w_redis w) (RedisKeys_messageCache c) = None" "limit \<le> MESSAGE_CACHE_SIZE"
    and "\<forall>(t, j) \<in> set es. t0 \<le> t \<and> t < t0 + 1000 * RedisTtl_messageCacheSeconds"
    and "t0 \<le> now" "now < t0 + 1000 * RedisTtl_messageCacheSeconds"
  shows "getRecentMessages now c limit (cache_all es c w) = last_n limit (map snd es)"
proof -
  have "w_link (cache_all es c v) = w_link v" for v by (induction es arbitrary: v) auto
  moreover have "list_at now (r_lists (w_redis (cache_all es c w))) (RedisKeys_messageCache c) =
      map Stored (last_n MESSAGE_CACHE_SIZE (map snd es))"
    using cache_all_items[of w es t0 "[]" c now] assms by (simp add: last_n_map)
  ultimately show ?thesis using assms(1,3) by (simp add: getRecentMessages_stored last_n_last_n)
qed

theorem message_cache_keeps_newest_witness:
  "getRecentMessages 9 ''c'' 2 (cache_all [(1, JNum 1), (2, JNum 2), (3, JNum 3)] ''c'' empty_world) = [JNum 2, JNum 3]"
  using message_cache_keeps_newest[of empty_world "''c''" 2 "[(1, JNum 1), (2, JNum 2), (3, JNum 3)]" 0 9]
  by (simp add: empty_world_def empty_redis_def redis_ttl_defs MESSAGE_CACHE_SIZE_def last_n_def)


section \<open>Membership lookups\<close>

text \<open>What the gateways and services rely on when they ask who is in a channel.\<close>

locale membership_lookup =
  fixes members :: "cid \<Rightarrow> 's \<Rightarrow> uid list \<times> 's"
    and is_member :: "cid \<Rightarrow> uid \<Rightarrow> 's \<Rightarrow> bool \<times> 's"
    and truth :: "'s \<Rightarrow> cid \<Rightarrow> uid set"
    and ok :: "'s \<Rightarrow> bool"
  assumes members_truth: "ok s \<Longrightarrow> set (fst (members c s)) = truth s c"
    and is_member_truth: "ok s \<Longrightarrow> fst (is_member c u s) \<longleftrightarrow> u \<in> truth s c"
    and lookup_ok: "ok s \<Longrightarrow> ok (snd (members c s))" "ok s \<Longrightarrow> ok (snd (is_member c u s))"
    and lookup_same: "truth (snd (members c s)) = truth s" "truth (snd (is_member c u s)) = truth s"
begin

lemma recipients_truth:
  "ok s \<Longrightarrow> set (filter (\<lambda>v. v \<noteq> u) (fst (members c s))) = truth s c - {u}"
  by (auto simp: members_truth)

lemma lookups_agree:
  "ok s \<Longrightarrow> fst (is_member c u (snd (members c' s))) \<longleftrightarrow> u \<in> set (fst (members c s))"
  "ok s \<Longrightarrow> fst (is_member c u (snd (is_member c' u' s))) \<longleftrightarrow> fst (is_member c u s)"
  by (simp_all add: members_truth is_member_truth lookup_ok lookup_same)

end

text \<open>Every cached set holds the members the table has.\<close>

definition members_coherent :: "world \<Rightarrow> bool" where
  "members_coherent w \<longleftrightarrow> (\<forall>c v e. r_sets (w_redis w) (RedisKeys_channelMembers c) = Some (v, e) \<longrightarrow>
     v \<noteq> [] \<and> set v = set (member_rows c (w_db w)))"

lemma js_uniq_Nil [simp]: "js_uniq xs = [] \<longleftrightarrow> xs = []"
  by (cases xs) auto

lemma members_key_inj [simp]: "RedisKeys_channelMembers c = RedisKeys_channelMembers d \<longleftrightarrow> c = d"
  by (simp add: RedisKeys_channelMembers_def)

lemma members_coherent_empty: "members_coherent empty_world"
  by (simp add: members_coherent_def)

lemma cached_members_coherent:
  "members_coherent w \<Longrightarrow> cached_members now c w \<noteq> [] \<Longrightarrow> set (cached_members now c w) = set (member_rows c (w_db w))"
  by (cases "w_link w") (auto simp: members_coherent_def cached_members_def with_redis_def list_at_def live_def
      split: option.splits if_splits)

lemma setMembers_coherent:
  "members_coherent w \<Longrightarrow> set us = set (member_rows c (w_db w)) \<Longrightarrow> members_coherent (setMembers now c us w)"
  by (cases "w_link w") (auto simp: members_coherent_def setMembers_def with_redis_def put_ex_def split: if_splits)

lemma getMembers_coherent:
  "members_coherent w \<Longrightarrow> members_coherent (snd (getMembers now c w))"
  by (simp add: getMembers_def Let_def setMembers_coherent)

interpretation redis_members: membership_lookup "getMembers now" "isMember now"
  "\<lambda>w c. set (member_rows c (w_db w))" members_coherent
  for now
proof (unfold_locales, goal_cases)
  case (1 s c)
  then show ?case by (simp add: getMembers_def Let_def cached_members_coherent)
next
  case (2 s c u)
  then show ?case
    by (auto simp: isMember_def getMembers_def Let_def cached_members_coherent member_rows_def list_ex_iff)
next
  case (4 s c u)
  then show ?case by (simp add: isMember_def Let_def getMembers_coherent split_beta)
qed (simp_all add: getMembers_coherent)

lemma invalidate_coherent:
  assumes "members_coherent w" "w_link w = Up"
    and "\<And>d. d \<noteq> c \<Longrightarrow> set (member_rows d db) = set (member_rows d (w_db w))"
  shows "members_coherent (invalidate c (w\<lparr>w_db := db\<rparr>))"
  using assms by (auto simp: members_coherent_def invalidate_def with_redis_Up del_key_def)

lemma members_coherent_same:
  assumes "members_coherent w" "r_sets (w_redis w') = r_sets (w_redis w)"
    and "\<And>d. set (member_rows d (w_db w')) = set (member_rows d (w_db w))"
  shows "members_coherent w'"
  using assms by (simp add: members_coherent_def)

lemma with_redis_sets:
  "(\<And>r. r_sets (snd (f r)) = r_sets r) \<Longrightarrow> r_sets (w_redis (snd (with_redis d f w))) = r_sets (w_redis w)"
  by (cases "w_link w") (auto simp: with_redis_def split_beta)

lemma redis_services_sets [simp]:
  "r_sets (w_redis (snd (addSocket now u s w))) = r_sets (w_redis w)"
  "r_sets (w_redis (refreshSocket now u s w)) = r_sets (w_redis w)"
  "r_sets (w_redis (snd (removeSocket now u s w))) = r_sets (w_redis w)"
  "r_sets (w_redis (setOnline now u w)) = r_sets (w_redis w)"
  "r_sets (w_redis (setOffline u w)) = r_sets (w_redis w)"
  "r_sets (w_redis (addPendingMessage now us m w)) = r_sets (w_redis w)"
  "r_sets (w_redis (snd (popPendingMessages now u n w))) = r_sets (w_redis w)"
  "r_sets (w_redis (cacheMessage now c j w)) = r_sets (w_redis w)"
  "r_sets (w_redis (invalidateMessages c w)) = r_sets (w_redis w)"
  "r_sets (w_redis (snd (incrementUnread now u c w))) = r_sets (w_redis w)"
  "r_sets (w_redis (incrementUnreadMany now us c w)) = r_sets (w_redis w)"
  "r_sets (w_redis (resetUnread u c w)) = r_sets (w_redis w)"
  "r_sets (w_redis (setTyping now c u w)) = r_sets (w_redis w)"
  "r_sets (w_redis (clearTyping now c u w)) = r_sets (w_redis w)"
  "r_sets (w_redis (snd (getTypingUsers now c w))) = r_sets (w_redis w)"
  by (auto simp: redis_service_defs pop_remove_def Let_def intro!: with_redis_sets)

text \<open>
  While the cached sets agree with the table, every lookup of the members of a channel, cached
  or not, with Redis up, failing or down, answers what the table says, and keeps the agreement.
\<close>

theorem membership_lookups_correct:
  assumes "members_coherent w"
  shows "set (fst (getMembers now c w)) = set (member_rows c (w_db w)) \<and>
    (fst (isMember now c u w) \<longleftrightarrow> u \<in> set (member_rows c (w_db w))) \<and>
    members_coherent (snd (getMembers now c w)) \<and> members_coherent (snd (isMember now c u w))"
  using redis_members.members_truth redis_members.is_member_truth redis_members.lookup_ok assms by blast

theorem membership_lookups_correct_witness:
  "fst (isMember 0 ''c'' ''u'' (empty_world\<lparr>w_link := Failing\<rparr>)) = False"
proof -
  have "members_coherent (empty_world\<lparr>w_link := Failing\<rparr>)" by (simp add: members_coherent_def)
  from membership_lookups_correct[OF this, of 0 "''c''" "''u''"] show ?thesis by (simp add: member_rows_def)
qed

end
