(* ===== verification/Rate_Limits.thy ===== *)
theory Rate_Limits
  imports Zevra_World
begin

text \<open>
  The rate limiters: the Lua script both services run, \<open>shared/rate-limit/rate-limit.service.ts\<close>,
  \<open>common/rate-limit/redis-rate-limiter.ts\<close>, the throttler storage
  \<open>common/rate-limit/redis-throttler.storage.ts\<close>, the route guard
  \<open>common/guards/rate-limit.guard.ts\<close> and the tracker of the global throttler
  \<open>common/guards/app-throttler.guard.ts\<close>. What a limiter promises, that at most \<open>limit\<close> of the
  requests of a window pass and that a new window starts when the old one has run out, is proved
  once in the locale \<open>window_limiter\<close> and holds for the three of them.
\<close>

section \<open>The script\<close>

definition pttl :: "time \<Rightarrow> 'a keyspace \<Rightarrow> string \<Rightarrow> int" where
  "pttl now ks k = (case ks k of
       Some (v, Some d) \<Rightarrow> if now < d then d - now else -2
     | Some (v, None) \<Rightarrow> -1
     | None \<Rightarrow> -2)"

text \<open>\<open>FIXED_WINDOW_SCRIPT\<close>: \<open>INCR\<close>, \<open>PTTL\<close>, and \<open>PEXPIRE\<close> on the first hit or a lost TTL.\<close>

definition fixed_window_script :: "time \<Rightarrow> int \<Rightarrow> string \<Rightarrow> int keyspace \<Rightarrow> (int \<times> int) \<times> int keyspace" where
  "fixed_window_script now windowMs key ks =
     (let count = (case live now ks key of None \<Rightarrow> 0 | Some v \<Rightarrow> v) + 1;
          ks1 = put_keep now key count ks;
          ttl = pttl now ks1 key
      in if count = 1 \<or> ttl < 0
         then ((count, windowMs), ks1(key \<mapsto> (count, Some (now + windowMs))))
         else ((count, ttl), ks1))"

section \<open>RateLimitService\<close>

record RateLimitConfig =
  windowMs :: int
  maxRequests :: int

record RateLimitResult =
  rl_allowed :: bool
  rl_remaining :: int
  rl_resetMs :: int

definition upd_counters :: "int keyspace \<Rightarrow> world \<Rightarrow> world" where
  "upd_counters ks w = w\<lparr>w_redis := (w_redis w)\<lparr>r_counters := ks\<rparr>\<rparr>"

definition checkRateLimit :: "string \<Rightarrow> RateLimitConfig \<Rightarrow> time \<Rightarrow> world \<Rightarrow> RateLimitResult \<times> world" where
  "checkRateLimit key config now w =
     (case w_link w of
        Up \<Rightarrow>
          (let ((count, ttl), ks) =
                 fixed_window_script now (windowMs config) (''zevra:ratelimit:'' @ key) (r_counters (w_redis w))
           in (\<lparr>rl_allowed = count \<le> maxRequests config,
                rl_remaining = max 0 (maxRequests config - count),
                rl_resetMs = now + max 0 ttl\<rparr>, upd_counters ks w))
      | _ \<Rightarrow> (\<lparr>rl_allowed = True, rl_remaining = maxRequests config, rl_resetMs = 0\<rparr>, w))"

definition RL_SEND_MESSAGE :: RateLimitConfig where
  "RL_SEND_MESSAGE = \<lparr>windowMs = 1000, maxRequests = 20\<rparr>"
definition RL_TYPING :: RateLimitConfig where
  "RL_TYPING = \<lparr>windowMs = 1000, maxRequests = 10\<rparr>"
definition RL_GET_MESSAGES :: RateLimitConfig where
  "RL_GET_MESSAGES = \<lparr>windowMs = 1000, maxRequests = 30\<rparr>"
definition RL_REACTION :: RateLimitConfig where
  "RL_REACTION = \<lparr>windowMs = 1000, maxRequests = 20\<rparr>"
definition RL_CONNECTION_PER_IP :: RateLimitConfig where
  "RL_CONNECTION_PER_IP = \<lparr>windowMs = 60000, maxRequests = 120\<rparr>"

section \<open>RedisRateLimiter and the throttler storage\<close>

definition limiter_increment :: "string \<Rightarrow> int \<Rightarrow> time \<Rightarrow> world \<Rightarrow> (int \<times> int) \<times> world" where
  "limiter_increment redisKey window now w =
     (case w_link w of
        Up \<Rightarrow>
          (let ((count, ttl), ks) =
                 fixed_window_script now (max 1 window) redisKey (r_counters (w_redis w))
           in ((count, max 0 ttl), upd_counters ks w))
      | _ \<Rightarrow> ((0, window), w))"

record LimiterResult =
  lr_allowed :: bool
  lr_count :: int
  lr_limit :: int
  lr_resetMs :: int

definition RATE_LIMIT_PREFIX :: string where
  "RATE_LIMIT_PREFIX = ''zevra:ratelimit''"

definition limiter_hit :: "string \<Rightarrow> string \<Rightarrow> int \<Rightarrow> int \<Rightarrow> time \<Rightarrow> world \<Rightarrow> LimiterResult \<times> world" where
  "limiter_hit scope key limit window now w =
     (let ((count, ttl), w') =
            limiter_increment (RATE_LIMIT_PREFIX @ '':'' @ scope @ '':'' @ key) window now w
      in (\<lparr>lr_allowed = count \<le> limit, lr_count = count, lr_limit = limit, lr_resetMs = ttl\<rparr>, w'))"

record ThrottlerStorageRecord =
  ts_totalHits :: int
  ts_timeToExpire :: int
  ts_isBlocked :: bool
  ts_timeToBlockExpire :: int

text \<open>\<open>Math.ceil(ms / 1000)\<close>.\<close>

definition ceil_seconds :: "int \<Rightarrow> int" where
  "ceil_seconds ms = (ms + 999) div 1000"

definition storage_increment ::
  "string \<Rightarrow> int \<Rightarrow> int \<Rightarrow> string \<Rightarrow> time \<Rightarrow> world \<Rightarrow> ThrottlerStorageRecord \<times> world" where
  "storage_increment key ttl limit throttlerName now w =
     (let ((count, remainingMs), w') =
            limiter_increment (RATE_LIMIT_PREFIX @ '':http-'' @ throttlerName @ '':'' @ key) ttl now w;
          seconds = ceil_seconds remainingMs;
          isBlocked = count > limit
      in (\<lparr>ts_totalHits = count, ts_timeToExpire = seconds, ts_isBlocked = isBlocked,
           ts_timeToBlockExpire = (if isBlocked then seconds else 0)\<rparr>, w'))"

section \<open>The route guard\<close>

record RouteRateLimit =
  rr_scope :: string
  rr_limit :: int
  rr_windowMs :: int
  rr_byUsername :: bool
  rr_byUser :: bool

record guard_request =
  gq_userId :: "string option"
  gq_ip :: "string option"
  gq_username :: "json option"

text \<open>\<open>hashKey\<close> is an argument: the first 32 hex digits of a SHA-256 digest.\<close>

definition guard_keys :: "(string \<Rightarrow> string) \<Rightarrow> RouteRateLimit \<Rightarrow> guard_request \<Rightarrow> string list" where
  "guard_keys hashKey options req =
     (case gq_userId req of
        Some u \<Rightarrow> if rr_byUser options \<and> u \<noteq> [] then [''user:'' @ u]
                  else [''ip:'' @ hashKey (case gq_ip req of Some ip \<Rightarrow> ip | None \<Rightarrow> ''unknown'')]
      | None \<Rightarrow> [''ip:'' @ hashKey (case gq_ip req of Some ip \<Rightarrow> ip | None \<Rightarrow> ''unknown'')]) @
     (case gq_username req of
        Some (JStr name) \<Rightarrow>
          if rr_byUsername options \<and> name \<noteq> []
          then [''username:'' @ hashKey (to_lower (js_trim name))] else []
      | _ \<Rightarrow> [])"

text \<open>
  The loop of \<open>canActivate\<close>: the first key over its limit raises 429 with the \<open>Retry-After\<close> header
  (its value in seconds is the first component), and later keys are not counted.
\<close>

definition guard_exception :: "LimiterResult \<Rightarrow> int \<times> thrown" where
  "guard_exception result =
     (max 1 (ceil_seconds (lr_resetMs result)),
      HttpEx 429 (JStr ''Too many requests, please try again later'')
        ''Too many requests, please try again later'')"

fun guard_loop :: "RouteRateLimit \<Rightarrow> time \<Rightarrow> string list \<Rightarrow> world \<Rightarrow> ((int \<times> thrown) + bool) \<times> world" where
  "guard_loop options now [] w = (Inr True, w)"
| "guard_loop options now (key # keys) w =
     (let (result, w') = limiter_hit (rr_scope options) key (rr_limit options) (rr_windowMs options) now w
      in if \<not> lr_allowed result then (Inl (guard_exception result), w')
         else guard_loop options now keys w')"

definition guard_canActivate ::
  "(string \<Rightarrow> string) \<Rightarrow> RouteRateLimit option \<Rightarrow> bool \<Rightarrow> guard_request \<Rightarrow> time \<Rightarrow> world \<Rightarrow>
   ((int \<times> thrown) + bool) \<times> world" where
  "guard_canActivate hashKey options isHttp req now w =
     (case options of
        None \<Rightarrow> (Inr True, w)
      | Some opts \<Rightarrow>
          if \<not> isHttp then (Inr True, w)
          else guard_loop opts now (guard_keys hashKey opts req) w)"

text \<open>
  \<open>AppThrottlerGuard.getTracker\<close>: \<open>verify\<close> is the JWT library; it gives the \<open>sub\<close> of a valid token
  (\<^const>\<open>None\<close> inside when absent) or rejects.
\<close>

definition starts_with :: "string \<Rightarrow> string \<Rightarrow> bool" where
  "starts_with p s = (take (length p) s = p)"

definition getTracker :: "(string \<Rightarrow> string option option) \<Rightarrow> string option \<Rightarrow> string option \<Rightarrow> string" where
  "getTracker verify header ip =
     (let byIp = ''ip:'' @ (case ip of Some i \<Rightarrow> i | None \<Rightarrow> ''unknown'') in
      case header of
        None \<Rightarrow> byIp
      | Some h \<Rightarrow>
          if starts_with ''Bearer '' h then
            (case verify (drop 7 h) of
               Some (Some sub) \<Rightarrow> if sub \<noteq> [] then ''user:'' @ sub else byIp
             | _ \<Rightarrow> byIp)
          else byIp)"

definition generateKey :: "string \<Rightarrow> string \<Rightarrow> string" where
  "generateKey suffix name = name @ '':'' @ suffix"

section \<open>What a window limiter promises\<close>

fun run_hits :: "(time \<Rightarrow> 's \<Rightarrow> bool \<times> 's) \<Rightarrow> time list \<Rightarrow> 's \<Rightarrow> bool list \<times> 's" where
  "run_hits hit [] s = ([], s)"
| "run_hits hit (t # ts) s =
     (let (b, s') = hit t s; (bs, s'') = run_hits hit ts s' in (b # bs, s''))"

locale window_limiter =
  fixes hit :: "time \<Rightarrow> 's \<Rightarrow> bool \<times> 's"
    and window_of :: "'s \<Rightarrow> (int \<times> time) option"
    and ready :: "'s \<Rightarrow> bool"
    and limit :: int
    and window :: int
  assumes window_pos: "0 < window"
    and hit_new: "ready s \<Longrightarrow> (\<forall>c e. window_of s = Some (c, e) \<longrightarrow> e \<le> t) \<Longrightarrow>
      fst (hit t s) = (1 \<le> limit) \<and> window_of (snd (hit t s)) = Some (1, t + window) \<and> ready (snd (hit t s))"
    and hit_open: "ready s \<Longrightarrow> window_of s = Some (c, e) \<Longrightarrow> t < e \<Longrightarrow> 1 \<le> c \<Longrightarrow>
      fst (hit t s) = (c + 1 \<le> limit) \<and> window_of (snd (hit t s)) = Some (c + 1, e) \<and> ready (snd (hit t s))"
begin

lemma burst_open:
  assumes "ready s" "window_of s = Some (c, e)" "\<forall>t \<in> set ts. t < e" "1 \<le> c"
  shows "fst (run_hits hit ts s) = map (\<lambda>i. c + int i < limit) [0..<length ts] \<and>
    window_of (snd (run_hits hit ts s)) = Some (c + int (length ts), e) \<and>
    ready (snd (run_hits hit ts s))"
  using assms
proof (induction ts arbitrary: s c)
  case (Cons t ts)
  obtain b s' where h: "hit t s = (b, s')" by fastforce
  then have s': "b = (c + 1 \<le> limit)" "window_of s' = Some (c + 1, e)" "ready s'"
    using hit_open[OF Cons.prems(1,2) _ Cons.prems(4), of t] Cons.prems(3) by auto
  have "map (\<lambda>i. c + 1 + int i < limit) [0..<length ts] = map (\<lambda>i. c + int i < limit) [1..<Suc (length ts)]"
    by (simp add: map_Suc_upt[symmetric] add.assoc comp_def del: upt_Suc)
  with Cons.IH[OF s'(3,2)] s' Cons.prems(3,4) h show ?case
    by (auto simp: upt_conv_Cons split: prod.splits simp del: upt_Suc)
qed simp

lemma burst:
  assumes "ready s" "\<forall>c e. window_of s = Some (c, e) \<longrightarrow> e \<le> t0" "\<forall>t \<in> set ts. t < t0 + window"
  shows "fst (run_hits hit (t0 # ts) s) = map (\<lambda>i. int i < limit) [0..<Suc (length ts)] \<and>
    window_of (snd (run_hits hit (t0 # ts) s)) = Some (1 + int (length ts), t0 + window) \<and>
    ready (snd (run_hits hit (t0 # ts) s))"
proof -
  obtain b s' where h: "hit t0 s = (b, s')" by fastforce
  then have s': "b = (1 \<le> limit)" "window_of s' = Some (1, t0 + window)" "ready s'"
    using hit_new[OF assms(1,2)] by auto
  have "map (\<lambda>i. 1 + int i < limit) [0..<length ts] = map (\<lambda>i. int i < limit) [1..<Suc (length ts)]"
    by (simp add: map_Suc_upt[symmetric] comp_def del: upt_Suc)
  with burst_open[OF s'(3,2) assms(3)] s' h show ?thesis
    by (auto simp: upt_conv_Cons split: prod.splits simp del: upt_Suc)
qed

text \<open>The requests of one window that pass are the first \<open>limit\<close> ones, no more and no fewer.\<close>

lemma passes_count:
  assumes "ready s" "\<forall>c e. window_of s = Some (c, e) \<longrightarrow> e \<le> t0" "\<forall>t \<in> set ts. t < t0 + window"
  shows "length (filter id (fst (run_hits hit (t0 # ts) s))) = min (nat limit) (Suc (length ts))"
proof -
  have "length (filter id (map (\<lambda>i. int i < limit) [0..<n])) = min (nat limit) n" for n
    by (induction n) auto
  then have "length (filter id (map (\<lambda>i. int i < limit) [0..<Suc (length ts)])) = min (nat limit) (Suc (length ts))" .
  then show ?thesis using burst[OF assms] by (simp only:)
qed

text \<open>The first request after the window has run out starts a new one.\<close>

lemma next_window:
  assumes "ready s" "\<forall>c e. window_of s = Some (c, e) \<longrightarrow> e \<le> t0" "\<forall>t \<in> set ts. t < t0 + window"
    and "t0 + window \<le> t'"
  shows "fst (hit t' (snd (run_hits hit (t0 # ts) s))) = (1 \<le> limit) \<and>
    window_of (snd (hit t' (snd (run_hits hit (t0 # ts) s)))) = Some (1, t' + window)"
proof -
  let ?s = "snd (run_hits hit (t0 # ts) s)"
  have "ready ?s" and "window_of ?s = Some (1 + int (length ts), t0 + window)"
    using burst[OF assms(1-3)] by blast+
  with assms(4) have "ready ?s" "\<forall>c e. window_of ?s = Some (c, e) \<longrightarrow> e \<le> t'" by simp_all
  from hit_new[OF this] show ?thesis by blast
qed

end

definition counter_window :: "string \<Rightarrow> world \<Rightarrow> (int \<times> time) option" where
  "counter_window key w = (case r_counters (w_redis w) key of
       Some (c, Some e) \<Rightarrow> Some (c, e)
     | _ \<Rightarrow> None)"

definition limiter_ready :: "string \<Rightarrow> world \<Rightarrow> bool" where
  "limiter_ready key w \<longleftrightarrow> w_link w = Up \<and> (\<forall>v. r_counters (w_redis w) key \<noteq> Some (v, None))"

lemma script_new:
  assumes "\<And>c e. ks key = Some (c, Some e) \<Longrightarrow> e \<le> t" "\<forall>v. ks key \<noteq> Some (v, None)"
  shows "fixed_window_script t win key ks = ((1, win), ks(key \<mapsto> (1, Some (t + win))))"
proof -
  have "live t ks key = None"
    using assms by (auto simp: live_def split: option.splits)
  then show ?thesis by (simp add: fixed_window_script_def put_keep_def Let_def)
qed

lemma script_open:
  assumes "ks key = Some (c, Some e)" "t < e" "1 \<le> c"
  shows "fixed_window_script t win key ks = ((c + 1, e - t), ks(key \<mapsto> (c + 1, Some e)))"
  using assms by (simp add: fixed_window_script_def put_keep_def live_def pttl_def Let_def)

lemma counters_upd [simp]:
  "r_counters (w_redis (upd_counters ks w)) = ks" "w_link (upd_counters ks w) = w_link w"
  "w_db (upd_counters ks w) = w_db w" "w_out (upd_counters ks w) = w_out w"
  by (simp_all add: upd_counters_def)

lemma counter_windowD: "counter_window key w = Some (c, e) \<Longrightarrow> r_counters (w_redis w) key = Some (c, Some e)"
  by (auto simp: counter_window_def split: option.splits)

lemma limiter_readyD:
  "limiter_ready key w \<Longrightarrow> w_link w = Up" "limiter_ready key w \<Longrightarrow> \<forall>v. r_counters (w_redis w) key \<noteq> Some (v, None)"
  by (auto simp: limiter_ready_def)

lemma limiter_new:
  assumes "limiter_ready key w" "\<forall>c e. counter_window key w = Some (c, e) \<longrightarrow> e \<le> t"
  shows "fixed_window_script t win key (r_counters (w_redis w))
    = ((1, win), (r_counters (w_redis w))(key \<mapsto> (1, Some (t + win))))"
  using assms by (intro script_new) (auto simp: limiter_ready_def counter_window_def)

lemmas limiter_steps = limiter_new script_open counter_windowD limiter_readyD

interpretation service: window_limiter
  "\<lambda>t w. (\<lambda>(r, w'). (rl_allowed r, w')) (checkRateLimit key \<lparr>windowMs = 1 + int ms, maxRequests = lim\<rparr> t w)"
  "counter_window (''zevra:ratelimit:'' @ key)" "limiter_ready (''zevra:ratelimit:'' @ key)" lim "1 + int ms"
  for key ms lim
  by unfold_locales
    (auto simp: checkRateLimit_def limiter_steps counter_window_def[of _ "upd_counters _ _"]
      limiter_ready_def[of _ "upd_counters _ _"] split: prod.splits)

interpretation limiter: window_limiter
  "\<lambda>t w. (\<lambda>(r, w'). (lr_allowed r, w')) (limiter_hit scope key lim (1 + int ms) t w)"
  "counter_window (RATE_LIMIT_PREFIX @ '':'' @ scope @ '':'' @ key)"
  "limiter_ready (RATE_LIMIT_PREFIX @ '':'' @ scope @ '':'' @ key)" lim "1 + int ms"
  for scope key ms lim
  by unfold_locales
    (auto simp: limiter_hit_def limiter_increment_def limiter_steps counter_window_def[of _ "upd_counters _ _"]
      limiter_ready_def[of _ "upd_counters _ _"] split: prod.splits)

interpretation storage: window_limiter
  "\<lambda>t w. (\<lambda>(r, w'). (\<not> ts_isBlocked r, w')) (storage_increment key (1 + int ms) lim name t w)"
  "counter_window (RATE_LIMIT_PREFIX @ '':http-'' @ name @ '':'' @ key)"
  "limiter_ready (RATE_LIMIT_PREFIX @ '':http-'' @ name @ '':'' @ key)" lim "1 + int ms"
  for name key ms lim
  by unfold_locales
    (auto simp: storage_increment_def limiter_increment_def limiter_steps
      counter_window_def[of _ "upd_counters _ _"] limiter_ready_def[of _ "upd_counters _ _"] Let_def not_less
      split: prod.splits)

section \<open>Properties\<close>

definition service_hit :: "string \<Rightarrow> RateLimitConfig \<Rightarrow> time \<Rightarrow> world \<Rightarrow> bool \<times> world" where
  "service_hit key config t w = (\<lambda>(r, w'). (rl_allowed r, w')) (checkRateLimit key config t w)"

definition route_hit :: "string \<Rightarrow> string \<Rightarrow> int \<Rightarrow> int \<Rightarrow> time \<Rightarrow> world \<Rightarrow> bool \<times> world" where
  "route_hit scope key limit window t w = (\<lambda>(r, w'). (lr_allowed r, w')) (limiter_hit scope key limit window t w)"

definition throttle_hit :: "string \<Rightarrow> string \<Rightarrow> int \<Rightarrow> int \<Rightarrow> time \<Rightarrow> world \<Rightarrow> bool \<times> world" where
  "throttle_hit name key limit ttl t w =
     (\<lambda>(r, w'). (\<not> ts_isBlocked r, w')) (storage_increment key ttl limit name t w)"

lemma fresh_window:
  assumes "w_link w = Up" "live t0 (r_counters (w_redis w)) key = None"
  shows "limiter_ready key w" "\<forall>c e. counter_window key w = Some (c, e) \<longrightarrow> e \<le> t0"
  using assms by (auto simp: limiter_ready_def counter_window_def live_def split: option.splits if_splits)

text \<open>
  Of the requests that reach \<open>RateLimitService\<close> for one key within one window of \<open>windowMs\<close>
  milliseconds from the first of them, exactly the first \<open>maxRequests\<close> are allowed, at whatever
  times within the window they come; and the first request after the window has run out is allowed
  again.
\<close>

theorem rate_limit_per_window:
  assumes "w_link w = Up" "0 < windowMs config" "1 \<le> maxRequests config"
    and "live t0 (r_counters (w_redis w)) (''zevra:ratelimit:'' @ key) = None"
    and "\<forall>t \<in> set ts. t < t0 + windowMs config" "t0 + windowMs config \<le> t'"
  shows "fst (run_hits (service_hit key config) (t0 # ts) w)
      = map (\<lambda>i. int i < maxRequests config) [0..<Suc (length ts)] \<and>
    fst (service_hit key config t' (snd (run_hits (service_hit key config) (t0 # ts) w)))"
proof -
  obtain ms where ms: "windowMs config = 1 + int ms"
    using assms(2) zless_iff_Suc_zadd[of 0 "windowMs config"] by auto
  then have config: "config = \<lparr>windowMs = 1 + int ms, maxRequests = maxRequests config\<rparr>" by simp
  have hit: "service_hit key config = (\<lambda>t w. (\<lambda>(r, w'). (rl_allowed r, w'))
      (checkRateLimit key \<lparr>windowMs = 1 + int ms, maxRequests = maxRequests config\<rparr> t w))"
    by (subst (1) config) (simp add: fun_eq_iff service_hit_def)
  note fresh = fresh_window[OF assms(1,4)]
  show ?thesis
    unfolding hit
    using service.burst[OF fresh, of ts ms "maxRequests config"]
      service.next_window[OF fresh, of ts ms t' "maxRequests config"] assms(3,5,6) ms by simp
qed

theorem rate_limit_per_window_witness:
  "fst (run_hits (service_hit ''typing:u'' \<lparr>windowMs = 1000, maxRequests = 2\<rparr>) [0, 10, 999] empty_world)
     = [True, True, False]"
proof -
  have "fst (run_hits (service_hit ''typing:u'' \<lparr>windowMs = 1000, maxRequests = 2\<rparr>) (0 # [10, 999]) empty_world)
      = map (\<lambda>i. int i < 2) [0..<Suc (length [10, 999::time])]"
    using rate_limit_per_window[of empty_world "\<lparr>windowMs = 1000, maxRequests = 2\<rparr>" 0 "''typing:u''" "[10, 999]" 1000]
    by (simp add: empty_world_def empty_redis_def)
  then show ?thesis by (simp add: upt_rec)
qed

text \<open>
  The route limiter and the global throttler count the same way: within one window, of any
  number of requests for a key exactly \<open>min limit n\<close> pass.
\<close>

theorem route_and_throttle_limits:
  assumes "w_link w = Up" "0 < window" "\<forall>t \<in> set ts. t < t0 + window"
    and "live t0 (r_counters (w_redis w)) (RATE_LIMIT_PREFIX @ '':'' @ scope @ '':'' @ key) = None"
    and "live t0 (r_counters (w_redis w)) (RATE_LIMIT_PREFIX @ '':http-'' @ name @ '':'' @ key) = None"
  shows "length (filter id (fst (run_hits (route_hit scope key limit window) (t0 # ts) w)))
      = min (nat limit) (Suc (length ts)) \<and>
    length (filter id (fst (run_hits (throttle_hit name key limit window) (t0 # ts) w)))
      = min (nat limit) (Suc (length ts))"
proof -
  obtain ms where ms: "window = 1 + int ms"
    using assms(2) zless_iff_Suc_zadd[of 0 window] by auto
  show ?thesis
    using limiter.passes_count[OF fresh_window[OF assms(1,4)], of ts ms limit]
      storage.passes_count[OF fresh_window[OF assms(1,5)], of ts ms limit] assms(3)
    by (simp add: ms route_hit_def[abs_def] throttle_hit_def[abs_def])
qed

theorem route_and_throttle_limits_witness:
  "length (filter id (fst (run_hits (route_hit ''register'' ''ip:x'' 1 60000) [5, 6] empty_world))) = 1"
  using route_and_throttle_limits[of empty_world 60000 "[6]" 5 "''register''" "''ip:x''" "''default''" 1]
  by (simp add: empty_world_def empty_redis_def)

text \<open>
  Limits fail open. While Redis is unavailable or rejects the command, every limiter lets the
  request through, whatever its configuration, and nothing is written.
\<close>

theorem rate_limits_fail_open:
  assumes "w_link w \<noteq> Up" "0 \<le> limit"
  shows "service_hit key config now w = (True, w) \<and>
    route_hit scope key limit window now w = (True, w) \<and>
    throttle_hit name key limit window now w = (True, w) \<and>
    guard_canActivate hashKey (Some (options\<lparr>rr_limit := limit\<rparr>)) True req now w = (Inr True, w)"
proof -
  have hit: "limiter_hit s k limit win now w
      = (\<lparr>lr_allowed = True, lr_count = 0, lr_limit = limit, lr_resetMs = win\<rparr>, w)" for s k win
    using assms by (cases "w_link w") (auto simp: limiter_hit_def limiter_increment_def)
  have loop: "guard_loop (options\<lparr>rr_limit := limit\<rparr>) now ks w = (Inr True, w)" for ks
    by (induction ks) (simp_all add: hit)
  show ?thesis
    using assms by (cases "w_link w") (auto simp: service_hit_def checkRateLimit_def route_hit_def hit
        throttle_hit_def storage_increment_def limiter_increment_def guard_canActivate_def loop)
qed

theorem rate_limits_fail_open_witness:
  "service_hit ''send:u'' RL_SEND_MESSAGE 0 (empty_world\<lparr>w_link := Down\<rparr>) = (True, empty_world\<lparr>w_link := Down\<rparr>)"
  using rate_limits_fail_open[of "empty_world\<lparr>w_link := Down\<rparr>" 0 "''send:u''" RL_SEND_MESSAGE 0] by simp

end
