(* ===== verification/Messages_Service.thy ===== *)
theory Messages_Service
  imports Redis_Services Rate_Limits
begin

text \<open>
  \<open>modules/messages/messages.service.ts\<close>: sending (checks, signature, sequence number, broadcast,
  cache, delivery), history pages from the cache and from the tables, and deletion.

  Arguments stand for what the service gets from outside: \<open>verify\<close> is the Ed25519 check of
  \<open>CryptoService\<close>, \<open>fetch\<close> the sockets Socket.IO reports for a room, \<open>queue_up\<close> whether the delivery
  queue accepts the job, \<open>gen\<close> the id PostgreSQL generates at each attempt, and \<open>fault\<close> an exception
  that the database raises at an attempt instead of committing it.
\<close>

section \<open>Sending\<close>

record SendMessageInput =
  si_userId :: uid
  si_channelId :: cid
  si_encryptedContent :: "string option"
  si_contentIv :: string
  si_contentTag :: string
  si_signature :: string
  si_senderKeyEpoch :: int
  si_messageType :: "string option"
  si_metadata :: "json option"

definition MESSAGE_TYPES :: "string list" where
  "MESSAGE_TYPES = [''TEXT'', ''IMAGE'', ''FILE'', ''SYSTEM'']"

definition MAX_SEQUENCE_RETRIES :: nat where
  "MAX_SEQUENCE_RETRIES = 3"

definition MAX_ENCRYPTED_CONTENT_BYTES :: nat where
  "MAX_ENCRYPTED_CONTENT_BYTES = 10 * 1024"

definition MAX_METADATA_BYTES :: nat where
  "MAX_METADATA_BYTES = 64 * 1024"

definition is_object :: "json \<Rightarrow> bool" where
  "is_object j = (case j of JObj _ \<Rightarrow> True | _ \<Rightarrow> False)"

definition metadata_limits :: "json option \<Rightarrow> thrown + unit" where
  "metadata_limits md = (case md of
       None \<Rightarrow> Inr ()
     | Some JNull \<Rightarrow> Inr ()
     | Some j \<Rightarrow>
         if \<not> is_object j then Inl (BadRequestException ''metadata must be an object'')
         else if utf8_len (json_text j) > MAX_METADATA_BYTES
         then Inl (PayloadTooLargeException ''metadata exceeds 64KB limit'')
         else Inr ())"

definition assertSendLimits :: "SendMessageInput \<Rightarrow> thrown + unit" where
  "assertSendLimits input =
     (if si_encryptedContent input = None \<or> si_encryptedContent input = Some []
      then Inl (BadRequestException ''encryptedContent is required'')
      else if utf8_len (the (si_encryptedContent input)) > MAX_ENCRYPTED_CONTENT_BYTES
      then Inl (PayloadTooLargeException ''Message exceeds 10KB limit'')
      else if si_contentIv input = [] \<or> length (si_contentIv input) > 32 \<or>
              si_contentTag input = [] \<or> length (si_contentTag input) > 32
      then Inl (BadRequestException ''contentIv and contentTag must be 1-32 characters'')
      else if si_messageType input \<noteq> None \<and> the (si_messageType input) \<notin> set MESSAGE_TYPES
      then Inl (BadRequestException ''Invalid messageType'')
      else metadata_limits (si_metadata input))"

text \<open>The join of membership, user and channel that \<open>send\<close> starts from.\<close>

definition send_member :: "uid \<Rightarrow> cid \<Rightarrow> db \<Rightarrow> (user_row \<times> channel_row) option" where
  "send_member userId channelId d = first_row
     [(u, c). m \<leftarrow> memberships d, mb_userId m = userId \<and> mb_channelId m = channelId,
              u \<leftarrow> users d, u_id u = mb_userId m, c \<leftarrow> channels d, ch_id c = mb_channelId m]"

definition channel_messages :: "cid \<Rightarrow> db \<Rightarrow> message_row list" where
  "channel_messages channelId d = filter (\<lambda>m. ms_channelId m = channelId) (messages d)"

fun sql_max :: "int list \<Rightarrow> int option" where
  "sql_max [] = None"
| "sql_max (x # xs) = Some (fold max xs x)"

definition nextSequence :: "cid \<Rightarrow> db \<Rightarrow> int" where
  "nextSequence channelId d =
     (case sql_max (map ms_sequenceNumber (channel_messages channelId d)) of None \<Rightarrow> 0 | Some m \<Rightarrow> m) + 1"

definition new_message :: "mid \<Rightarrow> SendMessageInput \<Rightarrow> int \<Rightarrow> time \<Rightarrow> message_row" where
  "new_message i input seq now =
     \<lparr>ms_id = i,
      ms_messageType = (case si_messageType input of None \<Rightarrow> ''TEXT'' | Some t \<Rightarrow> t),
      ms_encryptedContent = the (si_encryptedContent input),
      ms_contentIv = si_contentIv input, ms_contentTag = si_contentTag input,
      ms_signature = si_signature input, ms_sequenceNumber = seq,
      ms_senderKeyEpoch = si_senderKeyEpoch input,
      ms_metadata = (if si_metadata input = Some JNull then None else si_metadata input),
      ms_isDeleted = False, ms_createdAt = now, ms_updatedAt = now,
      ms_senderId = si_userId input, ms_channelId = si_channelId input\<rparr>"

text \<open>The body of the transaction: it commits as a whole or leaves the tables as they were.\<close>

definition insert_message_tx :: "mid \<Rightarrow> SendMessageInput \<Rightarrow> time \<Rightarrow> db \<Rightarrow> thrown + (message_row \<times> db)" where
  "insert_message_tx i input now d =
     (let msg = new_message i input (nextSequence (si_channelId input) d) now in
      bindE (insert_row message_conflict msg (messages d)) (\<lambda>rows.
        Inr (msg, d\<lparr>messages := rows,
          channels := update_where (\<lambda>c. ch_id c = si_channelId input)
            (\<lambda>c. c\<lparr>ch_lastMessageId := Some (ms_id msg), ch_lastMessageAt := Some (ms_createdAt msg),
                   ch_updatedAt := now\<rparr>) (channels d),
          memberships := update_where
            (\<lambda>m. mb_userId m = si_userId input \<and> mb_channelId m = si_channelId input)
            (\<lambda>m. m\<lparr>mb_lastReadMessageId := Some (ms_id msg), mb_lastReadAt := Some now\<rparr>)
            (memberships d)\<rparr>)))"

text \<open>\<open>(err as { code?: string })?.code\<close>: only the thrown object itself is looked at.\<close>

fun err_code :: "thrown \<Rightarrow> json option" where
  "err_code (Other j) = jfield ''code'' j"
| "err_code _ = None"

fun insert_attempts :: "(nat \<Rightarrow> thrown option) \<Rightarrow> (nat \<Rightarrow> mid) \<Rightarrow> SendMessageInput \<Rightarrow> time \<Rightarrow> nat \<Rightarrow> nat \<Rightarrow> db \<Rightarrow>
    thrown + (message_row \<times> db)" where
  "insert_attempts fault gen input now 0 attempt d =
     Inl (BadRequestException ''Failed to assign sequence number'')"
| "insert_attempts fault gen input now (Suc left) attempt d =
     (case (case fault attempt of Some e \<Rightarrow> Inl e | None \<Rightarrow> insert_message_tx (gen attempt) input now d) of
        Inr r \<Rightarrow> Inr r
      | Inl e \<Rightarrow>
          if err_code e = Some (JStr ''23505'') \<and> attempt < MAX_SEQUENCE_RETRIES - 1
          then insert_attempts fault gen input now left (Suc attempt) d
          else Inl e)"

definition insertWithSequence :: "(nat \<Rightarrow> thrown option) \<Rightarrow> (nat \<Rightarrow> mid) \<Rightarrow> SendMessageInput \<Rightarrow> time \<Rightarrow> db \<Rightarrow>
    thrown + (message_row \<times> db)" where
  "insertWithSequence fault gen input now d = insert_attempts fault gen input now MAX_SEQUENCE_RETRIES 0 d"

definition dispatchNewMessage :: "(string \<Rightarrow> uid option list option) \<Rightarrow> bool \<Rightarrow> MessagePayload \<Rightarrow> string option \<Rightarrow>
    time \<Rightarrow> world \<Rightarrow> world" where
  "dispatchNewMessage fetch queue_up payload exceptSocket now w =
     (let channelId = pl_channelId payload;
          (memberIds, w1) = getMembers now channelId w;
          connected = getConnectedUserIds fetch channelId w1;
          w2 = emitToChannel channelId ''message:new'' (payload_json payload)
                 (no_options\<lparr>exceptSocketId := exceptSocket\<rparr>) w1;
          w3 = cacheMessage now channelId (payload_json payload) w2;
          recipientIds = filter (\<lambda>u. u \<noteq> pl_senderId payload) memberIds;
          job = \<lparr>jb_message = payload, jb_recipientIds = recipientIds,
                 jb_offlineUserIds = filter (\<lambda>u. case connected of None \<Rightarrow> True | Some cs \<Rightarrow> u \<notin> set cs) recipientIds\<rparr>
      in if recipientIds = [] then w3
         else if queue_up then w3\<lparr>w_jobs := w_jobs w3 @ [job]\<rparr>
         else snd (runMessageDelivery now job w3))"

definition send :: "(string \<Rightarrow> string \<Rightarrow> string \<Rightarrow> bool) \<Rightarrow> (nat \<Rightarrow> thrown option) \<Rightarrow> (nat \<Rightarrow> mid) \<Rightarrow>
    (string \<Rightarrow> uid option list option) \<Rightarrow> bool \<Rightarrow> SendMessageInput \<Rightarrow> string option \<Rightarrow> time \<Rightarrow> world \<Rightarrow>
    (thrown + MessagePayload) \<times> world" where
  "send verify fault gen fetch queue_up input exceptSocket now w =
     (case assertSendLimits input of
        Inl e \<Rightarrow> (Inl e, w)
      | Inr _ \<Rightarrow>
          (case send_member (si_userId input) (si_channelId input) (w_db w) of
             None \<Rightarrow> (Inl (ForbiddenException ''Not a member of this channel''), w)
           | Some (u, c) \<Rightarrow>
               if ch_isArchived c then (Inl (BadRequestException ''Channel is archived''), w)
               else if si_signature input \<noteq> [] \<and> u_publicKeySign u \<noteq> [] \<and>
                 \<not> verify (si_channelId input @ '':'' @ the (si_encryptedContent input)) (si_signature input) (u_publicKeySign u)
               then (Inl (BadRequestException ''Invalid message signature''), w)
               else (case insertWithSequence fault gen input now (w_db w) of
                       Inl e \<Rightarrow> (Inl e, w)
                     | Inr (row, d) \<Rightarrow>
                         (let payload = toMessagePayload row (Some (u_username u))
                          in (Inr payload, dispatchNewMessage fetch queue_up payload exceptSocket now (w\<lparr>w_db := d\<rparr>))))))"

section \<open>History\<close>

datatype MessagePageMode = Latest | Before | Since
datatype page_source = Cache | Database

record MessagePage =
  mp_messages :: "json list"
  mp_nextCursor :: "int option"
  mp_hasMore :: bool
  mp_source :: page_source

definition username_of :: "db \<Rightarrow> uid \<Rightarrow> string option" where
  "username_of d userId = map_option u_username (first_row (filter (\<lambda>u. u_id u = userId) (users d)))"

text \<open>\<open>{ ...m, k: v }\<close>: an existing property keeps its place.\<close>

fun jset :: "string \<Rightarrow> json \<Rightarrow> json \<Rightarrow> json" where
  "jset k v (JObj kvs) =
     JObj (if k \<in> fst ` set kvs then map (\<lambda>(k', v'). if k' = k then (k', v) else (k', v')) kvs
           else kvs @ [(k, v)])"
| "jset k v j = JObj [(k, v)]"

definition reaction_json :: "db \<Rightarrow> reaction_row \<Rightarrow> json" where
  "reaction_json d r = JObj [(''emoji'', JStr (re_emoji r)), (''userId'', JStr (re_userId r)),
     (''username'', jstr_of (username_of d (re_userId r)))]"

text \<open>\<open>!m.isDeleted\<close>.\<close>

definition not_deleted :: "json \<Rightarrow> bool" where
  "not_deleted m = (case jfield ''isDeleted'' m of Some (JBool b) \<Rightarrow> \<not> b | _ \<Rightarrow> True)"

definition attachReactions :: "db \<Rightarrow> json list \<Rightarrow> json list" where
  "attachReactions d items =
     (let ids = map (jfield ''id'') (filter not_deleted items);
          rows = filter (\<lambda>r. Some (JStr (re_messageId r)) \<in> set ids) (reactions d)
      in map (\<lambda>m. jset ''reactions''
           (JArr (map (reaction_json d) (filter (\<lambda>r. Some (JStr (re_messageId r)) = jfield ''id'' m) rows))) m) items)"

definition well_formed_item :: "json \<Rightarrow> bool" where
  "well_formed_item m \<longleftrightarrow> is_jstr (jfield ''id'' m) \<and> is_jstr (jfield ''signature'' m) \<and>
     is_jbool (jfield ''isDeleted'' m) \<and> is_jnum (jfield ''sequenceNumber'' m)"

fun seq_of :: "json \<Rightarrow> int" where
  "seq_of m = (case jfield ''sequenceNumber'' m of Some (JNum n) \<Rightarrow> n | _ \<Rightarrow> 0)"

fun contiguous :: "int list \<Rightarrow> bool" where
  "contiguous (a # b # xs) = (b = a + 1 \<and> contiguous (b # xs))"
| "contiguous _ = True"

text \<open>
  \<open>getCachedPage\<close>. With two or more items the comparator of \<open>sort\<close> reads a property of each and throws
  on \<open>null\<close>; when every item is well formed the sort is by sequence number, and when one is not the
  page is dropped in whatever order the items are visited.
\<close>

definition getCachedPage :: "time \<Rightarrow> cid \<Rightarrow> nat \<Rightarrow> world \<Rightarrow> (thrown + MessagePage option) \<times> world" where
  "getCachedPage now channelId limit w =
     (let cached = getRecentMessages now channelId limit w in
      if length cached < limit then (Inr None, w)
      else if length cached \<ge> 2 \<and> JNull \<in> set cached then (Inl (Other (JObj [])), w)
      else (let items = sort_key seq_of cached in
            if list_all well_formed_item cached \<and> contiguous (map seq_of items)
            then (let oldest = seq_of (hd items); hasMore = oldest > 1
                  in (Inr (Some \<lparr>mp_messages = attachReactions (w_db w) items,
                                 mp_nextCursor = (if hasMore then Some oldest else None),
                                 mp_hasMore = hasMore, mp_source = Cache\<rparr>), w))
            else (Inr None, invalidateMessages channelId w)))"

definition safe_limit :: "int \<Rightarrow> nat" where
  "safe_limit limit = nat (min (max (if limit = 0 then 50 else limit) 1) 100)"

definition page_rows :: "db \<Rightarrow> cid \<Rightarrow> int option \<Rightarrow> MessagePageMode \<Rightarrow> message_row list" where
  "page_rows d channelId cursor mode =
     (let rows = filter (\<lambda>m.
            (case (mode, cursor) of
               (Before, Some c) \<Rightarrow> ms_sequenceNumber m < c
             | (Since, Some c) \<Rightarrow> c < ms_sequenceNumber m
             | _ \<Rightarrow> True)) (channel_messages channelId d)
      in if mode \<noteq> Since then sort_key (\<lambda>m. - ms_sequenceNumber m) rows
         else sort_key ms_sequenceNumber rows)"

definition row_payload :: "db \<Rightarrow> message_row \<Rightarrow> MessagePayload" where
  "row_payload d r = toMessagePayload r (username_of d (ms_senderId r))"

definition database_page :: "db \<Rightarrow> cid \<Rightarrow> nat \<Rightarrow> int option \<Rightarrow> MessagePageMode \<Rightarrow> MessagePage" where
  "database_page d channelId limit cursor mode =
     (let rows = take (limit + 1) (page_rows d channelId cursor mode);
          hasMore = length rows > limit;
          page = (if hasMore then take limit rows else rows);
          ordered = (if mode \<noteq> Since then rev page else page);
          payloads = map (row_payload d) ordered
      in \<lparr>mp_messages = attachReactions d (map payload_json payloads),
          mp_nextCursor = (if hasMore \<and> payloads \<noteq> []
             then Some (pl_sequenceNumber (if mode \<noteq> Since then hd payloads else last payloads)) else None),
          mp_hasMore = hasMore, mp_source = Database\<rparr>)"

definition is_channel_member :: "uid \<Rightarrow> cid \<Rightarrow> db \<Rightarrow> bool" where
  "is_channel_member userId channelId d =
     list_ex (\<lambda>m. mb_userId m = userId \<and> mb_channelId m = channelId) (memberships d)"

definition getMessages :: "cid \<Rightarrow> uid \<Rightarrow> int \<Rightarrow> int option \<Rightarrow> MessagePageMode \<Rightarrow> time \<Rightarrow> world \<Rightarrow>
    (thrown + MessagePage) \<times> world" where
  "getMessages channelId userId limit cursor mode now w =
     (let safeLimit = safe_limit limit in
      if \<not> is_channel_member userId channelId (w_db w)
      then (Inl (ForbiddenException ''Not a member of this channel''), w)
      else if cursor = None \<and> mode \<noteq> Since \<and> safeLimit \<le> MESSAGE_CACHE_SIZE
      then (case getCachedPage now channelId safeLimit w of
              (Inl e, w1) \<Rightarrow> (Inl e, w1)
            | (Inr (Some page), w1) \<Rightarrow> (Inr page, w1)
            | (Inr None, w1) \<Rightarrow> (Inr (database_page (w_db w1) channelId safeLimit cursor mode), w1))
      else (Inr (database_page (w_db w) channelId safeLimit cursor mode), w))"

section \<open>Deleting\<close>

definition newest_remaining :: "cid \<Rightarrow> mid \<Rightarrow> message_row list \<Rightarrow> message_row option" where
  "newest_remaining channelId messageId rows = first_row (sort_key (\<lambda>m. - ms_sequenceNumber m)
     (filter (\<lambda>m. ms_channelId m = channelId \<and> \<not> ms_isDeleted m \<and> ms_id m \<noteq> messageId) rows))"

definition delete_message_tx :: "mid \<Rightarrow> cid \<Rightarrow> time \<Rightarrow> db \<Rightarrow> db" where
  "delete_message_tx messageId channelId now d =
     (let rows = update_where (\<lambda>m. ms_id m = messageId)
            (\<lambda>m. m\<lparr>ms_isDeleted := True, ms_encryptedContent := [], ms_metadata := None, ms_updatedAt := now\<rparr>)
            (messages d);
          d1 = d\<lparr>messages := rows, reactions := filter (\<lambda>r. re_messageId r \<noteq> messageId) (reactions d)\<rparr>
      in case first_row (filter (\<lambda>c. ch_id c = channelId) (channels d1)) of
           None \<Rightarrow> d1
         | Some channel \<Rightarrow>
             if ch_lastMessageId channel = Some messageId
             then (let prev = newest_remaining channelId messageId rows
                   in d1\<lparr>channels := update_where (\<lambda>c. ch_id c = channelId)
                        (\<lambda>c. c\<lparr>ch_lastMessageId := map_option ms_id prev,
                               ch_lastMessageAt := map_option ms_createdAt prev, ch_updatedAt := now\<rparr>)
                        (channels d1)\<rparr>)
             else d1)"

definition deleteMessage :: "uid \<Rightarrow> mid \<Rightarrow> time \<Rightarrow> world \<Rightarrow> (thrown + cid) \<times> world" where
  "deleteMessage userId messageId now w =
     (case first_row (filter (\<lambda>m. ms_id m = messageId) (messages (w_db w))) of
        None \<Rightarrow> (Inl (NotFoundException ''Message not found''), w)
      | Some msg \<Rightarrow>
          if ms_senderId msg \<noteq> userId
          then (Inl (ForbiddenException ''Can only delete your own messages''), w)
          else (let w1 = (if ms_isDeleted msg then w
                          else w\<lparr>w_db := delete_message_tx messageId (ms_channelId msg) now (w_db w)\<rparr>);
                    w2 = invalidateMessages (ms_channelId msg) w1;
                    w3 = emitToChannel (ms_channelId msg) ''message:deleted''
                           (JObj [(''messageId'', JStr messageId), (''channelId'', JStr (ms_channelId msg))])
                           no_options w2
                in (Inr (ms_channelId msg), w3)))"

section \<open>Sequence numbers\<close>

lemma toMessagePayload_simps [simp]:
  "pl_id (toMessagePayload r n) = ms_id r" "pl_channelId (toMessagePayload r n) = ms_channelId r"
  "pl_senderId (toMessagePayload r n) = ms_senderId r" "pl_sequenceNumber (toMessagePayload r n) = ms_sequenceNumber r"
  "pl_createdAt (toMessagePayload r n) = ms_createdAt r" "pl_isDeleted (toMessagePayload r n) = ms_isDeleted r"
  by (simp_all add: toMessagePayload_def)

lemma new_message_simps [simp]:
  "ms_id (new_message i input seq now) = i" "ms_channelId (new_message i input seq now) = si_channelId input"
  "ms_senderId (new_message i input seq now) = si_userId input" "ms_sequenceNumber (new_message i input seq now) = seq"
  "ms_createdAt (new_message i input seq now) = now" "ms_isDeleted (new_message i input seq now) = False"
  by (simp_all add: new_message_def)

text \<open>The sequence numbers of a channel with \<open>n\<close> messages are \<open>1\<close> to \<open>n\<close>.\<close>

definition sequences_ok :: "db \<Rightarrow> bool" where
  "sequences_ok d \<longleftrightarrow> (\<forall>c. ms_sequenceNumber ` set (channel_messages c d) = {1..int (length (channel_messages c d))})"

lemma sql_max_Max: "sql_max xs = (if xs = [] then None else Some (Max (set xs)))"
  by (cases xs) (simp_all add: Max.set_eq_fold flip: list.set)

lemma nextSequence_length:
  assumes "sequences_ok d"
  shows "nextSequence c d = int (length (channel_messages c d)) + 1"
proof (cases "channel_messages c d = []")
  case False
  have "Max (ms_sequenceNumber ` set (channel_messages c d)) = int (length (channel_messages c d))"
    using assms False unfolding sequences_ok_def by (auto intro!: Max_eqI simp: Suc_le_eq)
  then show ?thesis using False by (simp add: nextSequence_def sql_max_Max)
qed (simp add: nextSequence_def)

lemma nextSequence_fresh:
  assumes "m \<in> set (messages d)" "ms_channelId m = c"
  shows "ms_sequenceNumber m < nextSequence c d"
proof -
  let ?xs = "map ms_sequenceNumber (channel_messages c d)"
  have "ms_sequenceNumber m \<in> set ?xs" using assms by (auto simp: channel_messages_def)
  then have "?xs \<noteq> []" "ms_sequenceNumber m \<le> Max (set ?xs)" by (auto simp del: set_map)
  then show ?thesis by (simp add: nextSequence_def sql_max_Max del: map_is_Nil_conv set_map)
qed

text \<open>Only a clash of the generated id can make the insertion fail.\<close>

lemma insert_message_tx_Inr:
  "insert_message_tx i input now d = Inr (row, d') \<longleftrightarrow>
     i \<notin> ms_id ` set (messages d) \<and> row = new_message i input (nextSequence (si_channelId input) d) now \<and>
     d' = d\<lparr>messages := messages d @ [row],
          channels := update_where (\<lambda>c. ch_id c = si_channelId input)
            (\<lambda>c. c\<lparr>ch_lastMessageId := Some i, ch_lastMessageAt := Some now, ch_updatedAt := now\<rparr>) (channels d),
          memberships := update_where (\<lambda>m. mb_userId m = si_userId input \<and> mb_channelId m = si_channelId input)
            (\<lambda>m. m\<lparr>mb_lastReadMessageId := Some i, mb_lastReadAt := Some now\<rparr>) (memberships d)\<rparr>"
proof -
  let ?row = "new_message i input (nextSequence (si_channelId input) d) now"
  have "message_conflict ?row x \<longleftrightarrow> ms_id x = i" if "x \<in> set (messages d)" for x
    using nextSequence_fresh[OF that] by (auto simp: message_conflict_def new_message_def)
  then have "(\<forall>x \<in> set (messages d). \<not> message_conflict ?row x) \<longleftrightarrow> i \<notin> ms_id ` set (messages d)"
    by auto
  then show ?thesis
    by (auto simp: insert_message_tx_def Let_def bindE_Inr_iff insert_row_Inr_iff new_message_def)
qed

lemma insert_message_tx_Inl:
  "insert_message_tx i input now d = Inl e \<Longrightarrow> e = pg_error ''23505''"
  by (auto simp: insert_message_tx_def Let_def bindE_def insert_row_def split: if_splits sum.splits)

lemma insert_attempts_Inr:
  "insert_attempts fault gen input now left attempt d = Inr (row, d') \<Longrightarrow>
   \<exists>i \<ge> attempt. insert_message_tx (gen i) input now d = Inr (row, d')"
proof (induction left arbitrary: attempt)
  case (Suc left)
  show ?case
  proof (cases "case fault attempt of Some e \<Rightarrow> Inl e | None \<Rightarrow> insert_message_tx (gen attempt) input now d")
    case (Inl e)
    with Suc.prems Suc.IH[of "Suc attempt"] show ?thesis by (auto split: if_splits) (use Suc_leD in blast)
  next
    case (Inr r)
    with Suc.prems show ?thesis by (auto split: option.splits)
  qed
qed simp

lemma insertWithSequence_Inr:
  assumes "insertWithSequence fault gen input now d = Inr (row, d')"
  obtains i where "insert_message_tx (gen i) input now d = Inr (row, d')"
  using assms insert_attempts_Inr unfolding insertWithSequence_def by blast

lemma channel_messages_snoc:
  "channel_messages c (d\<lparr>messages := messages d @ [row], channels := x, memberships := y\<rparr>) =
     channel_messages c d @ (if ms_channelId row = c then [row] else [])"
  by (simp add: channel_messages_def)

lemma sequences_ok_insert:
  assumes "sequences_ok d" "insert_message_tx i input now d = Inr (row, d')"
  shows "sequences_ok d'"
  unfolding sequences_ok_def
proof
  fix c
  have seq: "ms_sequenceNumber ` set (channel_messages c d) = {1..int (length (channel_messages c d))}"
    using assms(1) by (simp add: sequences_ok_def)
  have "{1..int n + 1} = insert (int n + 1) {1..int n}" for n by auto
  then show "ms_sequenceNumber ` set (channel_messages c d') = {1..int (length (channel_messages c d'))}"
    using assms seq nextSequence_length[OF assms(1), of c]
    by (auto simp: insert_message_tx_Inr channel_messages_snoc new_message_def add.commute)
qed

lemma update_where_channel_messages:
  assumes "\<And>m. ms_channelId (f m) = ms_channelId m" "\<And>m. ms_sequenceNumber (f m) = ms_sequenceNumber m"
  shows "map ms_sequenceNumber (filter (\<lambda>m. ms_channelId m = c) (update_where P f rows)) =
    map ms_sequenceNumber (filter (\<lambda>m. ms_channelId m = c) rows)"
  using assms by (induction rows) auto

lemma sequences_ok_map:
  "(\<And>c. map ms_sequenceNumber (channel_messages c d') = map ms_sequenceNumber (channel_messages c d)) \<Longrightarrow>
   sequences_ok d \<Longrightarrow> sequences_ok d'"
  unfolding sequences_ok_def by (metis (no_types, lifting) length_map set_map)

lemma delete_message_tx_simps:
  "messages (delete_message_tx i c now d) = update_where (\<lambda>m. ms_id m = i)
     (\<lambda>m. m\<lparr>ms_isDeleted := True, ms_encryptedContent := [], ms_metadata := None, ms_updatedAt := now\<rparr>) (messages d)"
  "reactions (delete_message_tx i c now d) = filter (\<lambda>r. re_messageId r \<noteq> i) (reactions d)"
  "users (delete_message_tx i c now d) = users d"
  "memberships (delete_message_tx i c now d) = memberships d"
  by (simp_all add: delete_message_tx_def Let_def split: option.splits)

lemma sequences_ok_delete: "sequences_ok d \<Longrightarrow> sequences_ok (delete_message_tx i c now d)"
  by (rule sequences_ok_map[of _ d])
    (simp_all add: channel_messages_def delete_message_tx_simps update_where_channel_messages)

section \<open>Sending: results and failures\<close>

lemma send_Inl: "fst (send verify fault gen fetch q input x now w) = Inl e \<Longrightarrow> snd (send verify fault gen fetch q input x now w) = w"
  by (auto simp: send_def Let_def split: sum.splits option.splits prod.splits if_splits)

lemma send_Inr:
  assumes "send verify fault gen fetch q input x now w = (Inr payload, w')"
  obtains u c row d i where "assertSendLimits input = Inr ()"
    "send_member (si_userId input) (si_channelId input) (w_db w) = Some (u, c)" "\<not> ch_isArchived c"
    "si_signature input = [] \<or> u_publicKeySign u = [] \<or>
       verify (si_channelId input @ '':'' @ the (si_encryptedContent input)) (si_signature input) (u_publicKeySign u)"
    "insert_message_tx (gen i) input now (w_db w) = Inr (row, d)"
    "payload = toMessagePayload row (Some (u_username u))"
    "w' = dispatchNewMessage fetch q payload x now (w\<lparr>w_db := d\<rparr>)"
proof -
  obtain u c where m: "send_member (si_userId input) (si_channelId input) (w_db w) = Some (u, c)"
    using assms by (auto simp: send_def split: sum.splits option.splits)
  obtain row d where r: "insertWithSequence fault gen input now (w_db w) = Inr (row, d)"
    using assms m by (auto simp: send_def split: sum.splits if_splits)
  then obtain i where "insert_message_tx (gen i) input now (w_db w) = Inr (row, d)"
    by (rule insertWithSequence_Inr)
  then show thesis
    using assms m r by (intro that) (auto simp: send_def Let_def split: sum.splits if_splits)
qed

lemma send_commit:
  assumes "send verify fault gen fetch q input x now w = (Inr payload, w')"
  obtains u c row d i where
    "send_member (si_userId input) (si_channelId input) (w_db w) = Some (u, c)"
    "insert_message_tx (gen i) input now (w_db w) = Inr (row, d)"
    "payload = toMessagePayload row (Some (u_username u))"
    "w' = dispatchNewMessage fetch q payload x now (w\<lparr>w_db := d\<rparr>)"
  using assms by (rule send_Inr) (rule that)

lemma send_member_Some:
  assumes "send_member userId channelId d = Some (u, c)"
  shows "u \<in> set (users d)" "u_id u = userId" "c \<in> set (channels d)" "ch_id c = channelId"
    "is_channel_member userId channelId d"
  using first_row_in[OF assms[unfolded send_member_def]]
  by (auto simp: is_channel_member_def list_ex_iff split: if_splits)

lemma dispatch_db [simp]: "w_db (dispatchNewMessage fetch q p x now w) = w_db w"
  by (simp add: dispatchNewMessage_def Let_def split_beta runMessageDelivery_def)

lemma dispatch_link [simp]: "w_link (dispatchNewMessage fetch q p x now w) = w_link w"
  by (simp add: dispatchNewMessage_def Let_def split_beta runMessageDelivery_def)

lemma dispatch_out:
  "w_out (dispatchNewMessage fetch q p x now w) = w_out w @ (if w_server w
     then [Emit [channelRoom (pl_channelId p)] (emit_except (no_options\<lparr>exceptSocketId := x\<rparr>)) ''message:new'' (payload_json p)]
     else [])"
  by (simp add: dispatchNewMessage_def Let_def split_beta runMessageDelivery_def emitToChannel_def send_out_def)

lemma insert_tx_keeps:
  assumes "insert_message_tx i input now d = Inr (row, d')"
  shows "users d' = users d" "map ch_id (channels d') = map ch_id (channels d)"
    "map (\<lambda>m. (mb_userId m, mb_channelId m)) (memberships d') = map (\<lambda>m. (mb_userId m, mb_channelId m)) (memberships d)"
    "map mb_id (memberships d') = map mb_id (memberships d)"
  using assms by (auto simp: insert_message_tx_Inr intro!: update_where_map)

text \<open>
  A message is accepted only when the sender is a member of the channel, the channel exists and
  is not archived, the content, the nonce, the type and the metadata are within their limits, and a
  signature, where the sender has a signing key, verifies over the channel and the ciphertext. When
  anything is refused, or the database fails, nothing at all has changed: no row, no packet, no cache
  entry and no delivery job.
\<close>

theorem send_checks_everything_first:
  "case send verify fault gen fetch queue_up input exceptSocket now w of
     (Inl e, w') \<Rightarrow> w' = w
   | (Inr payload, w') \<Rightarrow>
       is_channel_member (si_userId input) (si_channelId input) (w_db w) \<and>
       (\<exists>u c. u \<in> set (users (w_db w)) \<and> c \<in> set (channels (w_db w)) \<and>
          u_id u = si_userId input \<and> ch_id c = si_channelId input \<and> \<not> ch_isArchived c \<and>
          (si_signature input = [] \<or> u_publicKeySign u = [] \<or>
           verify (si_channelId input @ '':'' @ pl_encryptedContent payload) (si_signature input) (u_publicKeySign u))) \<and>
       pl_encryptedContent payload \<noteq> [] \<and> utf8_len (pl_encryptedContent payload) \<le> 10240 \<and>
       length (pl_contentIv payload) \<in> {1..32} \<and> length (pl_contentTag payload) \<in> {1..32} \<and>
       pl_messageType payload \<in> set MESSAGE_TYPES \<and>
       (pl_metadata payload = None \<or>
        (\<exists>kvs. pl_metadata payload = Some (JObj kvs) \<and> utf8_len (json_text (JObj kvs)) \<le> 65536))"
proof (cases "send verify fault gen fetch queue_up input exceptSocket now w")
  case (Pair r w')
  show ?thesis
  proof (cases r)
    case (Inl e)
    with send_Inl[of verify fault gen fetch queue_up input exceptSocket now w e] Pair show ?thesis by simp
  next
    case (Inr payload)
    from Pair[unfolded Inr] obtain u c row d i where s: "assertSendLimits input = Inr ()"
      "send_member (si_userId input) (si_channelId input) (w_db w) = Some (u, c)" "\<not> ch_isArchived c"
      "si_signature input = [] \<or> u_publicKeySign u = [] \<or>
         verify (si_channelId input @ '':'' @ the (si_encryptedContent input)) (si_signature input) (u_publicKeySign u)"
      "insert_message_tx (gen i) input now (w_db w) = Inr (row, d)"
      "payload = toMessagePayload row (Some (u_username u))"
      by (rule send_Inr)
    have p: "pl_encryptedContent payload = the (si_encryptedContent input)" "pl_contentIv payload = si_contentIv input"
      "pl_contentTag payload = si_contentTag input"
      "pl_messageType payload = (case si_messageType input of None \<Rightarrow> ''TEXT'' | Some t \<Rightarrow> t)"
      "pl_metadata payload = (if si_metadata input = Some JNull then None else si_metadata input)"
      using s(5,6) by (auto simp: insert_message_tx_Inr new_message_def toMessagePayload_def)
    have lim: "pl_encryptedContent payload \<noteq> []" "utf8_len (pl_encryptedContent payload) \<le> 10240"
      "length (pl_contentIv payload) \<in> {1..32}" "length (pl_contentTag payload) \<in> {1..32}"
      "pl_messageType payload \<in> set MESSAGE_TYPES"
      and md: "metadata_limits (si_metadata input) = Inr ()"
      using s(1) unfolding p by (auto simp: assertSendLimits_def MAX_ENCRYPTED_CONTENT_BYTES_def not_less Suc_le_eq MESSAGE_TYPES_def
          split: if_splits option.splits)
    have "pl_metadata payload = None \<or>
        (\<exists>kvs. pl_metadata payload = Some (JObj kvs) \<and> utf8_len (json_text (JObj kvs)) \<le> 65536)"
      using md unfolding p by (auto simp: metadata_limits_def is_object_def MAX_METADATA_BYTES_def not_less
          split: if_splits option.splits json.splits)
    then show ?thesis using Pair Inr lim s(3,4) send_member_Some[OF s(2)] p(1) by auto
  qed
qed

lemma insertWithSequence_first:
  "fault 0 = None \<Longrightarrow> insert_message_tx (gen 0) input now d = Inr r \<Longrightarrow> insertWithSequence fault gen input now d = Inr r"
  by (simp add: insertWithSequence_def MAX_SEQUENCE_RETRIES_def eval_nat_numeral)

lemma messageCache_key_inj [simp]: "RedisKeys_messageCache c = RedisKeys_messageCache d \<longleftrightarrow> c = d"
  by (simp add: RedisKeys_messageCache_def)

lemma with_redis_lists:
  "(\<And>r. r_lists (snd (f r)) = r_lists r) \<Longrightarrow> r_lists (w_redis (snd (with_redis d f w))) = r_lists (w_redis w)"
  by (cases "w_link w") (auto simp: with_redis_def split_beta)

lemma redis_services_lists [simp]:
  "r_lists (w_redis (snd (addSocket now u s w))) = r_lists (w_redis w)"
  "r_lists (w_redis (refreshSocket now u s w)) = r_lists (w_redis w)"
  "r_lists (w_redis (snd (removeSocket now u s w))) = r_lists (w_redis w)"
  "r_lists (w_redis (setOnline now u w)) = r_lists (w_redis w)"
  "r_lists (w_redis (setOffline u w)) = r_lists (w_redis w)"
  "r_lists (w_redis (addPendingMessage now us m w)) = r_lists (w_redis w)"
  "r_lists (w_redis (snd (popPendingMessages now u n w))) = r_lists (w_redis w)"
  "r_lists (w_redis (incrementUnreadMany now us c w)) = r_lists (w_redis w)"
  "r_lists (w_redis (resetUnread u c w)) = r_lists (w_redis w)"
  "r_lists (w_redis (setTyping now c u w)) = r_lists (w_redis w)"
  "r_lists (w_redis (clearTyping now c u w)) = r_lists (w_redis w)"
  "r_lists (w_redis (snd (getTypingUsers now c w))) = r_lists (w_redis w)"
  "r_lists (w_redis (setMembers now c us w)) = r_lists (w_redis w)"
  "r_lists (w_redis (snd (getMembers now c w))) = r_lists (w_redis w)"
  "r_lists (w_redis (invalidate c w)) = r_lists (w_redis w)"
  by (auto simp: redis_service_defs pop_remove_def Let_def intro!: with_redis_lists)

lemma dispatch_lists:
  "r_lists (w_redis (dispatchNewMessage fetch q p x now w)) =
   r_lists (w_redis (cacheMessage now (pl_channelId p) (payload_json p) (snd (getMembers now (pl_channelId p) w))))"
  by (simp add: dispatchNewMessage_def Let_def split_beta runMessageDelivery_def cacheMessage_def with_redis_def
      split: link.splits)

lemma dispatch_cache:
  assumes "w_link w = Up"
  shows "r_lists (w_redis (dispatchNewMessage fetch q p x now w)) (RedisKeys_messageCache b) =
    (if b = pl_channelId p
     then Some (last_n MESSAGE_CACHE_SIZE (list_at now (r_lists (w_redis w)) (RedisKeys_messageCache b) @ [Stored (payload_json p)]),
                Some (now + 1000 * RedisTtl_messageCacheSeconds))
     else r_lists (w_redis w) (RedisKeys_messageCache b))"
  using assms by (simp add: dispatch_lists cacheMessage_entry) (simp add: cacheMessage_def with_redis_Up Let_def put_ex_def)

text \<open>
  C4: An accepted message is stored once, as a row with exactly the content, nonce, tag, signature,
  key epoch, type and metadata that were sent, under the next sequence number of its channel, which
  is one more than the number of its messages; the channel's preview and the sender's own read mark
  point to it; the rows already there are untouched. The payload that is returned carries the same
  content and is the one that is broadcast to the channel's room, without the sender's own socket.
  While Redis answers, the payload is put behind the cached messages of its channel, of which the last
  fifty are kept, and no other channel's cached messages change.
\<close>

theorem send_appends_message:
  assumes "assertSendLimits input = Inr ()" "send_member (si_userId input) (si_channelId input) (w_db w) = Some (u, c)"
    and "\<not> ch_isArchived c" "si_signature input = [] \<or> u_publicKeySign u = [] \<or>
      verify (si_channelId input @ '':'' @ the (si_encryptedContent input)) (si_signature input) (u_publicKeySign u)"
    and "fault 0 = None" "gen 0 \<notin> ms_id ` set (messages (w_db w))" "sequences_ok (w_db w)"
  shows "\<exists>row w'. send verify fault gen fetch queue_up input exceptSocket now w
        = (Inr (toMessagePayload row (Some (u_username u))), w') \<and>
      messages (w_db w') = messages (w_db w) @ [row] \<and> sequences_ok (w_db w') \<and>
      ms_id row = gen 0 \<and> ms_senderId row = si_userId input \<and> ms_channelId row = si_channelId input \<and>
      ms_sequenceNumber row = int (length (channel_messages (si_channelId input) (w_db w))) + 1 \<and>
      Some (ms_encryptedContent row) = si_encryptedContent input \<and> ms_contentIv row = si_contentIv input \<and>
      ms_contentTag row = si_contentTag input \<and> ms_signature row = si_signature input \<and>
      ms_senderKeyEpoch row = si_senderKeyEpoch input \<and>
      ms_messageType row = (case si_messageType input of None \<Rightarrow> ''TEXT'' | Some t \<Rightarrow> t) \<and>
      ms_metadata row = (if si_metadata input = Some JNull then None else si_metadata input) \<and>
      \<not> ms_isDeleted row \<and> ms_createdAt row = now \<and>
      (let p = toMessagePayload row (Some (u_username u)) in
         Some (pl_encryptedContent p) = si_encryptedContent input \<and> pl_contentIv p = si_contentIv input \<and>
         pl_contentTag p = si_contentTag input \<and> pl_signature p = si_signature input) \<and>
      (\<forall>ch \<in> set (channels (w_db w')). ch_id ch = si_channelId input \<longrightarrow> ch_lastMessageId ch = Some (ms_id row)) \<and>
      (\<forall>m \<in> set (memberships (w_db w')). mb_userId m = si_userId input \<and> mb_channelId m = si_channelId input \<longrightarrow>
         mb_lastReadMessageId m = Some (ms_id row)) \<and>
      (w_server w \<longrightarrow> w_out w' = w_out w @ [Emit [channelRoom (si_channelId input)]
         (emit_except (no_options\<lparr>exceptSocketId := exceptSocket\<rparr>)) ''message:new''
         (payload_json (toMessagePayload row (Some (u_username u))))]) \<and>
      (w_link w = Up \<longrightarrow> (\<forall>b. r_lists (w_redis w') (RedisKeys_messageCache b) =
         (if b = si_channelId input
          then Some (last_n 50 (list_at now (r_lists (w_redis w)) (RedisKeys_messageCache b)
                       @ [Stored (payload_json (toMessagePayload row (Some (u_username u))))]),
                     Some (now + 1000 * RedisTtl_messageCacheSeconds))
          else r_lists (w_redis w) (RedisKeys_messageCache b))))"
proof -
  let ?row = "new_message (gen 0) input (nextSequence (si_channelId input) (w_db w)) now"
  let ?p = "toMessagePayload ?row (Some (u_username u))"
  obtain d where tx: "insert_message_tx (gen 0) input now (w_db w) = Inr (?row, d)"
    using assms(6) insert_message_tx_Inr by blast
  let ?w' = "dispatchNewMessage fetch queue_up ?p exceptSocket now (w\<lparr>w_db := d\<rparr>)"
  have send: "send verify fault gen fetch queue_up input exceptSocket now w = (Inr ?p, ?w')"
    using assms(1-4) insertWithSequence_first[of fault gen, OF assms(5) tx] by (auto simp: send_def Let_def)
  have seq: "ms_sequenceNumber ?row = int (length (channel_messages (si_channelId input) (w_db w))) + 1"
    using nextSequence_length[OF assms(7)] by (simp add: new_message_def)
  have content: "Some (the (si_encryptedContent input)) = si_encryptedContent input"
    using assms(1) by (auto simp: assertSendLimits_def split: if_splits)
  have cache: "r_lists (w_redis ?w') (RedisKeys_messageCache b) =
      (if b = si_channelId input
       then Some (last_n 50 (list_at now (r_lists (w_redis w)) (RedisKeys_messageCache b) @ [Stored (payload_json ?p)]),
                  Some (now + 1000 * RedisTtl_messageCacheSeconds))
       else r_lists (w_redis w) (RedisKeys_messageCache b))" if "w_link w = Up" for b
    using dispatch_cache[of "w\<lparr>w_db := d\<rparr>" fetch queue_up ?p exceptSocket now b] that
    by (simp add: MESSAGE_CACHE_SIZE_def)
  have rows: "messages d = messages (w_db w) @ [?row]"
    "\<forall>ch \<in> set (channels d). ch_id ch = si_channelId input \<longrightarrow> ch_lastMessageId ch = Some (gen 0)"
    "\<forall>m \<in> set (memberships d). mb_userId m = si_userId input \<and> mb_channelId m = si_channelId input \<longrightarrow>
       mb_lastReadMessageId m = Some (gen 0)"
    using tx by (auto simp: insert_message_tx_Inr set_update_where split: if_splits)
  show ?thesis
    by (rule exI[of _ ?row], rule exI[of _ ?w'])
      (use send seq content rows cache sequences_ok_insert[OF assms(7) tx] in
        \<open>simp add: dispatch_out Let_def toMessagePayload_def new_message_def\<close>)
qed

text \<open>A small world: one channel with two members, one of whom sends.\<close>

definition sample_user :: user_row where
  "sample_user = \<lparr>u_id = ''u1'', u_username = ''alice'', u_email = ''a@x'', u_srpSalt = [], u_srpVerifier = [],
     u_argon2Params = JNull, u_publicKey = [], u_encryptedPrivateKey = [], u_keySalt = [],
     u_publicKeySign = [], u_encryptedPrivateKeySign = [], u_keySaltSign = [], u_keyVersion = 1,
     u_status = ''ACTIVE'', u_isActive = True, u_createdAt = 0, u_updatedAt = 0, u_lastLoginAt = None\<rparr>"

definition sample_channel :: channel_row where
  "sample_channel = \<lparr>ch_id = ''c1'', ch_name = None, ch_type = ''GROUP'', ch_isArchived = False,
     ch_lastMessageId = None, ch_lastMessageAt = None, ch_createdAt = 0, ch_updatedAt = 0\<rparr>"

definition sample_membership :: "uid \<Rightarrow> membership_row" where
  "sample_membership u = \<lparr>mb_id = u, mb_role = ''ADMIN'', mb_joinedAt = 0, mb_leftAt = None, mb_muted = False,
     mb_lastReadMessageId = None, mb_lastReadAt = None, mb_userId = u, mb_channelId = ''c1''\<rparr>"

definition sample_db :: db where
  "sample_db = empty_db\<lparr>users := [sample_user], channels := [sample_channel],
     memberships := [sample_membership ''u1'', sample_membership ''u2'']\<rparr>"

definition sample_world :: world where
  "sample_world = empty_world\<lparr>w_db := sample_db\<rparr>"

definition sample_input :: SendMessageInput where
  "sample_input = \<lparr>si_userId = ''u1'', si_channelId = ''c1'', si_encryptedContent = Some ''x'',
     si_contentIv = ''iv'', si_contentTag = ''tag'', si_signature = [], si_senderKeyEpoch = 0,
     si_messageType = None, si_metadata = None\<rparr>"

lemmas sample_defs = sample_user_def sample_channel_def sample_membership_def sample_db_def sample_world_def sample_input_def

lemma sample_send_ok:
  "assertSendLimits sample_input = Inr ()"
  "send_member ''u1'' ''c1'' sample_db = Some (sample_user, sample_channel)"
  "sequences_ok sample_db"
  by (simp_all add: assertSendLimits_def send_member_def sequences_ok_def channel_messages_def sample_defs
      utf8_len_def MAX_ENCRYPTED_CONTENT_BYTES_def metadata_limits_def)

theorem send_appends_message_witness:
  "\<exists>row w'. messages (w_db w') = [row] \<and> ms_sequenceNumber row = 1 \<and>
     send (\<lambda>_ _ _. False) (\<lambda>_. None) (\<lambda>_. ''m1'') (\<lambda>_. None) True sample_input None 5 sample_world
       = (Inr (toMessagePayload row (Some ''alice'')), w')"
  using send_appends_message[of sample_input sample_world sample_user sample_channel "\<lambda>_ _ _. False" "\<lambda>_. None"
      "\<lambda>_. ''m1''" "\<lambda>_. None" True None 5] sample_send_ok
  by (auto simp: sample_world_def sample_input_def sample_db_def sample_channel_def sample_user_def channel_messages_def)

lemma collisions_skipped:
  assumes "\<forall>i < k. \<exists>e. fault i = Some e \<and> err_code e = Some (JStr ''23505'')" "k < MAX_SEQUENCE_RETRIES"
  shows "insertWithSequence fault gen input now d = insert_attempts fault gen input now (MAX_SEQUENCE_RETRIES - k) k d"
  using assms
proof (induction k)
  case 0
  then show ?case by (simp add: insertWithSequence_def)
next
  case (Suc k)
  then obtain e where e: "fault k = Some e" "err_code e = Some (JStr ''23505'')" by blast
  have "MAX_SEQUENCE_RETRIES - k = Suc (MAX_SEQUENCE_RETRIES - Suc k)" "k < MAX_SEQUENCE_RETRIES - 1"
    using Suc.prems(2) by auto
  with Suc e show ?case by simp
qed

lemma attempts_step:
  assumes "k < MAX_SEQUENCE_RETRIES"
  shows "insert_attempts fault gen input now (MAX_SEQUENCE_RETRIES - k) k d =
    (case (case fault k of Some e \<Rightarrow> Inl e | None \<Rightarrow> insert_message_tx (gen k) input now d) of
        Inr r \<Rightarrow> Inr r
      | Inl e \<Rightarrow>
          if err_code e = Some (JStr ''23505'') \<and> k < MAX_SEQUENCE_RETRIES - 1
          then insert_attempts fault gen input now (MAX_SEQUENCE_RETRIES - Suc k) (Suc k) d
          else Inl e)"
proof -
  have "MAX_SEQUENCE_RETRIES - k = Suc (MAX_SEQUENCE_RETRIES - Suc k)" using assms by simp
  then show ?thesis by (simp only: insert_attempts.simps)
qed

lemma err_code_pg_error [simp]: "err_code (pg_error c) = None"
  by (simp add: pg_error_def wrap_cause_def)

lemma insertWithSequence_at:
  assumes "\<forall>i < k. \<exists>e. fault i = Some e \<and> err_code e = Some (JStr ''23505'')" "k < MAX_SEQUENCE_RETRIES"
  shows "fault k = None \<Longrightarrow> insertWithSequence fault gen input now d = insert_message_tx (gen k) input now d"
    and "fault k = Some e \<Longrightarrow> err_code e \<noteq> Some (JStr ''23505'') \<or> Suc k = MAX_SEQUENCE_RETRIES \<Longrightarrow>
      insertWithSequence fault gen input now d = Inl e"
  unfolding collisions_skipped[OF assms] attempts_step[OF assms(2)]
  by (auto dest: insert_message_tx_Inl split: sum.splits)

text \<open>
  C38: An attempt that fails with the code \<open>23505\<close> on the thrown value itself is repeated, with a new
  id, from the tables as they are, and the third such failure is thrown. Any other thrown value, of
  any class and code, ends the attempts at once; a collision inside the transaction is such a value,
  since the query builder keeps the driver's code on the \<open>cause\<close>. An attempt without a failure from
  outside is the insertion itself.
\<close>

theorem sequence_collisions_retried:
  assumes "\<forall>i < k. \<exists>e. fault i = Some e \<and> err_code e = Some (JStr ''23505'')"
  shows "(k < 3 \<and> fault k = None \<longrightarrow>
      insertWithSequence fault gen input now d = insert_message_tx (gen k) input now d) \<and>
    (k < 3 \<and> fault k = None \<and> gen k \<in> ms_id ` set (messages d) \<longrightarrow>
      insertWithSequence fault gen input now d = Inl (pg_error ''23505'')) \<and>
    (k < 3 \<and> fault k = Some e \<and> err_code e \<noteq> Some (JStr ''23505'') \<longrightarrow>
      insertWithSequence fault gen input now d = Inl e) \<and>
    (k < 3 \<and> fault k = Some (pg_error c) \<longrightarrow> insertWithSequence fault gen input now d = Inl (pg_error c)) \<and>
    (k = 3 \<longrightarrow> insertWithSequence fault gen input now d = Inl (the (fault 2)))"
proof -
  have max: "MAX_SEQUENCE_RETRIES = 3" by (simp add: MAX_SEQUENCE_RETRIES_def)
  note at = insertWithSequence_at[OF assms, unfolded max]
  have clash: "insert_message_tx (gen k) input now d = Inl (pg_error ''23505'')" if "gen k \<in> ms_id ` set (messages d)"
    using that insert_message_tx_Inr insert_message_tx_Inl by (cases "insert_message_tx (gen k) input now d") fastforce+
  have three: "insertWithSequence fault gen input now d = Inl (the (fault 2))" if "k = 3"
  proof -
    from assms[rule_format, of 2] that obtain e where e: "fault 2 = Some e" by auto
    have "insertWithSequence fault gen input now d = Inl e"
      by (rule insertWithSequence_at(2)[of 2]) (use assms that e in \<open>auto simp: max\<close>)
    with e show ?thesis by simp
  qed
  show ?thesis using at clash three by auto
qed

theorem sequence_collisions_retried_witness:
  "insertWithSequence (\<lambda>i. if i = 0 then Some (Other (driver_error ''23505'')) else None) (\<lambda>_. ''m1'') sample_input 5 sample_db
     = insert_message_tx ''m1'' sample_input 5 sample_db \<and>
   insertWithSequence (\<lambda>i. if i = 0 then Some (Other (driver_error ''23505'')) else Some (ConflictException ''x''))
     (\<lambda>_. ''m1'') sample_input 5 sample_db = Inl (ConflictException ''x'')"
  using sequence_collisions_retried[of 1 "\<lambda>i. if i = 0 then Some (Other (driver_error ''23505'')) else None"]
    sequence_collisions_retried[of 1 "\<lambda>i. if i = 0 then Some (Other (driver_error ''23505'')) else Some (ConflictException ''x'')"]
  by (simp add: driver_error_def exception_defs)

section \<open>History pages\<close>

text \<open>The messages of a channel in the order of their sequence numbers.\<close>

definition history :: "cid \<Rightarrow> db \<Rightarrow> message_row list" where
  "history channelId d = sort_key ms_sequenceNumber (channel_messages channelId d)"

definition payloads :: "db \<Rightarrow> message_row list \<Rightarrow> json list" where
  "payloads d rows = map (\<lambda>r. payload_json (row_payload d r)) rows"

lemma sorted_int_range:
  assumes "set xs = {1..int (length xs)}"
  shows "distinct xs" "sorted xs \<Longrightarrow> xs = [1..int (length xs)]"
proof -
  have "card (set xs) = length xs" using assms by simp
  then show "distinct xs" by (rule card_distinct)
  then show "sorted xs \<Longrightarrow> xs = [1..int (length xs)]"
    using assms by (intro sorted_distinct_set_unique) auto
qed

lemma history_seqs:
  assumes "sequences_ok d"
  shows "map ms_sequenceNumber (history c d) = [1..int (length (history c d))]"
    and "inj_on ms_sequenceNumber (set (channel_messages c d))" "distinct (history c d)"
proof -
  let ?xs = "map ms_sequenceNumber (history c d)"
  have set: "set ?xs = {1..int (length ?xs)}"
    using assms by (simp add: sequences_ok_def history_def)
  then show "?xs = [1..int (length (history c d))]"
    using sorted_int_range(2)[OF set] by (simp add: history_def)
  have "distinct ?xs" using sorted_int_range(1)[OF set] .
  then show "inj_on ms_sequenceNumber (set (channel_messages c d))" "distinct (history c d)"
    by (simp_all add: distinct_map history_def)
qed

lemma history_nth_seq:
  assumes "sequences_ok d" "i < length (history c d)"
  shows "ms_sequenceNumber (history c d ! i) = int i + 1"
proof -
  have "map ms_sequenceNumber (history c d) ! i = [1..int (length (history c d))] ! i"
    by (simp only: history_seqs(1)[OF assms(1)])
  then show ?thesis using assms(2) by simp
qed

lemma filter_prefix:
  "(\<And>i. i < length xs \<Longrightarrow> P (xs ! i) \<longleftrightarrow> i < n) \<Longrightarrow> filter P xs = take n xs"
proof (induction xs arbitrary: n)
  case (Cons x xs)
  have p: "P (xs ! i) \<longleftrightarrow> i < n - 1" if "i < length xs" for i
    using Cons.prems[of "Suc i"] that by auto
  show ?case
    using Cons.prems[of 0] Cons.IH[OF p] by (cases n) auto
qed simp

lemma filter_history_before:
  assumes "sequences_ok d"
  shows "filter (\<lambda>m. ms_sequenceNumber m < k) (history c d) = take (nat (k - 1)) (history c d)"
proof (rule filter_prefix)
  fix i assume "i < length (history c d)"
  then show "ms_sequenceNumber (history c d ! i) < k \<longleftrightarrow> i < nat (k - 1)"
    using history_nth_seq[OF assms, of i c] by linarith
qed

lemma page_rows_desc:
  assumes "sequences_ok d"
  shows "page_rows d c None Latest = rev (history c d)" "page_rows d c None Before = rev (history c d)"
    "page_rows d c (Some k) Latest = rev (history c d)"
    "page_rows d c (Some k) Before = rev (take (nat (k - 1)) (history c d))"
proof -
  have rev: "sort_key (\<lambda>m. - ms_sequenceNumber m) (filter P (channel_messages c d)) = rev (filter P (history c d))" for P
  proof (rule sort_key_inj_key_eq)
    show "mset (filter P (channel_messages c d)) = mset (rev (filter P (history c d)))"
      by (simp add: history_def)
    show "inj_on (\<lambda>m. - ms_sequenceNumber m) (set (filter P (channel_messages c d)))"
      using history_seqs(2)[OF assms, of c] by (auto simp: inj_on_def)
    have "sorted (map ms_sequenceNumber (filter P (history c d)))"
      unfolding history_def by (simp add: sorted_filter)
    then show "sorted (map (\<lambda>m. - ms_sequenceNumber m) (rev (filter P (history c d))))"
      by (simp add: sorted_map sorted_wrt_rev)
  qed
  show "page_rows d c None Latest = rev (history c d)" "page_rows d c None Before = rev (history c d)"
    "page_rows d c (Some k) Latest = rev (history c d)"
    using rev[of "\<lambda>_. True"] by (simp_all add: page_rows_def Let_def)
  show "page_rows d c (Some k) Before = rev (take (nat (k - 1)) (history c d))"
    using rev filter_history_before[OF assms] by (simp add: page_rows_def Let_def)
qed

lemma database_page_desc:
  assumes "page_rows d c cursor mode = rev rows" "mode \<noteq> Since" "0 < limit"
  shows "database_page d c limit cursor mode =
    \<lparr>mp_messages = attachReactions d (payloads d (last_n limit rows)),
     mp_nextCursor = (if limit < length rows then Some (ms_sequenceNumber (hd (last_n limit rows))) else None),
     mp_hasMore = limit < length rows, mp_source = Database\<rparr>"
proof -
  have "rev (take limit (rev rows)) = last_n limit rows" by (simp add: last_n_def rev_take)
  moreover have "take limit (take (Suc limit) (rev rows)) = take limit (rev rows)" by simp
  moreover have "take (Suc limit) (rev rows) = take limit (rev rows)" if "\<not> limit < length rows"
    using that by simp
  moreover have "last_n limit rows \<noteq> []" if "limit < length rows" using that assms(3) by (simp add: last_n_def)
  ultimately show ?thesis
    using assms by (auto simp: database_page_def Let_def payloads_def comp_def row_payload_def hd_map min_def)
qed




definition unique_ids :: "message_row list \<Rightarrow> bool" where
  "unique_ids rows = distinct (map ms_id rows)"

lemma not_deleted_payload [simp]: "not_deleted (payload_json p) = (\<not> pl_isDeleted p)"
  by (simp add: not_deleted_def)

lemma row_payload_simps [simp]:
  "pl_id (row_payload d r) = ms_id r" "pl_sequenceNumber (row_payload d r) = ms_sequenceNumber r"
  "pl_isDeleted (row_payload d r) = ms_isDeleted r" "pl_channelId (row_payload d r) = ms_channelId r"
  by (simp_all add: row_payload_def)


lemma history_set: "set (history c d) = set (channel_messages c d)" "length (history c d) = length (channel_messages c d)"
  "set (channel_messages c d) \<subseteq> set (messages d)"
  by (auto simp: history_def channel_messages_def)


lemma keys_unique_ids: "keys_unique message_conflict rows \<Longrightarrow> unique_ids rows"
  unfolding keys_unique_def unique_ids_def
  by (induction rows) (auto simp: message_conflict_def)

section \<open>The cached page\<close>

text \<open>Every cached list is a final segment of the channel's history.\<close>

definition cache_coherent :: "world \<Rightarrow> bool" where
  "cache_coherent w \<longleftrightarrow> (\<forall>c v e. r_lists (w_redis w) (RedisKeys_messageCache c) = Some (v, e) \<longrightarrow>
     (\<exists>k. v = map Stored (payloads (w_db w) (last_n k (history c (w_db w))))))"

lemma contiguous_upto: "contiguous [a..b]"
proof (induction a b rule: upto.induct)
  case (1 a b)
  consider "b < a" | "a = b" | "a + 1 \<le> b" by linarith
  then show ?case
  proof cases
    case 3
    with 1 show ?thesis by (simp add: upto_rec1)
  qed simp_all
qed

lemma last_n_history_seqs:
  assumes "sequences_ok d" "k \<le> length (history c d)"
  shows "map ms_sequenceNumber (last_n k (history c d)) = [int (length (history c d) - k) + 1..int (length (history c d))]"
proof -
  let ?n = "length (history c d)"
  have "map ms_sequenceNumber (last_n k (history c d)) = drop (?n - k) [1..int ?n]"
    using history_seqs(1)[OF assms(1), of c] by (simp add: last_n_def flip: drop_map)
  also have "\<dots> = [int (?n - k) + 1..int ?n]"
    using assms(2) by (intro nth_equalityI) (simp_all add: of_nat_diff)
  finally show ?thesis .
qed

lemma seq_of_payload [simp]: "seq_of (payload_json p) = pl_sequenceNumber p"
  by simp

declare seq_of.simps [simp del]

lemma seq_of_payloads [simp]: "map seq_of (payloads d rows) = map ms_sequenceNumber rows"
  by (simp add: payloads_def)

lemma well_formed_payload [simp]: "well_formed_item (payload_json p)"
  by (simp add: well_formed_item_def)

lemma payload_not_null [simp]: "payload_json p \<noteq> JNull" "JNull \<noteq> payload_json p"
  by (simp_all add: payload_json_def)

lemma getCachedPage_items:
  assumes "getRecentMessages now c L w = payloads d rows" "length rows = L" "0 < L" "map ms_sequenceNumber rows = [a..b]"
  shows "getCachedPage now c L w = (Inr (Some \<lparr>mp_messages = attachReactions (w_db w) (payloads d rows),
     mp_nextCursor = (if 1 < a then Some a else None), mp_hasMore = 1 < a, mp_source = Cache\<rparr>), w)"
proof -
  have "sort_key seq_of (payloads d rows) = payloads d rows"
    by (rule sort_key_id_if_sorted) (simp add: assms(4))
  moreover have "contiguous (map seq_of (payloads d rows))" by (simp add: assms(4) contiguous_upto)
  moreover have "list_all well_formed_item (payloads d rows)" "JNull \<notin> set (payloads d rows)"
    by (auto simp: payloads_def list_all_iff)
  moreover have "seq_of (hd (payloads d rows)) = a"
  proof -
    obtain r rs where "rows = r # rs" using assms(2,3) by (cases rows) auto
    moreover from this assms(4) have "ms_sequenceNumber r = a" by (cases "a \<le> b") (simp_all add: upto_rec1)
    ultimately show ?thesis by (simp add: payloads_def)
  qed
  moreover have "length (payloads d rows) = L" using assms(2) by (simp add: payloads_def)
  ultimately show ?thesis by (simp add: getCachedPage_def Let_def assms(1))
qed

lemma recent_messages_coherent:
  assumes "cache_coherent w" "0 < L" "L \<le> length (getRecentMessages now c L w)"
  shows "getRecentMessages now c L w = payloads (w_db w) (last_n L (history c (w_db w)))" "L \<le> length (history c (w_db w))"
    "w_link w = Up"
proof -
  let ?d = "w_db w" and ?h = "history c (w_db w)"
  have "\<exists>k. w_link w = Up \<and> list_at now (r_lists (w_redis w)) (RedisKeys_messageCache c) = map Stored (payloads ?d (last_n k ?h))"
    using assms by (cases "w_link w")
      (auto simp: getRecentMessages_def with_redis_def list_at_def live_def cache_coherent_def last_n_def
        split: option.splits if_splits)
  then obtain k where up: "w_link w = Up"
    and at: "list_at now (r_lists (w_redis w)) (RedisKeys_messageCache c) = map Stored (payloads ?d (last_n k ?h))" by blast
  have got: "getRecentMessages now c L w = last_n L (payloads ?d (last_n k ?h))"
    using getRecentMessages_stored[OF up at] .
  then have "L \<le> k" and "L \<le> length ?h" using assms(3) by (auto simp: payloads_def)
  then show "getRecentMessages now c L w = payloads ?d (last_n L ?h)" "L \<le> length ?h" "w_link w = Up"
    using got up by (simp_all add: payloads_def last_n_map last_n_last_n)
qed

lemma getRecentMessages_length: "length (getRecentMessages now c n w) \<le> n"
  by (cases "w_link w") (auto simp: getRecentMessages_def with_redis_def Let_def)

lemma getCachedPage_coherent:
  assumes "cache_coherent w" "sequences_ok (w_db w)" "0 < limit"
  shows "getCachedPage now c limit w =
    (Inr (if limit \<le> length (getRecentMessages now c limit w)
          then Some ((database_page (w_db w) c limit None Before)\<lparr>mp_source := Cache\<rparr>) else None), w)"
proof (cases "length (getRecentMessages now c limit w) < limit")
  case True
  then show ?thesis by (simp add: getCachedPage_def)
next
  case False
  let ?d = "w_db w" and ?h = "history c (w_db w)"
  note got = recent_messages_coherent[OF assms(1,3), of now c]
  have le: "limit \<le> length ?h" using got(2) False by simp
  note seqs = last_n_history_seqs[OF assms(2) le]
  have "last_n limit ?h \<noteq> []" using le assms(3) by (simp add: last_n_def)
  then have "ms_sequenceNumber (hd (last_n limit ?h)) = int (length ?h - limit) + 1"
    using seqs le assms(3) by (cases "last_n limit ?h") (auto simp: upto_rec1)
  with getCachedPage_items[OF got(1) _ assms(3) seqs] False le show ?thesis
    by (simp add: database_page_desc[OF page_rows_desc(2)[OF assms(2)] _ assms(3)])
qed



lemma safe_limit_pos [simp]: "0 < safe_limit limit"
  by (simp add: safe_limit_def)





text \<open>
  C12: A first page is the page the database gives: same messages, same reactions, same cursor, as
  long as every cached list is a final segment of its channel's history. It is served from the cache
  exactly when the page has at most fifty messages and the cache holds that many; reading changes
  nothing.
\<close>

theorem cached_page_is_database_page:
  assumes "cache_coherent w" "sequences_ok (w_db w)" "is_channel_member u c (w_db w)" "mode \<noteq> Since"
  shows "\<exists>page w'. getMessages c u limit None mode now w = (Inr page, w') \<and> w' = w \<and>
    page\<lparr>mp_source := Database\<rparr> = database_page (w_db w) c (safe_limit limit) None mode \<and>
    (mp_source page = Cache \<longleftrightarrow> safe_limit limit \<le> 50 \<and>
       length (getRecentMessages now c (safe_limit limit) w) = safe_limit limit)"
proof -
  have same: "database_page (w_db w) c n None mode = database_page (w_db w) c n None Before" for n
    using assms(4) page_rows_desc(1,2)[OF assms(2), of c] by (cases mode) (auto simp: database_page_def Let_def)
  have src: "(database_page (w_db w) c n None Before)\<lparr>mp_source := Database\<rparr> = database_page (w_db w) c n None Before"
    "mp_source (database_page (w_db w) c n None Before) = Database" for n
    by (simp_all add: database_page_def Let_def)
  have "length (getRecentMessages now c n w) \<le> n" for n by (rule getRecentMessages_length)
  then have full: "n \<le> length (getRecentMessages now c n w) \<longleftrightarrow> length (getRecentMessages now c n w) = n" for n
    by (metis order.antisym order.refl)
  show ?thesis
    using assms(3,4) getCachedPage_coherent[OF assms(1,2) safe_limit_pos, of now c limit] full[of "safe_limit limit"]
    by (auto simp: getMessages_def Let_def MESSAGE_CACHE_SIZE_def same src)
qed

definition sample_message :: "mid \<Rightarrow> int \<Rightarrow> message_row" where
  "sample_message i n = new_message i sample_input n n"

definition sample_chat :: world where
  "sample_chat = sample_world\<lparr>w_db := sample_db\<lparr>
     channels := [sample_channel\<lparr>ch_lastMessageId := Some ''m2''\<rparr>],
     messages := [sample_message ''m1'' 1, sample_message ''m2'' 2]\<rparr>\<rparr>"

lemma sample_chat_ok:
  "sequences_ok (w_db sample_chat)" "db_keys_ok (w_db sample_chat)" "is_channel_member ''u1'' ''c1'' (w_db sample_chat)"
  "cache_coherent sample_chat" "members_coherent sample_chat" "zsets_ok (w_redis sample_chat)"
  "w_link sample_chat = Up" "w_server sample_chat"
  by (auto simp: sample_chat_def sample_message_def sequences_ok_def channel_messages_def db_keys_ok_def keys_unique_def
      conflict_defs is_channel_member_def cache_coherent_def members_coherent_def zsets_ok_empty sample_defs)


text \<open>The same channel with both messages cached: a page of two comes from the cache.\<close>

definition sample_cached :: world where
  "sample_cached = sample_chat\<lparr>w_redis := empty_redis\<lparr>r_lists := (\<lambda>_. None)(RedisKeys_messageCache ''c1'' \<mapsto>
     (map Stored (payloads (w_db sample_chat) (history ''c1'' (w_db sample_chat))), None))\<rparr>\<rparr>"

lemma sample_cached_ok:
  "cache_coherent sample_cached" "w_db sample_cached = w_db sample_chat" "w_link sample_cached = Up"
  "getRecentMessages 9 ''c1'' 1 sample_cached = last_n 1 (payloads (w_db sample_chat) (history ''c1'' (w_db sample_chat)))"
proof -
  let ?h = "history ''c1'' (w_db sample_chat)"
  have "last_n (length ?h) ?h = ?h" by (simp add: last_n_def)
  then show "cache_coherent sample_cached"
    unfolding cache_coherent_def sample_cached_def by (auto intro!: exI[of _ "length ?h"])
  show "w_db sample_cached = w_db sample_chat" "w_link sample_cached = Up" by (simp_all add: sample_cached_def sample_chat_ok)
  show "getRecentMessages 9 ''c1'' 1 sample_cached = last_n 1 (payloads (w_db sample_chat) ?h)"
    by (rule getRecentMessages_stored) (simp_all add: sample_cached_def sample_chat_ok list_at_def live_def)
qed

theorem cached_page_is_database_page_witness:
  "\<exists>page. getMessages ''c1'' ''u1'' 2 None Latest 9 sample_cached = (Inr page, sample_cached) \<and> mp_source page = Cache \<and>
    page\<lparr>mp_source := Database\<rparr> = database_page (w_db sample_cached) ''c1'' (safe_limit 2) None Latest \<and>
    length (mp_messages page) = 2"
proof -
  have len: "length (history ''c1'' (w_db sample_chat)) = 2"
    by (simp add: history_def channel_messages_def sample_chat_def sample_message_def sample_defs)
  have "list_at 9 (r_lists (w_redis sample_cached)) (RedisKeys_messageCache ''c1'') =
      map Stored (payloads (w_db sample_chat) (history ''c1'' (w_db sample_chat)))"
    by (simp add: sample_cached_def list_at_def live_def)
  from getRecentMessages_stored[OF sample_cached_ok(3) this, of 2]
  have two: "length (getRecentMessages 9 ''c1'' (safe_limit 2) sample_cached) = safe_limit 2" "safe_limit 2 = 2"
    using len by (simp_all add: safe_limit_def payloads_def)
  have "sequences_ok (w_db sample_cached)" "is_channel_member ''u1'' ''c1'' (w_db sample_cached)"
    using sample_chat_ok sample_cached_ok(2) by simp_all
  from cached_page_is_database_page[OF sample_cached_ok(1) this, of Latest 2 9] two
  obtain page where page: "getMessages ''c1'' ''u1'' 2 None Latest 9 sample_cached = (Inr page, sample_cached)"
    "page\<lparr>mp_source := Database\<rparr> = database_page (w_db sample_cached) ''c1'' 2 None Latest" "mp_source page = Cache"
    by auto
  have "length (mp_messages (page\<lparr>mp_source := Database\<rparr>)) = 2"
    unfolding page(2) sample_cached_ok(2) database_page_desc[OF page_rows_desc(1)[OF sample_chat_ok(1)], of 2, simplified]
    using len by (simp add: attachReactions_def payloads_def)
  then have "length (mp_messages page) = 2" by simp
  with page two(2) show ?thesis by simp
qed

section \<open>The cache follows the table\<close>

lemma username_of_unique:
  assumes "keys_unique user_conflict (users d)" "u \<in> set (users d)"
  shows "username_of d (u_id u) = Some (u_username u)"
proof -
  have "x = u" if "x \<in> set (users d)" "u_id x = u_id u" for x
    using users_tab.unique_eq[OF assms(1) that(1) assms(2)] that(2) by (simp add: user_conflict_def)
  moreover obtain x where x: "first_row (filter (\<lambda>x. u_id x = u_id u) (users d)) = Some x"
    using assms(2) by (cases "first_row (filter (\<lambda>x. u_id x = u_id u) (users d))") (auto simp: filter_empty_conv)
  ultimately have "x = u" using first_row_filterD[OF x] by blast
  with x show ?thesis by (simp add: username_of_def)
qed

lemma insort_key_snoc: "f x \<le> f z \<Longrightarrow> insort_key f x (ys @ [z]) = insort_key f x ys @ [z]"
  by (induction ys) auto

lemma sort_key_snoc: "\<forall>m \<in> set xs. f m \<le> f z \<Longrightarrow> sort_key f (xs @ [z]) = sort_key f xs @ [z]"
  by (induction xs) (auto simp: insort_key_snoc)

lemma history_snoc:
  assumes "insert_message_tx i input now d = Inr (row, d')"
  shows "history c d' = history c d @ (if c = si_channelId input then [row] else [])"
proof (cases "c = si_channelId input")
  case True
  have le: "\<forall>m \<in> set (channel_messages c d). ms_sequenceNumber m \<le> ms_sequenceNumber row"
    using assms nextSequence_fresh[of _ d c] True
    by (auto simp: insert_message_tx_Inr channel_messages_def less_imp_le)
  moreover have "channel_messages c d' = channel_messages c d @ [row]"
    using assms True by (auto simp: insert_message_tx_Inr channel_messages_snoc)
  ultimately show ?thesis using True le by (simp add: history_def sort_key_snoc)
next
  case False
  then have "channel_messages c d' = channel_messages c d"
    using assms by (auto simp: insert_message_tx_Inr channel_messages_snoc)
  with False show ?thesis by (simp add: history_def)
qed

lemma payloads_users: "users d' = users d \<Longrightarrow> payloads d' rows = payloads d rows"
  by (simp add: payloads_def row_payload_def username_of_def)

lemma last_n_Suc_snoc: "last_n (Suc k) (xs @ [x]) = last_n k xs @ [x]"
  by (cases "k \<le> length xs") (simp_all add: last_n_def Suc_diff_le)

lemma cached_list:
  assumes "cache_coherent w"
  shows "\<exists>k. list_at now (r_lists (w_redis w)) (RedisKeys_messageCache c) = map Stored (payloads (w_db w) (last_n k (history c (w_db w))))"
proof (cases "list_at now (r_lists (w_redis w)) (RedisKeys_messageCache c) = []")
  case True
  then show ?thesis by (intro exI[of _ 0]) (simp add: payloads_def last_n_def)
next
  case False
  with assms show ?thesis
    by (auto simp: list_at_def live_def cache_coherent_def split: option.splits if_splits)
qed

lemma cache_coherent_send:
  assumes "send verify fault gen fetch q input x now w = (Inr payload, w')"
    and "cache_coherent w" "w_link w = Up" "keys_unique user_conflict (users (w_db w))"
  shows "cache_coherent w'"
proof -
  obtain u c row d i where s: "send_member (si_userId input) (si_channelId input) (w_db w) = Some (u, c)"
    "insert_message_tx (gen i) input now (w_db w) = Inr (row, d)" "payload = toMessagePayload row (Some (u_username u))"
    "w' = dispatchNewMessage fetch q payload x now (w\<lparr>w_db := d\<rparr>)"
    using assms(1) by (rule send_commit)
  let ?c = "si_channelId input"
  have row: "row = new_message (gen i) input (nextSequence ?c (w_db w)) now" and users: "users d = users (w_db w)"
    using s(2) by (auto simp: insert_message_tx_Inr)
  have "username_of d (si_userId input) = Some (u_username u)"
    using username_of_unique[of d u] send_member_Some(1,2)[OF s(1)] assms(4) users by simp
  then have pay: "payload = row_payload d row" using s(3) row by (simp add: row_payload_def)
  let ?at = "list_at now (r_lists (w_redis w)) (RedisKeys_messageCache ?c)"
  obtain k where at: "?at = map Stored (payloads d (last_n k (history ?c (w_db w))))"
    using cached_list[OF assms(2)] payloads_users[OF users] by metis
  have new: "r_lists (w_redis w') (RedisKeys_messageCache ?c) =
      Some (last_n MESSAGE_CACHE_SIZE (?at @ [Stored (payload_json payload)]), Some (now + 1000 * RedisTtl_messageCacheSeconds))"
    using s(4) assms(3) row pay by (simp add: dispatch_lists cacheMessage_entry)
  have "?at @ [Stored (payload_json payload)] = map Stored (payloads d (last_n (Suc k) (history ?c d)))"
    using at pay history_snoc[OF s(2), of ?c] by (simp add: payloads_def last_n_Suc_snoc)
  then have "last_n MESSAGE_CACHE_SIZE (?at @ [Stored (payload_json payload)]) =
      map Stored (payloads d (last_n (min MESSAGE_CACHE_SIZE (Suc k)) (history ?c d)))"
    by (simp add: payloads_def last_n_map last_n_last_n min_def) (simp add: last_n_def)
  with new have this_ch: "\<exists>k. v = map Stored (payloads d (last_n k (history ?c d)))"
    if "r_lists (w_redis w') (RedisKeys_messageCache ?c) = Some (v, e)" for v e
    using that by auto
  have other: "r_lists (w_redis w') (RedisKeys_messageCache b) = r_lists (w_redis w) (RedisKeys_messageCache b)" if "b \<noteq> ?c" for b
    using s(4) that row pay by (simp add: dispatch_lists cacheMessage_def with_redis_def Let_def put_ex_def split: link.splits)
  show ?thesis
    unfolding cache_coherent_def
  proof (intro allI impI)
    fix b v e
    assume v: "r_lists (w_redis w') (RedisKeys_messageCache b) = Some (v, e)"
    have "w_db w' = d" using s(4) by simp
    moreover have "\<exists>k. v = map Stored (payloads (w_db w) (last_n k (history b (w_db w))))" if "b \<noteq> ?c"
      using other[OF that] v assms(2) unfolding cache_coherent_def by metis
    ultimately show "\<exists>k. v = map Stored (payloads (w_db w') (last_n k (history b (w_db w'))))"
      using this_ch v history_snoc[OF s(2), of b] payloads_users[OF users] by (cases "b = ?c") auto
  qed
qed

section \<open>Deleting\<close>

lemma deleteMessage_Inr:
  assumes "deleteMessage u i now w = (Inr c, w')"
  obtains msg where "msg \<in> set (messages (w_db w))" "ms_id msg = i" "ms_senderId msg = u" "ms_channelId msg = c"
    "w_db w' = (if ms_isDeleted msg then w_db w else delete_message_tx i c now (w_db w))"
    "w_redis w' = w_redis (invalidateMessages c w)" "w_link w' = w_link w"
    "w_out w' = w_out w @ (if w_server w then [Emit [channelRoom c] [] ''message:deleted''
       (JObj [(''messageId'', JStr i), (''channelId'', JStr c)])] else [])"
proof -
  obtain msg where m: "first_row (filter (\<lambda>m. ms_id m = i) (messages (w_db w))) = Some msg" "ms_senderId msg = u"
    using assms by (auto simp: deleteMessage_def split: option.splits if_splits)
  then show thesis
    using assms first_row_filterD[OF m(1)]
    by (intro that) (auto simp: deleteMessage_def Let_def emitToChannel_def send_out_def emit_except_def no_options_def
        invalidateMessages_def with_redis_def split: if_splits link.splits)
qed

lemma deleteMessage_Inl: "fst (deleteMessage u i now w) = Inl e \<Longrightarrow> snd (deleteMessage u i now w) = w"
  by (auto simp: deleteMessage_def Let_def split: option.splits if_splits)

lemma filter_update_other:
  "(\<And>r. r \<in> set rows \<Longrightarrow> P r \<Longrightarrow> \<not> Q r \<and> \<not> Q (f r)) \<Longrightarrow> filter Q (update_where P f rows) = filter Q rows"
  by (induction rows) auto

lemma unique_ids_eq: "unique_ids rows \<Longrightarrow> a \<in> set rows \<Longrightarrow> b \<in> set rows \<Longrightarrow> ms_id a = ms_id b \<Longrightarrow> a = b"
  by (auto simp: unique_ids_def distinct_map dest: inj_onD)

lemma history_delete_other:
  assumes "unique_ids (messages d)" "msg \<in> set (messages d)" "b \<noteq> ms_channelId msg"
  shows "history b (delete_message_tx (ms_id msg) c now d) = history b d"
proof -
  have "channel_messages b (delete_message_tx (ms_id msg) c now d) = channel_messages b d"
    unfolding channel_messages_def delete_message_tx_simps
    by (rule filter_update_other) (use assms unique_ids_eq[OF assms(1) _ assms(2)] in auto)
  then show ?thesis by (simp add: history_def)
qed

lemma cache_coherent_delete:
  assumes "deleteMessage u i now w = (Inr c, w')" "cache_coherent w" "w_link w = Up" "unique_ids (messages (w_db w))"
  shows "cache_coherent w'"
proof -
  obtain msg where m: "msg \<in> set (messages (w_db w))" "ms_id msg = i" "ms_channelId msg = c"
    "w_db w' = (if ms_isDeleted msg then w_db w else delete_message_tx i c now (w_db w))"
    "w_redis w' = w_redis (invalidateMessages c w)"
    using assms(1) by (rule deleteMessage_Inr)
  have lists: "r_lists (w_redis w') (RedisKeys_messageCache b) =
      (if b = c then None else r_lists (w_redis w) (RedisKeys_messageCache b))" for b
    using m(5) assms(3) by (simp add: invalidateMessages_def with_redis_Up del_key_def)
  have "history b (w_db w') = history b (w_db w)" if "b \<noteq> c" for b
    using m history_delete_other[OF assms(4) m(1), of b c now] that by auto
  moreover have "users (w_db w') = users (w_db w)" using m(4) by (simp add: delete_message_tx_simps)
  ultimately show ?thesis
    using assms(2) lists payloads_users[of "w_db w'" "w_db w"] unfolding cache_coherent_def by (metis option.distinct(1))
qed

text \<open>The newest message of a channel that has not been deleted.\<close>

definition newest_visible :: "cid \<Rightarrow> db \<Rightarrow> message_row option" where
  "newest_visible c d = first_row (sort_key (\<lambda>m. - ms_sequenceNumber m)
     (filter (\<lambda>m. ms_channelId m = c \<and> \<not> ms_isDeleted m) (messages d)))"

definition preview_ok :: "db \<Rightarrow> bool" where
  "preview_ok d \<longleftrightarrow> (\<forall>ch \<in> set (channels d). ch_lastMessageId ch = map_option ms_id (newest_visible (ch_id ch) d))"

lemma first_row_filter_keep: "first_row xs = Some x \<Longrightarrow> P x \<Longrightarrow> first_row (filter P xs) = Some x"
  by (cases xs) auto

lemma sort_key_top: "\<forall>m \<in> set xs. f z < f m \<Longrightarrow> sort_key f (xs @ [z]) = z # sort_key f (xs :: 'a list)"
  for f :: "'a \<Rightarrow> int"
proof (induction xs)
  case (Cons a xs)
  then show ?case by simp
qed simp

lemma preview_ok_insert:
  assumes "preview_ok d" "insert_message_tx i input now d = Inr (row, d')"
  shows "preview_ok d'"
proof -
  let ?vis = "\<lambda>c d. filter (\<lambda>m. ms_channelId m = c \<and> \<not> ms_isDeleted m) (messages d)"
  have d': "messages d' = messages d @ [row]" "row = new_message i input (nextSequence (si_channelId input) d) now"
    "channels d' = update_where (\<lambda>c. ch_id c = si_channelId input)
       (\<lambda>c. c\<lparr>ch_lastMessageId := Some i, ch_lastMessageAt := Some now, ch_updatedAt := now\<rparr>) (channels d)"
    using assms(2) by (auto simp: insert_message_tx_Inr)
  have "newest_visible (si_channelId input) d' = Some row"
  proof -
    have "\<forall>m \<in> set (?vis (si_channelId input) d). - ms_sequenceNumber row < - ms_sequenceNumber m"
      using nextSequence_fresh[of _ d "si_channelId input"] d'(2) by auto
    from sort_key_top[OF this] show ?thesis by (simp add: newest_visible_def d'(1)) (simp add: d'(2))
  qed
  moreover have "newest_visible c d' = newest_visible c d" if "c \<noteq> si_channelId input" for c
    using that by (simp add: newest_visible_def d'(1,2))
  ultimately show ?thesis
    using assms(1) d'(2) by (auto simp: preview_ok_def d'(3) set_update_where)
qed

lemma visible_tombstone:
  fixes i :: mid and now :: time
  defines "f \<equiv> \<lambda>m. m\<lparr>ms_isDeleted := True, ms_encryptedContent := [], ms_metadata := None, ms_updatedAt := now\<rparr>"
  shows "filter (\<lambda>m. ms_channelId m = b \<and> \<not> ms_isDeleted m) (update_where (\<lambda>m. ms_id m = i) f rows)
      = filter (\<lambda>m. ms_id m \<noteq> i) (filter (\<lambda>m. ms_channelId m = b \<and> \<not> ms_isDeleted m) rows)"
    and "filter (\<lambda>m. ms_channelId m = b \<and> \<not> ms_isDeleted m \<and> ms_id m \<noteq> i) (update_where (\<lambda>m. ms_id m = i) f rows)
      = filter (\<lambda>m. ms_id m \<noteq> i) (filter (\<lambda>m. ms_channelId m = b \<and> \<not> ms_isDeleted m) rows)"
  unfolding f_def by (induction rows) auto

lemma newest_visible_delete_other:
  assumes "unique_ids (messages d)" "msg \<in> set (messages d)" "ms_channelId msg = c" "ms_id msg = i" "b \<noteq> c"
  shows "newest_visible b (delete_message_tx i c now d) = newest_visible b d"
proof -
  have "filter (\<lambda>m. ms_id m \<noteq> i) (filter (\<lambda>m. ms_channelId m = b \<and> \<not> ms_isDeleted m) (messages d))
      = filter (\<lambda>m. ms_channelId m = b \<and> \<not> ms_isDeleted m) (messages d)"
    unfolding filter_id_conv
  proof
    fix m
    assume m: "m \<in> set (filter (\<lambda>m. ms_channelId m = b \<and> \<not> ms_isDeleted m) (messages d))"
    then have "m \<noteq> msg" using assms(3,5) by auto
    with m show "ms_id m \<noteq> i" using unique_ids_eq[OF assms(1) _ assms(2), of m] assms(4) by fastforce
  qed
  then show ?thesis unfolding newest_visible_def delete_message_tx_simps visible_tombstone by simp
qed

lemma newest_visible_delete_keep:
  assumes "map_option ms_id (newest_visible c d) \<noteq> Some i"
  shows "newest_visible c (delete_message_tx i c now d) = newest_visible c d"
proof (cases "newest_visible c d")
  case None
  then have "filter (\<lambda>m. ms_channelId m = c \<and> \<not> ms_isDeleted m) (messages d) = []"
    unfolding newest_visible_def first_row_None by (metis length_0_conv length_sort)
  then show ?thesis unfolding newest_visible_def delete_message_tx_simps visible_tombstone by simp
next
  case (Some m)
  with assms have "ms_id m \<noteq> i" by simp
  with Some show ?thesis
    unfolding newest_visible_def delete_message_tx_simps visible_tombstone
    unfolding filter_sort[symmetric] by (simp add: first_row_filter_keep del: filter_filter)
qed

lemma newest_remaining_delete:
  "newest_remaining c i (messages (delete_message_tx i c now d)) = newest_visible c (delete_message_tx i c now d)"
  unfolding newest_remaining_def newest_visible_def delete_message_tx_simps visible_tombstone by (rule refl)

lemma preview_ok_delete:
  assumes "preview_ok d" "unique_ids (messages d)" "keys_unique channel_conflict (channels d)"
    and "msg \<in> set (messages d)" "ms_channelId msg = c" "ms_id msg = i"
  shows "preview_ok (delete_message_tx i c now d)"
proof -
  let ?d = "delete_message_tx i c now d"
  note other = newest_visible_delete_other[OF assms(2,4-6)]
  show ?thesis
  proof (cases "first_row (filter (\<lambda>x. ch_id x = c) (channels d))")
    case None
    then have "channels ?d = channels d" by (simp add: delete_message_tx_def Let_def)
    moreover have "ch_id x \<noteq> c" if "x \<in> set (channels d)" for x using None that by (simp add: filter_empty_conv)
    ultimately show ?thesis using other assms(1) by (simp add: preview_ok_def)
  next
    case (Some ch)
    then have ch: "ch \<in> set (channels d)" "ch_id ch = c" using first_row_filterD[OF Some] by auto
    show ?thesis
    proof (cases "ch_lastMessageId ch = Some i")
      case True
      let ?prev = "newest_remaining c i (messages ?d)"
      have "channels ?d = update_where (\<lambda>x. ch_id x = c) (\<lambda>x. x\<lparr>ch_lastMessageId := map_option ms_id ?prev,
          ch_lastMessageAt := map_option ms_createdAt ?prev, ch_updatedAt := now\<rparr>) (channels d)"
        using Some True by (simp add: delete_message_tx_def Let_def)
      then show ?thesis using newest_remaining_delete[of c i now d] other assms(1) by (auto simp: preview_ok_def set_update_where)
    next
      case False
      then have "channels ?d = channels d" using Some by (simp add: delete_message_tx_def Let_def)
      moreover have "newest_visible c ?d = newest_visible c d"
        using newest_visible_delete_keep[of c d i now] False assms(1) ch by (auto simp: preview_ok_def)
      ultimately show ?thesis using other assms(1) unfolding preview_ok_def by metis
    qed
  qed
qed

lemma delete_tombstone:
  assumes "unique_ids (messages d)" "msg \<in> set (messages d)" "ms_id msg = i"
    and "x \<in> set (messages (delete_message_tx i c now d))" "ms_id x = i"
  shows "x = msg\<lparr>ms_isDeleted := True, ms_encryptedContent := [], ms_metadata := None, ms_updatedAt := now\<rparr>"
proof -
  from assms(4) obtain y where y: "y \<in> set (messages d)"
    "x = (if ms_id y = i then y\<lparr>ms_isDeleted := True, ms_encryptedContent := [], ms_metadata := None, ms_updatedAt := now\<rparr> else y)"
    unfolding delete_message_tx_simps set_update_where by blast
  with assms(5) have "ms_id y = i" by (simp split: if_splits)
  with y unique_ids_eq[OF assms(1) y(1) assms(2)] assms(3) show ?thesis by simp
qed

lemma deleteMessage_cache:
  assumes "w_redis w' = w_redis (invalidateMessages c w)" "w_link w = Up"
  shows "r_lists (w_redis w') (RedisKeys_messageCache b) =
    (if b = c then None else r_lists (w_redis w) (RedisKeys_messageCache b))"
  using assms by (simp add: invalidateMessages_def with_redis_Up del_key_def)

lemma deleteMessage_refused:
  assumes "deleteMessage u i now w = (Inl e, w')" "unique_ids (messages (w_db w))" "m \<in> set (messages (w_db w))" "ms_id m = i"
  shows "ms_senderId m \<noteq> u"
proof -
  obtain x where x: "first_row (filter (\<lambda>m. ms_id m = i) (messages (w_db w))) = Some x"
    using assms(3,4) by (cases "first_row (filter (\<lambda>m. ms_id m = i) (messages (w_db w)))") (auto simp: filter_empty_conv)
  then have "x = m" using unique_ids_eq[OF assms(2) _ assms(3), of x] first_row_filterD[OF x] assms(4) by simp
  then show ?thesis using assms(1) x by (auto simp: deleteMessage_def Let_def split: if_splits)
qed

text \<open>
  C13: Only the sender can delete a message, and a refused deletion changes nothing. A deletion turns
  the stored row into a tombstone, without content and metadata and otherwise as it was, and removes
  exactly its reactions (a second deletion leaves the tables alone); it leaves every other message
  alone, keeps every channel's preview on its newest message that is not deleted, and tells the
  channel; a reader gets a blank payload. While Redis answers, the cached messages of the channel, and
  of no other, are dropped.
\<close>

theorem delete_message_correct:
  assumes "preview_ok (w_db w)" "db_keys_ok (w_db w)"
  shows "case deleteMessage u i now w of
     (Inl e, w') \<Rightarrow> w' = w \<and> (\<forall>m \<in> set (messages (w_db w)). ms_id m = i \<longrightarrow> ms_senderId m \<noteq> u)
   | (Inr c, w') \<Rightarrow>
       (\<exists>msg \<in> set (messages (w_db w)). ms_id msg = i \<and> ms_senderId msg = u \<and> ms_channelId msg = c \<and>
          (if ms_isDeleted msg then w_db w' = w_db w
           else (\<forall>m \<in> set (messages (w_db w')). ms_id m = i \<longrightarrow> m = msg\<lparr>ms_isDeleted := True,
                   ms_encryptedContent := [], ms_metadata := None, ms_updatedAt := now\<rparr>) \<and>
                reactions (w_db w') = filter (\<lambda>r. re_messageId r \<noteq> i) (reactions (w_db w)))) \<and>
       map (\<lambda>m. (ms_id m, ms_sequenceNumber m, ms_channelId m)) (messages (w_db w'))
         = map (\<lambda>m. (ms_id m, ms_sequenceNumber m, ms_channelId m)) (messages (w_db w)) \<and>
       filter (\<lambda>m. ms_id m \<noteq> i) (messages (w_db w')) = filter (\<lambda>m. ms_id m \<noteq> i) (messages (w_db w)) \<and>
       (\<forall>m \<in> set (messages (w_db w')). ms_id m = i \<longrightarrow> pl_encryptedContent (row_payload (w_db w') m) = [] \<and>
          pl_metadata (row_payload (w_db w') m) = None \<and> pl_isDeleted (row_payload (w_db w') m)) \<and>
       preview_ok (w_db w') \<and>
       (w_link w = Up \<longrightarrow> (\<forall>b. r_lists (w_redis w') (RedisKeys_messageCache b) =
          (if b = c then None else r_lists (w_redis w) (RedisKeys_messageCache b)))) \<and>
       w_out w' = w_out w @ (if w_server w then [Emit [channelRoom c] [] ''message:deleted''
          (JObj [(''messageId'', JStr i), (''channelId'', JStr c)])] else [])"
proof (cases "deleteMessage u i now w")
  case (Pair r w')
  have uniq: "unique_ids (messages (w_db w))" and ch: "keys_unique channel_conflict (channels (w_db w))"
    using assms(2) keys_unique_ids by (auto simp: db_keys_ok_def)
  show ?thesis
  proof (cases r)
    case (Inl e)
    with Pair deleteMessage_Inl[of u i now w e] deleteMessage_refused[OF _ uniq] show ?thesis by auto
  next
    case (Inr c)
    obtain msg where m: "msg \<in> set (messages (w_db w))" "ms_id msg = i" "ms_senderId msg = u" "ms_channelId msg = c"
      "w_db w' = (if ms_isDeleted msg then w_db w else delete_message_tx i c now (w_db w))"
      "w_redis w' = w_redis (invalidateMessages c w)"
      "w_out w' = w_out w @ (if w_server w then [Emit [channelRoom c] [] ''message:deleted''
         (JObj [(''messageId'', JStr i), (''channelId'', JStr c)])] else [])"
      using Pair[unfolded Inr] by (rule deleteMessage_Inr)
    have row: "\<forall>x \<in> set (messages (w_db w')). ms_id x = i \<longrightarrow> x = msg\<lparr>ms_isDeleted := True,
        ms_encryptedContent := [], ms_metadata := None, ms_updatedAt := now\<rparr>" if "\<not> ms_isDeleted msg"
      using delete_tombstone[OF uniq m(1,2)] that m(5) by simp
    have del: "ms_isDeleted x" if "x \<in> set (messages (w_db w'))" "ms_id x = i" for x
    proof (cases "ms_isDeleted msg")
      case True
      then have "x = msg" using unique_ids_eq[OF uniq _ m(1), of x] that m(2,5) by simp
      with True show ?thesis by simp
    next
      case False
      with row that have "x = msg\<lparr>ms_isDeleted := True, ms_encryptedContent := [], ms_metadata := None, ms_updatedAt := now\<rparr>" by blast
      then show ?thesis by simp
    qed
    have "pl_encryptedContent (row_payload d x) = [] \<and> pl_metadata (row_payload d x) = None \<and>
        pl_isDeleted (row_payload d x)" if "ms_isDeleted x" for d x
      using that by (simp add: row_payload_def toMessagePayload_def)
    with del have blank: "\<forall>x \<in> set (messages (w_db w')). ms_id x = i \<longrightarrow> pl_encryptedContent (row_payload (w_db w') x) = [] \<and>
        pl_metadata (row_payload (w_db w') x) = None \<and> pl_isDeleted (row_payload (w_db w') x)" by blast
    have kept: "preview_ok (w_db w')"
      "filter (\<lambda>m. ms_id m \<noteq> i) (messages (w_db w')) = filter (\<lambda>m. ms_id m \<noteq> i) (messages (w_db w))"
      "map (\<lambda>m. (ms_id m, ms_sequenceNumber m, ms_channelId m)) (messages (w_db w'))
         = map (\<lambda>m. (ms_id m, ms_sequenceNumber m, ms_channelId m)) (messages (w_db w))"
      using m(5) assms(1) preview_ok_delete[OF assms(1) uniq ch m(1,4,2)]
      by (simp_all add: delete_message_tx_simps filter_update_other update_where_map)
    have "if ms_isDeleted msg then w_db w' = w_db w
        else (\<forall>x \<in> set (messages (w_db w')). ms_id x = i \<longrightarrow> x = msg\<lparr>ms_isDeleted := True,
                ms_encryptedContent := [], ms_metadata := None, ms_updatedAt := now\<rparr>) \<and>
             reactions (w_db w') = filter (\<lambda>r. re_messageId r \<noteq> i) (reactions (w_db w))"
      using row m(5) by (simp add: delete_message_tx_simps)
    with m(1-4) have msg: "\<exists>msg \<in> set (messages (w_db w)). ms_id msg = i \<and> ms_senderId msg = u \<and> ms_channelId msg = c \<and>
        (if ms_isDeleted msg then w_db w' = w_db w
         else (\<forall>x \<in> set (messages (w_db w')). ms_id x = i \<longrightarrow> x = msg\<lparr>ms_isDeleted := True,
                 ms_encryptedContent := [], ms_metadata := None, ms_updatedAt := now\<rparr>) \<and>
              reactions (w_db w') = filter (\<lambda>r. re_messageId r \<noteq> i) (reactions (w_db w)))" by blast
    show ?thesis
      unfolding Pair Inr prod.case sum.case
      by (intro conjI msg kept blank m(7) impI allI deleteMessage_cache[OF m(6)])
  qed
qed

theorem delete_message_correct_witness:
  "\<exists>w'. deleteMessage ''u1'' ''m2'' 9 sample_cached = (Inr ''c1'', w') \<and> preview_ok (w_db w') \<and>
     r_lists (w_redis sample_cached) (RedisKeys_messageCache ''c1'') \<noteq> None \<and>
     r_lists (w_redis w') (RedisKeys_messageCache ''c1'') = None"
proof -
  have "preview_ok (w_db sample_cached)" "db_keys_ok (w_db sample_cached)"
    using sample_chat_ok(2) unfolding sample_cached_ok
    by (simp_all add: preview_ok_def newest_visible_def sample_chat_def sample_message_def sample_defs)
  note del = delete_message_correct[OF this, of "''m2''" "''u1''" 9]
  obtain w' where "deleteMessage ''u1'' ''m2'' 9 sample_cached = (Inr ''c1'', w')"
    by (simp add: deleteMessage_def Let_def sample_cached_def sample_chat_def sample_message_def sample_defs)
  moreover have "r_lists (w_redis sample_cached) (RedisKeys_messageCache ''c1'') \<noteq> None" by (simp add: sample_cached_def)
  ultimately show ?thesis using del sample_cached_ok(3) by simp
qed

section \<open>Delivery\<close>

definition job_to_data :: "MessageDeliveryJob \<Rightarrow> job_data" where
  "job_to_data job = \<lparr>jd_message = Some (jb_message job), jd_recipientIds = Some (jb_recipientIds job),
     jd_offlineUserIds = Some (jb_offlineUserIds job)\<rparr>"

text \<open>The delivery of the last accepted job, or nothing more when it was done inline.\<close>

definition after_delivery :: "bool \<Rightarrow> time \<Rightarrow> world \<Rightarrow> world" where
  "after_delivery queue_up t w = (if queue_up then snd (process t (Some (job_to_data (last (w_jobs w)))) w) else w)"

lemma process_job: "process t (Some (job_to_data job)) w = runMessageDelivery t job w"
  by (cases job) (simp add: process_def job_to_data_def)

lemma delivery_queues:
  assumes "w_link w = Up" "v \<in> set (jb_offlineUserIds job)"
  shows "Stored (payload_json (jb_message job)) \<in> fst ` set (pending_queue t v (snd (runMessageDelivery t job w)))"
proof -
  let ?w = "addPendingMessage t (jb_offlineUserIds job) (jb_message job) w"
  have "r_pending (w_redis (incrementUnreadMany t us c w1)) = r_pending (w_redis w1)" for us c w1
    by (cases "w_link w1") (auto simp: incrementUnreadMany_def with_redis_def)
  then have "pending_queue t v (snd (runMessageDelivery t job w)) = pending_queue t v ?w"
    by (simp add: runMessageDelivery_def pending_queue_def)
  moreover have "Stored (payload_json (jb_message job)) \<in> fst ` set (pending_queue t v ?w)"
    unfolding pending_queue_def[of t v ?w] list_at_def live_def addPendingMessage_entry[OF assms(1)]
    using assms(2) by (simp add: redis_ttl_defs zAdd_def)
  ultimately show ?thesis by simp
qed

lemma delivery_counts:
  assumes "w_link w = Up" "v \<in> set (jb_recipientIds job)"
  shows "getUnreadCount t v (pl_channelId (jb_message job)) w
    < getUnreadCount t v (pl_channelId (jb_message job)) (snd (runMessageDelivery t job w))"
proof -
  let ?c = "pl_channelId (jb_message job)" and ?us = "jb_recipientIds job"
  let ?w = "addPendingMessage t (jb_offlineUserIds job) (jb_message job) w"
  have same: "r_counters (w_redis ?w) = r_counters (w_redis w)"
    using assms(1) by (simp add: addPendingMessage_def with_redis_Up Let_def)
  have "0 < count_list ?us v" using assms(2) by (simp add: count_list_0_iff zero_less_iff_neq_zero)
  then show ?thesis
    using assms same fold_incr_unread[of t ?c ?us "r_counters (w_redis ?w)" v]
    by (simp add: runMessageDelivery_def getUnreadCount_def with_redis_Up incrementUnreadMany_counters
        counter_at_def live_def redis_ttl_defs)
qed

lemma dispatch_delivers:
  assumes "members_coherent w" "w_link w = Up" "w_server w"
    and "v \<in> set (member_rows (pl_channelId p) (w_db w))" "v \<noteq> pl_senderId p"
  shows "\<exists>job w3. jb_message job = p \<and> v \<in> set (jb_recipientIds job) \<and> w_link w3 = Up \<and>
    ((\<exists>cs. getConnectedUserIds fetch (pl_channelId p) w = Some cs \<and> v \<in> set cs) \<or> v \<in> set (jb_offlineUserIds job)) \<and>
    dispatchNewMessage fetch q p x now w = (if q then w3\<lparr>w_jobs := w_jobs w3 @ [job]\<rparr> else snd (runMessageDelivery now job w3)) \<and>
    r_counters (w_redis w3) = r_counters (w_redis w)"
proof -
  let ?c = "pl_channelId p"
  obtain ids w1 where g: "getMembers now ?c w = (ids, w1)" by fastforce
  have v: "v \<in> set ids" using redis_members.members_truth[OF assms(1), of now ?c] g assms(4) by simp
  have w1: "w_link w1 = Up" "w_server w1" using g assms(2,3) redis_services_link(17)[of now ?c w]
      redis_services_server(17)[of now ?c w] by simp_all
  have cnt: "r_counters (w_redis w1) = r_counters (w_redis w)"
    using g assms(2) by (auto simp: getMembers_def Let_def setMembers_def with_redis_Up split: if_splits)
  let ?w3 = "cacheMessage now ?c (payload_json p) (emitToChannel ?c ''message:new'' (payload_json p)
      (no_options\<lparr>exceptSocketId := x\<rparr>) w1)"
  have con: "getConnectedUserIds fetch ?c w1 = getConnectedUserIds fetch ?c w"
    using w1 assms(3) by (simp add: getConnectedUserIds_def)
  let ?job = "\<lparr>jb_message = p, jb_recipientIds = filter (\<lambda>u. u \<noteq> pl_senderId p) ids,
      jb_offlineUserIds = filter (\<lambda>u. case getConnectedUserIds fetch ?c w1 of None \<Rightarrow> True | Some cs \<Rightarrow> u \<notin> set cs)
        (filter (\<lambda>u. u \<noteq> pl_senderId p) ids)\<rparr>"
  have "filter (\<lambda>u. u \<noteq> pl_senderId p) ids \<noteq> []" using v assms(5) by (auto simp: filter_empty_conv)
  then have "dispatchNewMessage fetch q p x now w =
      (if q then ?w3\<lparr>w_jobs := w_jobs ?w3 @ [?job]\<rparr> else snd (runMessageDelivery now ?job ?w3))"
    by (simp add: dispatchNewMessage_def Let_def g del: emits_frame redis_services_jobs)
  moreover have "r_counters (w_redis ?w3) = r_counters (w_redis w)"
    using cnt w1 by (simp add: cacheMessage_def with_redis_Up Let_def)
  ultimately show ?thesis
    using v assms(5) w1 con by (intro exI[of _ ?job] exI[of _ ?w3]) (auto split: option.splits)
qed

text \<open>
  C6: No member misses a message. When a message has been accepted, every other member of the
  channel either had a socket in the channel's room, to which the packet was sent, or finds the
  payload in their offline queue once the delivery job has run, whether the queue took the job or it
  was run inline; and the unread counter of every other member has grown.
\<close>

theorem every_member_gets_the_message:
  assumes "send verify fault gen fetch queue_up input exceptSocket now w = (Inr payload, w')"
    and "members_coherent w" "w_link w = Up" "w_server w"
    and "v \<in> set (member_rows (si_channelId input) (w_db w))" "v \<noteq> si_userId input"
    and "t = (if queue_up then t' else now)"
  shows "((\<exists>cs. getConnectedUserIds fetch (si_channelId input) w = Some cs \<and> v \<in> set cs) \<or>
      Stored (payload_json payload) \<in> fst ` set (pending_queue t v (after_delivery queue_up t w'))) \<and>
    getUnreadCount t v (si_channelId input) w < getUnreadCount t v (si_channelId input) (after_delivery queue_up t w') \<and>
    Emit [channelRoom (si_channelId input)] (emit_except (no_options\<lparr>exceptSocketId := exceptSocket\<rparr>)) ''message:new''
      (payload_json payload) \<in> set (w_out w')"
proof -
  obtain u c row d i where "send_member (si_userId input) (si_channelId input) (w_db w) = Some (u, c)"
    and s: "insert_message_tx (gen i) input now (w_db w) = Inr (row, d)"
    "payload = toMessagePayload row (Some (u_username u))" "w' = dispatchNewMessage fetch queue_up payload exceptSocket now (w\<lparr>w_db := d\<rparr>)"
    using assms(1) by (rule send_commit)
  let ?w = "w\<lparr>w_db := d\<rparr>" and ?c = "si_channelId input"
  have p: "pl_channelId payload = ?c" "pl_senderId payload = si_userId input"
    using s(1,2) by (auto simp: insert_message_tx_Inr)
  have rows: "member_rows b d = member_rows b (w_db w)" for b
  proof -
    have "member_rows b d = map fst (filter (\<lambda>x. snd x = b) (map (\<lambda>m. (mb_userId m, mb_channelId m)) (memberships d)))" for d
      by (simp add: member_rows_def filter_map comp_def)
    then show ?thesis by (simp only: insert_tx_keeps(3)[OF s(1)])
  qed
  have co: "members_coherent ?w" using assms(2) rows by (simp add: members_coherent_def)
  obtain job w3 where job: "jb_message job = payload" "v \<in> set (jb_recipientIds job)" "w_link w3 = Up"
    "(\<exists>cs. getConnectedUserIds fetch ?c ?w = Some cs \<and> v \<in> set cs) \<or> v \<in> set (jb_offlineUserIds job)"
    "w' = (if queue_up then w3\<lparr>w_jobs := w_jobs w3 @ [job]\<rparr> else snd (runMessageDelivery now job w3))"
    "r_counters (w_redis w3) = r_counters (w_redis w)"
  proof -
    have "w_link ?w = Up" "w_server ?w" "v \<in> set (member_rows (pl_channelId payload) (w_db ?w))" "v \<noteq> pl_senderId payload"
      using assms(3-6) rows p by simp_all
    from dispatch_delivers[OF co this, of fetch queue_up exceptSocket now] show thesis
      unfolding s(3)[symmetric] p(1) using that by auto
  qed
  let ?w3 = "if queue_up then w3\<lparr>w_jobs := w_jobs w3 @ [job]\<rparr> else w3"
  have after: "after_delivery queue_up t w' = snd (runMessageDelivery t job ?w3)"
    using job(5) assms(7) by (simp add: after_delivery_def process_job)
  have up: "w_link ?w3 = Up" using job(3) by simp
  have "getUnreadCount t v ?c ?w3 = getUnreadCount t v ?c w"
    using job(3,6) assms(3) by (simp add: getUnreadCount_def with_redis_Up)
  moreover have "getConnectedUserIds fetch ?c ?w = getConnectedUserIds fetch ?c w" by (simp add: getConnectedUserIds_def)
  ultimately show ?thesis
    using delivery_counts[OF up job(2), of t] delivery_queues[OF up, of v job t] job(1,4) p s(3) assms(4)
    unfolding after by (auto simp: dispatch_out)
qed

lemma sample_chat_send:
  assumes "w_db w = w_db sample_chat"
  shows "\<exists>payload w'. send (\<lambda>_ _ _. False) (\<lambda>_. None) (\<lambda>_. ''m3'') (\<lambda>_. Some []) True sample_input None 5 w = (Inr payload, w')"
proof -
  obtain row d where tx: "insert_message_tx ''m3'' sample_input 5 (w_db sample_chat) = Inr (row, d)"
    using insert_message_tx_Inr[of "''m3''" sample_input 5 "w_db sample_chat"]
    by (auto simp: sample_chat_def sample_message_def)
  have "send_member ''u1'' ''c1'' (w_db sample_chat) = Some (sample_user, sample_channel\<lparr>ch_lastMessageId := Some ''m2''\<rparr>)"
    by (simp add: send_member_def sample_chat_def sample_defs)
  then show ?thesis
    using assms sample_send_ok(1) insertWithSequence_first[of "\<lambda>_. None" "\<lambda>_. ''m3''" sample_input 5 "w_db sample_chat" "(row, d)"] tx
    by (simp add: send_def Let_def sample_input_def sample_channel_def sample_user_def)
qed

theorem every_member_gets_the_message_witness:
  "\<exists>payload w'. send (\<lambda>_ _ _. False) (\<lambda>_. None) (\<lambda>_. ''m3'') (\<lambda>_. Some []) True sample_input None 5 sample_chat = (Inr payload, w') \<and>
     Stored (payload_json payload) \<in> fst ` set (pending_queue 6 ''u2'' (after_delivery True 6 w'))"
proof -
  obtain payload w' where s: "send (\<lambda>_ _ _. False) (\<lambda>_. None) (\<lambda>_. ''m3'') (\<lambda>_. Some []) True sample_input None 5 sample_chat = (Inr payload, w')"
    using sample_chat_send by blast
  have "''u2'' \<in> set (member_rows (si_channelId sample_input) (w_db sample_chat))" "''u2'' \<noteq> si_userId sample_input"
    by (simp_all add: member_rows_def sample_chat_def sample_defs)
  from every_member_gets_the_message[OF s sample_chat_ok(5,7,8) this, of 6 6]
  have "Stored (payload_json payload) \<in> fst ` set (pending_queue 6 ''u2'' (after_delivery True 6 w'))"
    by (simp add: getConnectedUserIds_def sample_chat_ok List.map_filter_simps)
  with s show ?thesis by blast
qed

section \<open>When the cache falls behind\<close>

lemma seq_of_jset [simp]: "seq_of (jset ''reactions'' v (payload_json p)) = pl_sequenceNumber p"
  by (simp add: payload_json_def seq_of.simps)

lemma seq_of_attach: "map seq_of (attachReactions d (payloads d' rows)) = map ms_sequenceNumber rows"
  by (simp add: attachReactions_def Let_def payloads_def)

text \<open>
  The check that a cached page is complete does not see that its newest message is missing.
  When the command that adds a message to the cache fails, the message is stored and its sender gets
  it back, but until the next message or deletion a member who asks for the latest page that fits
  into the cached list gets, from the cache, a page without it.
\<close>

theorem lost_cache_write_serves_stale_page:
  assumes "send verify fault gen fetch queue_up input x now (w\<lparr>w_link := Failing\<rparr>) = (Inr payload, w1)"
    and "cache_coherent w" "sequences_ok (w_db w)" "is_channel_member u (si_channelId input) (w_db w)"
    and "safe_limit limit \<le> MESSAGE_CACHE_SIZE"
    and "safe_limit limit \<le> length (getRecentMessages now' (si_channelId input) (safe_limit limit) w)"
  shows "\<exists>page. fst (getMessages (si_channelId input) u limit None Latest now' (w1\<lparr>w_link := Up\<rparr>)) = Inr page \<and>
    mp_source page = Cache \<and> pl_sequenceNumber payload \<notin> set (map seq_of (mp_messages page)) \<and>
    pl_sequenceNumber payload \<in> set (map seq_of
      (mp_messages (database_page (w_db w1) (si_channelId input) (safe_limit limit) None Latest)))"
proof -
  let ?c = "si_channelId input" and ?L = "safe_limit limit" and ?w = "w\<lparr>w_link := Failing\<rparr>"
  obtain us ch row d i where s: "send_member (si_userId input) ?c (w_db ?w) = Some (us, ch)"
    "insert_message_tx (gen i) input now (w_db ?w) = Inr (row, d)"
    "payload = toMessagePayload row (Some (u_username us))"
    "w1 = dispatchNewMessage fetch queue_up payload x now (?w\<lparr>w_db := d\<rparr>)"
    using assms(1) by (rule send_commit)
  let ?h = "history ?c (w_db w)"
  have db: "w_db w1 = d" and lists: "r_lists (w_redis w1) = r_lists (w_redis w)"
    using s(4) by (simp_all add: dispatch_lists cacheMessage_def with_redis_def getMembers_def cached_members_def
        setMembers_def Let_def)
  note got = recent_messages_coherent[OF assms(2) safe_limit_pos assms(6)]
  have "getRecentMessages now' ?c ?L (w1\<lparr>w_link := Up\<rparr>) = getRecentMessages now' ?c ?L w"
    using lists got(3) by (simp add: getRecentMessages_def with_redis_def)
  note cached = getCachedPage_items[OF this[unfolded got(1)] _ safe_limit_pos last_n_history_seqs[OF assms(3) got(2)]]
  have mem: "is_channel_member u ?c d"
  proof -
    have "is_channel_member u ?c e \<longleftrightarrow> (u, ?c) \<in> set (map (\<lambda>m. (mb_userId m, mb_channelId m)) (memberships e))" for e
      by (auto simp: is_channel_member_def list_ex_iff)
    then show ?thesis using assms(4) insert_tx_keeps(3)[OF s(2)] by (simp del: set_map)
  qed
  have row: "ms_sequenceNumber row = int (length ?h) + 1" "ms_channelId row = ?c"
    using s(2) nextSequence_length[of "w_db w"] assms(3) by (auto simp: insert_message_tx_Inr history_set)
  have ok': "sequences_ok d" using sequences_ok_insert[OF _ s(2)] assms(3) by simp
  obtain k where "?L = Suc k" using safe_limit_pos[of limit] gr0_conv_Suc by blast
  then have "ms_sequenceNumber row \<in> set (map ms_sequenceNumber (last_n ?L (history ?c d)))"
    using history_snoc[OF s(2), of ?c] by (simp add: last_n_Suc_snoc)
  moreover have "int (length ?h) + 1 \<notin> set (map ms_sequenceNumber (last_n ?L ?h))"
    by (simp only: last_n_history_seqs[OF assms(3) got(2)]) simp
  ultimately show ?thesis
    using cached got(2) mem assms(5) s(3) row db
      database_page_desc[OF page_rows_desc(1)[OF ok', of ?c] _ safe_limit_pos[of limit]]
    by (simp add: getMessages_def Let_def seq_of_attach del: set_map)
qed

theorem lost_cache_write_serves_stale_page_witness:
  "\<exists>payload w1 page. send (\<lambda>_ _ _. False) (\<lambda>_. None) (\<lambda>_. ''m3'') (\<lambda>_. Some []) True sample_input None 5
      (sample_cached\<lparr>w_link := Failing\<rparr>) = (Inr payload, w1) \<and>
    fst (getMessages ''c1'' ''u1'' 1 None Latest 9 (w1\<lparr>w_link := Up\<rparr>)) = Inr page \<and>
    pl_sequenceNumber payload \<notin> set (map seq_of (mp_messages page))"
proof -
  obtain payload w1 where s: "send (\<lambda>_ _ _. False) (\<lambda>_. None) (\<lambda>_. ''m3'') (\<lambda>_. Some []) True sample_input None 5
      (sample_cached\<lparr>w_link := Failing\<rparr>) = (Inr payload, w1)"
    using sample_chat_send[of "sample_cached\<lparr>w_link := Failing\<rparr>"] sample_cached_ok(2) by auto
  have c: "si_channelId sample_input = ''c1''" by (simp add: sample_input_def)
  have L: "safe_limit 1 = 1" by (simp add: safe_limit_def)
  have len: "length (history ''c1'' (w_db sample_chat)) = 2"
    by (simp add: history_set channel_messages_def sample_chat_def sample_message_def sample_input_def)
  show ?thesis
    using s lost_cache_write_serves_stale_page[OF s sample_cached_ok(1), of "''u1''" 1 9]
      sample_chat_ok(1,3) sample_cached_ok(2-4) c L len by (auto simp: MESSAGE_CACHE_SIZE_def payloads_def)
qed

end
