(* ===== verification/Channels_Service.thy ===== *)
theory Channels_Service
  imports Messages_Service
begin

text \<open>
  \<open>modules/channels/channels.service.ts\<close>: creating group and direct channels, the inbox, read marks,
  adding and removing members, archiving, typing and read receipts. Generated ids are arguments:
  \<open>newId\<close> for the channel and \<open>memberId\<close> for each membership row. A transaction is one step; the read and
  the write of \<open>markRead\<close>, which are two statements, are also given apart so that other requests may
  run between them.
\<close>

definition MAX_CHANNEL_PARTICIPANTS :: nat where
  "MAX_CHANNEL_PARTICIPANTS = 50"

definition getRole :: "cid \<Rightarrow> uid \<Rightarrow> db \<Rightarrow> string option" where
  "getRole channelId userId d = map_option mb_role
     (first_row (filter (\<lambda>m. mb_userId m = userId \<and> mb_channelId m = channelId) (memberships d)))"

definition assertMember :: "cid \<Rightarrow> uid \<Rightarrow> db \<Rightarrow> thrown + string" where
  "assertMember channelId userId d = (case getRole channelId userId d of
       Some role \<Rightarrow> if role = [] then Inl (ForbiddenException ''Not a member of this channel'') else Inr role
     | None \<Rightarrow> Inl (ForbiddenException ''Not a member of this channel''))"

section \<open>Creating\<close>

record CreateChannelResult =
  cr_channel :: channel_row
  cr_created :: bool

definition new_channel :: "cid \<Rightarrow> string \<Rightarrow> string option \<Rightarrow> time \<Rightarrow> channel_row" where
  "new_channel i type name now = \<lparr>ch_id = i, ch_name = name, ch_type = type, ch_isArchived = False,
     ch_lastMessageId = None, ch_lastMessageAt = None, ch_createdAt = now, ch_updatedAt = now\<rparr>"

definition new_membership :: "string \<Rightarrow> uid \<Rightarrow> cid \<Rightarrow> string \<Rightarrow> time \<Rightarrow> membership_row" where
  "new_membership i userId channelId role now = \<lparr>mb_id = i, mb_role = role, mb_joinedAt = now, mb_leftAt = None,
     mb_muted = False, mb_lastReadMessageId = None, mb_lastReadAt = None, mb_userId = userId,
     mb_channelId = channelId\<rparr>"

definition initial_members :: "(nat \<Rightarrow> string) \<Rightarrow> uid \<Rightarrow> uid list \<Rightarrow> cid \<Rightarrow> time \<Rightarrow> membership_row list" where
  "initial_members memberId creatorId others channelId now =
     new_membership (memberId 0) creatorId channelId ''ADMIN'' now #
     map (\<lambda>(k, u). new_membership (memberId k) u channelId ''MEMBER'' now) (enumerate 1 others)"

definition insertChannel :: "cid \<Rightarrow> (nat \<Rightarrow> string) \<Rightarrow> uid \<Rightarrow> uid list \<Rightarrow> string \<Rightarrow> string option \<Rightarrow> time \<Rightarrow> db \<Rightarrow>
    thrown + (CreateChannelResult \<times> db)" where
  "insertChannel newId memberId creatorId others type name now d =
     (let channel = new_channel newId type name now in
      bindE (insert_row channel_conflict channel (channels d)) (\<lambda>chs.
      bindE (insert_rows membership_conflict (initial_members memberId creatorId others newId now) (memberships d)) (\<lambda>mbs.
        Inr (\<lparr>cr_channel = channel, cr_created = True\<rparr>, d\<lparr>channels := chs, memberships := mbs\<rparr>))))"

text \<open>The direct channel both users are in: rows grouped by channel, with two distinct users.\<close>

definition existing_direct :: "uid \<Rightarrow> uid \<Rightarrow> db \<Rightarrow> cid option" where
  "existing_direct a b d =
     (let rows = filter (\<lambda>m. list_ex (\<lambda>c. ch_id c = mb_channelId m \<and> ch_type c = ''DIRECT'') (channels d) \<and>
                             mb_userId m \<in> {a, b}) (memberships d)
      in first_row (filter (\<lambda>c. length (js_uniq (map mb_userId (filter (\<lambda>m. mb_channelId m = c) rows))) = 2)
           (js_uniq (map mb_channelId rows))))"

definition createDirect :: "cid \<Rightarrow> (nat \<Rightarrow> string) \<Rightarrow> uid \<Rightarrow> uid \<Rightarrow> time \<Rightarrow> db \<Rightarrow> thrown + (CreateChannelResult \<times> db)" where
  "createDirect newId memberId userId targetId now d =
     (case existing_direct userId targetId d of
        Some c \<Rightarrow> Inr (\<lparr>cr_channel = the (first_row (filter (\<lambda>x. ch_id x = c) (channels d))), cr_created = False\<rparr>, d)
      | None \<Rightarrow> insertChannel newId memberId userId [targetId] ''DIRECT'' None now d)"

definition create_checks :: "uid \<Rightarrow> uid list \<Rightarrow> string \<Rightarrow> db \<Rightarrow> thrown + uid list" where
  "create_checks userId participantIds type d =
     (let unique = js_uniq participantIds;
          others = filter (\<lambda>i. i \<noteq> userId) unique;
          shape = (if type = ''DIRECT'' then
                     (if length unique \<noteq> 1
                      then Inl (BadRequestException ''Direct message requires exactly 1 other participant'')
                      else if hd unique = userId then Inl (BadRequestException ''Cannot create DM with yourself'')
                      else Inr ())
                   else if type = ''GROUP'' then
                     (if length unique > MAX_CHANNEL_PARTICIPANTS
                      then Inl (BadRequestException ''A channel can have at most 50 participants'')
                      else Inr ())
                   else Inl (BadRequestException ''Invalid channel type''))
      in bindE shape (\<lambda>_.
           if others = [] then Inl (BadRequestException ''At least one other participant is required'')
           else if length (filter (\<lambda>u. u_id u \<in> set others \<and> u_isActive u) (users d)) \<noteq> length others
           then Inl (NotFoundException ''One or more participants do not exist'')
           else Inr others))"

definition channel_json :: "channel_row \<Rightarrow> json" where
  "channel_json c = JObj [(''id'', JStr (ch_id c)), (''type'', JStr (ch_type c)), (''name'', jstr_of (ch_name c)),
     (''createdAt'', JDate (ch_createdAt c))]"

definition create :: "cid \<Rightarrow> (nat \<Rightarrow> string) \<Rightarrow> uid \<Rightarrow> uid list \<Rightarrow> string \<Rightarrow> string option \<Rightarrow> time \<Rightarrow> world \<Rightarrow>
    (thrown + CreateChannelResult) \<times> world" where
  "create newId memberId userId participantIds type name now w =
     (case create_checks userId participantIds type (w_db w) of
        Inl e \<Rightarrow> (Inl e, w)
      | Inr others \<Rightarrow>
          (case (if type = ''DIRECT'' then createDirect newId memberId userId (hd others) now (w_db w)
                 else insertChannel newId memberId userId others ''GROUP''
                        (if name = Some [] then None else name) now (w_db w)) of
             Inl e \<Rightarrow> (Inl e, w)
           | Inr (result, d) \<Rightarrow>
               (let memberIds = userId # others; i = ch_id (cr_channel result); w1 = w\<lparr>w_db := d\<rparr>
                in (Inr result,
                    if cr_created result
                    then emitToUsers memberIds ''channel:created''
                           (JObj [(''channel'', channel_json (cr_channel result)),
                                  (''memberIds'', JArr (map JStr memberIds)), (''createdBy'', JStr userId)])
                           (joinUsersToChannel memberIds i (setMembers now i memberIds w1))
                    else joinUsersToChannel [userId] i w1))))"

section \<open>Inbox\<close>

record inbox_entry =
  ib_channel :: channel_row
  ib_lastMessage :: "message_row option"
  ib_senderName :: "string option"
  ib_lastReadMessageId :: "mid option"
  ib_dmPeerId :: "uid option"
  ib_unreadCount :: int

text \<open>The value a \<open>new Map(pairs)\<close> keeps for a key is the one of the last pair.\<close>

definition last_of :: "('a \<times> 'b) list \<Rightarrow> 'a \<Rightarrow> 'b option" where
  "last_of kvs = map_of (rev kvs)"

text \<open>\<open>ORDER BY last_message_at DESC\<close>: PostgreSQL puts nulls first.\<close>

definition desc_time :: "time option \<Rightarrow> int \<times> int" where
  "desc_time t = (case t of None \<Rightarrow> (0, 0) | Some x \<Rightarrow> (1, - x))"

definition message_by_id :: "db \<Rightarrow> mid option \<Rightarrow> message_row option" where
  "message_by_id d i = (case i of None \<Rightarrow> None | Some x \<Rightarrow> first_row (filter (\<lambda>m. ms_id m = x) (messages d)))"

definition getInbox :: "uid \<Rightarrow> time \<Rightarrow> world \<Rightarrow> inbox_entry list" where
  "getInbox userId now w =
     (let d = w_db w;
          memberChannels = filter (\<lambda>m. mb_userId m = userId) (memberships d);
          channelIds = map mb_channelId memberChannels;
          result = sort_key (\<lambda>c. desc_time (ch_lastMessageAt c)) (filter (\<lambda>c. ch_id c \<in> set channelIds) (channels d));
          dmMembers = filter (\<lambda>m. mb_channelId m \<in> set channelIds \<and> mb_userId m \<noteq> userId \<and>
             list_ex (\<lambda>c. ch_id c = mb_channelId m \<and> ch_type c = ''DIRECT'') (channels d)) (memberships d);
          unread = getUnreadCounts now userId channelIds w;
          lastReadMap = last_of (map (\<lambda>m. (mb_channelId m, mb_lastReadMessageId m)) memberChannels);
          dmPeerMap = last_of (map (\<lambda>m. (mb_channelId m, mb_userId m)) dmMembers)
      in if memberChannels = [] then []
         else map (\<lambda>c.
           let msg = message_by_id d (ch_lastMessageId c)
           in \<lparr>ib_channel = c, ib_lastMessage = msg,
               ib_senderName = (case msg of None \<Rightarrow> None | Some m \<Rightarrow> username_of d (ms_senderId m)),
               ib_lastReadMessageId = (case lastReadMap (ch_id c) of None \<Rightarrow> None | Some r \<Rightarrow> r),
               ib_dmPeerId = (if ch_type c = ''DIRECT'' then dmPeerMap (ch_id c) else None),
               ib_unreadCount = (case unread (ch_id c) of None \<Rightarrow> 0 | Some n \<Rightarrow> n)\<rparr>) result)"

section \<open>Read marks\<close>

definition seq_by_id :: "db \<Rightarrow> mid option \<Rightarrow> int option" where
  "seq_by_id d i = map_option ms_sequenceNumber (message_by_id d i)"

text \<open>The row of the joined \<open>SELECT\<close>: the membership and the two sequence numbers.\<close>

definition mark_read_select :: "uid \<Rightarrow> cid \<Rightarrow> mid \<Rightarrow> db \<Rightarrow> (string \<times> int option \<times> int option) option" where
  "mark_read_select userId channelId messageId d =
     map_option (\<lambda>m. (mb_id m,
        map_option ms_sequenceNumber (first_row (filter (\<lambda>x. ms_id x = messageId \<and> ms_channelId x = channelId) (messages d))),
        seq_by_id d (mb_lastReadMessageId m)))
       (first_row (filter (\<lambda>m. mb_userId m = userId \<and> mb_channelId m = channelId) (memberships d)))"

text \<open>The guarded \<open>UPDATE\<close>: it looks at the mark again, and returns the number of rows it changed.\<close>

definition mark_read_guard :: "db \<Rightarrow> int \<Rightarrow> membership_row \<Rightarrow> bool" where
  "mark_read_guard d targetSeq m \<longleftrightarrow> mb_lastReadMessageId m = None \<or>
     (case seq_by_id d (mb_lastReadMessageId m) of None \<Rightarrow> 0 | Some s \<Rightarrow> s) < targetSeq"

definition mark_read_update :: "string \<Rightarrow> mid \<Rightarrow> int \<Rightarrow> time \<Rightarrow> db \<Rightarrow> nat \<times> db" where
  "mark_read_update membershipId messageId targetSeq now d =
     (let hit = (\<lambda>m. mb_id m = membershipId \<and> mark_read_guard d targetSeq m)
      in (length (filter hit (memberships d)),
          d\<lparr>memberships := update_where hit
             (\<lambda>m. m\<lparr>mb_lastReadMessageId := Some messageId, mb_lastReadAt := Some now\<rparr>) (memberships d)\<rparr>))"

definition new_message_read :: "string \<Rightarrow> mid \<Rightarrow> uid \<Rightarrow> time \<Rightarrow> message_read_row" where
  "new_message_read i messageId userId now =
     \<lparr>mr_id = i, mr_messageId = messageId, mr_userId = userId, mr_readAt = now\<rparr>"

definition markRead :: "string \<Rightarrow> uid \<Rightarrow> cid \<Rightarrow> mid \<Rightarrow> time \<Rightarrow> world \<Rightarrow> (thrown + bool) \<times> world" where
  "markRead readId userId channelId messageId now w =
     (case mark_read_select userId channelId messageId (w_db w) of
        None \<Rightarrow> (Inl (ForbiddenException ''Not a member of this channel''), w)
      | Some (membershipId, None, currentSeq) \<Rightarrow> (Inl (NotFoundException ''Message not found in this channel''), w)
      | Some (membershipId, Some targetSeq, currentSeq) \<Rightarrow>
          (let (count, d) = (if (case currentSeq of None \<Rightarrow> True | Some s \<Rightarrow> s < targetSeq)
                             then mark_read_update membershipId messageId targetSeq now (w_db w)
                             else (0, w_db w));
               advanced = count > 0;
               w1 = resetUnread userId channelId (w\<lparr>w_db := d\<rparr>)
           in (Inr advanced,
               if advanced
               then emitToChannel channelId ''message:read''
                      (JObj [(''userId'', JStr userId), (''messageId'', JStr messageId),
                             (''channelId'', JStr channelId), (''readAt'', JDate now)]) no_options
                      (w1\<lparr>w_db := (w_db w1)\<lparr>messageReads := insert_or_nothing message_read_conflict
                         (new_message_read readId messageId userId now) (messageReads (w_db w1))\<rparr>\<rparr>)
               else w1)))"

section \<open>Channel details and members\<close>

record member_view =
  mv_id :: uid
  mv_username :: string
  mv_status :: string
  mv_role :: string
  mv_joinedAt :: time

definition getChannel :: "cid \<Rightarrow> uid \<Rightarrow> db \<Rightarrow> thrown + (channel_row \<times> string \<times> member_view list)" where
  "getChannel channelId userId d =
     bindE (assertMember channelId userId d) (\<lambda>role.
       case first_row (filter (\<lambda>c. ch_id c = channelId) (channels d)) of
         None \<Rightarrow> Inl (NotFoundException ''Channel not found'')
       | Some channel \<Rightarrow>
           Inr (channel, role,
             [\<lparr>mv_id = u_id u, mv_username = u_username u, mv_status = u_status u, mv_role = mb_role m,
               mv_joinedAt = mb_joinedAt m\<rparr>.
               m \<leftarrow> memberships d, mb_channelId m = channelId, u \<leftarrow> users d, u_id u = mb_userId m]))"

definition touch_channel :: "cid \<Rightarrow> time \<Rightarrow> channel_row list \<Rightarrow> channel_row list" where
  "touch_channel channelId now = update_where (\<lambda>c. ch_id c = channelId) (\<lambda>c. c\<lparr>ch_updatedAt := now\<rparr>)"

definition member_json :: "cid \<Rightarrow> uid \<Rightarrow> json" where
  "member_json channelId userId = JObj [(''channelId'', JStr channelId), (''userId'', JStr userId)]"

definition add_member_db :: "string \<Rightarrow> cid \<Rightarrow> uid \<Rightarrow> uid \<Rightarrow> string option \<Rightarrow> time \<Rightarrow> db \<Rightarrow> thrown + db" where
  "add_member_db memberId channelId requesterId newUserId role now d =
     (if getRole channelId requesterId d \<noteq> Some ''ADMIN''
      then Inl (ForbiddenException ''Only admins can add members'')
      else case first_row (filter (\<lambda>c. ch_id c = channelId) (channels d)) of
        None \<Rightarrow> Inl (NotFoundException ''Channel not found'')
      | Some channel \<Rightarrow>
          if ch_type channel \<noteq> ''GROUP''
          then Inl (BadRequestException ''Members can only be added to group channels'')
          else if \<not> list_ex (\<lambda>u. u_id u = newUserId \<and> u_isActive u) (users d)
          then Inl (NotFoundException ''User not found'')
          else if length (member_rows channelId d) \<ge> MAX_CHANNEL_PARTICIPANTS + 1
          then Inl (BadRequestException ''Channel is full'')
          else if list_ex (\<lambda>m. mb_userId m = newUserId \<and> mb_channelId m = channelId) (memberships d)
          then Inl (ConflictException ''User is already a member'')
          else bindE (insert_row membership_conflict
                 (new_membership memberId newUserId channelId (case role of None \<Rightarrow> ''MEMBER'' | Some r \<Rightarrow> r) now)
                 (memberships d)) (\<lambda>mbs.
               Inr (d\<lparr>memberships := mbs, channels := touch_channel channelId now (channels d)\<rparr>)))"

definition addMember :: "string \<Rightarrow> cid \<Rightarrow> uid \<Rightarrow> uid \<Rightarrow> string option \<Rightarrow> time \<Rightarrow> world \<Rightarrow> (thrown + string) \<times> world" where
  "addMember memberId channelId requesterId newUserId role now w =
     (case add_member_db memberId channelId requesterId newUserId role now (w_db w) of
        Inl e \<Rightarrow> (Inl e, w)
      | Inr d \<Rightarrow>
          (Inr memberId,
           emitToChannelAndUsers channelId [newUserId] ''channel:member-added'' (member_json channelId newUserId)
             (joinUsersToChannel [newUserId] channelId (invalidate channelId (w\<lparr>w_db := d\<rparr>)))))"

text \<open>The member who has been in the channel longest; among equal times, any.\<close>

definition oldest_member :: "cid \<Rightarrow> membership_row list \<Rightarrow> membership_row option" where
  "oldest_member channelId rows = first_row (sort_key mb_joinedAt (filter (\<lambda>m. mb_channelId m = channelId) rows))"

definition members_without :: "cid \<Rightarrow> uid \<Rightarrow> db \<Rightarrow> membership_row list" where
  "members_without channelId userId d =
     filter (\<lambda>m. \<not> (mb_userId m = userId \<and> mb_channelId m = channelId)) (memberships d)"

text \<open>Who is promoted when \<open>removed\<close> has left and \<open>rest\<close> remain.\<close>

definition promoted_member :: "cid \<Rightarrow> membership_row \<Rightarrow> membership_row list \<Rightarrow> membership_row option" where
  "promoted_member channelId removed rest =
     (if mb_role removed = ''ADMIN'' \<and> \<not> list_ex (\<lambda>m. mb_channelId m = channelId \<and> mb_role m = ''ADMIN'') rest
      then oldest_member channelId rest else None)"

definition promote :: "membership_row option \<Rightarrow> membership_row list \<Rightarrow> membership_row list" where
  "promote p rows = (case p of None \<Rightarrow> rows
     | Some x \<Rightarrow> update_where (\<lambda>m. mb_id m = mb_id x) (\<lambda>m. m\<lparr>mb_role := ''ADMIN''\<rparr>) rows)"

definition remove_member_tx :: "cid \<Rightarrow> uid \<Rightarrow> time \<Rightarrow> db \<Rightarrow> thrown + (uid option \<times> db)" where
  "remove_member_tx channelId targetUserId now d =
     (case first_row (filter (\<lambda>m. mb_userId m = targetUserId \<and> mb_channelId m = channelId) (memberships d)) of
        None \<Rightarrow> Inl (NotFoundException ''Member not found in channel'')
      | Some removed \<Rightarrow>
          (let rest = members_without channelId targetUserId d;
               promoted = promoted_member channelId removed rest
           in Inr (map_option mb_userId promoted,
                   d\<lparr>memberships := promote promoted rest, channels := touch_channel channelId now (channels d)\<rparr>)))"

text \<open>
  Both ids come from the path of the request in the spelling of the client. The uuid columns compare them without regard to
  case, the cached set and the rooms take them as they are.
\<close>

definition removeMember :: "cid \<Rightarrow> uid \<Rightarrow> uid \<Rightarrow> time \<Rightarrow> world \<Rightarrow> (thrown + uid option) \<times> world" where
  "removeMember channelId requesterId targetUserId now w =
     (if requesterId \<noteq> targetUserId \<and> getRole (to_lower channelId) requesterId (w_db w) \<noteq> Some ''ADMIN''
      then (Inl (ForbiddenException ''Only admins can remove members''), w)
      else case remove_member_tx (to_lower channelId) (to_lower targetUserId) now (w_db w) of
        Inl e \<Rightarrow> (Inl e, w)
      | Inr (promoted, d) \<Rightarrow>
          (Inr promoted,
           removeUserFromChannel targetUserId channelId
             (emitToChannelAndUsers channelId [targetUserId] ''channel:member-removed'' (member_json channelId targetUserId)
               (resetUnread targetUserId channelId (invalidate channelId (w\<lparr>w_db := d\<rparr>))))))"

definition archive :: "cid \<Rightarrow> uid \<Rightarrow> time \<Rightarrow> world \<Rightarrow> (thrown + bool) \<times> world" where
  "archive channelId userId now w =
     (if getRole channelId userId (w_db w) \<noteq> Some ''ADMIN''
      then (Inl (ForbiddenException ''Only admins can archive channels''), w)
      else case first_row (filter (\<lambda>c. ch_id c = channelId) (channels (w_db w))) of
        None \<Rightarrow> (Inl (NotFoundException ''Channel not found''), w)
      | Some channel \<Rightarrow>
          (let isArchived = (\<not> ch_isArchived channel)
           in (Inr isArchived,
               w\<lparr>w_db := (w_db w)\<lparr>channels := update_where (\<lambda>c. ch_id c = channelId)
                  (\<lambda>c. c\<lparr>ch_isArchived := isArchived, ch_updatedAt := now\<rparr>) (channels (w_db w))\<rparr>\<rparr>)))"

definition channel_getTypingUsers :: "cid \<Rightarrow> uid \<Rightarrow> time \<Rightarrow> world \<Rightarrow> (thrown + uid list) \<times> world" where
  "channel_getTypingUsers channelId userId now w =
     (case assertMember channelId userId (w_db w) of
        Inl e \<Rightarrow> (Inl e, w)
      | Inr _ \<Rightarrow> (let (ids, w') = getTypingUsers now channelId w in (Inr (filter (\<lambda>i. i \<noteq> userId) ids), w')))"

definition getReadReceipts :: "cid \<Rightarrow> uid \<Rightarrow> db \<Rightarrow> thrown + (uid \<Rightarrow> mid option)" where
  "getReadReceipts channelId userId d =
     bindE (assertMember channelId userId d) (\<lambda>_.
       Inr (last_of [(mb_userId m, r). m \<leftarrow> memberships d, mb_channelId m = channelId,
                       r \<leftarrow> (case mb_lastReadMessageId m of None \<Rightarrow> [] | Some x \<Rightarrow> if x = [] then [] else [x])]))"

section \<open>Reading the results\<close>

lemma insertChannel_Inr:
  assumes "insertChannel newId memberId creatorId others type name now d = Inr (r, d')"
  shows "r = \<lparr>cr_channel = new_channel newId type name now, cr_created = True\<rparr>"
    "d' = d\<lparr>channels := channels d @ [new_channel newId type name now],
        memberships := memberships d @ initial_members memberId creatorId others newId now\<rparr>"
    "\<forall>c \<in> set (channels d). ch_id c \<noteq> newId"
  using assms by (auto simp: insertChannel_def Let_def bindE_Inr_iff insert_row_Inr_iff channel_conflict_def new_channel_def
      dest!: insert_rows_Inr)

lemma initial_members_set:
  "map mb_userId (initial_members g u us c now) = u # us"
  "\<forall>m \<in> set (initial_members g u us c now). mb_channelId m = c"
  "\<exists>m \<in> set (initial_members g u us c now). mb_userId m = u \<and> mb_role m = ''ADMIN''"
  by (auto simp: initial_members_def new_membership_def comp_def case_prod_unfold)

lemma createDirect_Inr:
  assumes "createDirect newId memberId a b now d = Inr (r, d')"
  shows "(\<exists>c. existing_direct a b d = Some c \<and> d' = d \<and> \<not> cr_created r \<and>
      cr_channel r = the (first_row (filter (\<lambda>x. ch_id x = c) (channels d)))) \<or>
    existing_direct a b d = None \<and> insertChannel newId memberId a [b] ''DIRECT'' None now d = Inr (r, d')"
  using assms by (auto simp: createDirect_def split: option.splits)

lemma create_checks_Inr:
  assumes "create_checks userId participantIds type d = Inr others"
  shows "others = filter (\<lambda>i. i \<noteq> userId) (js_uniq participantIds)" "others \<noteq> []" "distinct others" "userId \<notin> set others"
    "type = ''DIRECT'' \<and> length others = 1 \<or> type = ''GROUP'' \<and> length others \<le> MAX_CHANNEL_PARTICIPANTS"
proof -
  show o: "others = filter (\<lambda>i. i \<noteq> userId) (js_uniq participantIds)" and "others \<noteq> []"
    using assms by (auto simp: create_checks_def Let_def bindE_Inr_iff split: if_splits)
  then show "distinct others" "userId \<notin> set others" by simp_all
  have "type = ''DIRECT'' \<and> length (js_uniq participantIds) = 1 \<or>
      type = ''GROUP'' \<and> length (js_uniq participantIds) \<le> MAX_CHANNEL_PARTICIPANTS"
    using assms by (auto simp: create_checks_def Let_def bindE_Inr_iff not_less split: if_splits)
  moreover have "length others \<le> length (js_uniq participantIds)" unfolding o by simp
  ultimately show "type = ''DIRECT'' \<and> length others = 1 \<or> type = ''GROUP'' \<and> length others \<le> MAX_CHANNEL_PARTICIPANTS"
    using \<open>others \<noteq> []\<close> by (cases others) auto
qed

lemma create_Inl: "fst (create g h u ps ty n now w) = Inl e \<Longrightarrow> snd (create g h u ps ty n now w) = w"
  by (auto simp: create_def Let_def split: sum.splits prod.splits)

lemma create_Inr:
  assumes "create newId memberId userId participantIds type name now w = (Inr r, w')"
  obtains others where "create_checks userId participantIds type (w_db w) = Inr others"
    "(if type = ''DIRECT'' then createDirect newId memberId userId (hd others) now (w_db w)
      else insertChannel newId memberId userId others ''GROUP'' (if name = Some [] then None else name) now (w_db w))
       = Inr (r, w_db w')"
    "w_link w' = w_link w"
    "r_sets (w_redis w') = (if cr_created r
       then r_sets (w_redis (setMembers now (ch_id (cr_channel r)) (userId # others) (w\<lparr>w_db := w_db w'\<rparr>)))
       else r_sets (w_redis w))"
proof -
  obtain others where o: "create_checks userId participantIds type (w_db w) = Inr others"
    using assms by (auto simp: create_def split: sum.splits)
  let ?ins = "if type = ''DIRECT'' then createDirect newId memberId userId (hd others) now (w_db w)
      else insertChannel newId memberId userId others ''GROUP'' (if name = Some [] then None else name) now (w_db w)"
  obtain d where d: "?ins = Inr (r, d)"
    using assms by (cases ?ins) (auto simp: create_def o Let_def split: prod.splits)
  have w': "w' = (if cr_created r
      then emitToUsers (userId # others) ''channel:created''
             (JObj [(''channel'', channel_json (cr_channel r)),
                    (''memberIds'', JArr (map JStr (userId # others))), (''createdBy'', JStr userId)])
             (joinUsersToChannel (userId # others) (ch_id (cr_channel r))
               (setMembers now (ch_id (cr_channel r)) (userId # others) (w\<lparr>w_db := d\<rparr>)))
      else joinUsersToChannel [userId] (ch_id (cr_channel r)) (w\<lparr>w_db := d\<rparr>))"
    using assms by (simp only: create_def o d Let_def sum.case prod.case prod.inject)
  have db: "w_db w' = d" by (simp add: w')
  show thesis
    by (rule that[OF o]) (simp_all only: db d, simp_all add: w')
qed

lemma add_member_db_Inr:
  assumes "add_member_db i c req u role now d = Inr d'"
  obtains channel where "getRole c req d = Some ''ADMIN''" "channel \<in> set (channels d)" "ch_id channel = c"
    "ch_type channel = ''GROUP''" "\<forall>m \<in> set (memberships d). \<not> (mb_userId m = u \<and> mb_channelId m = c)"
    "length (member_rows c d) \<le> MAX_CHANNEL_PARTICIPANTS"
    "d' = d\<lparr>memberships := memberships d @ [new_membership i u c (case role of None \<Rightarrow> ''MEMBER'' | Some r \<Rightarrow> r) now],
       channels := touch_channel c now (channels d)\<rparr>"
proof -
  obtain channel where ch: "first_row (filter (\<lambda>x. ch_id x = c) (channels d)) = Some channel"
    using assms by (auto simp: add_member_db_def split: if_splits option.splits)
  show thesis
    using assms first_row_filterD[OF ch]
    by (intro that[of channel]) (simp_all add: add_member_db_def ch list_ex_iff bindE_Inr_iff insert_row_Inr_iff split: if_splits)
qed

lemma addMember_Inr:
  assumes "addMember i c req u role now w = (Inr r, w')"
  shows "add_member_db i c req u role now (w_db w) = Inr (w_db w')" "w_link w' = w_link w"
    "r_sets (w_redis w') = r_sets (w_redis (invalidate c (w\<lparr>w_db := w_db w'\<rparr>)))"
  using assms by (auto simp: addMember_def split: sum.splits)

lemma addMember_Inl: "fst (addMember i c req u role now w) = Inl e \<Longrightarrow> snd (addMember i c req u role now w) = w"
  by (auto simp: addMember_def split: sum.splits)

lemma removeMember_Inr:
  assumes "removeMember c req u now w = (Inr p, w')"
  shows "remove_member_tx (to_lower c) (to_lower u) now (w_db w) = Inr (p, w_db w')" "w_link w' = w_link w"
    "r_sets (w_redis w') = r_sets (w_redis (invalidate c (w\<lparr>w_db := w_db w'\<rparr>)))"
    "req = u \<or> getRole (to_lower c) req (w_db w) = Some ''ADMIN''"
  using assms by (auto simp: removeMember_def split: sum.splits prod.splits if_splits)

lemma removeMember_Inl: "fst (removeMember c req u now w) = Inl e \<Longrightarrow> snd (removeMember c req u now w) = w"
  by (auto simp: removeMember_def split: sum.splits prod.splits if_splits)

section \<open>Every channel has an administrator\<close>

definition admins_in :: "membership_row list \<Rightarrow> bool" where
  "admins_in ms \<longleftrightarrow> (\<forall>m \<in> set ms. \<exists>a \<in> set ms. mb_channelId a = mb_channelId m \<and> mb_role a = ''ADMIN'')"

lemma admins_in_append:
  "admins_in xs \<Longrightarrow> \<forall>m \<in> set ys. \<exists>a \<in> set (xs @ ys). mb_channelId a = mb_channelId m \<and> mb_role a = ''ADMIN'' \<Longrightarrow>
   admins_in (xs @ ys)"
  unfolding admins_in_def by fastforce

lemma admins_in_insertChannel:
  assumes "admins_in (memberships d)" "insertChannel newId memberId u others ty name now d = Inr (r, d')"
  shows "admins_in (memberships d')"
proof -
  have "admins_in (memberships d @ initial_members memberId u others newId now)"
    using initial_members_set(2,3)[of memberId u others newId now] by (intro admins_in_append[OF assms(1)]) fastforce
  then show ?thesis using insertChannel_Inr(2)[OF assms(2)] by simp
qed

lemma getRole_admin:
  "getRole c u d = Some ''ADMIN'' \<Longrightarrow> \<exists>a \<in> set (memberships d). mb_channelId a = c \<and> mb_role a = ''ADMIN''"
  unfolding getRole_def using first_row_filterD by fastforce

lemma admins_in_add:
  assumes "admins_in (memberships d)" "add_member_db i c req u role now d = Inr d'"
  shows "admins_in (memberships d')"
  using assms(2)
proof (rule add_member_db_Inr)
  fix channel
  let ?m = "new_membership i u c (case role of None \<Rightarrow> ''MEMBER'' | Some r \<Rightarrow> r) now"
  assume role: "getRole c req d = Some ''ADMIN''"
    and d': "d' = d\<lparr>memberships := memberships d @ [?m], channels := touch_channel c now (channels d)\<rparr>"
  have "admins_in (memberships d @ [?m])"
    using getRole_admin[OF role] by (intro admins_in_append[OF assms(1)]) (auto simp: new_membership_def)
  then show ?thesis by (simp add: d')
qed

lemma oldest_member_Some:
  "oldest_member c rows = Some p \<Longrightarrow> p \<in> set rows \<and> mb_channelId p = c \<and>
     (\<forall>m \<in> set rows. mb_channelId m = c \<longrightarrow> mb_joinedAt p \<le> mb_joinedAt m)"
proof -
  let ?xs = "sort_key mb_joinedAt (filter (\<lambda>m. mb_channelId m = c) rows)"
  assume "oldest_member c rows = Some p"
  then obtain ys where xs: "?xs = p # ys" unfolding oldest_member_def by (cases ?xs) auto
  have "sorted (map mb_joinedAt ?xs)" by simp
  then have le: "\<forall>m \<in> set ?xs. mb_joinedAt p \<le> mb_joinedAt m" unfolding xs by auto
  have "p \<in> set ?xs" unfolding xs by simp
  with le show ?thesis by auto
qed

lemma oldest_member_None: "oldest_member c rows = None \<longleftrightarrow> (\<forall>m \<in> set rows. mb_channelId m \<noteq> c)"
proof -
  have "oldest_member c rows = None \<longleftrightarrow> length (filter (\<lambda>m. mb_channelId m = c) rows) = 0"
    unfolding oldest_member_def first_row_None by (metis length_0_conv length_sort)
  then show ?thesis by (simp add: filter_empty_conv)
qed

lemma remove_member_tx_Inr:
  assumes "remove_member_tx c u now d = Inr (p, d')"
  obtains removed where "removed \<in> set (memberships d)" "mb_userId removed = u" "mb_channelId removed = c"
    "p = map_option mb_userId (promoted_member c removed (members_without c u d))"
    "d' = d\<lparr>memberships := promote (promoted_member c removed (members_without c u d)) (members_without c u d),
       channels := touch_channel c now (channels d)\<rparr>"
proof -
  obtain removed where r: "first_row (filter (\<lambda>m. mb_userId m = u \<and> mb_channelId m = c) (memberships d)) = Some removed"
    using assms by (auto simp: remove_member_tx_def split: option.splits)
  show thesis
    using assms first_row_filterD[OF r] by (intro that[of removed]) (simp_all add: remove_member_tx_def r Let_def)
qed

lemma set_members_without:
  "m \<in> set (members_without c u d) \<longleftrightarrow> m \<in> set (memberships d) \<and> \<not> (mb_userId m = u \<and> mb_channelId m = c)"
  by (auto simp: members_without_def)

lemma other_admins_remain:
  assumes "admins_in (memberships d)" "m \<in> set (members_without c u d)" "mb_channelId m \<noteq> c"
  shows "\<exists>a \<in> set (members_without c u d). mb_channelId a = mb_channelId m \<and> mb_role a = ''ADMIN''"
proof -
  have "m \<in> set (memberships d)" using assms(2) unfolding set_members_without by simp
  then obtain a where "a \<in> set (memberships d)" "mb_channelId a = mb_channelId m" "mb_role a = ''ADMIN''"
    using assms(1) unfolding admins_in_def by blast
  with assms(3) show ?thesis by (intro bexI[of _ a]) (simp_all add: set_members_without)
qed

lemma admin_survives_member:
  assumes "admins_in (memberships d)" "keys_unique membership_conflict (memberships d)"
    and rem: "removed \<in> set (memberships d)" "mb_userId removed = u" "mb_channelId removed = c" "mb_role removed \<noteq> ''ADMIN''"
  shows "\<exists>a \<in> set (members_without c u d). mb_channelId a = c \<and> mb_role a = ''ADMIN''"
proof -
  obtain a where a: "a \<in> set (memberships d)" "mb_channelId a = c" "mb_role a = ''ADMIN''"
    using assms(1) rem unfolding admins_in_def by blast
  have "mb_userId a \<noteq> u"
  proof
    assume "mb_userId a = u"
    then have "membership_conflict a removed" using a rem by (simp add: membership_conflict_def)
    from memberships_tab.unique_eq[OF assms(2) a(1) rem(1) this] a rem(4) show False by simp
  qed
  with a show ?thesis by (intro bexI[of _ a]) (simp_all add: set_members_without)
qed

lemma admins_in_promote:
  assumes "x \<in> set ms"
    and other: "\<And>m. m \<in> set ms \<Longrightarrow> mb_channelId m \<noteq> mb_channelId x \<Longrightarrow> \<exists>a \<in> set ms. mb_channelId a = mb_channelId m \<and> mb_role a = ''ADMIN''"
  shows "admins_in (promote (Some x) ms)"
proof -
  let ?upd = "\<lambda>m. if mb_id m = mb_id x then m\<lparr>mb_role := ''ADMIN''\<rparr> else m"
  have set': "set (promote (Some x) ms) = ?upd ` set ms" by (simp add: promote_def set_update_where)
  have same: "mb_channelId (?upd m) = mb_channelId m" "mb_role m = ''ADMIN'' \<Longrightarrow> mb_role (?upd m) = ''ADMIN''" for m by simp_all
  have "\<exists>a \<in> set ms. mb_channelId (?upd a) = mb_channelId m \<and> mb_role (?upd a) = ''ADMIN''" if "m \<in> set ms" for m
  proof (cases "mb_channelId m = mb_channelId x")
    case True
    then show ?thesis by (intro bexI[OF _ assms(1)]) simp
  next
    case False
    from other[OF that this] same show ?thesis by metis
  qed
  then show ?thesis unfolding admins_in_def set' ball_simps bex_simps same(1) by blast
qed

lemma admins_in_remove:
  assumes "admins_in (memberships d)" "keys_unique membership_conflict (memberships d)"
    and "remove_member_tx c u now d = Inr (p, d')"
  shows "admins_in (memberships d')"
  using assms(3)
proof (rule remove_member_tx_Inr)
  fix removed
  let ?rest = "members_without c u d"
  assume rem: "removed \<in> set (memberships d)" "mb_userId removed = u" "mb_channelId removed = c"
    and d': "d' = d\<lparr>memberships := promote (promoted_member c removed ?rest) ?rest, channels := touch_channel c now (channels d)\<rparr>"
  note other = other_admins_remain[OF assms(1), where c = c and u = u]
  show ?thesis
  proof (cases "promoted_member c removed ?rest")
    case None
    then have "(\<exists>a \<in> set ?rest. mb_channelId a = c \<and> mb_role a = ''ADMIN'') \<or> (\<forall>m \<in> set ?rest. mb_channelId m \<noteq> c)"
      using admin_survives_member[OF assms(1,2) rem] by (auto simp: promoted_member_def oldest_member_None list_ex_iff split: if_splits)
    moreover have "memberships d' = ?rest" using d' None by (simp add: promote_def)
    ultimately show ?thesis using other unfolding admins_in_def by (metis (no_types))
  next
    case (Some x)
    then have "x \<in> set ?rest" "mb_channelId x = c"
      using oldest_member_Some[of c ?rest x] by (auto simp: promoted_member_def split: if_splits)
    then show ?thesis using admins_in_promote[of x ?rest] other d' Some by simp
  qed
qed

section \<open>One direct channel for a pair\<close>

definition in_channel :: "uid \<Rightarrow> cid \<Rightarrow> db \<Rightarrow> bool" where
  "in_channel u c d \<longleftrightarrow> u \<in> set (member_rows c d)"

definition is_direct :: "cid \<Rightarrow> db \<Rightarrow> bool" where
  "is_direct c d \<longleftrightarrow> (\<exists>ch \<in> set (channels d). ch_id ch = c \<and> ch_type ch = ''DIRECT'')"

definition direct_between :: "uid \<Rightarrow> uid \<Rightarrow> db \<Rightarrow> cid set" where
  "direct_between a b d = {c. is_direct c d \<and> in_channel a c d \<and> in_channel b c d}"

definition direct_unique :: "db \<Rightarrow> bool" where
  "direct_unique d \<longleftrightarrow> (\<forall>a b c c'. a \<noteq> b \<longrightarrow> c \<in> direct_between a b d \<longrightarrow> c' \<in> direct_between a b d \<longrightarrow> c = c')"

lemma in_channel_iff: "in_channel u c d \<longleftrightarrow> (\<exists>m \<in> set (memberships d). mb_userId m = u \<and> mb_channelId m = c)"
  by (auto simp: in_channel_def member_rows_def)

lemma two_distinct:
  assumes "set xs \<subseteq> {a, b}" "a \<noteq> b"
  shows "length (js_uniq xs) = 2 \<longleftrightarrow> a \<in> set xs \<and> b \<in> set xs"
proof -
  have "length (js_uniq xs) = card (set xs)" by (metis distinct_card distinct_js_uniq set_js_uniq)
  moreover have "card (set xs) = 2 \<longleftrightarrow> set xs = {a, b}"
  proof
    assume "card (set xs) = 2"
    with assms show "set xs = {a, b}" by (intro card_subset_eq) auto
  qed (use assms(2) in simp)
  ultimately show ?thesis using assms by auto
qed

lemma existing_direct_iff:
  assumes "a \<noteq> b"
  shows "existing_direct a b d = None \<longleftrightarrow> direct_between a b d = {}"
    and "existing_direct a b d = Some c \<Longrightarrow> c \<in> direct_between a b d"
proof -
  let ?rows = "filter (\<lambda>m. list_ex (\<lambda>c. ch_id c = mb_channelId m \<and> ch_type c = ''DIRECT'') (channels d) \<and>
      mb_userId m \<in> {a, b}) (memberships d)"
  let ?ok = "\<lambda>c. length (js_uniq (map mb_userId (filter (\<lambda>m. mb_channelId m = c) ?rows))) = 2"
  have ok: "?ok c \<longleftrightarrow> (\<exists>m \<in> set ?rows. mb_channelId m = c \<and> mb_userId m = a) \<and> (\<exists>m \<in> set ?rows. mb_channelId m = c \<and> mb_userId m = b)" for c
    by (subst two_distinct[OF _ assms]) (auto simp del: set_filter simp: set_filter)
  have mem: "m \<in> set ?rows \<longleftrightarrow> m \<in> set (memberships d) \<and> is_direct (mb_channelId m) d \<and> mb_userId m \<in> {a, b}" for m
    by (auto simp: is_direct_def list_ex_iff)
  have rows: "(\<exists>m \<in> set ?rows. mb_channelId m = c \<and> mb_userId m = x) \<longleftrightarrow> is_direct c d \<and> in_channel x c d" if "x \<in> {a, b}" for x c
    unfolding Bex_def mem in_channel_iff using that by blast
  have between: "c \<in> direct_between a b d \<longleftrightarrow> c \<in> set (js_uniq (map mb_channelId ?rows)) \<and> ?ok c" for c
  proof -
    have ra: "(\<exists>m \<in> set ?rows. mb_channelId m = c \<and> mb_userId m = a) \<longleftrightarrow> is_direct c d \<and> in_channel a c d" by (rule rows) simp
    have rb: "(\<exists>m \<in> set ?rows. mb_channelId m = c \<and> mb_userId m = b) \<longleftrightarrow> is_direct c d \<and> in_channel b c d" by (rule rows) simp
    have "c \<in> set (js_uniq (map mb_channelId ?rows)) \<longleftrightarrow> (\<exists>m \<in> set ?rows. mb_channelId m = c)"
      unfolding set_js_uniq set_map by blast
    then show ?thesis unfolding ok direct_between_def mem_Collect_eq using ra rb by blast
  qed
  show "existing_direct a b d = None \<longleftrightarrow> direct_between a b d = {}"
  proof -
    have "existing_direct a b d = None \<longleftrightarrow> (\<forall>c \<in> set (js_uniq (map mb_channelId ?rows)). \<not> ?ok c)"
      unfolding existing_direct_def Let_def by (rule first_row_filter_None)
    also have "\<dots> \<longleftrightarrow> (\<forall>c. c \<notin> direct_between a b d)" unfolding between Ball_def by simp
    finally show ?thesis by simp
  qed
  show "existing_direct a b d = Some c \<Longrightarrow> c \<in> direct_between a b d"
  proof -
    assume "existing_direct a b d = Some c"
    then have "first_row (filter ?ok (js_uniq (map mb_channelId ?rows))) = Some c" unfolding existing_direct_def Let_def .
    from first_row_filterD[OF this] show "c \<in> direct_between a b d" unfolding between .
  qed
qed

lemma direct_unique_mono:
  assumes "direct_unique d" "\<And>a b. a \<noteq> b \<Longrightarrow> direct_between a b d' \<subseteq> direct_between a b d"
  shows "direct_unique d'"
  using assms unfolding direct_unique_def by blast

lemma member_rows_append: "member_rows c (d\<lparr>memberships := memberships d @ ms, channels := x\<rparr>) =
    member_rows c d @ map mb_userId (filter (\<lambda>m. mb_channelId m = c) ms)"
  "member_rows c (d\<lparr>channels := x, memberships := memberships d @ ms\<rparr>) =
    member_rows c d @ map mb_userId (filter (\<lambda>m. mb_channelId m = c) ms)"
  by (simp_all add: member_rows_def)

lemma insertChannel_members:
  assumes "insertChannel newId memberId u others ty name now d = Inr (r, d')"
  shows "member_rows c d' = member_rows c d @ (if c = newId then u # others else [])"
    "is_direct c d' \<longleftrightarrow> is_direct c d \<or> c = newId \<and> ty = ''DIRECT''"
proof -
  note d' = insertChannel_Inr(2)[OF assms]
  have "filter (\<lambda>m. mb_channelId m = c) (initial_members memberId u others newId now) =
      (if c = newId then initial_members memberId u others newId now else [])"
    using initial_members_set(2)[of memberId u others newId now] by (auto simp: filter_id_conv filter_empty_conv)
  then show "member_rows c d' = member_rows c d @ (if c = newId then u # others else [])"
    unfolding d' member_rows_append using initial_members_set(1)[of memberId u others newId now] by auto
  show "is_direct c d' \<longleftrightarrow> is_direct c d \<or> c = newId \<and> ty = ''DIRECT''"
    unfolding d' is_direct_def by (auto simp: new_channel_def)
qed

text \<open>Memberships refer to channels that exist.\<close>

definition members_have_channel :: "db \<Rightarrow> bool" where
  "members_have_channel d \<longleftrightarrow> mb_channelId ` set (memberships d) \<subseteq> ch_id ` set (channels d)"

lemma direct_unique_insert_group:
  assumes "direct_unique d" "insertChannel newId memberId u others ''GROUP'' name now d = Inr (r, d')"
  shows "direct_unique d'"
proof (rule direct_unique_mono[OF assms(1)])
  fix a b
  have "is_direct newId d \<Longrightarrow> False" using insertChannel_Inr(3)[OF assms(2)] by (auto simp: is_direct_def)
  then show "direct_between a b d' \<subseteq> direct_between a b d"
    using insertChannel_members[OF assms(2)] by (auto simp: direct_between_def in_channel_def)
qed

lemma direct_unique_insert_direct:
  assumes "direct_unique d" "members_have_channel d" "existing_direct u v d = None" "u \<noteq> v"
    and "insertChannel newId memberId u [v] ''DIRECT'' None now d = Inr (r, d')"
  shows "direct_unique d'"
proof -
  have none: "direct_between u v d = {}" using existing_direct_iff(1)[OF assms(4)] assms(3) by blast
  have fresh: "member_rows newId d = []"
    using assms(2) insertChannel_Inr(3)[OF assms(5)] by (fastforce simp: members_have_channel_def member_rows_def filter_empty_conv)
  have new: "direct_between a b d' = direct_between a b d \<union> (if {a, b} \<subseteq> {u, v} then {newId} else {})" for a b
    using insertChannel_members[OF assms(5)] fresh by (auto simp: direct_between_def in_channel_def)
  show ?thesis
    unfolding direct_unique_def
  proof (intro allI impI)
    fix a b c c'
    assume ab: "a \<noteq> b" "c \<in> direct_between a b d'" "c' \<in> direct_between a b d'"
    show "c = c'"
    proof (cases "{a, b} \<subseteq> {u, v}")
      case True
      then have "direct_between a b d = {}" using none ab(1) by (auto simp: direct_between_def)
      with True have "direct_between a b d' = {newId}" unfolding new by simp
      with ab(2,3) show ?thesis by simp
    next
      case False
      then have "direct_between a b d' = direct_between a b d" unfolding new by (simp only: if_False Un_empty_right)
      with ab assms(1) show ?thesis unfolding direct_unique_def by blast
    qed
  qed
qed

lemma is_direct_touch [simp]: "is_direct b (d\<lparr>memberships := x, channels := touch_channel c now (channels d)\<rparr>) = is_direct b d"
proof -
  have "is_direct b d \<longleftrightarrow> (b, ''DIRECT'') \<in> set (map (\<lambda>ch. (ch_id ch, ch_type ch)) (channels d))" for d
    by (auto simp: is_direct_def)
  then show ?thesis by (simp add: touch_channel_def update_where_map del: set_map)
qed

lemma channel_ids_touch [simp]: "map ch_id (touch_channel c now chs) = map ch_id chs"
  by (simp add: touch_channel_def update_where_map)

lemma add_member_rows:
  assumes "add_member_db i c req u role now d = Inr d'"
  shows "member_rows b d' = member_rows b d @ (if b = c then [u] else [])" "is_direct b d' = is_direct b d"
    "\<not> in_channel u c d" "length (member_rows c d) \<le> MAX_CHANNEL_PARTICIPANTS"
    "map ch_id (channels d') = map ch_id (channels d)"
    "\<exists>channel \<in> set (channels d). ch_id channel = c \<and> ch_type channel = ''GROUP''"
  using assms by (auto elim!: add_member_db_Inr simp: member_rows_append new_membership_def in_channel_iff)

lemma member_rows_promote:
  "member_rows b (d\<lparr>memberships := promote p ms, channels := x\<rparr>) = map mb_userId (filter (\<lambda>m. mb_channelId m = b) ms)"
proof -
  have "map mb_userId (filter (\<lambda>m. mb_channelId m = b) (update_where P (\<lambda>m. m\<lparr>mb_role := r\<rparr>) ms))
      = map mb_userId (filter (\<lambda>m. mb_channelId m = b) ms)" for P r
    by (induction ms) auto
  then show ?thesis by (simp add: member_rows_def promote_def split: option.splits)
qed

lemma remove_member_rows:
  assumes "remove_member_tx c u now d = Inr (p, d')"
  shows "member_rows b d' = (if b = c then filter (\<lambda>x. x \<noteq> u) (member_rows b d) else member_rows b d)"
    "is_direct b d' = is_direct b d" "in_channel u c d" "map ch_id (channels d') = map ch_id (channels d)"
proof -
  obtain removed where r: "removed \<in> set (memberships d)" "mb_userId removed = u" "mb_channelId removed = c"
    "d' = d\<lparr>memberships := promote (promoted_member c removed (members_without c u d)) (members_without c u d),
       channels := touch_channel c now (channels d)\<rparr>"
    using assms by (rule remove_member_tx_Inr)
  have "map mb_userId (filter (\<lambda>m. mb_channelId m = b) (filter (\<lambda>m. \<not> (mb_userId m = u \<and> mb_channelId m = c)) ms))
      = (if b = c then filter (\<lambda>x. x \<noteq> u) (map mb_userId (filter (\<lambda>m. mb_channelId m = b) ms))
         else map mb_userId (filter (\<lambda>m. mb_channelId m = b) ms))" for ms
    by (induction ms) auto
  then show "member_rows b d' = (if b = c then filter (\<lambda>x. x \<noteq> u) (member_rows b d) else member_rows b d)"
    unfolding r(4) member_rows_promote members_without_def by (simp only: member_rows_def)
  show "is_direct b d' = is_direct b d" "map ch_id (channels d') = map ch_id (channels d)" unfolding r(4) by simp_all
  show "in_channel u c d" using r(1-3) by (auto simp: in_channel_iff)
qed

lemma direct_unique_add:
  assumes "direct_unique d" "add_member_db i c req u role now d = Inr d'" "keys_unique channel_conflict (channels d)"
  shows "direct_unique d'"
proof (rule direct_unique_mono[OF assms(1)])
  fix a b
  obtain channel where ch: "channel \<in> set (channels d)" "ch_id channel = c" "ch_type channel = ''GROUP''"
    using add_member_rows(6)[OF assms(2)] by blast
  have "\<not> is_direct c d"
  proof
    assume "is_direct c d"
    then obtain x where x: "x \<in> set (channels d)" "ch_id x = c" "ch_type x = ''DIRECT''" by (auto simp: is_direct_def)
    then have "channel_conflict x channel" using ch by (simp add: channel_conflict_def)
    from channels_tab.unique_eq[OF assms(3) x(1) ch(1) this] x ch show False by simp
  qed
  then show "direct_between a b d' \<subseteq> direct_between a b d"
    using add_member_rows(1,2)[OF assms(2)] by (auto simp: direct_between_def in_channel_def)
qed

lemma direct_unique_remove:
  assumes "direct_unique d" "remove_member_tx c u now d = Inr (p, d')"
  shows "direct_unique d'"
  by (rule direct_unique_mono[OF assms(1)])
    (use remove_member_rows(1,2)[OF assms(2)] in \<open>auto simp: direct_between_def in_channel_def split: if_splits\<close>)

lemma members_have_channel_iff: "members_have_channel d \<longleftrightarrow> (\<forall>c. member_rows c d \<noteq> [] \<longrightarrow> c \<in> set (map ch_id (channels d)))"
  by (auto simp: members_have_channel_def member_rows_def filter_empty_conv)

lemma members_have_channel_ops:
  assumes "members_have_channel d"
  shows "insertChannel newId memberId u others ty name now d = Inr (r, d') \<Longrightarrow> members_have_channel d'"
    and "add_member_db i c req v role now d = Inr d' \<Longrightarrow> members_have_channel d'"
    and "remove_member_tx c v now d = Inr (p, d') \<Longrightarrow> members_have_channel d'"
proof -
  assume ins: "insertChannel newId memberId u others ty name now d = Inr (r, d')"
  then have "channels d' = channels d @ [new_channel newId ty name now]" using insertChannel_Inr(2) by fastforce
  then show "members_have_channel d'"
    using assms insertChannel_members(1)[OF ins] by (auto simp: members_have_channel_iff new_channel_def split: if_splits)
next
  assume add: "add_member_db i c req v role now d = Inr d'"
  then have "c \<in> set (map ch_id (channels d'))"
    using add_member_rows(6)[OF add] unfolding add_member_rows(5)[OF add] by auto
  then show "members_have_channel d'"
    using assms add_member_rows(1,5)[OF add] by (simp add: members_have_channel_iff)
next
  assume rem: "remove_member_tx c v now d = Inr (p, d')"
  then show "members_have_channel d'"
    using assms remove_member_rows(1,4)[OF rem] unfolding members_have_channel_iff by (metis filter.simps(1))
qed

text \<open>A channel has at most \<open>MAX_CHANNEL_PARTICIPANTS\<close> members besides its creator.\<close>

definition sizes_ok :: "db \<Rightarrow> bool" where
  "sizes_ok d \<longleftrightarrow> (\<forall>c. length (member_rows c d) \<le> MAX_CHANNEL_PARTICIPANTS + 1)"

lemma sizes_ok_ops:
  assumes "sizes_ok d"
  shows "members_have_channel d \<Longrightarrow> length others \<le> MAX_CHANNEL_PARTICIPANTS \<Longrightarrow>
      insertChannel newId memberId u others ty name now d = Inr (r, d') \<Longrightarrow> sizes_ok d'"
    and "add_member_db i c req v role now d = Inr d' \<Longrightarrow> sizes_ok d'"
    and "remove_member_tx c v now d = Inr (p, d') \<Longrightarrow> sizes_ok d'"
proof -
  assume ch: "members_have_channel d" and len: "length others \<le> MAX_CHANNEL_PARTICIPANTS"
    and ins: "insertChannel newId memberId u others ty name now d = Inr (r, d')"
  have "member_rows newId d = []"
    using ch insertChannel_Inr(3)[OF ins] by (fastforce simp: members_have_channel_iff)
  then show "sizes_ok d'" using assms len insertChannel_members(1)[OF ins] by (auto simp: sizes_ok_def)
next
  assume add: "add_member_db i c req v role now d = Inr d'"
  then show "sizes_ok d'" using assms add_member_rows(1,4)[OF add] by (auto simp: sizes_ok_def)
next
  assume rem: "remove_member_tx c v now d = Inr (p, d')"
  have "length (filter P xs) \<le> n" if "length xs \<le> n" for P n and xs :: "uid list" using that length_filter_le le_trans by blast
  then show "sizes_ok d'" using assms remove_member_rows(1)[OF rem] by (auto simp: sizes_ok_def)
qed

section \<open>The invariant of channels\<close>

definition channels_ok :: "db \<Rightarrow> bool" where
  "channels_ok d \<longleftrightarrow> admins_in (memberships d) \<and> direct_unique d \<and> members_have_channel d \<and> sizes_ok d \<and>
     keys_unique channel_conflict (channels d) \<and> keys_unique membership_conflict (memberships d)"

lemma touch_unique: "keys_unique channel_conflict chs \<Longrightarrow> keys_unique channel_conflict (touch_channel c now chs)"
  unfolding touch_channel_def by (rule channels_tab.unique_update) (simp_all add: channel_conflict_def)

lemma promote_unique: "keys_unique membership_conflict ms \<Longrightarrow> keys_unique membership_conflict (promote p ms)"
  unfolding promote_def
  by (cases p) (auto intro!: memberships_tab.unique_update simp: membership_conflict_def)

lemma keys_insertChannel:
  assumes "keys_unique channel_conflict (channels d)" "keys_unique membership_conflict (memberships d)"
    and "insertChannel newId memberId u others ty name now d = Inr (r, d')"
  shows "keys_unique channel_conflict (channels d') \<and> keys_unique membership_conflict (memberships d')"
  using assms by (auto simp: insertChannel_def Let_def bindE_Inr_iff intro: channels_tab.unique_insert memberships_tab.unique_inserts)

lemma channels_ok_insertChannel:
  assumes "channels_ok d" "insertChannel newId memberId u others ty name now d = Inr (r, d')"
    and "length others \<le> MAX_CHANNEL_PARTICIPANTS" "direct_unique d'"
  shows "channels_ok d'"
  using assms keys_insertChannel[OF _ _ assms(2)]
  by (auto simp: channels_ok_def intro: admins_in_insertChannel members_have_channel_ops(1) sizes_ok_ops(1))

lemma channels_ok_add:
  assumes "channels_ok d" "add_member_db i c req u role now d = Inr d'"
  shows "channels_ok d'"
proof -
  have "keys_unique membership_conflict (memberships d')"
  proof -
    obtain mbs where "insert_row membership_conflict
        (new_membership i u c (case role of None \<Rightarrow> ''MEMBER'' | Some r \<Rightarrow> r) now) (memberships d) = Inr mbs" "memberships d' = mbs"
      using assms(2) by (auto simp: add_member_db_def bindE_Inr_iff split: if_splits option.splits)
    then show ?thesis using assms(1) memberships_tab.unique_insert by (auto simp: channels_ok_def)
  qed
  moreover have "keys_unique channel_conflict (channels d')"
    using assms by (auto simp: channels_ok_def elim!: add_member_db_Inr intro: touch_unique)
  ultimately show ?thesis
    using assms by (auto simp: channels_ok_def intro: admins_in_add direct_unique_add members_have_channel_ops(2) sizes_ok_ops(2))
qed

lemma channels_ok_remove:
  assumes "channels_ok d" "remove_member_tx c u now d = Inr (p, d')"
  shows "channels_ok d'"
proof -
  have "keys_unique membership_conflict (memberships d') \<and> keys_unique channel_conflict (channels d')"
    using assms(2)
  proof (rule remove_member_tx_Inr)
    fix removed
    assume "d' = d\<lparr>memberships := promote (promoted_member c removed (members_without c u d)) (members_without c u d),
       channels := touch_channel c now (channels d)\<rparr>"
    then show ?thesis
      using assms(1) by (auto simp: channels_ok_def members_without_def intro!: promote_unique touch_unique memberships_tab.unique_delete)
  qed
  then show ?thesis
    using assms by (auto simp: channels_ok_def intro: admins_in_remove direct_unique_remove members_have_channel_ops(3) sizes_ok_ops(3))
qed

lemma channels_ok_create:
  assumes "channels_ok (w_db w)" "create newId memberId u ps ty name now w = (Inr r, w')"
  shows "channels_ok (w_db w')"
  using assms(2)
proof (rule create_Inr)
  fix others
  assume chk: "create_checks u ps ty (w_db w) = Inr others"
    and ins: "(if ty = ''DIRECT'' then createDirect newId memberId u (hd others) now (w_db w)
      else insertChannel newId memberId u others ''GROUP'' (if name = Some [] then None else name) now (w_db w)) = Inr (r, w_db w')"
  note o = create_checks_Inr[OF chk]
  show ?thesis
  proof (cases "ty = ''DIRECT''")
    case True
    with o(5) obtain v where v: "others = [v]" by (cases others) auto
    with o(4) have uv: "u \<noteq> v" by simp
    have cd: "createDirect newId memberId u v now (w_db w) = Inr (r, w_db w')" using ins True v by simp
    from createDirect_Inr[OF this] show ?thesis
    proof (elim disjE exE conjE)
      assume none: "existing_direct u v (w_db w) = None"
        and i: "insertChannel newId memberId u [v] ''DIRECT'' None now (w_db w) = Inr (r, w_db w')"
      have "direct_unique (w_db w')"
        using assms(1) direct_unique_insert_direct[OF _ _ none uv i] by (simp add: channels_ok_def)
      then show ?thesis
        using channels_ok_insertChannel[OF assms(1) i] by (simp add: MAX_CHANNEL_PARTICIPANTS_def)
    qed (use assms(1) in simp)
  next
    case False
    with ins have g: "insertChannel newId memberId u others ''GROUP'' (if name = Some [] then None else name) now (w_db w) = Inr (r, w_db w')"
      by simp
    have "length others \<le> MAX_CHANNEL_PARTICIPANTS" using o(5) by (auto simp: MAX_CHANNEL_PARTICIPANTS_def)
    moreover have "direct_unique (w_db w')" using assms(1) direct_unique_insert_group[OF _ g] by (simp add: channels_ok_def)
    ultimately show ?thesis using channels_ok_insertChannel[OF assms(1) g] by blast
  qed
qed

text \<open>A handler either commits or, when it throws, leaves the world as it was.\<close>

lemma handler_cases:
  assumes "\<And>r w'. f = (Inr r, w') \<Longrightarrow> P w'" "\<And>e. fst f = Inl e \<Longrightarrow> snd f = w" "P w"
  shows "P (snd f)"
proof (cases "fst f")
  case (Inl e)
  with assms(2,3) show ?thesis by simp
next
  case (Inr r)
  then have "f = (Inr r, snd f)" by (metis prod.collapse)
  with assms(1) show ?thesis by blast
qed

lemma channels_ok_ops:
  assumes "channels_ok (w_db w)"
  shows "channels_ok (w_db (snd (create newId memberId u ps ty name now w)))"
    "channels_ok (w_db (snd (addMember i c req v role now w)))"
    "channels_ok (w_db (snd (removeMember c req v now w)))"
proof -
  show "channels_ok (w_db (snd (create newId memberId u ps ty name now w)))"
    by (rule handler_cases[where w = w]) (fact channels_ok_create[OF assms], erule create_Inl, fact assms)
  show "channels_ok (w_db (snd (addMember i c req v role now w)))"
    by (rule handler_cases[where w = w]) (erule channels_ok_add[OF assms addMember_Inr(1)], erule addMember_Inl, fact assms)
  show "channels_ok (w_db (snd (removeMember c req v now w)))"
    by (rule handler_cases[where w = w]) (erule channels_ok_remove[OF assms removeMember_Inr(1)], erule removeMember_Inl, fact assms)
qed

text \<open>
  A channel never loses its last administrator while it has members. Creating channels and
  adding or removing members keep an administrator in every channel that has a member; when the last
  one leaves, exactly one member is promoted, and nobody of the channel has been in it longer.
\<close>

theorem channels_keep_an_admin:
  assumes "channels_ok (w_db w)"
  shows "admins_in (memberships (w_db (snd (create newId memberId u ps ty name now w)))) \<and>
    admins_in (memberships (w_db (snd (addMember i c req v role now w)))) \<and>
    admins_in (memberships (w_db (snd (removeMember c req v now w)))) \<and>
    (\<forall>p. fst (removeMember c req v now w) = Inr (Some p) \<longrightarrow>
       (\<exists>m \<in> set (memberships (w_db w)). mb_userId m = p \<and> mb_channelId m = to_lower c \<and> p \<noteq> to_lower v \<and>
         (\<forall>x \<in> set (memberships (w_db w)). mb_channelId x = to_lower c \<and> mb_userId x \<noteq> to_lower v \<longrightarrow>
            mb_role x \<noteq> ''ADMIN'' \<and> mb_joinedAt m \<le> mb_joinedAt x)))"
proof -
  have "\<exists>m \<in> set (memberships (w_db w)). mb_userId m = p \<and> mb_channelId m = to_lower c \<and> p \<noteq> to_lower v \<and>
      (\<forall>x \<in> set (memberships (w_db w)). mb_channelId x = to_lower c \<and> mb_userId x \<noteq> to_lower v \<longrightarrow> mb_role x \<noteq> ''ADMIN'' \<and> mb_joinedAt m \<le> mb_joinedAt x)"
    if "fst (removeMember c req v now w) = Inr (Some p)" for p
  proof -
    have "removeMember c req v now w = (Inr (Some p), snd (removeMember c req v now w))" using that by (metis prod.collapse)
    note tx = removeMember_Inr(1)[OF this]
    from tx show ?thesis
    proof (rule remove_member_tx_Inr)
      fix removed
      let ?rest = "members_without (to_lower c) (to_lower v) (w_db w)"
      assume "Some p = map_option mb_userId (promoted_member (to_lower c) removed ?rest)"
      then obtain m where m: "promoted_member (to_lower c) removed ?rest = Some m" "mb_userId m = p"
        by (cases "promoted_member (to_lower c) removed ?rest") auto
      then have o: "oldest_member (to_lower c) ?rest = Some m"
        and adm: "\<not> list_ex (\<lambda>m. mb_channelId m = to_lower c \<and> mb_role m = ''ADMIN'') ?rest"
        by (auto simp: promoted_member_def split: if_splits)
      from oldest_member_Some[OF o] adm m(2) show ?thesis
        by (intro bexI[of _ m]) (auto simp: set_members_without list_ex_iff)
    qed
  qed
  then show ?thesis using channels_ok_ops[OF assms] by (simp add: channels_ok_def)
qed

lemma sample_channels_ok: "channels_ok (w_db sample_chat)"
  by (auto simp: channels_ok_def admins_in_def direct_unique_def direct_between_def is_direct_def members_have_channel_def
      sizes_ok_def member_rows_def MAX_CHANNEL_PARTICIPANTS_def keys_unique_def conflict_defs sample_chat_def sample_defs)

theorem channels_keep_an_admin_witness:
  "admins_in (memberships (w_db (snd (removeMember ''c1'' ''u1'' ''u1'' 9 sample_chat))))"
  using channels_keep_an_admin[OF sample_channels_ok] by blast

text \<open>
  Two users have at most one direct channel. Whatever is created, joined or left, no two direct
  channels hold the same two users; and a request for a direct channel that is there already, by
  either of the two, returns that channel and changes no table.
\<close>

theorem one_direct_channel_per_pair:
  assumes "channels_ok (w_db w)"
  shows "direct_unique (w_db (snd (create newId memberId u ps ty name now w))) \<and>
    direct_unique (w_db (snd (addMember i c req v role now w))) \<and>
    direct_unique (w_db (snd (removeMember c req v now w))) \<and>
    (a \<noteq> b \<and> direct_between a b (w_db w) = {k} \<and> list_ex (\<lambda>x. u_id x = b \<and> u_isActive x) (users (w_db w)) \<and>
       keys_unique user_conflict (users (w_db w)) \<longrightarrow>
     (\<exists>r. fst (create newId memberId a [b] ''DIRECT'' name now w) = Inr r \<and> ch_id (cr_channel r) = k \<and> \<not> cr_created r) \<and>
     w_db (snd (create newId memberId a [b] ''DIRECT'' name now w)) = w_db w)"
proof -
  have "(\<exists>r. fst (create newId memberId a [b] ''DIRECT'' name now w) = Inr r \<and> ch_id (cr_channel r) = k \<and> \<not> cr_created r) \<and>
      w_db (snd (create newId memberId a [b] ''DIRECT'' name now w)) = w_db w"
    if h: "a \<noteq> b" "direct_between a b (w_db w) = {k}" "list_ex (\<lambda>x. u_id x = b \<and> u_isActive x) (users (w_db w))"
      "keys_unique user_conflict (users (w_db w))"
  proof -
    obtain x where x: "x \<in> set (users (w_db w))" "u_id x = b" "u_isActive x" using h(3) by (auto simp: list_ex_iff)
    have "filter (\<lambda>u. u_id u \<in> set [b] \<and> u_isActive u) (users (w_db w)) = [x]"
      using x by (intro users_tab.unique_filter[OF h(4)]) (auto simp: user_conflict_def)
    then have chk: "create_checks a [b] ''DIRECT'' (w_db w) = Inr [b]" using h(1) by (simp add: create_checks_def Let_def)
    obtain e where e: "existing_direct a b (w_db w) = Some e" "e = k"
      using existing_direct_iff[OF h(1), of "w_db w"] h(2) by (cases "existing_direct a b (w_db w)") auto
    have "is_direct k (w_db w)" using h(2) by (auto simp: direct_between_def)
    then obtain ch where "first_row (filter (\<lambda>x. ch_id x = k) (channels (w_db w))) = Some ch" "ch_id ch = k"
      unfolding is_direct_def using first_row_filter_ex[of _ "channels (w_db w)" "\<lambda>x. ch_id x = k"] by blast
    then show ?thesis using chk e by (simp add: create_def createDirect_def Let_def)
  qed
  then show ?thesis using channels_ok_ops[OF assms] by (simp add: channels_ok_def)
qed

theorem one_direct_channel_per_pair_witness:
  "direct_unique (w_db (snd (create ''c2'' (\<lambda>k. show_nat k) ''u1'' [''u2''] ''DIRECT'' None 9 sample_chat)))"
  using one_direct_channel_per_pair[OF sample_channels_ok] by blast

section \<open>Membership changes and the cached sets\<close>

lemma members_coherent_create:
  assumes "members_coherent w" "members_have_channel (w_db w)" "create newId memberId u ps ty name now w = (Inr r, w')"
  shows "members_coherent w'"
  using assms(3)
proof (rule create_Inr)
  fix others
  assume chk: "create_checks u ps ty (w_db w) = Inr others"
    and ins: "(if ty = ''DIRECT'' then createDirect newId memberId u (hd others) now (w_db w)
      else insertChannel newId memberId u others ''GROUP'' (if name = Some [] then None else name) now (w_db w)) = Inr (r, w_db w')"
    and sets: "r_sets (w_redis w') = (if cr_created r
       then r_sets (w_redis (setMembers now (ch_id (cr_channel r)) (u # others) (w\<lparr>w_db := w_db w'\<rparr>)))
       else r_sets (w_redis w))"
  have hd: "ty = ''DIRECT'' \<Longrightarrow> [hd others] = others" using create_checks_Inr(5)[OF chk] by (cases others) auto
  consider (same) "w_db w' = w_db w" "\<not> cr_created r"
    | (new) ty' n where "insertChannel newId memberId u others ty' n now (w_db w) = Inr (r, w_db w')"
    using ins hd createDirect_Inr[of newId memberId u "hd others" now "w_db w" r "w_db w'"] by (auto split: if_splits)
  then show ?thesis
  proof cases
    case same
    with sets assms(1) show ?thesis by (simp add: members_coherent_def)
  next
    case new
    note rows = insertChannel_members(1)[OF new]
    have r: "r = \<lparr>cr_channel = new_channel newId ty' n now, cr_created = True\<rparr>" using insertChannel_Inr(1)[OF new] .
    have fresh: "member_rows newId (w_db w) = []"
      using assms(2) insertChannel_Inr(3)[OF new] by (fastforce simp: members_have_channel_iff)
    have sets': "r_sets (w_redis w') (RedisKeys_channelMembers c) =
        (if w_link w = Up \<and> c = newId then Some (js_uniq (u # others), Some (now + 1000 * RedisTtl_channelMembersSeconds))
         else r_sets (w_redis w) (RedisKeys_channelMembers c))" for c
      using sets by (cases "w_link w") (auto simp: r setMembers_def with_redis_def put_ex_def new_channel_def)
    have old: "v \<noteq> [] \<and> set v = set (member_rows c (w_db w))" if "r_sets (w_redis w) (RedisKeys_channelMembers c) = Some (v, e)" for c v e
      using assms(1) that unfolding members_coherent_def by blast
    show ?thesis
      unfolding members_coherent_def
    proof (intro allI impI)
      fix c v e
      assume v: "r_sets (w_redis w') (RedisKeys_channelMembers c) = Some (v, e)"
      show "v \<noteq> [] \<and> set v = set (member_rows c (w_db w'))"
      proof (cases "w_link w = Up \<and> c = newId")
        case True
        then have "v = js_uniq (u # others)" using v sets'[of c] by simp
        then show ?thesis using True fresh rows[of c] by (simp del: js_uniq.simps)
      next
        case False
        then have "r_sets (w_redis w) (RedisKeys_channelMembers c) = Some (v, e)" using v sets'[of c] by auto
        from old[OF this] show ?thesis using rows[of c] fresh by (cases "c = newId") auto
      qed
    qed
  qed
qed

lemma members_coherent_change:
  assumes "members_coherent w" "w_link w = Up"
    and "r_sets (w_redis w') = r_sets (w_redis (invalidate c (w\<lparr>w_db := w_db w'\<rparr>)))"
    and "\<And>b. b \<noteq> c \<Longrightarrow> member_rows b (w_db w') = member_rows b (w_db w)"
  shows "members_coherent w'"
proof -
  have "members_coherent (invalidate c (w\<lparr>w_db := w_db w'\<rparr>))"
    by (rule invalidate_coherent[OF assms(1,2)]) (simp add: assms(4))
  then show ?thesis using assms(3) by (simp add: members_coherent_def)
qed

text \<open>
  With Redis up, every change of a channel's members leaves the cached sets in agreement with
  the table, so that the next lookup sees a new member and no longer sees a removed one. The ids are spelled
  as in the table.
\<close>

theorem membership_changes_keep_cache:
  assumes "members_coherent w" "channels_ok (w_db w)" "w_link w = Up" "to_lower c = c" "to_lower v = v"
  shows "members_coherent (snd (create newId memberId u ps ty name now w)) \<and>
    members_coherent (snd (addMember i c req v role now w)) \<and>
    members_coherent (snd (removeMember c req v now w)) \<and>
    (fst (addMember i c req v role now w) = Inr x \<longrightarrow> fst (isMember now' c v (snd (addMember i c req v role now w)))) \<and>
    (fst (removeMember c req v now w) = Inr y \<longrightarrow> \<not> fst (isMember now' c v (snd (removeMember c req v now w))))"
proof -
  have ch: "members_have_channel (w_db w)" using assms(2) by (simp add: channels_ok_def)
  have create: "members_coherent (snd (create newId memberId u ps ty name now w))"
    by (rule handler_cases[where w = w]) (fact members_coherent_create[OF assms(1) ch], erule create_Inl, fact assms(1))
  have add: "members_coherent w' \<and> v \<in> set (member_rows c (w_db w'))" if a: "addMember i c req v role now w = (Inr r, w')" for r w'
    using members_coherent_change[OF assms(1,3) addMember_Inr(3)[OF a]] add_member_rows(1)[OF addMember_Inr(1)[OF a]] by simp
  have rem: "members_coherent w' \<and> v \<notin> set (member_rows c (w_db w'))" if r: "removeMember c req v now w = (Inr p, w')" for p w'
    using members_coherent_change[OF assms(1,3) removeMember_Inr(3)[OF r]] remove_member_rows(1)[OF removeMember_Inr(1)[OF r]] assms(4,5) by simp
  have "members_coherent (snd (addMember i c req v role now w))"
    by (rule handler_cases[where w = w]) (use add in blast, erule addMember_Inl, fact assms(1))
  moreover have "members_coherent (snd (removeMember c req v now w))"
    by (rule handler_cases[where w = w]) (use rem in blast, erule removeMember_Inl, fact assms(1))
  moreover have "fst (isMember now' c v (snd (addMember i c req v role now w)))" if "fst (addMember i c req v role now w) = Inr x"
    using add[of x "snd (addMember i c req v role now w)"] that redis_members.is_member_truth by (metis prod.collapse)
  moreover have "\<not> fst (isMember now' c v (snd (removeMember c req v now w)))" if "fst (removeMember c req v now w) = Inr y"
    using rem[of y "snd (removeMember c req v now w)"] that redis_members.is_member_truth by (metis prod.collapse)
  ultimately show ?thesis using create by blast
qed

theorem membership_changes_keep_cache_witness:
  "\<not> fst (isMember 10 ''c1'' ''u2'' (snd (removeMember ''c1'' ''u1'' ''u2'' 9 sample_chat)))"
proof -
  have "\<exists>y. fst (removeMember ''c1'' ''u1'' ''u2'' 9 sample_chat) = Inr y"
    by (simp add: removeMember_def remove_member_tx_def getRole_def Let_def sample_chat_def sample_defs to_lower_def lower_char_def)
  then show ?thesis
    using membership_changes_keep_cache[OF sample_chat_ok(5) sample_channels_ok sample_chat_ok(7), of "''c1''" "''u2''"]
    by (auto simp: to_lower_def lower_char_def)
qed

text \<open>
  The cached set outlives a removal that Redis did not hear of. When the membership is removed
  while Redis rejects commands, the row is gone, but as long as the cached set has not expired every
  lookup after Redis has come back still answers that the removed user is a member.
\<close>

theorem removed_member_stays_cached:
  assumes "removeMember c req v now (w\<lparr>w_link := Failing\<rparr>) = (Inr y, w')" "members_coherent w"
    and "cached_members now' c (w\<lparr>w_link := Up\<rparr>) \<noteq> []"
    and "to_lower c = c" "to_lower v = v"
  shows "v \<notin> set (member_rows c (w_db w')) \<and> fst (isMember now' c v (w'\<lparr>w_link := Up\<rparr>))"
proof -
  let ?w = "w\<lparr>w_link := Failing\<rparr>"
  have "r_sets (w_redis w') = r_sets (w_redis w)"
    using removeMember_Inr(3)[OF assms(1)] by (simp add: invalidate_def with_redis_def)
  then have cached: "cached_members now' c (w'\<lparr>w_link := Up\<rparr>) = cached_members now' c (w\<lparr>w_link := Up\<rparr>)"
    by (simp add: cached_members_def with_redis_def)
  have "members_coherent (w\<lparr>w_link := Up\<rparr>)" using assms(2) by (simp add: members_coherent_def)
  from cached_members_coherent[OF this assms(3)]
  have "set (cached_members now' c (w\<lparr>w_link := Up\<rparr>)) = set (member_rows c (w_db w))" by simp
  moreover have "v \<in> set (member_rows c (w_db w))"
    using remove_member_rows(3)[OF removeMember_Inr(1)[OF assms(1)]] assms(4,5) by (simp add: in_channel_def)
  moreover have "v \<notin> set (member_rows c (w_db w'))"
    using remove_member_rows(1)[OF removeMember_Inr(1)[OF assms(1)]] assms(4,5) by simp
  ultimately show ?thesis using cached assms(3) by (simp add: isMember_def)
qed

theorem removed_member_stays_cached_witness:
  "\<exists>y w'. removeMember ''c1'' ''u1'' ''u2'' 9 ((snd (getMembers 8 ''c1'' sample_chat))\<lparr>w_link := Failing\<rparr>) = (Inr y, w') \<and>
     fst (isMember 10 ''c1'' ''u2'' (w'\<lparr>w_link := Up\<rparr>))"
proof -
  let ?w = "snd (getMembers 8 ''c1'' sample_chat)"
  have "\<exists>y w'. removeMember ''c1'' ''u1'' ''u2'' 9 (?w\<lparr>w_link := Failing\<rparr>) = (Inr y, w')"
    by (simp add: removeMember_def remove_member_tx_def getRole_def Let_def sample_chat_def sample_defs to_lower_def lower_char_def)
  then obtain y w' where r: "removeMember ''c1'' ''u1'' ''u2'' 9 (?w\<lparr>w_link := Failing\<rparr>) = (Inr y, w')" by blast
  have rows: "member_rows ''c1'' (w_db sample_chat) = [''u1'', ''u2'']"
    by (simp add: member_rows_def sample_chat_def sample_defs)
  have red: "w_redis sample_chat = empty_redis" by (simp add: sample_chat_def sample_world_def)
  have "cached_members 10 ''c1'' (?w\<lparr>w_link := Up\<rparr>) \<noteq> []"
    by (simp add: getMembers_def cached_members_def with_redis_def sample_chat_ok setMembers_def rows red Let_def
        list_at_def live_put_ex_later redis_ttl_defs)
  moreover have "to_lower ''c1'' = ''c1''" "to_lower ''u2'' = ''u2''" by (simp_all add: to_lower_def lower_char_def)
  ultimately show ?thesis using removed_member_stays_cached[OF r] getMembers_coherent[OF sample_chat_ok(5)] r by blast
qed

section \<open>Read marks\<close>

text \<open>The sequence number a member has read up to; \<open>0\<close> before the first mark.\<close>

definition mark_of :: "db \<Rightarrow> membership_row \<Rightarrow> int" where
  "mark_of d m = (case seq_by_id d (mb_lastReadMessageId m) of None \<Rightarrow> 0 | Some s \<Rightarrow> s)"

definition marks_le :: "db \<Rightarrow> db \<Rightarrow> bool" where
  "marks_le d d' \<longleftrightarrow> list_all2 (\<lambda>m m'. mb_id m' = mb_id m \<and> mark_of d m \<le> mark_of d' m') (memberships d) (memberships d')"

lemma marks_le_refl: "marks_le d d"
  by (simp add: marks_le_def list_all2_refl)

lemma mark_of_messages: "messages d' = messages d \<Longrightarrow> mark_of d' m = mark_of d m"
  by (simp add: mark_of_def seq_by_id_def message_by_id_def split: option.splits)

lemma message_by_id_unique:
  assumes "unique_ids (messages d)" "x \<in> set (messages d)"
  shows "message_by_id d (Some (ms_id x)) = Some x"
proof -
  obtain y where y: "first_row (filter (\<lambda>m. ms_id m = ms_id x) (messages d)) = Some y"
    using first_row_filter_ex[OF assms(2), of "\<lambda>m. ms_id m = ms_id x"] by auto
  then have "y = x" using first_row_filterD[OF y] unique_ids_eq[OF assms(1) _ assms(2)] by blast
  with y show ?thesis by (simp add: message_by_id_def)
qed

lemma mark_of_set:
  assumes "unique_ids (messages d)" "x \<in> set (messages d)"
  shows "mark_of d (m\<lparr>mb_lastReadMessageId := Some (ms_id x), mb_lastReadAt := t\<rparr>) = ms_sequenceNumber x"
  using message_by_id_unique[OF assms] by (simp add: mark_of_def seq_by_id_def)

lemma list_all2_update:
  "(\<And>m. m \<in> set rows \<Longrightarrow> P m \<Longrightarrow> R m (f m)) \<Longrightarrow> (\<And>m. m \<in> set rows \<Longrightarrow> \<not> P m \<Longrightarrow> R m m) \<Longrightarrow> list_all2 R rows (update_where P f rows)"
  by (induction rows) auto

text \<open>The guarded update moves no mark back, whatever has happened since the row was read.\<close>

lemma mark_read_update_marks:
  assumes "unique_ids (messages d)" "x \<in> set (messages d)" "1 \<le> ms_sequenceNumber x"
  shows "marks_le d (snd (mark_read_update i (ms_id x) (ms_sequenceNumber x) now d))"
proof -
  let ?d = "snd (mark_read_update i (ms_id x) (ms_sequenceNumber x) now d)"
  have msgs: "messages ?d = messages d" by (simp add: mark_read_update_def Let_def)
  have "mark_of d m \<le> ms_sequenceNumber x" if "mark_read_guard d (ms_sequenceNumber x) m" for m
    using that assms(3) by (auto simp: mark_read_guard_def mark_of_def seq_by_id_def message_by_id_def)
  moreover have "mark_of ?d (m\<lparr>mb_lastReadMessageId := Some (ms_id x), mb_lastReadAt := Some now\<rparr>) = ms_sequenceNumber x" for m
    using mark_of_set[OF assms(1,2)] mark_of_messages[OF msgs] by metis
  moreover have "mark_of ?d m = mark_of d m" for m by (rule mark_of_messages[OF msgs])
  ultimately have "list_all2 (\<lambda>m m'. mb_id m' = mb_id m \<and> mark_of d m \<le> mark_of ?d m') (memberships d)
      (update_where (\<lambda>m. mb_id m = i \<and> mark_read_guard d (ms_sequenceNumber x) m)
        (\<lambda>m. m\<lparr>mb_lastReadMessageId := Some (ms_id x), mb_lastReadAt := Some now\<rparr>) (memberships d))"
    by (intro list_all2_update) auto
  then show ?thesis unfolding marks_le_def by (simp add: mark_read_update_def Let_def)
qed

lemma mark_read_select_Some:
  assumes "mark_read_select u c i d = Some (mi, Some target, cur)"
  obtains m x where "m \<in> set (memberships d)" "mb_userId m = u" "mb_channelId m = c" "mb_id m = mi"
    "x \<in> set (messages d)" "ms_id x = i" "ms_channelId x = c" "ms_sequenceNumber x = target"
    "cur = seq_by_id d (mb_lastReadMessageId m)"
proof -
  obtain m where m: "first_row (filter (\<lambda>m. mb_userId m = u \<and> mb_channelId m = c) (memberships d)) = Some m"
    using assms by (auto simp: mark_read_select_def)
  obtain x where x: "first_row (filter (\<lambda>x. ms_id x = i \<and> ms_channelId x = c) (messages d)) = Some x" "ms_sequenceNumber x = target"
    using assms m by (auto simp: mark_read_select_def)
  show thesis
    using assms m x first_row_filterD[OF m] first_row_filterD[OF x(1)] by (intro that[of m x]) (auto simp: mark_read_select_def)
qed

lemma sequences_pos: "sequences_ok d \<Longrightarrow> x \<in> set (messages d) \<Longrightarrow> 1 \<le> ms_sequenceNumber x"
proof -
  assume ok: "sequences_ok d" and "x \<in> set (messages d)"
  then have "ms_sequenceNumber x \<in> ms_sequenceNumber ` set (channel_messages (ms_channelId x) d)"
    by (simp add: channel_messages_def)
  also have "\<dots> = {1..int (length (channel_messages (ms_channelId x) d))}" using ok by (simp add: sequences_ok_def)
  finally have "ms_sequenceNumber x \<in> {1..int (length (channel_messages (ms_channelId x) d))}" .
  then show ?thesis by simp
qed

lemma markRead_db:
  assumes "markRead readId u c i now w = (Inr adv, w')"
  obtains mi target cur where "mark_read_select u c i (w_db w) = Some (mi, Some target, cur)"
    "memberships (w_db w') = (if (case cur of None \<Rightarrow> True | Some s \<Rightarrow> s < target)
       then memberships (snd (mark_read_update mi i target now (w_db w))) else memberships (w_db w))"
    "messages (w_db w') = messages (w_db w)"
    "adv \<longleftrightarrow> (case cur of None \<Rightarrow> True | Some s \<Rightarrow> s < target) \<and> 0 < fst (mark_read_update mi i target now (w_db w))"
    "r_counters (w_redis w') = r_counters (w_redis (resetUnread u c w))" "w_link w' = w_link w"
proof -
  obtain mi target cur where sel: "mark_read_select u c i (w_db w) = Some (mi, Some target, cur)"
    using assms by (auto simp: markRead_def split: option.splits)
  have msgs: "messages (snd (mark_read_update mi i target now d)) = messages d" for d
    by (simp add: mark_read_update_def Let_def)
  have red: "w_redis (resetUnread u c (w\<lparr>w_db := d\<rparr>)) = w_redis (resetUnread u c w)" for d
    by (simp add: resetUnread_def with_redis_def split: link.splits)
  show thesis
    using assms sel msgs red
    by (intro that[OF sel]) (auto simp: markRead_def Let_def split_beta split: option.splits if_splits)
qed

lemma markRead_Inr_marks:
  assumes "sequences_ok (w_db w)" "db_keys_ok (w_db w)" "markRead readId u c i now w = (Inr adv, w')"
  shows "(\<exists>m x. m \<in> set (memberships (w_db w)) \<and> mb_userId m = u \<and> mb_channelId m = c \<and>
      x \<in> set (messages (w_db w)) \<and> ms_id x = i \<and> ms_channelId x = c \<and> (adv \<longleftrightarrow> mark_of (w_db w) m < ms_sequenceNumber x) \<and>
      (\<exists>m' \<in> set (memberships (w_db w')). mb_id m' = mb_id m \<and> mark_of (w_db w') m' = max (mark_of (w_db w) m) (ms_sequenceNumber x))) \<and>
    (w_link w = Up \<longrightarrow> getUnreadCount now' u c w' = 0) \<and> marks_le (w_db w) (w_db w')"
  using assms(3)
proof (rule markRead_db)
  fix mi target cur
  let ?d = "w_db w"
  have uniq: "unique_ids (messages ?d)" using assms(2) keys_unique_ids by (auto simp: db_keys_ok_def)
  assume sel: "mark_read_select u c i ?d = Some (mi, Some target, cur)"
    and mem: "memberships (w_db w') = (if (case cur of None \<Rightarrow> True | Some s \<Rightarrow> s < target)
       then memberships (snd (mark_read_update mi i target now ?d)) else memberships ?d)"
    and msgs: "messages (w_db w') = messages ?d"
    and adv: "adv \<longleftrightarrow> (case cur of None \<Rightarrow> True | Some s \<Rightarrow> s < target) \<and> 0 < fst (mark_read_update mi i target now ?d)"
    and cnt: "r_counters (w_redis w') = r_counters (w_redis (resetUnread u c w))" "w_link w' = w_link w"
  obtain m x where m: "m \<in> set (memberships ?d)" "mb_userId m = u" "mb_channelId m = c" "mb_id m = mi"
    "x \<in> set (messages ?d)" "ms_id x = i" "ms_channelId x = c" "ms_sequenceNumber x = target"
    "cur = seq_by_id ?d (mb_lastReadMessageId m)"
    using sel by (rule mark_read_select_Some)
  have pos: "1 \<le> target" using sequences_pos[OF assms(1) m(5)] m(8) by simp
  have c1: "(case cur of None \<Rightarrow> True | Some s \<Rightarrow> s < target) \<longleftrightarrow> mark_of ?d m < target"
    using pos m(9) by (auto simp: mark_of_def split: option.splits)
  have g: "mark_read_guard ?d target m \<longleftrightarrow> mark_of ?d m < target"
    using pos by (auto simp: mark_read_guard_def mark_of_def seq_by_id_def message_by_id_def)
  have adv': "adv \<longleftrightarrow> mark_of ?d m < target"
    using adv c1 g m(1,4) by (auto simp: mark_read_update_def Let_def filter_empty_conv)
  let ?m = "if mark_of ?d m < target then m\<lparr>mb_lastReadMessageId := Some i, mb_lastReadAt := Some now\<rparr> else m"
  have in': "?m \<in> set (memberships (w_db w'))"
    unfolding mem c1 using m(1,4) g by (force simp: mark_read_update_def Let_def set_update_where)
  have mk: "mark_of (w_db w') ?m = max (mark_of ?d m) target"
    using mark_of_set[OF uniq m(5), where m = m and t = "Some now"] mark_of_messages[OF msgs] m(6,8) by (simp add: max_def)
  have unread: "w_link w = Up \<longrightarrow> getUnreadCount now' u c w' = 0"
    using cnt by (simp add: getUnreadCount_def with_redis_Up resetUnread_def counter_at_def)
  have "marks_le ?d (w_db w')"
    using mark_read_update_marks[OF uniq m(5) sequences_pos[OF assms(1) m(5)], of mi now] marks_le_refl[of ?d] mark_of_messages[OF msgs] m(6,8)
      mark_of_messages[of "snd (mark_read_update mi i target now ?d)" ?d]
    unfolding marks_le_def mem by (auto simp: mark_read_update_def Let_def)
  then show ?thesis
    using m(1-3,5-8) adv' mk unread in' by (intro conjI exI[of _ m] exI[of _ x] bexI[OF _ in']) auto
qed

text \<open>
  C17: A read mark never moves back. No mark request lowers the sequence number any member has read up
  to, and neither does its \<open>UPDATE\<close> when other requests have run since its \<open>SELECT\<close>; a request that is
  accepted leaves the member's mark at the larger of the old one and the message, says whether it
  advanced, and resets the unread counter; one for a message of another channel, or by somebody who is
  not a member, changes nothing.
\<close>

theorem read_marks_never_move_back:
  assumes "sequences_ok (w_db w)" "db_keys_ok (w_db w)"
  shows "marks_le (w_db w) (w_db (snd (markRead readId u c i now w))) \<and>
    (\<forall>x \<in> set (messages (w_db w)). marks_le (w_db w) (snd (mark_read_update mi (ms_id x) (ms_sequenceNumber x) now (w_db w)))) \<and>
    (\<forall>adv w'. markRead readId u c i now w = (Inr adv, w') \<longrightarrow>
       (\<exists>m x. m \<in> set (memberships (w_db w)) \<and> mb_userId m = u \<and> mb_channelId m = c \<and>
          x \<in> set (messages (w_db w)) \<and> ms_id x = i \<and> ms_channelId x = c \<and>
          (adv \<longleftrightarrow> mark_of (w_db w) m < ms_sequenceNumber x) \<and>
          (\<exists>m' \<in> set (memberships (w_db w')). mb_id m' = mb_id m \<and>
             mark_of (w_db w') m' = max (mark_of (w_db w) m) (ms_sequenceNumber x))) \<and>
       (w_link w = Up \<longrightarrow> getUnreadCount now' u c w' = 0)) \<and>
    (\<forall>e w'. markRead readId u c i now w = (Inl e, w') \<longrightarrow> w' = w)"
proof -
  let ?d = "w_db w"
  have uniq: "unique_ids (messages ?d)" and mkeys: "keys_unique membership_conflict (memberships ?d)"
    using assms(2) keys_unique_ids by (auto simp: db_keys_ok_def)
  have upd: "marks_le ?d (snd (mark_read_update mi (ms_id x) (ms_sequenceNumber x) now ?d))" if "x \<in> set (messages ?d)" for x mi
    using mark_read_update_marks[OF uniq that sequences_pos[OF assms(1) that]] .
  have inl: "w' = w" if "markRead readId u c i now w = (Inl e, w')" for e w'
    using that by (auto simp: markRead_def Let_def split: option.splits prod.splits)
  note inr = markRead_Inr_marks[OF assms]
  have "marks_le ?d (w_db (snd (markRead readId u c i now w)))"
  proof (cases "markRead readId u c i now w")
    case (Pair r w')
    then show ?thesis using inl inr marks_le_refl by (cases r) auto
  qed
  then show ?thesis using upd inl inr by blast
qed

theorem read_marks_never_move_back_witness:
  "marks_le (w_db sample_chat) (w_db (snd (markRead ''r'' ''u1'' ''c1'' ''m2'' 9 sample_chat)))"
  using read_marks_never_move_back[OF sample_chat_ok(1,2)] by blast

section \<open>The inbox\<close>

lemma last_of_unique:
  assumes "(k, v) \<in> set kvs" "\<And>v'. (k, v') \<in> set kvs \<Longrightarrow> v' = v"
  shows "last_of kvs k = Some v"
proof -
  have "k \<in> fst ` set (rev kvs)" using assms(1) by (intro image_eqI[of _ _ "(k, v)"]) simp_all
  then have "map_of (rev kvs) k \<noteq> None" unfolding map_of_eq_None_iff by blast
  then obtain v' where "map_of (rev kvs) k = Some v'" by blast
  then show ?thesis using assms(2)[of v'] map_of_SomeD by (fastforce simp: last_of_def)
qed

lemma getInbox_entries:
  assumes "e \<in> set (getInbox u now w)"
  shows "ib_channel e \<in> set (channels (w_db w))" "in_channel u (ch_id (ib_channel e)) (w_db w)"
    "ib_lastMessage e = message_by_id (w_db w) (ch_lastMessageId (ib_channel e))"
    "ib_unreadCount e = getUnreadCount now u (ch_id (ib_channel e)) w"
    "ib_dmPeerId e = (if ch_type (ib_channel e) = ''DIRECT'' then last_of (map (\<lambda>m. (mb_channelId m, mb_userId m))
       (filter (\<lambda>m. mb_channelId m \<in> set (map mb_channelId (filter (\<lambda>m. mb_userId m = u) (memberships (w_db w)))) \<and>
          mb_userId m \<noteq> u \<and> list_ex (\<lambda>c. ch_id c = mb_channelId m \<and> ch_type c = ''DIRECT'') (channels (w_db w)))
          (memberships (w_db w)))) (ch_id (ib_channel e)) else None)"
  using assms by (auto simp: getInbox_def Let_def in_channel_iff getUnreadCounts_def getUnreadCount_def split: if_splits)

lemma getInbox_channels:
  "map ib_channel (getInbox u now w) =
     sort_key (\<lambda>c. desc_time (ch_lastMessageAt c)) (filter (\<lambda>c. in_channel u (ch_id c) (w_db w)) (channels (w_db w)))"
proof -
  let ?mine = "filter (\<lambda>m. mb_userId m = u) (memberships (w_db w))"
  have "ch_id c \<in> set (map mb_channelId ?mine) \<longleftrightarrow> in_channel u (ch_id c) (w_db w)" for c
    unfolding in_channel_iff set_map set_filter image_iff by auto
  then have "filter (\<lambda>c. ch_id c \<in> set (map mb_channelId ?mine)) (channels (w_db w))
      = filter (\<lambda>c. in_channel u (ch_id c) (w_db w)) (channels (w_db w))" by (intro filter_cong refl)
  moreover have "filter (\<lambda>c. in_channel u (ch_id c) (w_db w)) (channels (w_db w)) = []" if "?mine = []"
    using that by (auto simp: filter_empty_conv in_channel_iff)
  ultimately show ?thesis
    unfolding getInbox_def Let_def by (cases "?mine = []") (simp_all add: comp_def del: set_map)
qed

text \<open>
  The inbox of a user lists exactly the channels they are a member of, each once, those without
  a message first and then the most recent ones first; every entry carries the message its channel's
  preview points to and the user's unread counter, and a direct channel the other one of its two
  members.
\<close>

theorem inbox_lists_my_channels:
  assumes "db_keys_ok (w_db w)" "members_have_channel (w_db w)"
  shows "set (map (ch_id \<circ> ib_channel) (getInbox u now w)) = {c. in_channel u c (w_db w)} \<and>
    distinct (map (ch_id \<circ> ib_channel) (getInbox u now w)) \<and>
    sorted (map (\<lambda>e. desc_time (ch_lastMessageAt (ib_channel e))) (getInbox u now w)) \<and>
    (\<forall>e \<in> set (getInbox u now w).
       ib_lastMessage e = message_by_id (w_db w) (ch_lastMessageId (ib_channel e)) \<and>
       ib_unreadCount e = getUnreadCount now u (ch_id (ib_channel e)) w \<and>
       (ch_type (ib_channel e) = ''DIRECT'' \<and> set (member_rows (ch_id (ib_channel e)) (w_db w)) = {u, v} \<and> u \<noteq> v \<longrightarrow>
          ib_dmPeerId e = Some v))"
proof -
  let ?d = "w_db w"
  have keys: "distinct (map ch_id (channels ?d))"
    using assms(1) unfolding db_keys_ok_def keys_unique_def
    by (auto simp: channel_conflict_def distinct_conv_nth sorted_wrt_iff_nth_less) (metis nat_neq_iff)
  have "set (map ch_id (map ib_channel (getInbox u now w))) = {c. in_channel u c ?d}"
    unfolding getInbox_channels using assms(2)
    by (auto simp: members_have_channel_def in_channel_iff image_iff subset_iff) metis
  moreover have "distinct (map ch_id (map ib_channel (getInbox u now w)))"
    unfolding getInbox_channels using keys by (simp add: distinct_map inj_on_def)
  moreover have "sorted (map (\<lambda>c. desc_time (ch_lastMessageAt c)) (map ib_channel (getInbox u now w)))"
    unfolding getInbox_channels by simp
  moreover have "ib_dmPeerId e = Some v"
    if e: "e \<in> set (getInbox u now w)" "ch_type (ib_channel e) = ''DIRECT''" "set (member_rows (ch_id (ib_channel e)) ?d) = {u, v}" "u \<noteq> v" for e
  proof -
    let ?c = "ch_id (ib_channel e)"
    have mem: "x \<in> {u, v} \<longleftrightarrow> (\<exists>m \<in> set (memberships ?d). mb_userId m = x \<and> mb_channelId m = ?c)" for x
      using e(3) in_channel_iff[of x ?c ?d] by (simp add: in_channel_def)
    obtain mv where mv: "mv \<in> set (memberships ?d)" "mb_userId mv = v" "mb_channelId mv = ?c" using mem[of v] by auto
    obtain mu where mu: "mu \<in> set (memberships ?d)" "mb_userId mu = u" "mb_channelId mu = ?c" using mem[of u] by auto
    have ch: "list_ex (\<lambda>c. ch_id c = ?c \<and> ch_type c = ''DIRECT'') (channels ?d)"
      using getInbox_entries(1)[OF e(1)] e(2) by (auto simp: list_ex_iff)
    show ?thesis
      unfolding getInbox_entries(5)[OF e(1)] if_P[OF e(2)]
    proof (rule last_of_unique, goal_cases)
      case 1
      have "?c \<in> mb_channelId ` {m \<in> set (memberships ?d). mb_userId m = u}" using mu by (intro image_eqI[of _ _ mu]) auto
      then show ?case unfolding set_map set_filter using mv ch e(4) by (intro image_eqI[of _ _ mv]) auto
    next
      case (2 v')
      then show ?case using mem[of v'] by auto
    qed
  qed
  ultimately show ?thesis using getInbox_entries(3,4) by (simp add: comp_def)
qed

theorem inbox_lists_my_channels_witness:
  "set (map (ch_id \<circ> ib_channel) (getInbox ''u1'' 9 sample_chat)) = {c. in_channel ''u1'' c (w_db sample_chat)}"
  using inbox_lists_my_channels[OF sample_chat_ok(2)] sample_channels_ok by (simp add: channels_ok_def)

end
