(* ===== verification/Reactions_Keys.thy ===== *)
theory Reactions_Keys
  imports Channels_Service
begin

text \<open>
  \<open>modules/reactions/reactions.service.ts\<close>, one reaction per user and message, and
  \<open>modules/keys/keys.service.ts\<close>, the public keys, their rotation and the sender keys of groups.
  Generated ids are arguments; \<open>audit_ok\<close> says whether the audit insert, whose failure is only logged,
  succeeds.
\<close>

section \<open>Reactions\<close>

record ReactionActor =
  ac_id :: uid
  ac_username :: string

datatype add_action = Added | AlreadyExists
datatype remove_action = Removed | NotFound

text \<open>\<open>loadTarget\<close>: the message, left-joined with the user's membership of its channel.\<close>

definition loadTarget :: "uid \<Rightarrow> cid \<Rightarrow> mid \<Rightarrow> db \<Rightarrow> thrown + message_row" where
  "loadTarget userId channelId messageId d =
     (case first_row (filter (\<lambda>m. ms_id m = messageId) (messages d)) of
        None \<Rightarrow> Inl (NotFoundException ''Message not found'')
      | Some m \<Rightarrow>
          if ms_channelId m \<noteq> channelId then Inl (NotFoundException ''Message not found'')
          else if \<not> is_channel_member userId (ms_channelId m) d
          then Inl (ForbiddenException ''Not a member of this channel'')
          else Inr m)"

definition new_reaction :: "string \<Rightarrow> mid \<Rightarrow> uid \<Rightarrow> string \<Rightarrow> time \<Rightarrow> reaction_row" where
  "new_reaction i messageId userId emoji now =
     \<lparr>re_id = i, re_emoji = emoji, re_createdAt = now, re_messageId = messageId, re_userId = userId\<rparr>"

definition my_reaction :: "mid \<Rightarrow> uid \<Rightarrow> reaction_row \<Rightarrow> bool" where
  "my_reaction messageId userId r \<longleftrightarrow> re_messageId r = messageId \<and> re_userId r = userId"

definition reaction_tx :: "string \<Rightarrow> uid \<Rightarrow> mid \<Rightarrow> string \<Rightarrow> time \<Rightarrow> db \<Rightarrow> thrown + (add_action \<times> string list \<times> db)" where
  "reaction_tx i userId messageId emoji now d =
     (let mine = my_reaction messageId userId;
          removed = filter (\<lambda>r. mine r \<and> re_emoji r \<noteq> emoji) (reactions d);
          rest = filter (\<lambda>r. \<not> (mine r \<and> re_emoji r \<noteq> emoji)) (reactions d)
      in if list_ex (\<lambda>r. mine r \<and> re_emoji r = emoji) rest
         then Inr (AlreadyExists, map re_emoji removed, d\<lparr>reactions := rest\<rparr>)
         else bindE (insert_row reaction_conflict (new_reaction i messageId userId emoji now) rest) (\<lambda>rows.
                Inr (Added, map re_emoji removed, d\<lparr>reactions := rows\<rparr>)))"

definition broadcast :: "string \<Rightarrow> ReactionActor \<Rightarrow> cid \<Rightarrow> mid \<Rightarrow> string \<Rightarrow> world \<Rightarrow> world" where
  "broadcast event actor channelId messageId emoji =
     emitToChannel channelId event
       (JObj [(''userId'', JStr (ac_id actor)), (''username'', JStr (ac_username actor)),
              (''messageId'', JStr messageId), (''emoji'', JStr emoji), (''channelId'', JStr channelId)])
       (no_options\<lparr>exceptUserId := Some (ac_id actor)\<rparr>)"

definition addReaction :: "string \<Rightarrow> ReactionActor \<Rightarrow> cid \<Rightarrow> mid \<Rightarrow> string \<Rightarrow> time \<Rightarrow> world \<Rightarrow>
    (thrown + add_action \<times> string list) \<times> world" where
  "addReaction i actor channelId messageId emoji now w =
     (case loadTarget (ac_id actor) channelId messageId (w_db w) of
        Inl e \<Rightarrow> (Inl e, w)
      | Inr target \<Rightarrow>
          if ms_isDeleted target then (Inl (BadRequestException ''Message has been deleted''), w)
          else (case reaction_tx i (ac_id actor) messageId emoji now (w_db w) of
                  Inl e \<Rightarrow> (Inl e, w)
                | Inr (action, replaced, d) \<Rightarrow>
                    (let w1 = fold (broadcast ''reaction:removed'' actor channelId messageId) replaced (w\<lparr>w_db := d\<rparr>)
                     in (Inr (action, replaced),
                         if action = Added then broadcast ''reaction:added'' actor channelId messageId emoji w1 else w1))))"

definition removeReaction :: "ReactionActor \<Rightarrow> cid \<Rightarrow> mid \<Rightarrow> string \<Rightarrow> world \<Rightarrow> (thrown + remove_action) \<times> world" where
  "removeReaction actor channelId messageId emoji w =
     (case loadTarget (ac_id actor) channelId messageId (w_db w) of
        Inl e \<Rightarrow> (Inl e, w)
      | Inr _ \<Rightarrow>
          (let hit = (\<lambda>r. re_messageId r = messageId \<and> re_userId r = ac_id actor \<and> re_emoji r = emoji);
               w1 = w\<lparr>w_db := (w_db w)\<lparr>reactions := filter (\<lambda>r. \<not> hit r) (reactions (w_db w))\<rparr>\<rparr>
           in if list_ex hit (reactions (w_db w))
              then (Inr Removed, broadcast ''reaction:removed'' actor channelId messageId emoji w1)
              else (Inr NotFound, w1)))"

text \<open>
  \<open>getReactions\<close> groups into a plain object. \<open>grouped[k] ??= ...\<close> finds a property of
  \<open>Object.prototype\<close> when \<open>k\<close> names one, and the \<open>push\<close> on its missing \<open>userIds\<close> throws. \<open>Object.values\<close>
  lists keys that are array indices first, in ascending order, then the others as inserted.
\<close>

definition object_prototype :: "string list" where
  "object_prototype = [''__proto__'', ''constructor'', ''toString'', ''toLocaleString'', ''valueOf'',
     ''hasOwnProperty'', ''isPrototypeOf'', ''propertyIsEnumerable'', ''__defineGetter__'', ''__defineSetter__'',
     ''__lookupGetter__'', ''__lookupSetter__'']"

record reaction_group =
  rg_emoji :: string
  rg_userIds :: "uid list"
  rg_count :: nat

definition parse_nat :: "string \<Rightarrow> nat" where
  "parse_nat s = foldl (\<lambda>a c. 10 * a + (of_char c - 48)) 0 s"

definition is_index :: "string \<Rightarrow> bool" where
  "is_index s \<longleftrightarrow> s \<noteq> [] \<and> list_all is_digit s \<and> (hd s = CHR ''0'' \<longrightarrow> length s = 1) \<and> parse_nat s < 2 ^ 32 - 1"

definition object_keys :: "string list \<Rightarrow> string list" where
  "object_keys ks = sort_key parse_nat (filter is_index ks) @ filter (\<lambda>k. \<not> is_index k) ks"

definition group_reactions :: "reaction_row list \<Rightarrow> thrown + reaction_group list" where
  "group_reactions rows =
     (if list_ex (\<lambda>r. re_emoji r \<in> set object_prototype) rows then Inl (Other (JObj []))
      else Inr (map (\<lambda>e. let us = map re_userId (filter (\<lambda>r. re_emoji r = e) rows)
                         in \<lparr>rg_emoji = e, rg_userIds = us, rg_count = length us\<rparr>)
                  (object_keys (js_uniq (map re_emoji rows)))))"

definition getReactions :: "mid \<Rightarrow> uid \<Rightarrow> cid \<Rightarrow> db \<Rightarrow> thrown + reaction_group list" where
  "getReactions messageId userId channelId d =
     bindE (loadTarget userId channelId messageId d) (\<lambda>_.
       group_reactions (filter (\<lambda>r. re_messageId r = messageId) (reactions d)))"

section \<open>Keys\<close>

record public_keys =
  pk_publicKey :: string
  pk_publicKeySign :: string
  pk_keyVersion :: int

definition getPublicKeys :: "uid list \<Rightarrow> db \<Rightarrow> uid \<Rightarrow> public_keys option" where
  "getPublicKeys userIds d =
     (if userIds = [] then (\<lambda>_. None)
      else last_of (map (\<lambda>u. (u_id u, \<lparr>pk_publicKey = u_publicKey u, pk_publicKeySign = u_publicKeySign u,
             pk_keyVersion = u_keyVersion u\<rparr>)) (filter (\<lambda>u. u_id u \<in> set userIds) (users d))))"

definition getMyKeys :: "uid \<Rightarrow> db \<Rightarrow> thrown + user_row" where
  "getMyKeys userId d = (case first_row (filter (\<lambda>u. u_id u = userId) (users d)) of
       None \<Rightarrow> Inl (NotFoundException ''User not found'')
     | Some u \<Rightarrow> Inr u)"

record RotateKeysParams =
  rk_publicKey :: string
  rk_encryptedPrivateKey :: string
  rk_keySalt :: string
  rk_publicKeySign :: string
  rk_encryptedPrivateKeySign :: string
  rk_keySaltSign :: string
  rk_keyVersion :: int

definition rotate_row :: "RotateKeysParams \<Rightarrow> time \<Rightarrow> user_row \<Rightarrow> user_row" where
  "rotate_row params now u = u\<lparr>u_publicKey := rk_publicKey params,
     u_encryptedPrivateKey := rk_encryptedPrivateKey params, u_keySalt := rk_keySalt params,
     u_publicKeySign := rk_publicKeySign params, u_encryptedPrivateKeySign := rk_encryptedPrivateKeySign params,
     u_keySaltSign := rk_keySaltSign params, u_keyVersion := rk_keyVersion params, u_updatedAt := now\<rparr>"

definition new_audit :: "string \<Rightarrow> string \<Rightarrow> json option \<Rightarrow> string option \<Rightarrow> uid option \<Rightarrow> time \<Rightarrow> audit_row" where
  "new_audit i action details ip userId now = \<lparr>au_id = i, au_action = action, au_details = details,
     au_ipAddress = ip, au_userId = userId, au_createdAt = now\<rparr>"

definition rotateKeys :: "string \<Rightarrow> bool \<Rightarrow> uid \<Rightarrow> RotateKeysParams \<Rightarrow> time \<Rightarrow> db \<Rightarrow> (thrown + int) \<times> db" where
  "rotateKeys auditId audit_ok userId params now d =
     (let hit = (\<lambda>u. u_id u = userId \<and> u_keyVersion u < rk_keyVersion params)
      in if list_ex hit (users d)
         then (let d1 = d\<lparr>users := update_where hit (rotate_row params now) (users d)\<rparr>
               in (Inr (rk_keyVersion params),
                   if audit_ok
                   then d1\<lparr>auditLog := auditLog d1 @ [new_audit auditId ''KEY_ROTATE''
                          (Some (JObj [(''newKeyVersion'', JNum (rk_keyVersion params))])) None (Some userId) now]\<rparr>
                   else d1))
         else (case first_row (filter (\<lambda>u. u_id u = userId) (users d)) of
                 None \<Rightarrow> (Inl (NotFoundException ''User not found''), d)
               | Some current \<Rightarrow>
                   (Inl (BadRequestException (''newKeyVersion must be greater than the current key version ('' @
                      show_int (u_keyVersion current) @ '')'')), d)))"

record SenderKeyItem =
  sx_receiverId :: uid
  sx_encryptedKey :: string
  sx_keySignature :: string

definition new_sender_key :: "string \<Rightarrow> uid \<Rightarrow> cid \<Rightarrow> int \<Rightarrow> SenderKeyItem \<Rightarrow> time \<Rightarrow> sender_key_row" where
  "new_sender_key i ownerId groupId epoch item now = \<lparr>sk_id = i, sk_groupId = groupId, sk_epoch = epoch,
     sk_encryptedKey = sx_encryptedKey item, sk_keySignature = sx_keySignature item, sk_createdAt = now,
     sk_ownerId = ownerId, sk_receiverId = sx_receiverId item\<rparr>"

definition active_members :: "cid \<Rightarrow> db \<Rightarrow> uid list" where
  "active_members groupId d =
     map mb_userId (filter (\<lambda>m. mb_channelId m = groupId \<and> mb_leftAt m = None) (memberships d))"

text \<open>An insert of no rows is refused by the query builder.\<close>

definition uploadSenderKeys :: "(nat \<Rightarrow> string) \<Rightarrow> uid \<Rightarrow> cid \<Rightarrow> int \<Rightarrow> SenderKeyItem list \<Rightarrow> time \<Rightarrow> db \<Rightarrow> (thrown + unit) \<times> db" where
  "uploadSenderKeys keyId ownerId groupId epoch items now d =
     (let receiverIds = js_uniq (map sx_receiverId items);
          members = active_members groupId d;
          values = map (\<lambda>(k, item). new_sender_key (keyId k) ownerId groupId epoch item now) (enumerate 0 items);
          rest = filter (\<lambda>k. \<not> (sk_groupId k = groupId \<and> sk_epoch k = epoch \<and> sk_ownerId k = ownerId)) (senderKeys d)
      in if length receiverIds \<noteq> length items
         then (Inl (BadRequestException ''Duplicate receiverId in items''), d)
         else if ownerId \<notin> set members then (Inl (ForbiddenException ''Not a member of this group''), d)
         else if list_ex (\<lambda>r. r \<notin> set members) receiverIds
         then (Inl (BadRequestException ''All receivers must be members of this group''), d)
         else if items = [] then (Inl (Other (JObj [])), d)
         else (case insert_rows sender_key_conflict values rest of
                 Inl e \<Rightarrow> (Inl e, d)
               | Inr rows \<Rightarrow> (Inr (), d\<lparr>senderKeys := rows\<rparr>)))"

definition getSenderKeys :: "cid \<Rightarrow> uid \<Rightarrow> int option \<Rightarrow> db \<Rightarrow> sender_key_row list" where
  "getSenderKeys groupId receiverId epoch d = sort_key sk_epoch (filter (\<lambda>k. sk_groupId k = groupId \<and>
     sk_receiverId k = receiverId \<and> (case epoch of None \<Rightarrow> True | Some e \<Rightarrow> sk_epoch k = e)) (senderKeys d))"

section \<open>One reaction per user and message\<close>

definition one_reaction_each :: "db \<Rightarrow> bool" where
  "one_reaction_each d \<longleftrightarrow> (\<forall>r \<in> set (reactions d). \<forall>r' \<in> set (reactions d).
     re_messageId r = re_messageId r' \<and> re_userId r = re_userId r' \<longrightarrow> r = r')"

lemma one_reaction_sub: "one_reaction_each d \<Longrightarrow> set (reactions d') \<subseteq> set (reactions d) \<Longrightarrow> one_reaction_each d'"
  unfolding one_reaction_each_def by blast

lemma broadcast_frame [simp]:
  "w_db (broadcast ev a c m e w) = w_db w" "w_redis (broadcast ev a c m e w) = w_redis w"
  "w_link (broadcast ev a c m e w) = w_link w" "w_server (broadcast ev a c m e w) = w_server w"
  "w_jobs (broadcast ev a c m e w) = w_jobs w"
  by (simp_all add: broadcast_def)

lemma fold_broadcast_frame [simp]:
  "w_db (fold (broadcast ev a c m) es w) = w_db w" "w_redis (fold (broadcast ev a c m) es w) = w_redis w"
  "w_link (fold (broadcast ev a c m) es w) = w_link w" "w_server (fold (broadcast ev a c m) es w) = w_server w"
  "w_jobs (fold (broadcast ev a c m) es w) = w_jobs w"
  by (induction es arbitrary: w) simp_all

lemma addReaction_Inl: "fst (addReaction i a c m e now w) = Inl x \<Longrightarrow> snd (addReaction i a c m e now w) = w"
  by (auto simp: addReaction_def Let_def split: sum.splits prod.splits if_splits)

lemma loadTarget_Inr:
  assumes "loadTarget u c m d = Inr x"
  shows "x \<in> set (messages d)" "ms_id x = m" "ms_channelId x = c" "is_channel_member u c d"
proof -
  obtain y where y: "first_row (filter (\<lambda>x. ms_id x = m) (messages d)) = Some y"
    using assms by (auto simp: loadTarget_def split: option.splits)
  then show "x \<in> set (messages d)" "ms_id x = m" "ms_channelId x = c" "is_channel_member u c d"
    using assms first_row_filterD[OF y] by (auto simp: loadTarget_def split: if_splits)
qed

lemma addReaction_Inr:
  assumes "addReaction i a c m e now w = (Inr (action, replaced), w')"
  shows "reaction_tx i (ac_id a) m e now (w_db w) = Inr (action, replaced, w_db w')"
    "\<exists>x \<in> set (messages (w_db w)). ms_id x = m \<and> ms_channelId x = c \<and> \<not> ms_isDeleted x"
    "is_channel_member (ac_id a) c (w_db w)"
proof -
  obtain x where t: "loadTarget (ac_id a) c m (w_db w) = Inr x" "\<not> ms_isDeleted x"
    using assms by (auto simp: addReaction_def split: sum.splits if_splits)
  show "reaction_tx i (ac_id a) m e now (w_db w) = Inr (action, replaced, w_db w')"
    using assms t by (auto simp: addReaction_def Let_def split: sum.splits)
  show "\<exists>x \<in> set (messages (w_db w)). ms_id x = m \<and> ms_channelId x = c \<and> \<not> ms_isDeleted x" "is_channel_member (ac_id a) c (w_db w)"
    using loadTarget_Inr[OF t(1)] t(2) by auto
qed

lemma my_new_reaction [simp]: "my_reaction m u (new_reaction i m u e now)" "re_emoji (new_reaction i m u e now) = e"
  by (simp_all add: my_reaction_def new_reaction_def)

lemma reaction_tx_rows:
  assumes "reaction_tx i u m e now d = Inr (action, replaced, d')"
  shows "filter (\<lambda>r. \<not> my_reaction m u r) (reactions d') =
      filter (\<lambda>r. \<not> my_reaction m u r) (reactions d)"
    "\<forall>r \<in> set (reactions d'). my_reaction m u r \<longrightarrow> re_emoji r = e"
    "\<exists>r \<in> set (reactions d'). my_reaction m u r \<and> re_emoji r = e"
    "replaced = map re_emoji (filter (\<lambda>r. my_reaction m u r \<and> re_emoji r \<noteq> e) (reactions d))"
    "action = Added \<longleftrightarrow> (\<forall>r \<in> set (reactions d). \<not> (my_reaction m u r \<and> re_emoji r = e))"
    "d' = d\<lparr>reactions := reactions d'\<rparr>"
    "action = AlreadyExists \<Longrightarrow> set (reactions d') \<subseteq> set (reactions d)"
    "action = Added \<Longrightarrow> reactions d' = filter (\<lambda>r. \<not> (my_reaction m u r \<and> re_emoji r \<noteq> e)) (reactions d) @ [new_reaction i m u e now]"
proof -
  let ?rest = "filter (\<lambda>r. \<not> (my_reaction m u r \<and> re_emoji r \<noteq> e)) (reactions d)"
  have cases: "action = AlreadyExists \<and> reactions d' = ?rest \<and> list_ex (\<lambda>r. my_reaction m u r \<and> re_emoji r = e) ?rest \<or>
      action = Added \<and> reactions d' = ?rest @ [new_reaction i m u e now] \<and> \<not> list_ex (\<lambda>r. my_reaction m u r \<and> re_emoji r = e) ?rest"
    using assms by (auto simp: reaction_tx_def Let_def bindE_Inr_iff insert_row_Inr_iff split: if_splits)
  have keep: "filter (\<lambda>r. \<not> my_reaction m u r) ?rest = filter (\<lambda>r. \<not> my_reaction m u r) (reactions d)"
    unfolding filter_filter by (intro filter_cong) auto
  show "filter (\<lambda>r. \<not> my_reaction m u r) (reactions d') =
      filter (\<lambda>r. \<not> my_reaction m u r) (reactions d)"
    using cases keep by (elim disjE conjE) (simp_all only: filter_append, simp)
  show "\<forall>r \<in> set (reactions d'). my_reaction m u r \<longrightarrow> re_emoji r = e"
    "\<exists>r \<in> set (reactions d'). my_reaction m u r \<and> re_emoji r = e"
    "action = Added \<longleftrightarrow> (\<forall>r \<in> set (reactions d). \<not> (my_reaction m u r \<and> re_emoji r = e))"
    using cases by (auto simp: list_ex_iff)
  show "replaced = map re_emoji (filter (\<lambda>r. my_reaction m u r \<and> re_emoji r \<noteq> e) (reactions d))"
    "d' = d\<lparr>reactions := reactions d'\<rparr>"
    using assms by (auto simp: reaction_tx_def Let_def bindE_Inr_iff split: if_splits)
  show "action = AlreadyExists \<Longrightarrow> set (reactions d') \<subseteq> set (reactions d)"
    "action = Added \<Longrightarrow> reactions d' = filter (\<lambda>r. \<not> (my_reaction m u r \<and> re_emoji r \<noteq> e)) (reactions d) @ [new_reaction i m u e now]"
    using cases by auto
qed

lemma one_reaction_tx:
  assumes "one_reaction_each d" "reaction_tx i u m e now d = Inr (action, replaced, d')"
  shows "one_reaction_each d'"
proof (cases action)
  case Added
  note r = reaction_tx_rows[OF assms(2)]
  have "\<forall>r \<in> set (filter (\<lambda>r. \<not> (my_reaction m u r \<and> re_emoji r \<noteq> e)) (reactions d)). \<not> my_reaction m u r"
    using r(5) Added by auto
  then show ?thesis
    using assms(1) unfolding one_reaction_each_def r(8)[OF Added] by (auto simp: new_reaction_def my_reaction_def)
next
  case AlreadyExists
  then show ?thesis using one_reaction_sub[OF assms(1)] reaction_tx_rows(7)[OF assms(2)] by blast
qed

lemma removeReaction_rows:
  "set (reactions (w_db (snd (removeReaction a c m e w)))) \<subseteq> set (reactions (w_db w))"
  by (auto simp: removeReaction_def Let_def split: sum.splits)

text \<open>
  A user has at most one reaction to a message. Adding one replaces the user's other reaction to
  that message, reports which emoji it replaced, touches nobody else's reactions, and is idempotent;
  it is refused without any change for a message that is deleted, is in another channel or in a
  channel the user is not in.
\<close>

theorem one_reaction_per_user_and_message:
  assumes "one_reaction_each (w_db w)"
  shows "one_reaction_each (w_db (snd (addReaction i a c m e now w))) \<and>
    one_reaction_each (w_db (snd (removeReaction a c m e w))) \<and>
    (\<forall>action replaced w'. addReaction i a c m e now w = (Inr (action, replaced), w') \<longrightarrow>
       (\<exists>!r. r \<in> set (reactions (w_db w')) \<and> my_reaction m (ac_id a) r) \<and>
       (\<exists>r \<in> set (reactions (w_db w')). my_reaction m (ac_id a) r \<and> re_emoji r = e) \<and>
       filter (\<lambda>r. \<not> my_reaction m (ac_id a) r) (reactions (w_db w')) =
         filter (\<lambda>r. \<not> my_reaction m (ac_id a) r) (reactions (w_db w)) \<and>
       replaced = map re_emoji (filter (\<lambda>r. my_reaction m (ac_id a) r \<and> re_emoji r \<noteq> e) (reactions (w_db w))) \<and>
       (\<exists>x \<in> set (messages (w_db w)). ms_id x = m \<and> ms_channelId x = c \<and> \<not> ms_isDeleted x) \<and>
       is_channel_member (ac_id a) c (w_db w)) \<and>
    (\<forall>x w'. addReaction i a c m e now w = (Inl x, w') \<longrightarrow> w' = w)"
proof -
  have inr: "one_reaction_each (w_db w')" if "addReaction i a c m e now w = (Inr (action, replaced), w')" for action replaced w'
    using one_reaction_tx[OF assms addReaction_Inr(1)[OF that]] .
  have "one_reaction_each (w_db (snd (addReaction i a c m e now w)))"
    by (rule handler_cases[where w = w]) (use inr in force, erule addReaction_Inl, fact assms)
  moreover have "one_reaction_each (w_db (snd (removeReaction a c m e w)))"
    using one_reaction_sub[OF assms removeReaction_rows] .
  moreover have "(\<exists>!r. r \<in> set (reactions (w_db w')) \<and> my_reaction m (ac_id a) r)"
    if "addReaction i a c m e now w = (Inr (action, replaced), w')" for action replaced w'
    using inr[OF that] reaction_tx_rows(3)[OF addReaction_Inr(1)[OF that]] unfolding one_reaction_each_def
    by (auto simp: my_reaction_def)
  moreover have "w' = w" if "addReaction i a c m e now w = (Inl x, w')" for x w'
    using addReaction_Inl[of i a c m e now w x] that by simp
  ultimately show ?thesis
    using reaction_tx_rows(1,3,4)[OF addReaction_Inr(1)] addReaction_Inr(2,3) by simp
qed

theorem one_reaction_per_user_and_message_witness:
  "one_reaction_each (w_db (snd (addReaction ''r'' \<lparr>ac_id = ''u1'', ac_username = ''alice''\<rparr> ''c1'' ''m1'' ''+1'' 9 sample_chat)))"
proof -
  have "one_reaction_each (w_db sample_chat)" by (simp add: one_reaction_each_def sample_chat_def sample_defs)
  from one_reaction_per_user_and_message[OF this] show ?thesis by blast
qed

section \<open>Listing reactions\<close>

lemma object_keys_perm: "set (object_keys ks) = set ks" "distinct ks \<Longrightarrow> distinct (object_keys ks)"
  by (auto simp: object_keys_def)

lemma sum_list_indicator: "distinct ks \<Longrightarrow> x \<in> set ks \<Longrightarrow> (\<Sum>k\<leftarrow>ks. if x = k then 1 else 0) = (1 :: nat)"
proof (induction ks)
  case (Cons k ks)
  moreover have "(\<Sum>k\<leftarrow>ks. if x = k then 1 else 0) = (0 :: nat)" if "x \<notin> set ks" using that by (induction ks) auto
  ultimately show ?case by auto
qed simp

lemma group_sizes:
  assumes "distinct ks" "set (map f rows) \<subseteq> set ks"
  shows "(\<Sum>k\<leftarrow>ks. length (filter (\<lambda>r. f r = k) rows)) = length rows"
  using assms(2)
proof (induction rows)
  case (Cons r rows)
  have "(\<Sum>k\<leftarrow>ks. if f r = k then 1 else 0) = (1 :: nat)"
    using sum_list_indicator[OF assms(1)] Cons.prems by simp
  moreover have "(\<Sum>k\<leftarrow>ks. length (filter (\<lambda>r. f r = k) (r # rows)))
      = (\<Sum>k\<leftarrow>ks. (if f r = k then 1 else 0) + length (filter (\<lambda>r. f r = k) rows))"
    by (intro arg_cong[where f = sum_list] map_cong) auto
  ultimately show ?case using Cons by (simp add: sum_list_addf)
qed simp

text \<open>
  Listing the reactions to a message gives each emoji once, with exactly the users who chose it
  and their number, and the numbers add up to the number of reactions, unless some reaction's text
  is the name of a property every object inherits, such as \<open>constructor\<close>: then the listing throws for
  everybody, although such a text passes the length check of a reaction.
\<close>

theorem reaction_listing:
  assumes "loadTarget u c m d = Inr x"
  shows "case getReactions m u c d of
      Inl e \<Rightarrow> (\<exists>r \<in> set (reactions d). re_messageId r = m \<and> re_emoji r \<in> set object_prototype)
    | Inr groups \<Rightarrow>
        (\<forall>r \<in> set (reactions d). re_messageId r = m \<longrightarrow> re_emoji r \<notin> set object_prototype) \<and>
        distinct (map rg_emoji groups) \<and>
        (\<forall>g \<in> set groups. rg_count g = length (rg_userIds g) \<and> rg_count g > 0 \<and>
           rg_userIds g = map re_userId (filter (\<lambda>r. re_messageId r = m \<and> re_emoji r = rg_emoji g) (reactions d))) \<and>
        (\<Sum>g\<leftarrow>groups. rg_count g) = length (filter (\<lambda>r. re_messageId r = m) (reactions d))"
proof -
  let ?rows = "filter (\<lambda>r. re_messageId r = m) (reactions d)"
  let ?keys = "object_keys (js_uniq (map re_emoji ?rows))"
  have g: "getReactions m u c d = group_reactions ?rows" using assms by (simp add: getReactions_def)
  have keys: "set ?keys = re_emoji ` set ?rows" "distinct ?keys" by (simp_all add: object_keys_perm)
  have "(\<Sum>k\<leftarrow>?keys. length (filter (\<lambda>r. re_emoji r = k) ?rows)) = length ?rows"
    by (rule group_sizes[OF keys(2)]) (simp add: keys(1))
  moreover have "filter (\<lambda>r. re_emoji r = k) ?rows \<noteq> []" if "k \<in> set ?keys" for k
    using that unfolding keys(1) by (auto simp: filter_empty_conv)
  moreover have "filter (\<lambda>r. re_emoji r = k) ?rows = filter (\<lambda>r. re_messageId r = m \<and> re_emoji r = k) (reactions d)" for k
    by simp
  ultimately show ?thesis
    using keys(2) unfolding g group_reactions_def
    by (auto simp: list_ex_iff Let_def comp_def simp del: filter_filter)
qed

theorem reaction_listing_witness:
  "\<exists>e. getReactions ''m1'' ''u1'' ''c1'' ((w_db sample_chat)\<lparr>reactions := [new_reaction ''r'' ''m1'' ''u2'' ''constructor'' 5]\<rparr>) = Inl e"
proof -
  let ?d = "(w_db sample_chat)\<lparr>reactions := [new_reaction ''r'' ''m1'' ''u2'' ''constructor'' 5]\<rparr>"
  have t: "loadTarget ''u1'' ''c1'' ''m1'' ?d = Inr (sample_message ''m1'' 1)"
    by (simp add: loadTarget_def is_channel_member_def sample_chat_def sample_message_def sample_defs)
  have "\<not> (\<forall>r \<in> set (reactions ?d). re_messageId r = ''m1'' \<longrightarrow> re_emoji r \<notin> set object_prototype)"
    by (simp add: new_reaction_def object_prototype_def)
  with reaction_listing[OF t] show ?thesis by (auto split: sum.splits)
qed

section \<open>Key rotation\<close>

definition key_version :: "uid \<Rightarrow> db \<Rightarrow> int option" where
  "key_version userId d = map_option u_keyVersion (first_row (filter (\<lambda>u. u_id u = userId) (users d)))"

lemma rotate_row_simps [simp]:
  "u_id (rotate_row p now u) = u_id u" "u_keyVersion (rotate_row p now u) = rk_keyVersion p"
  "u_username (rotate_row p now u) = u_username u" "u_email (rotate_row p now u) = u_email u"
  "u_isActive (rotate_row p now u) = u_isActive u"
  by (simp_all add: rotate_row_def)

lemma first_row_update_where:
  assumes "\<And>r. Q (f r) = Q r"
  shows "first_row (filter Q (update_where P f rows)) = map_option (\<lambda>r. if P r then f r else r) (first_row (filter Q rows))"
  using assms by (induction rows) auto

lemma rotateKeys_users:
  "users (snd (rotateKeys i a u p now d)) =
     update_where (\<lambda>x. u_id x = u \<and> u_keyVersion x < rk_keyVersion p) (rotate_row p now) (users d)"
proof (cases "list_ex (\<lambda>x. u_id x = u \<and> u_keyVersion x < rk_keyVersion p) (users d)")
  case False
  then have "update_where (\<lambda>x. u_id x = u \<and> u_keyVersion x < rk_keyVersion p) (rotate_row p now) (users d) = users d"
    by (intro update_where_none) (auto simp: list_ex_iff)
  with False show ?thesis by (simp add: rotateKeys_def split: option.splits)
qed (simp add: rotateKeys_def Let_def)

text \<open>
  C31: A key rotation is applied exactly when its version is larger than the stored one. The version
  of no user ever goes down, the other users' keys stay as they are, and of two rotations to the same
  version, in whatever order they reach the table, at most one succeeds.
\<close>

theorem key_rotation_monotone:
  assumes "keys_unique user_conflict (users d)"
  shows "((\<exists>v. fst (rotateKeys i a u p now d) = Inr v) \<longleftrightarrow> (\<exists>v. key_version u d = Some v \<and> v < rk_keyVersion p)) \<and>
    ((\<exists>v. fst (rotateKeys i a u p now d) = Inr v) \<longrightarrow> key_version u (snd (rotateKeys i a u p now d)) = Some (rk_keyVersion p)) \<and>
    ((\<exists>e. fst (rotateKeys i a u p now d) = Inl e) \<longrightarrow> snd (rotateKeys i a u p now d) = d) \<and>
    (\<forall>x v v'. key_version x d = Some v \<longrightarrow> key_version x (snd (rotateKeys i a u p now d)) = Some v' \<longrightarrow> v \<le> v') \<and>
    filter (\<lambda>x. u_id x \<noteq> u) (users (snd (rotateKeys i a u p now d))) = filter (\<lambda>x. u_id x \<noteq> u) (users d) \<and>
    (rk_keyVersion p' = rk_keyVersion p \<longrightarrow> (\<exists>e. fst (rotateKeys i' a' u p' now' (snd (rotateKeys i a u p now d))) = Inl e))"
proof -
  let ?hit = "\<lambda>q x. u_id x = u \<and> u_keyVersion x < rk_keyVersion q"
  let ?d' = "snd (rotateKeys i a u p now d)"
  have hit: "list_ex (?hit q) (users d) \<longleftrightarrow> (\<exists>v. key_version u d = Some v \<and> v < rk_keyVersion q)" for q
  proof (cases "first_row (filter (\<lambda>x. u_id x = u) (users d))")
    case None
    then show ?thesis by (auto simp: key_version_def list_ex_iff filter_empty_conv)
  next
    case (Some y)
    then have y: "y \<in> set (users d)" "u_id y = u" using first_row_filterD[OF Some] by simp_all
    have "x = y" if "x \<in> set (users d)" "u_id x = u" for x
      using users_tab.unique_eq[OF assms that(1) y(1)] that(2) y(2) by (simp add: user_conflict_def)
    then have "list_ex (?hit q) (users d) \<longleftrightarrow> u_keyVersion y < rk_keyVersion q"
      using y unfolding list_ex_iff by metis
    then show ?thesis using Some by (simp add: key_version_def)
  qed
  have res: "(\<exists>v. fst (rotateKeys i a u p now d) = Inr v) \<longleftrightarrow> list_ex (?hit p) (users d)"
    by (auto simp: rotateKeys_def Let_def split: option.splits)
  have ver: "key_version x ?d' = map_option (\<lambda>v. if x = u \<and> v < rk_keyVersion p then rk_keyVersion p else v) (key_version x d)" for x
  proof -
    have "first_row (filter (\<lambda>y. u_id y = x) (users ?d')) =
        map_option (\<lambda>r. if ?hit p r then rotate_row p now r else r) (first_row (filter (\<lambda>y. u_id y = x) (users d)))"
      unfolding rotateKeys_users by (rule first_row_update_where) simp
    then show ?thesis
    proof (cases "first_row (filter (\<lambda>y. u_id y = x) (users d))")
      case (Some y)
      then have "u_id y = x" using first_row_filterD[OF Some] by simp
      with Some \<open>first_row (filter (\<lambda>y. u_id y = x) (users ?d')) = _\<close> show ?thesis by (simp add: key_version_def)
    qed (simp add: key_version_def)
  qed
  have keep: "filter (\<lambda>x. u_id x \<noteq> u) (users ?d') = filter (\<lambda>x. u_id x \<noteq> u) (users d)"
    unfolding rotateKeys_users by (rule filter_update_other) simp
  have again: "\<exists>e. fst (rotateKeys i' a' u p' now' ?d') = Inl e" if "rk_keyVersion p' = rk_keyVersion p"
  proof -
    have "\<not> ?hit p' y" if "y \<in> set (users ?d')" for y
      using that \<open>rk_keyVersion p' = rk_keyVersion p\<close> unfolding rotateKeys_users set_update_where
      by (elim imageE) (simp split: if_splits)
    then have "\<not> list_ex (?hit p') (users ?d')" unfolding list_ex_iff by blast
    then show ?thesis by (auto simp: rotateKeys_def Let_def split: option.splits)
  qed
  have unch: "?d' = d" if "fst (rotateKeys i a u p now d) = Inl e" for e
    using that by (auto simp: rotateKeys_def Let_def split: option.splits if_splits)
  show ?thesis
    using res hit[of p] ver keep again unch by (auto split: if_splits)
qed

definition sample_rotation :: "int \<Rightarrow> RotateKeysParams" where
  "sample_rotation v = \<lparr>rk_publicKey = ''pk'', rk_encryptedPrivateKey = ''epk'', rk_keySalt = ''s'',
     rk_publicKeySign = ''ps'', rk_encryptedPrivateKeySign = ''eps'', rk_keySaltSign = ''ss'', rk_keyVersion = v\<rparr>"

theorem key_rotation_monotone_witness:
  "key_version ''u1'' (snd (rotateKeys ''a'' True ''u1'' (sample_rotation 2) 9 sample_db)) = Some 2"
proof -
  have k: "keys_unique user_conflict (users sample_db)" by (simp add: keys_unique_def sample_defs)
  have "key_version ''u1'' sample_db = Some 1" by (simp add: key_version_def sample_defs)
  then show ?thesis
    using key_rotation_monotone[OF k, of "''a''" True "''u1''" "sample_rotation 2" 9] by (auto simp: sample_rotation_def)
qed

section \<open>Sender keys\<close>

lemma uploadSenderKeys_Inl: "fst (uploadSenderKeys g o' c ep items now d) = Inl e \<Longrightarrow> snd (uploadSenderKeys g o' c ep items now d) = d"
  by (auto simp: uploadSenderKeys_def Let_def split: if_splits sum.splits)

lemma uploadSenderKeys_Inr:
  assumes "uploadSenderKeys g o' c ep items now d = (Inr (), d')"
  shows "distinct (map sx_receiverId items)" "o' \<in> set (active_members c d)"
    "set (map sx_receiverId items) \<subseteq> set (active_members c d)"
    "d' = d\<lparr>senderKeys := filter (\<lambda>k. \<not> (sk_groupId k = c \<and> sk_epoch k = ep \<and> sk_ownerId k = o')) (senderKeys d) @
       map (\<lambda>(k, item). new_sender_key (g k) o' c ep item now) (enumerate 0 items)\<rparr>"
proof -
  let ?newrows = "map (\<lambda>(k, item). new_sender_key (g k) o' c ep item now) (enumerate 0 items)"
  let ?rest = "filter (\<lambda>k. \<not> (sk_groupId k = c \<and> sk_epoch k = ep \<and> sk_ownerId k = o')) (senderKeys d)"
  have checks: "length (js_uniq (map sx_receiverId items)) = length items" "o' \<in> set (active_members c d)"
    "\<not> list_ex (\<lambda>r. r \<notin> set (active_members c d)) (js_uniq (map sx_receiverId items))"
    using assms by (auto simp: uploadSenderKeys_def Let_def split: if_splits)
  show "distinct (map sx_receiverId items)" using checks(1) length_js_uniq_eq_iff[of "map sx_receiverId items"] by simp
  show "o' \<in> set (active_members c d)" by (fact checks(2))
  show "set (map sx_receiverId items) \<subseteq> set (active_members c d)" using checks(3) by (auto simp: list_ex_iff)
  obtain rows where rows: "insert_rows sender_key_conflict ?newrows ?rest = Inr rows" "d' = d\<lparr>senderKeys := rows\<rparr>"
    using assms unfolding uploadSenderKeys_def Let_def by (auto split: if_splits sum.splits)
  from insert_rows_Inr[OF rows(1)] rows(2) show "d' = d\<lparr>senderKeys := ?rest @ ?newrows\<rparr>" by simp
qed

lemma length_le_one:
  assumes "distinct xs" "\<And>x. x \<in> set xs \<Longrightarrow> x = r"
  shows "length xs \<le> 1"
proof -
  have "card (set xs) \<le> card {r}" using assms(2) by (intro card_mono) auto
  then show ?thesis using assms(1) by (simp add: distinct_card)
qed

text \<open>
  C32: Uploading sender keys replaces exactly this owner's keys of this group and epoch: afterwards
  every receiver of the upload, and nobody else, finds one key of that owner for that epoch, the one
  that was uploaded for them, and the keys of other owners, groups and epochs are untouched. Owner and
  receivers are members of the group; otherwise, or when the insert fails, nothing changes.
\<close>

theorem sender_keys_replaced_atomically:
  "case uploadSenderKeys keyId ownerId groupId epoch items now d of
     (Inl e, d') \<Rightarrow> d' = d
   | (Inr u, d') \<Rightarrow>
       ownerId \<in> set (active_members groupId d) \<and> sx_receiverId ` set items \<subseteq> set (active_members groupId d) \<and>
       filter (\<lambda>k. \<not> (sk_groupId k = groupId \<and> sk_epoch k = epoch \<and> sk_ownerId k = ownerId)) (senderKeys d') =
         filter (\<lambda>k. \<not> (sk_groupId k = groupId \<and> sk_epoch k = epoch \<and> sk_ownerId k = ownerId)) (senderKeys d) \<and>
       map (\<lambda>k. (sk_encryptedKey k, sk_keySignature k))
           (filter (\<lambda>k. sk_ownerId k = ownerId) (getSenderKeys groupId receiver (Some epoch) d')) =
         map (\<lambda>i. (sx_encryptedKey i, sx_keySignature i)) (filter (\<lambda>i. sx_receiverId i = receiver) items) \<and>
       length (filter (\<lambda>i. sx_receiverId i = receiver) items) \<le> 1"
proof (cases "uploadSenderKeys keyId ownerId groupId epoch items now d")
  case (Pair r d')
  show ?thesis
  proof (cases r)
    case (Inl e)
    then show ?thesis using Pair uploadSenderKeys_Inl[of keyId ownerId groupId epoch items now d e] by simp
  next
    case (Inr u)
    let ?rest = "filter (\<lambda>k. \<not> (sk_groupId k = groupId \<and> sk_epoch k = epoch \<and> sk_ownerId k = ownerId)) (senderKeys d)"
    let ?new = "\<lambda>n xs. map (\<lambda>(k, item). new_sender_key (keyId k) ownerId groupId epoch item now) (enumerate n xs)"
    let ?mine = "\<lambda>k. sk_groupId k = groupId \<and> sk_epoch k = epoch \<and> sk_ownerId k = ownerId"
    have up: "uploadSenderKeys keyId ownerId groupId epoch items now d = (Inr (), d')" using Pair Inr by simp
    note u = uploadSenderKeys_Inr[OF up]
    have new: "filter (\<lambda>k. \<not> ?mine k) (?new n xs) = []" for n xs
      by (auto simp: filter_empty_conv new_sender_key_def in_set_enumerate_eq)
    have rec: "map (\<lambda>k. (sk_encryptedKey k, sk_keySignature k)) (filter (\<lambda>k. sk_receiverId k = receiver) (?new n xs)) =
        map (\<lambda>i. (sx_encryptedKey i, sx_keySignature i)) (filter (\<lambda>i. sx_receiverId i = receiver) xs)" for n xs
      by (induction xs arbitrary: n) (auto simp: new_sender_key_def)
    have get: "filter (\<lambda>k. sk_ownerId k = ownerId) (getSenderKeys groupId receiver (Some epoch) d') =
        filter (\<lambda>k. sk_receiverId k = receiver) (?new 0 items)"
    proof -
      have q: "filter (\<lambda>k. sk_ownerId k = ownerId) (filter (\<lambda>k. sk_groupId k = groupId \<and> sk_receiverId k = receiver \<and> sk_epoch k = epoch) ks)
          = filter (\<lambda>k. sk_receiverId k = receiver) (filter ?mine ks)" for ks
        unfolding filter_filter by (intro filter_cong) auto
      have "filter ?mine (senderKeys d') = ?new 0 items"
        using u(4) by (simp add: filter_empty_conv new_sender_key_def filter_id_conv in_set_enumerate_eq)
          (auto simp: filter_id_conv in_set_enumerate_eq)
      then have rows: "filter (\<lambda>k. sk_ownerId k = ownerId) (filter (\<lambda>k. sk_groupId k = groupId \<and> sk_receiverId k = receiver \<and> sk_epoch k = epoch) (senderKeys d'))
          = filter (\<lambda>k. sk_receiverId k = receiver) (?new 0 items)" unfolding q by simp
      have "sort_key sk_epoch (filter (\<lambda>k. sk_receiverId k = receiver) (?new 0 items)) = filter (\<lambda>k. sk_receiverId k = receiver) (?new 0 items)"
      proof (rule sort_key_id_if_sorted)
        have srt: "sorted (map sk_epoch ks)" if "\<forall>k \<in> set ks. sk_epoch k = epoch" for ks using that by (induction ks) auto
        show "sorted (map sk_epoch (filter (\<lambda>k. sk_receiverId k = receiver) (?new 0 items)))"
          by (rule srt) (auto simp: new_sender_key_def)
      qed
      then show ?thesis unfolding getSenderKeys_def option.case filter_sort rows .
    qed
    have "length (map sx_receiverId (filter (\<lambda>i. sx_receiverId i = receiver) items)) \<le> 1"
    proof (rule length_le_one[where r = receiver])
      show "distinct (map sx_receiverId (filter (\<lambda>i. sx_receiverId i = receiver) items))" using u(1) by (rule distinct_map_filter)
    qed auto
    then have "length (filter (\<lambda>i. sx_receiverId i = receiver) items) \<le> 1" by simp
    then show ?thesis
      unfolding Pair Inr prod.case sum.case get rec using u new[of 0 items] by simp
  qed
qed

end
