(* ===== verification/Livekit.thy ===== *)
theory Livekit
  imports Redis_Services
begin

text \<open>
  \<open>modules/livekit\<close>: room names and who may join a room (\<open>livekit.service.ts\<close>), the REST endpoints
  (\<open>livekit.controller.ts\<close>) and the call logs the webhook keeps (\<open>livekit.webhook.ts\<close>). The LiveKit SDK is
  a record of arguments: whether it is configured, the signed token for a room and an identity, and the
  event a signed body carries. A uuid column compares without regard to case, so ids taken from a room
  name are lowered before they meet a row. \<open>db_ok\<close> is false when a statement of a handler that
  swallows errors fails.
\<close>

record livekit_sdk =
  lk_configured :: bool
  lk_jwt :: "string \<Rightarrow> uid \<Rightarrow> string \<Rightarrow> string"
  lk_url :: string

section \<open>The service\<close>

text \<open>The service talks to LiveKit only when the environment has the key, the secret and the address.\<close>

definition livekit_isConfigured :: "(string \<Rightarrow> string option) \<Rightarrow> bool" where
  "livekit_isConfigured env =
     list_all (\<lambda>n. case env n of Some s \<Rightarrow> s \<noteq> [] | None \<Rightarrow> False) [''LIVEKIT_API_KEY'', ''LIVEKIT_API_SECRET'', ''LIVEKIT_URL'']"

definition generateToken :: "livekit_sdk \<Rightarrow> string \<Rightarrow> uid \<Rightarrow> string \<Rightarrow> string option" where
  "generateToken lk roomName userId username =
     (if \<not> lk_configured lk then None else Some (lk_jwt lk roomName userId username))"

definition createRoom :: "livekit_sdk \<Rightarrow> string \<Rightarrow> nat \<Rightarrow> world \<Rightarrow> world" where
  "createRoom lk roomName maxParticipants w =
     (if lk_configured lk then w\<lparr>w_rooms := w_rooms w @ [(roomName, maxParticipants)]\<rparr> else w)"

text \<open>\<open>sdk_ok\<close>: whether the SDK carries the request out; a rejection is logged only.\<close>

definition deleteRoom :: "livekit_sdk \<Rightarrow> bool \<Rightarrow> string \<Rightarrow> world \<Rightarrow> world" where
  "deleteRoom lk sdk_ok roomName w =
     (if lk_configured lk \<and> sdk_ok then w\<lparr>w_rooms := filter (\<lambda>r. fst r \<noteq> roomName) (w_rooms w)\<rparr> else w)"

text \<open>\<open>listParticipants\<close> is what the SDK answers for a room, \<^const>\<open>None\<close> when it rejects.\<close>

definition getParticipants :: "livekit_sdk \<Rightarrow> (string \<Rightarrow> 'a list option) \<Rightarrow> string \<Rightarrow> 'a list" where
  "getParticipants lk listParticipants roomName =
     (if \<not> lk_configured lk then [] else case listParticipants roomName of None \<Rightarrow> [] | Some ps \<Rightarrow> ps)"

definition getDmRoomName :: "uid \<Rightarrow> uid \<Rightarrow> string" where
  "getDmRoomName userId1 userId2 =
     (let (a, b) = (if userId1 \<le> userId2 then (userId1, userId2) else (userId2, userId1))
      in ''dm-'' @ a @ ''-'' @ b)"

definition getGroupRoomName :: "cid \<Rightarrow> string" where
  "getGroupRoomName channelId = ''group-'' @ channelId"

text \<open>The captures of \<open>DM_ROOM_RE\<close> and \<open>GROUP_ROOM_RE\<close>; both ignore case.\<close>

definition DM_ROOM_RE :: "string \<Rightarrow> (string \<times> string) option" where
  "DM_ROOM_RE s =
     (let a = take 36 (drop 3 s); b = drop 40 s
      in if to_lower (take 3 s) = ''dm-'' \<and> is_uuid a \<and> take 1 (drop 39 s) = ''-'' \<and> is_uuid b then Some (a, b) else None)"

definition GROUP_ROOM_RE :: "string \<Rightarrow> string option" where
  "GROUP_ROOM_RE s = (if to_lower (take 6 s) = ''group-'' \<and> is_uuid (drop 6 s) then Some (drop 6 s) else None)"

definition authorizeRoomAccess :: "bool \<Rightarrow> string \<Rightarrow> uid \<Rightarrow> db \<Rightarrow> bool" where
  "authorizeRoomAccess db_ok roomName userId d =
     (case DM_ROOM_RE roomName of
        Some (a, b) \<Rightarrow> to_lower a = to_lower userId \<or> to_lower b = to_lower userId
      | None \<Rightarrow>
          (case GROUP_ROOM_RE roomName of
             Some channelId \<Rightarrow>
               db_ok \<and> list_ex (\<lambda>m. mb_userId m = to_lower userId \<and> mb_channelId m = to_lower channelId \<and> mb_leftAt m = None) (memberships d)
           | None \<Rightarrow> False))"

section \<open>Call logs\<close>

definition user_exists :: "uid option \<Rightarrow> db \<Rightarrow> bool" where
  "user_exists u d = (case u of None \<Rightarrow> True | Some i \<Rightarrow> list_ex (\<lambda>x. u_id x = to_lower i) (users d))"

definition channel_exists :: "cid option \<Rightarrow> db \<Rightarrow> bool" where
  "channel_exists c d = (case c of None \<Rightarrow> True | Some i \<Rightarrow> list_ex (\<lambda>x. ch_id x = to_lower i) (channels d))"

text \<open>An \<open>INSERT\<close> into \<open>call_logs\<close>: primary key and foreign keys.\<close>

definition insert_call_log :: "call_log_row \<Rightarrow> db \<Rightarrow> thrown + db" where
  "insert_call_log row d =
     (if \<not> (user_exists (cl_callerId row) d \<and> user_exists (cl_calleeId row) d \<and> channel_exists (cl_channelId row) d)
      then Inl (pg_error ''23503'')
      else bindE (insert_row call_log_conflict row (callLogs d)) (\<lambda>rows. Inr (d\<lparr>callLogs := rows\<rparr>)))"

definition open_log :: "string \<Rightarrow> call_log_row \<Rightarrow> bool" where
  "open_log roomName l \<longleftrightarrow> cl_roomName l = Some roomName \<and> cl_endedAt l = None"

definition newest_log :: "call_log_row list \<Rightarrow> call_log_row option" where
  "newest_log ls = first_row (rev (sort_key cl_startedAt ls))"

definition latestLogId :: "string \<Rightarrow> db \<Rightarrow> string option" where
  "latestLogId roomName d = map_option cl_id (newest_log (filter (\<lambda>l. cl_roomName l = Some roomName) (callLogs d)))"

definition livekit_log :: "string \<Rightarrow> string \<Rightarrow> time \<Rightarrow> call_log_row" where
  "livekit_log i roomName now = \<lparr>cl_id = i, cl_type = ''LIVEKIT'', cl_callerId = None, cl_calleeId = None,
     cl_roomName = Some roomName, cl_startedAt = now, cl_endedAt = None, cl_duration = None, cl_status = ''missed'', cl_channelId = None\<rparr>"

definition handleRoomStarted :: "bool \<Rightarrow> string \<Rightarrow> string \<Rightarrow> time \<Rightarrow> db \<Rightarrow> string option \<times> db" where
  "handleRoomStarted db_ok logId roomName now d =
     (if \<not> db_ok then (None, d)
      else case newest_log (filter (open_log roomName) (callLogs d)) of
             Some existing \<Rightarrow> (Some (cl_id existing), d)
           | None \<Rightarrow>
               (case insert_call_log (livekit_log logId roomName now) d of
                  Inl e \<Rightarrow> (None, d)
                | Inr d1 \<Rightarrow> (Some logId, d1)))"

text \<open>
  The duration \<open>GREATEST(0, EXTRACT(EPOCH FROM (now() - started_at)))::int\<close> rounds to the nearest second;
  the durations computed in JavaScript are rounded down.
\<close>

definition finish_log :: "time \<Rightarrow> call_log_row \<Rightarrow> call_log_row" where
  "finish_log now l = l\<lparr>cl_endedAt := Some now, cl_duration := Some ((max 0 (now - cl_startedAt l) + 500) div 1000),
     cl_status := ''completed''\<rparr>"

definition handleRoomFinished :: "bool \<Rightarrow> string \<Rightarrow> string \<Rightarrow> time \<Rightarrow> db \<Rightarrow> db" where
  "handleRoomFinished db_ok logId roomName now d =
     (if \<not> db_ok then d
      else let updated = filter (open_log roomName) (callLogs d);
               d1 = d\<lparr>callLogs := update_where (open_log roomName) (finish_log now) (callLogs d)\<rparr>
           in if updated = []
              then (case insert_call_log ((livekit_log logId roomName now)\<lparr>cl_endedAt := Some now, cl_duration := Some 0,
                          cl_status := ''completed''\<rparr>) d1 of
                      Inl e \<Rightarrow> d1
                    | Inr d2 \<Rightarrow> d2)
              else d1)"

definition is_participant :: "string \<Rightarrow> uid \<Rightarrow> call_participant_row \<Rightarrow> bool" where
  "is_participant logId identity p \<longleftrightarrow> cp_callLogId p = logId \<and> cp_userId p = identity"

definition handleParticipantJoined :: "bool \<Rightarrow> string \<Rightarrow> string \<Rightarrow> string \<Rightarrow> string \<Rightarrow> time \<Rightarrow> db \<Rightarrow> db" where
  "handleParticipantJoined db_ok rowId roomName identity name now d =
     (if \<not> is_uuid identity \<or> \<not> db_ok then d
      else case latestLogId roomName d of
             None \<Rightarrow> d
           | Some logId \<Rightarrow>
               (let uid = to_lower identity;
                    d1 = d\<lparr>callParticipants := update_where (is_participant logId uid)
                          (\<lambda>p. p\<lparr>cp_joinedAt := now, cp_leftAt := None, cp_duration := None\<rparr>) (callParticipants d)\<rparr>
                in if list_ex (is_participant logId uid) (callParticipants d) then d1
                   else if \<not> user_exists (Some uid) d1 then d1
                   else d1\<lparr>callParticipants := insert_or_nothing call_participant_conflict
                          \<lparr>cp_id = rowId, cp_callLogId = logId, cp_userId = uid, cp_username = take 32 name, cp_joinedAt = now,
                           cp_leftAt = None, cp_duration = None\<rparr> (callParticipants d1)\<rparr>))"

definition floor_seconds :: "int \<Rightarrow> int" where
  "floor_seconds ms = max 0 (ms div 1000)"

definition handleParticipantLeft :: "bool \<Rightarrow> string \<Rightarrow> string \<Rightarrow> time \<Rightarrow> db \<Rightarrow> db" where
  "handleParticipantLeft db_ok roomName identity now d =
     (if \<not> is_uuid identity \<or> \<not> db_ok then d
      else case latestLogId roomName d of
             None \<Rightarrow> d
           | Some logId \<Rightarrow>
               (case first_row (filter (is_participant logId (to_lower identity)) (callParticipants d)) of
                  None \<Rightarrow> d
                | Some participant \<Rightarrow>
                    d\<lparr>callParticipants := update_where (\<lambda>p. cp_id p = cp_id participant)
                       (\<lambda>p. p\<lparr>cp_leftAt := Some now, cp_duration := Some (floor_seconds (now - cp_joinedAt participant))\<rparr>)
                       (callParticipants d)\<rparr>))"

section \<open>The controller\<close>

definition getToken :: "livekit_sdk \<Rightarrow> bool \<Rightarrow> string \<Rightarrow> uid \<Rightarrow> string \<Rightarrow> db \<Rightarrow> thrown + string \<times> string \<times> string" where
  "getToken lk db_ok roomName userId username d =
     (if \<not> authorizeRoomAccess db_ok roomName userId d then Inl (ForbiddenException ''Not allowed to join this room'')
      else case generateToken lk roomName userId username of
             None \<Rightarrow> Inl (ServiceUnavailableException ''Calls are not available'')
           | Some token \<Rightarrow> if token = [] then Inl (ServiceUnavailableException ''Calls are not available'')
                          else Inr (lk_url lk, token, roomName))"

record WebhookEvent =
  we_event :: string
  we_room :: "string option"
  we_identity :: "string option"
  we_name :: "string option"

text \<open>\<open>verify raw header\<close> is the receiver of the SDK: nothing when the signature does not fit.\<close>

definition receiveWebhook :: "livekit_sdk \<Rightarrow> (string \<Rightarrow> string \<Rightarrow> WebhookEvent option) \<Rightarrow> string \<Rightarrow> string \<Rightarrow> WebhookEvent option" where
  [simp]: "receiveWebhook lk verify body authHeader = (if lk_configured lk then verify body authHeader else None)"

definition handleWebhook ::
  "livekit_sdk \<Rightarrow> (string \<Rightarrow> string \<Rightarrow> WebhookEvent option) \<Rightarrow> bool \<Rightarrow> string \<Rightarrow> string option \<Rightarrow> string option \<Rightarrow> time \<Rightarrow> db
     \<Rightarrow> (thrown + unit) \<times> db" where
  "handleWebhook lk verify db_ok newId rawBody authHeader now d =
     (case (rawBody, authHeader) of
        (Some raw, Some hdr) \<Rightarrow>
          if raw = [] \<or> hdr = [] then (Inl (UnauthorizedException ''Invalid webhook''), d)
          else (case receiveWebhook lk verify raw hdr of
                  None \<Rightarrow> (Inl (UnauthorizedException ''Invalid webhook''), d)
                | Some event \<Rightarrow>
                    (let given = (\<lambda>x. case x of Some s \<Rightarrow> s \<noteq> [] | None \<Rightarrow> False);
                         room = the (we_room event); identity = the (we_identity event);
                         name = (if given (we_name event) then the (we_name event) else identity)
                     in (Inr (),
                         if we_event event = ''room_started'' then
                           (if given (we_room event) then snd (handleRoomStarted db_ok newId room now d) else d)
                         else if we_event event = ''room_finished'' then
                           (if given (we_room event) then handleRoomFinished db_ok newId room now d else d)
                         else if we_event event = ''participant_joined'' then
                           (if given (we_room event) \<and> given (we_identity event)
                            then handleParticipantJoined db_ok newId room identity name now d else d)
                         else if we_event event = ''participant_left'' then
                           (if given (we_room event) \<and> given (we_identity event)
                            then handleParticipantLeft db_ok room identity now d else d)
                         else d)))
      | _ \<Rightarrow> (Inl (UnauthorizedException ''Invalid webhook''), d))"

section \<open>Room names\<close>

lemma is_uuid_length: "is_uuid s \<Longrightarrow> length s = 36"
proof -
  assume "is_uuid s"
  then obtain a b c d e where p: "split_on CHR ''-'' s = [a, b, c, d, e]" and
      l: "length a = 8" "length b = 4" "length c = 4" "length d = 4" "length e = 12"
    by (auto simp: is_uuid_def map_eq_Cons_conv)
  have "s = join_on CHR ''-'' [a, b, c, d, e]" using join_split[of "CHR ''-''" s] p by simp
  then show ?thesis using l by simp
qed

lemma to_lower_length [simp]: "length (to_lower s) = length s"
  by (simp add: to_lower_def)

lemma dm_room_parts:
  assumes "is_uuid a" "is_uuid b"
  shows "DM_ROOM_RE (''dm-'' @ a @ ''-'' @ b) = Some (a, b)"
  using assms is_uuid_length[OF assms(1)] by (simp add: DM_ROOM_RE_def Let_def to_lower_def lower_char_def)

lemma group_room_part: "is_uuid c \<Longrightarrow> GROUP_ROOM_RE (''group-'' @ c) = Some c"
  by (simp add: GROUP_ROOM_RE_def to_lower_def lower_char_def)

lemma group_not_dm: "DM_ROOM_RE (''group-'' @ c) = None"
  by (simp add: DM_ROOM_RE_def Let_def to_lower_def lower_char_def)

lemma dm_room_matches:
  assumes "DM_ROOM_RE s = Some (a, b)"
  shows "is_uuid a" "is_uuid b" "to_lower s = ''dm-'' @ to_lower a @ ''-'' @ to_lower b"
proof -
  have h: "to_lower (take 3 s) = ''dm-''" "is_uuid a" "take 1 (drop 39 s) = ''-''" "is_uuid b" "a = take 36 (drop 3 s)" "b = drop 40 s"
    using assms by (auto simp: DM_ROOM_RE_def Let_def split: if_splits)
  show "is_uuid a" "is_uuid b" by (fact h(2), fact h(4))
  have "s = take 3 s @ drop 3 s" by simp
  also have "drop 3 s = take 36 (drop 3 s) @ drop 36 (drop 3 s)" by (rule append_take_drop_id[symmetric])
  also have "drop 36 (drop 3 s) = drop 39 s" by simp
  also have "drop 39 s = take 1 (drop 39 s) @ drop 1 (drop 39 s)" by (rule append_take_drop_id[symmetric])
  also have "drop 1 (drop 39 s) = drop 40 s" by simp
  finally have "s = take 3 s @ a @ ''-'' @ b" using h by simp
  then have "to_lower s = to_lower (take 3 s) @ to_lower a @ to_lower ''-'' @ to_lower b" by (metis map_append to_lower_def)
  moreover have "to_lower ''-'' = ''-''" by (simp add: to_lower_def lower_char_def)
  ultimately show "to_lower s = ''dm-'' @ to_lower a @ ''-'' @ to_lower b" by (simp only: h(1))
qed

lemma group_room_matches:
  assumes "GROUP_ROOM_RE s = Some c"
  shows "is_uuid c" "to_lower s = ''group-'' @ to_lower c"
proof -
  have h: "to_lower (take 6 s) = ''group-''" "is_uuid (drop 6 s)" "c = drop 6 s"
    using assms by (auto simp: GROUP_ROOM_RE_def split: if_splits)
  then show "is_uuid c" by simp
  have "to_lower s = to_lower (take 6 s) @ to_lower (drop 6 s)" by (metis append_take_drop_id map_append to_lower_def)
  then show "to_lower s = ''group-'' @ to_lower c" using h by simp
qed

section \<open>Properties\<close>

definition active_member :: "uid \<Rightarrow> cid \<Rightarrow> db \<Rightarrow> bool" where
  "active_member u c d \<longleftrightarrow> (\<exists>m \<in> set (memberships d). mb_userId m = to_lower u \<and> mb_channelId m = to_lower c \<and> mb_leftAt m = None)"

text \<open>
  C29: Who may join a call. The room of two users has one name, whoever starts the call, and exactly these
  two may join it; the room of a channel may be joined by its present members and nobody else. A room
  with any other name is closed to everyone, so no spelling of a name opens a room to an outsider.
\<close>

theorem room_access_exact:
  assumes "is_uuid a" "is_uuid b" "is_uuid c"
  shows "getDmRoomName a b = getDmRoomName b a \<and>
    (authorizeRoomAccess ok (getDmRoomName a b) u d \<longleftrightarrow> to_lower u = to_lower a \<or> to_lower u = to_lower b) \<and>
    (authorizeRoomAccess ok (getGroupRoomName c) u d \<longleftrightarrow> ok \<and> active_member u c d) \<and>
    (authorizeRoomAccess ok name u d \<longrightarrow>
       (\<exists>x y. is_uuid x \<and> is_uuid y \<and> to_lower name = ''dm-'' @ to_lower x @ ''-'' @ to_lower y \<and>
          (to_lower u = to_lower x \<or> to_lower u = to_lower y)) \<or>
       (\<exists>x. is_uuid x \<and> to_lower name = ''group-'' @ to_lower x \<and> active_member u x d))"
proof (intro conjI impI)
  show "getDmRoomName a b = getDmRoomName b a" by (auto simp: getDmRoomName_def)
  show "authorizeRoomAccess ok (getDmRoomName a b) u d \<longleftrightarrow> to_lower u = to_lower a \<or> to_lower u = to_lower b"
    using dm_room_parts[OF assms(1,2)] dm_room_parts[OF assms(2,1)]
    by (cases "a \<le> b") (auto simp: getDmRoomName_def authorizeRoomAccess_def)
  show "authorizeRoomAccess ok (getGroupRoomName c) u d \<longleftrightarrow> ok \<and> active_member u c d"
    using group_room_part[OF assms(3)] group_not_dm[of c]
    by (simp add: getGroupRoomName_def authorizeRoomAccess_def active_member_def list_ex_iff)
  assume auth: "authorizeRoomAccess ok name u d"
  show "(\<exists>x y. is_uuid x \<and> is_uuid y \<and> to_lower name = ''dm-'' @ to_lower x @ ''-'' @ to_lower y \<and>
          (to_lower u = to_lower x \<or> to_lower u = to_lower y)) \<or>
       (\<exists>x. is_uuid x \<and> to_lower name = ''group-'' @ to_lower x \<and> active_member u x d)"
  proof (cases "DM_ROOM_RE name")
    case (Some ab)
    obtain x y where xy: "ab = (x, y)" by fastforce
    have m: "DM_ROOM_RE name = Some (x, y)" using Some xy by simp
    then have "to_lower u = to_lower x \<or> to_lower u = to_lower y" using auth by (auto simp: authorizeRoomAccess_def)
    then show ?thesis using dm_room_matches[OF m] by blast
  next
    case None
    then obtain x where x: "GROUP_ROOM_RE name = Some x" using auth by (auto simp: authorizeRoomAccess_def split: option.splits)
    then have "active_member u x d" using auth None by (simp add: authorizeRoomAccess_def active_member_def list_ex_iff)
    then show ?thesis using group_room_matches[OF x] by blast
  qed
qed

theorem room_access_exact_witness:
  "authorizeRoomAccess True (getDmRoomName ''aaaaaaaa-0000-0000-0000-000000000001'' ''bbbbbbbb-0000-0000-0000-000000000002'')
     ''bbbbbbbb-0000-0000-0000-000000000002'' empty_db \<and>
   \<not> authorizeRoomAccess True (getDmRoomName ''aaaaaaaa-0000-0000-0000-000000000001'' ''bbbbbbbb-0000-0000-0000-000000000002'')
     ''cccccccc-0000-0000-0000-000000000003'' empty_db"
proof -
  have u: "is_uuid ''aaaaaaaa-0000-0000-0000-000000000001''" "is_uuid ''bbbbbbbb-0000-0000-0000-000000000002''"
    by (simp_all add: is_uuid_def is_hex_def)
  have "to_lower ''cccccccc-0000-0000-0000-000000000003'' \<noteq> to_lower ''bbbbbbbb-0000-0000-0000-000000000002''"
    "to_lower ''cccccccc-0000-0000-0000-000000000003'' \<noteq> to_lower ''aaaaaaaa-0000-0000-0000-000000000001''"
    by (simp_all add: to_lower_def lower_char_def)
  moreover note conjunct1[OF conjunct2[OF room_access_exact[OF u u(1), of True _ empty_db]]]
  ultimately show ?thesis by metis
qed

lemma newest_log_in: "newest_log ls = Some l \<Longrightarrow> l \<in> set ls"
  by (auto simp: newest_log_def dest: first_row_in)

lemma newest_log_None [simp]: "newest_log ls = None \<longleftrightarrow> ls = []"
  by (simp add: newest_log_def) (metis length_0_conv length_sort)

lemma newest_log_Nil [simp]: "newest_log [] = None"
  by (simp add: newest_log_def)

lemma newest_log_single [simp]: "newest_log [l] = Some l"
  by (simp add: newest_log_def)

lemma insert_call_log_Inr:
  "insert_call_log row d = Inr d' \<Longrightarrow> d' = d\<lparr>callLogs := callLogs d @ [row]\<rparr> \<and> (\<forall>l \<in> set (callLogs d). \<not> call_log_conflict row l)"
  by (auto simp: insert_call_log_def bindE_Inr_iff insert_row_Inr_iff split: if_splits)

lemma insert_livekit_log:
  assumes "\<forall>l \<in> set (callLogs d). cl_id l \<noteq> cl_id row" "cl_callerId row = None" "cl_calleeId row = None" "cl_channelId row = None"
  shows "insert_call_log row d = Inr (d\<lparr>callLogs := callLogs d @ [row]\<rparr>)"
proof -
  have "\<not> list_ex (call_log_conflict row) (callLogs d)" using assms(1) by (auto simp: list_ex_iff call_log_conflict_def)
  then show ?thesis using assms(2-4) by (simp add: insert_call_log_def user_exists_def channel_exists_def insert_row_def)
qed

lemma open_log_finish [simp]: "\<not> open_log r (finish_log now l)"
  by (simp add: open_log_def finish_log_def)

lemma room_started:
  assumes "\<forall>l \<in> set (callLogs d). cl_id l \<noteq> logId"
  shows "(\<exists>l \<in> set (callLogs (snd (handleRoomStarted True logId room now d))). open_log room l \<and>
        fst (handleRoomStarted True logId room now d) = Some (cl_id l)) \<and>
    handleRoomStarted True logId' room now' (snd (handleRoomStarted True logId room now d)) = handleRoomStarted True logId room now d"
proof -
  let ?open = "filter (open_log room) (callLogs d)"
  have fresh: "insert_call_log (livekit_log logId room now) d = Inr (d\<lparr>callLogs := callLogs d @ [livekit_log logId room now]\<rparr>)"
    using assms by (intro insert_livekit_log) (simp_all add: livekit_log_def)
  have opn: "open_log room (livekit_log logId room now)" by (simp add: open_log_def livekit_log_def)
  show ?thesis
  proof (cases "newest_log ?open")
    case None
    then have e: "?open = []" by simp
    have "handleRoomStarted True logId room now d = (Some logId, d\<lparr>callLogs := callLogs d @ [livekit_log logId room now]\<rparr>)"
      using None fresh by (simp add: handleRoomStarted_def)
    moreover have "filter (open_log room) (callLogs d @ [livekit_log logId room now]) = [livekit_log logId room now]" using e opn by simp
    ultimately show ?thesis using opn by (simp add: handleRoomStarted_def livekit_log_def)
  next
    case (Some l)
    then have "l \<in> set (callLogs d)" "open_log room l" using newest_log_in[OF Some] by simp_all
    then show ?thesis using Some by (simp add: handleRoomStarted_def) blast
  qed
qed

text \<open>A finished log is closed at the given time, with the rounded seconds since its start.\<close>

definition completed :: "time \<Rightarrow> call_log_row \<Rightarrow> bool" where
  "completed now l \<longleftrightarrow> cl_endedAt l = Some now \<and> (\<exists>s. cl_duration l = Some s \<and> 0 \<le> s) \<and> cl_status l = ''completed''"

lemma finish_log_completed: "\<not> open_log room (finish_log now l) \<and> completed now (finish_log now l)"
proof -
  have "0 \<le> (max 0 (now - cl_startedAt l) + 500) div 1000" by (simp add: pos_imp_zdiv_nonneg_iff)
  then show ?thesis by (simp add: open_log_def finish_log_def completed_def)
qed

text \<open>The row a finished room without an open log leaves behind.\<close>

definition closed_log :: "string \<Rightarrow> string \<Rightarrow> time \<Rightarrow> call_log_row" where
  "closed_log logId room now = \<lparr>cl_id = logId, cl_type = ''LIVEKIT'', cl_callerId = None, cl_calleeId = None,
     cl_roomName = Some room, cl_startedAt = now, cl_endedAt = Some now, cl_duration = Some 0, cl_status = ''completed'',
     cl_channelId = None\<rparr>"

lemma closed_log_completed: "\<not> open_log room (closed_log i r now) \<and> completed now (closed_log i r now)" "cl_id (closed_log i r now) = i"
  by (simp_all add: open_log_def completed_def closed_log_def)

lemma room_finished_logs:
  assumes "\<forall>l \<in> set (callLogs d). cl_id l \<noteq> logId"
  shows "handleRoomFinished True logId room now d = d\<lparr>callLogs := (if filter (open_log room) (callLogs d) = []
       then callLogs d @ [closed_log logId room now]
       else update_where (open_log room) (finish_log now) (callLogs d))\<rparr>"
proof -
  let ?fin = "(livekit_log logId room now)\<lparr>cl_endedAt := Some now, cl_duration := Some 0, cl_status := ''completed''\<rparr>"
  let ?open = "filter (open_log room) (callLogs d)" and ?upd = "update_where (open_log room) (finish_log now) (callLogs d)"
  have fin: "?fin = closed_log logId room now" by (simp add: closed_log_def livekit_log_def)
  show ?thesis
  proof (cases "?open = []")
    case True
    then have u: "?upd = callLogs d" by (intro update_where_none) (simp add: filter_empty_conv)
    have "insert_call_log (closed_log logId room now) d = Inr (d\<lparr>callLogs := callLogs d @ [closed_log logId room now]\<rparr>)"
      using assms by (intro insert_livekit_log) (simp_all add: closed_log_def)
    then show ?thesis using True by (simp add: handleRoomFinished_def Let_def u fin del: call_log_row.simps)
  qed (simp add: handleRoomFinished_def Let_def)
qed

lemma room_started_logs:
  assumes "\<forall>l \<in> set (callLogs d). cl_id l \<noteq> logId"
  shows "snd (handleRoomStarted True logId room now d) = d\<lparr>callLogs := callLogs d @
      (if filter (open_log room) (callLogs d) = [] then [livekit_log logId room now] else [])\<rparr>"
proof -
  have "insert_call_log (livekit_log logId room now) d = Inr (d\<lparr>callLogs := callLogs d @ [livekit_log logId room now]\<rparr>)"
    using assms by (intro insert_livekit_log) (simp_all add: livekit_log_def)
  then show ?thesis
    by (cases "newest_log (filter (open_log room) (callLogs d))") (auto simp: handleRoomStarted_def)
qed

lemma room_started_counts:
  assumes "\<forall>l \<in> set (callLogs d). cl_id l \<noteq> logId"
  shows "length (filter (open_log room) (callLogs (snd (handleRoomStarted True logId room now d)))) =
      max 1 (length (filter (open_log room) (callLogs d)))"
proof -
  have "open_log room (livekit_log logId room now)" by (simp add: open_log_def livekit_log_def)
  then show ?thesis
    unfolding room_started_logs[OF assms] by (cases "filter (open_log room) (callLogs d)") auto
qed

lemma update_logs:
  "l \<in> set (update_where (open_log room) (finish_log now) ls) \<Longrightarrow> \<not> open_log room l \<and> (l \<in> set ls \<or> completed now l)"
  "l \<in> set ls \<Longrightarrow> \<not> open_log room l \<Longrightarrow> l \<in> set (update_where (open_log room) (finish_log now) ls)"
  "l \<in> set ls \<Longrightarrow> open_log room l \<Longrightarrow> finish_log now l \<in> set (update_where (open_log room) (finish_log now) ls)"
  by (induction ls) (auto simp: finish_log_completed split: if_splits)

lemma finished_twice:
  assumes "\<forall>l \<in> set (callLogs d). cl_id l \<noteq> logId \<and> cl_id l \<noteq> logId2" "logId \<noteq> logId2"
  shows "callLogs (handleRoomFinished True logId2 room now2 (handleRoomFinished True logId room now d)) =
    callLogs (handleRoomFinished True logId room now d) @ [closed_log logId2 room now2]"
proof -
  have 1: "\<forall>l \<in> set (callLogs d). cl_id l \<noteq> logId" using assms(1) by blast
  let ?d = "handleRoomFinished True logId room now d"
  have logs: "callLogs ?d = (if filter (open_log room) (callLogs d) = [] then callLogs d @ [closed_log logId room now]
       else update_where (open_log room) (finish_log now) (callLogs d))" unfolding room_finished_logs[OF 1] by simp
  have "filter (open_log room) (callLogs ?d) = []"
    using update_logs(1)[of _ room now "callLogs d"] closed_log_completed(1)[of room logId room now]
    unfolding logs by (auto simp: filter_empty_conv)
  moreover have "\<forall>l \<in> set (callLogs ?d). cl_id l \<noteq> logId2"
    using assms unfolding logs by (auto simp: closed_log_completed set_update_where finish_log_def split: if_splits)
  ultimately show ?thesis by (simp add: room_finished_logs)
qed

text \<open>
  C30: How the webhook keeps the logs of a room. A started room has an open log afterwards, and a
  repeated start event finds the same log and changes nothing: a start adds a log exactly when none is
  open, so that never more than one becomes open through starts. A finished room has no open log
  afterwards: each open one is closed now with the rounded seconds since its start, a finish that
  finds none open adds a closed log of duration zero, and every repeated finish adds another one. Logs
  that were closed before or belong to other rooms are untouched, and no other table is written.
\<close>

theorem room_logs_open_and_close:
  assumes "\<forall>l \<in> set (callLogs d). cl_id l \<noteq> logId \<and> cl_id l \<noteq> logId2" "logId \<noteq> logId2"
  shows "(\<exists>l \<in> set (callLogs (snd (handleRoomStarted True logId room now d))). open_log room l \<and>
        fst (handleRoomStarted True logId room now d) = Some (cl_id l)) \<and>
    handleRoomStarted True logId' room now' (snd (handleRoomStarted True logId room now d)) = handleRoomStarted True logId room now d \<and>
    length (filter (open_log room) (callLogs (snd (handleRoomStarted True logId room now d)))) =
      max 1 (length (filter (open_log room) (callLogs d))) \<and>
    length (callLogs (snd (handleRoomStarted True logId room now d))) =
      length (callLogs d) + (if \<exists>l \<in> set (callLogs d). open_log room l then 0 else 1) \<and>
    (snd (handleRoomStarted True logId room now d))\<lparr>callLogs := callLogs d\<rparr> = d \<and>
    (\<forall>l \<in> set (callLogs (handleRoomFinished True logId room now d)). \<not> open_log room l \<and>
        (l \<notin> set (callLogs d) \<longrightarrow> completed now l)) \<and>
    (\<forall>l \<in> set (callLogs d). if open_log room l
       then l\<lparr>cl_endedAt := Some now, cl_duration := Some ((max 0 (now - cl_startedAt l) + 500) div 1000), cl_status := ''completed''\<rparr>
              \<in> set (callLogs (handleRoomFinished True logId room now d))
       else l \<in> set (callLogs (handleRoomFinished True logId room now d))) \<and>
    length (callLogs (handleRoomFinished True logId room now d)) =
      length (callLogs d) + (if \<exists>l \<in> set (callLogs d). open_log room l then 0 else 1) \<and>
    callLogs (handleRoomFinished True logId2 room now2 (handleRoomFinished True logId room now d)) =
      callLogs (handleRoomFinished True logId room now d) @ [closed_log logId2 room now2] \<and>
    (handleRoomFinished True logId room now d)\<lparr>callLogs := callLogs d\<rparr> = d"
proof -
  have fresh: "\<forall>l \<in> set (callLogs d). cl_id l \<noteq> logId" using assms(1) by blast
  note fin = room_finished_logs[OF fresh, of room now] and start = room_started_logs[OF fresh, of room now]
  have none: "filter (open_log room) (callLogs d) = [] \<longleftrightarrow> \<not> (\<exists>l \<in> set (callLogs d). open_log room l)"
    by (auto simp: filter_empty_conv)
  have logs: "callLogs (handleRoomFinished True logId room now d) = (if filter (open_log room) (callLogs d) = []
       then callLogs d @ [closed_log logId room now]
       else update_where (open_log room) (finish_log now) (callLogs d))" unfolding fin by simp
  have a: "\<not> open_log room l \<and> (l \<notin> set (callLogs d) \<longrightarrow> completed now l)" if "l \<in> set (callLogs (handleRoomFinished True logId room now d))" for l
    using that update_logs(1)[of l room now "callLogs d"] closed_log_completed(1)[of room logId room now]
    unfolding logs by (auto simp: filter_empty_conv split: if_splits)
  have b: "if open_log room l then l\<lparr>cl_endedAt := Some now, cl_duration := Some ((max 0 (now - cl_startedAt l) + 500) div 1000),
        cl_status := ''completed''\<rparr> \<in> set (callLogs (handleRoomFinished True logId room now d))
      else l \<in> set (callLogs (handleRoomFinished True logId room now d))" if "l \<in> set (callLogs d)" for l
    using that update_logs(2,3)[of l "callLogs d" room now] unfolding logs by (auto simp: finish_log_def filter_empty_conv)
  have counts: "length (callLogs (handleRoomFinished True logId room now d)) =
      length (callLogs d) + (if \<exists>l \<in> set (callLogs d). open_log room l then 0 else 1)"
    "length (callLogs (snd (handleRoomStarted True logId room now d))) =
      length (callLogs d) + (if \<exists>l \<in> set (callLogs d). open_log room l then 0 else 1)"
    unfolding logs start using none by simp_all
  have frame: "(handleRoomFinished True logId room now d)\<lparr>callLogs := callLogs d\<rparr> = d"
    "(snd (handleRoomStarted True logId room now d))\<lparr>callLogs := callLogs d\<rparr> = d" unfolding fin start by simp_all
  show ?thesis
    using room_started[OF fresh, of room now logId' now'] room_started_counts[OF fresh, of room now]
      finished_twice[OF assms, of room now2 now] a b counts frame by blast
qed

theorem room_logs_open_and_close_witness:
  "fst (handleRoomStarted True ''l2'' ''group-x'' 9 (snd (handleRoomStarted True ''l1'' ''group-x'' 5 empty_db))) = Some ''l1'' \<and>
   length (callLogs (handleRoomFinished True ''l2'' ''group-x'' 9 (handleRoomFinished True ''l1'' ''group-x'' 5 empty_db))) = 2"
proof -
  have "\<forall>l \<in> set (callLogs empty_db). cl_id l \<noteq> ''l1'' \<and> cl_id l \<noteq> ''l2''" "''l1'' \<noteq> ''l2''" by simp_all
  note t = room_logs_open_and_close[OF this, of "''group-x''" 5 "''l2''" 9 9]
  have "fst (handleRoomStarted True ''l1'' ''group-x'' 5 empty_db) = Some ''l1''"
    by (simp add: handleRoomStarted_def insert_livekit_log livekit_log_def newest_log_def)
  with t show ?thesis by simp
qed

end
