(* ===== verification/Calls.thy ===== *)
theory Calls
  imports Livekit Messages_Service "HOL-Library.AList"
begin

text \<open>
  \<open>modules/calls\<close>: the state of one-to-one calls in Redis and their logs (\<open>calls.service.ts\<close>) and the
  socket events of \<open>calls.gateway.ts\<close>. A call is a hash \<open>zevra:call:room:{callId}\<close> and one key
  \<open>zevra:call:user:{userId}\<close> per participant, all with the same deadline. A handler is a function from the
  socket's user, the payload and the world to the acknowledgement and the next world; \<open>callId\<close>, \<open>logId\<close>
  and \<open>rowId\<close> are the ids it generates. \<open>rerr\<close> is what the Redis client rejects with.
\<close>

section \<open>Call state\<close>

definition RINGING_TTL_SECONDS :: int where "RINGING_TTL_SECONDS = 120"
definition CONNECTED_TTL_SECONDS :: int where "CONNECTED_TTL_SECONDS = 4 * 60 * 60"

definition roomKey :: "string \<Rightarrow> string" where
  "roomKey callId = ''zevra:call:room:'' @ callId"

definition userCallKey :: "uid \<Rightarrow> string" where
  "userCallKey userId = ''zevra:call:user:'' @ userId"

record ActiveCall =
  ac_callId :: string
  ac_initiatorId :: uid
  ac_targetId :: uid
  ac_status :: string
  ac_startedAt :: int
  ac_callLogId :: "string option"

text \<open>\<open>Number(s)\<close> for the decimal texts the service stores.\<close>

definition js_number :: "string \<Rightarrow> int" where
  "js_number s = int (foldl (\<lambda>a c. 10 * a + (of_char c - 48)) 0 s)"

definition hfield :: "(string \<times> string) list \<Rightarrow> string \<Rightarrow> string" where
  "hfield data k = (case map_of data k of None \<Rightarrow> [] | Some v \<Rightarrow> v)"

definition toActiveCall :: "string \<Rightarrow> (string \<times> string) list \<Rightarrow> ActiveCall option" where
  "toActiveCall callId data =
     (if hfield data ''initiatorId'' = [] then None
      else Some \<lparr>ac_callId = callId, ac_initiatorId = hfield data ''initiatorId'', ac_targetId = hfield data ''targetId'',
                 ac_status = hfield data ''status'', ac_startedAt = js_number (hfield data ''startedAt''),
                 ac_callLogId = (if hfield data ''callLogId'' = [] then None else Some (hfield data ''callLogId''))\<rparr>)"

definition read_call :: "time \<Rightarrow> uid \<Rightarrow> rstate \<Rightarrow> ActiveCall option" where
  "read_call now userId r =
     (case live now (r_strings r) (userCallKey userId) of
        None \<Rightarrow> None
      | Some callId \<Rightarrow> if callId = [] then None else toActiveCall callId (list_at now (r_hashes r) (roomKey callId)))"

definition getActiveCall :: "time \<Rightarrow> uid \<Rightarrow> world \<Rightarrow> ActiveCall option" where
  "getActiveCall now userId w = (case w_link w of Up \<Rightarrow> read_call now userId (w_redis w) | _ \<Rightarrow> None)"

definition call_hash :: "uid \<Rightarrow> uid \<Rightarrow> time \<Rightarrow> string option \<Rightarrow> (string \<times> string) list" where
  "call_hash initiatorId targetId now callLogId =
     [(''initiatorId'', initiatorId), (''targetId'', targetId), (''status'', ''ringing''), (''startedAt'', show_int now),
      (''callLogId'', case callLogId of None \<Rightarrow> [] | Some l \<Rightarrow> l)]"

definition create_keys :: "string \<Rightarrow> uid \<Rightarrow> uid \<Rightarrow> string option \<Rightarrow> time \<Rightarrow> rstate \<Rightarrow> rstate" where
  "create_keys callId initiatorId targetId callLogId now r =
     r\<lparr>r_hashes := put_ex now RINGING_TTL_SECONDS (roomKey callId) (call_hash initiatorId targetId now callLogId) (r_hashes r),
       r_strings := put_ex now RINGING_TTL_SECONDS (userCallKey targetId) callId
                      (put_ex now RINGING_TTL_SECONDS (userCallKey initiatorId) callId (r_strings r))\<rparr>"

definition createCall :: "json \<Rightarrow> string \<Rightarrow> uid \<Rightarrow> uid \<Rightarrow> string option \<Rightarrow> time \<Rightarrow> world \<Rightarrow> (thrown + ActiveCall) \<times> world" where
  "createCall rerr callId initiatorId targetId callLogId now w =
     (let call = \<lparr>ac_callId = callId, ac_initiatorId = initiatorId, ac_targetId = targetId, ac_status = ''ringing'',
                  ac_startedAt = now, ac_callLogId = callLogId\<rparr>
      in case w_link w of
           Down \<Rightarrow> (Inr call, w)
         | Failing \<Rightarrow> (Inl (Other rerr), w)
         | Up \<Rightarrow> (Inr call, w\<lparr>w_redis := create_keys callId initiatorId targetId callLogId now (w_redis w)\<rparr>))"

text \<open>\<open>HSET\<close> on a hash, and \<open>EXPIRE\<close> on a key, which does nothing when the key is gone.\<close>

definition hset :: "(string \<times> string) list \<Rightarrow> (string \<times> string) list \<Rightarrow> (string \<times> string) list" where
  "hset fs h = fold (\<lambda>(k, v). AList.update k v) fs h"

definition expire_key :: "time \<Rightarrow> int \<Rightarrow> string \<Rightarrow> 'a keyspace \<Rightarrow> 'a keyspace" where
  "expire_key now secs k ks = (case live now ks k of None \<Rightarrow> ks | Some v \<Rightarrow> put_ex now secs k v ks)"

definition accept_keys :: "ActiveCall \<Rightarrow> time \<Rightarrow> rstate \<Rightarrow> rstate" where
  "accept_keys call now r =
     r\<lparr>r_hashes := put_ex now CONNECTED_TTL_SECONDS (roomKey (ac_callId call))
          (hset [(''status'', ''connected''), (''startedAt'', show_int now)] (list_at now (r_hashes r) (roomKey (ac_callId call)))) (r_hashes r),
       r_strings := expire_key now CONNECTED_TTL_SECONDS (userCallKey (ac_targetId call))
          (expire_key now CONNECTED_TTL_SECONDS (userCallKey (ac_initiatorId call)) (r_strings r))\<rparr>"

definition acceptCall :: "ActiveCall \<Rightarrow> time \<Rightarrow> world \<Rightarrow> world" where
  "acceptCall call now w = (case w_link w of Up \<Rightarrow> w\<lparr>w_redis := accept_keys call now (w_redis w)\<rparr> | _ \<Rightarrow> w)"

definition cleanup_keys :: "string \<Rightarrow> (string \<times> string) list \<Rightarrow> rstate \<Rightarrow> rstate" where
  "cleanup_keys callId data r =
     r\<lparr>r_hashes := del_key (roomKey callId) (r_hashes r),
       r_strings := (let ks = (if hfield data ''initiatorId'' \<noteq> [] then del_key (userCallKey (hfield data ''initiatorId'')) (r_strings r) else r_strings r)
                     in if hfield data ''targetId'' \<noteq> [] then del_key (userCallKey (hfield data ''targetId'')) ks else ks)\<rparr>"

definition cleanupCall :: "string \<Rightarrow> time \<Rightarrow> world \<Rightarrow> ActiveCall option \<times> world" where
  "cleanupCall callId now w =
     (case w_link w of
        Up \<Rightarrow> (let data = list_at now (r_hashes (w_redis w)) (roomKey callId)
               in (toActiveCall callId data, w\<lparr>w_redis := cleanup_keys callId data (w_redis w)\<rparr>))
      | _ \<Rightarrow> (None, w))"

definition cleanupUserCall :: "json \<Rightarrow> uid \<Rightarrow> time \<Rightarrow> world \<Rightarrow> (thrown + ActiveCall option) \<times> world" where
  "cleanupUserCall rerr userId now w =
     (case w_link w of
        Down \<Rightarrow> (Inr None, w)
      | Failing \<Rightarrow> (Inl (Other rerr), w)
      | Up \<Rightarrow> (case live now (r_strings (w_redis w)) (userCallKey userId) of
                 None \<Rightarrow> (Inr None, w)
               | Some callId \<Rightarrow> if callId = [] then (Inr None, w)
                               else (let (call, w1) = cleanupCall callId now w in (Inr call, w1))))"

section \<open>Call logs\<close>

text \<open>A uuid column stores its canonical form, in lower case.\<close>

definition createCallLog ::
  "string \<Rightarrow> string \<Rightarrow> uid \<Rightarrow> uid option \<Rightarrow> string option \<Rightarrow> cid option \<Rightarrow> time \<Rightarrow> db \<Rightarrow> (thrown + string) \<times> db" where
  "createCallLog logId callType initiatorId calleeId roomName channelId now d =
     (case insert_call_log
             \<lparr>cl_id = logId, cl_type = callType, cl_callerId = Some (to_lower initiatorId), cl_calleeId = map_option to_lower calleeId,
              cl_roomName = roomName, cl_startedAt = now, cl_endedAt = None, cl_duration = None, cl_status = ''missed'',
              cl_channelId = map_option to_lower channelId\<rparr> d of
        Inl e \<Rightarrow> (Inl e, d)
      | Inr d1 \<Rightarrow> (Inr logId, d1))"

definition set_log_status :: "string \<Rightarrow> string \<Rightarrow> db \<Rightarrow> db" where
  "set_log_status status callLogId d =
     d\<lparr>callLogs := update_where (\<lambda>l. cl_id l = callLogId) (\<lambda>l. l\<lparr>cl_status := status\<rparr>) (callLogs d)\<rparr>"

definition updateCallLogAccepted :: "string \<Rightarrow> db \<Rightarrow> db" where
  "updateCallLogAccepted = set_log_status ''completed''"

definition updateCallLogRejected :: "string \<Rightarrow> db \<Rightarrow> db" where
  "updateCallLogRejected = set_log_status ''rejected''"

definition getUsernames :: "uid list \<Rightarrow> db \<Rightarrow> (uid \<times> string) list" where
  "getUsernames userIds d =
     map (\<lambda>u. (u_id u, u_username u)) (filter (\<lambda>u. u_id u \<in> to_lower ` set (filter (\<lambda>i. i \<noteq> []) userIds)) (users d))"

definition call_participant :: "string \<Rightarrow> string \<Rightarrow> time \<Rightarrow> time \<Rightarrow> (uid \<times> string) list \<Rightarrow> uid \<Rightarrow> call_participant_row" where
  "call_participant rowId callLogId startedAt now names userId =
     \<lparr>cp_id = rowId, cp_callLogId = callLogId, cp_userId = to_lower userId,
      cp_username = (case map_of names userId of None \<Rightarrow> [] | Some n \<Rightarrow> n),
      cp_joinedAt = startedAt, cp_leftAt = Some now, cp_duration = Some (floor_seconds (now - startedAt))\<rparr>"

definition endCallLog ::
  "(nat \<Rightarrow> string) \<Rightarrow> string \<Rightarrow> uid \<Rightarrow> uid \<Rightarrow> time \<Rightarrow> time \<Rightarrow> db \<Rightarrow> (thrown + unit) \<times> db" where
  "endCallLog rowId callLogId callerId calleeId startedAt now d =
     (let names = getUsernames [callerId, calleeId] d;
          d1 = d\<lparr>callLogs := update_where (\<lambda>l. cl_id l = callLogId)
                 (\<lambda>l. l\<lparr>cl_endedAt := Some now, cl_duration := Some (floor_seconds (now - startedAt)), cl_status := ''completed''\<rparr>)
                 (callLogs d)\<rparr>
      in if \<not> (user_exists (Some callerId) d1 \<and> user_exists (Some calleeId) d1 \<and> list_ex (\<lambda>l. cl_id l = callLogId) (callLogs d1))
         then (Inl (pg_error ''23503''), d1)
         else (Inr (), d1\<lparr>callParticipants :=
                 insert_or_nothing call_participant_conflict (call_participant (rowId 1) callLogId startedAt now names calleeId)
                   (insert_or_nothing call_participant_conflict (call_participant (rowId 0) callLogId startedAt now names callerId)
                     (callParticipants d1))\<rparr>))"

section \<open>History\<close>

definition log_participants :: "call_log_row \<Rightarrow> db \<Rightarrow> call_participant_row list" where
  "log_participants l d = filter (\<lambda>p. cp_callLogId p = cl_id l) (callParticipants d)"

definition newest_logs :: "call_log_row list \<Rightarrow> call_log_row list" where
  "newest_logs ls = rev (sort_key cl_startedAt ls)"

definition getCallHistory :: "uid \<Rightarrow> nat \<Rightarrow> nat \<Rightarrow> db \<Rightarrow> (call_log_row \<times> call_participant_row list) list" where
  "getCallHistory userId limit offset d =
     map (\<lambda>l. (l, log_participants l d)) (take limit (drop offset (newest_logs (filter
       (\<lambda>l. cl_callerId l = Some userId \<or> cl_calleeId l = Some userId \<or>
            list_ex (\<lambda>p. cp_userId p = userId) (log_participants l d)) (callLogs d)))))"

definition getCallHistoryWithUser :: "uid \<Rightarrow> uid \<Rightarrow> nat \<Rightarrow> db \<Rightarrow> (call_log_row \<times> call_participant_row list) list" where
  "getCallHistoryWithUser userId otherUserId limit d =
     map (\<lambda>l. (l, log_participants l d)) (take limit (newest_logs (filter
       (\<lambda>l. cl_callerId l = Some userId \<and> cl_calleeId l = Some otherUserId \<or>
            cl_callerId l = Some otherUserId \<and> cl_calleeId l = Some userId) (callLogs d))))"

definition getHistory :: "uid \<Rightarrow> nat \<Rightarrow> nat \<Rightarrow> db \<Rightarrow> (call_log_row \<times> call_participant_row list) list \<times> nat \<times> bool" where
  "getHistory userId page limit d =
     (let calls = getCallHistory userId limit ((page - 1) * limit) d in (calls, page, length calls = limit))"

section \<open>The gateway\<close>

record SocketUser =
  su_id :: uid
  su_username :: string

datatype ack =
    AckError SocketErrorAck
  | AckRefused string string "(string \<times> json) list"
  | AckOk "(string \<times> json) list"
  | NoAck

definition CALL_RATE_LIMIT :: RateLimitConfig where "CALL_RATE_LIMIT = \<lparr>windowMs = 5000, maxRequests = 10\<rparr>"
definition SIGNAL_RATE_LIMIT :: RateLimitConfig where "SIGNAL_RATE_LIMIT = \<lparr>windowMs = 1000, maxRequests = 50\<rparr>"
definition MAX_SDP_LENGTH :: nat where "MAX_SDP_LENGTH = 64 * 1024"
definition MAX_CANDIDATE_LENGTH :: nat where "MAX_CANDIDATE_LENGTH = 4096"
definition MAX_GROUP_TARGETS :: nat where "MAX_GROUP_TARGETS = 50"

text \<open>\<open>isUuid\<close> and \<open>isUuidList\<close> on a payload field, with the value they admit.\<close>

fun isUuid :: "json option \<Rightarrow> string option" where
  "isUuid (Some (JStr s)) = (if is_uuid s then Some s else None)"
| "isUuid _ = None"

fun isUuidList :: "json option \<Rightarrow> nat \<Rightarrow> string list option" where
  "isUuidList (Some (JArr xs)) mx =
     (if length xs \<le> mx \<and> list_all (\<lambda>x. isUuid (Some x) \<noteq> None) xs then Some (map (\<lambda>x. the (isUuid (Some x))) xs) else None)"
| "isUuidList _ mx = None"

definition ROOM_NAME_RE :: "string \<Rightarrow> bool" where
  "ROOM_NAME_RE s =
     (let rest = (if to_lower (take 3 s) = ''dm-'' then Some (drop 3 s)
                  else if to_lower (take 6 s) = ''group-'' then Some (drop 6 s) else None)
      in case rest of None \<Rightarrow> False
         | Some t \<Rightarrow> 36 \<le> length t \<and> length t \<le> 73 \<and> list_all (\<lambda>c. is_hex c \<or> c = CHR ''-'') t)"

definition invalid :: "string \<Rightarrow> ack" where
  "invalid message = AckError (socketError S_VALIDATION_ERROR message)"

definition notAuthenticated :: ack where
  "notAuthenticated = AckError (socketError S_NOT_AUTHENTICATED ''Not authenticated'')"

definition getOtherUserId :: "ActiveCall \<Rightarrow> uid \<Rightarrow> uid" where
  "getOtherUserId call userId = (if ac_initiatorId call = userId then ac_targetId call else ac_initiatorId call)"

definition call_allowed :: "uid \<Rightarrow> string \<Rightarrow> RateLimitConfig \<Rightarrow> time \<Rightarrow> world \<Rightarrow> bool \<times> world" where
  "call_allowed userId scope limit now w =
     (let (rl, w1) = checkRateLimit (scope @ '':'' @ userId) limit now w in (rl_allowed rl, w1))"

definition run_db :: "(db \<Rightarrow> (thrown + 'a) \<times> db) \<Rightarrow> world \<Rightarrow> (thrown + 'a) \<times> world" where
  "run_db f w = (let (r, d) = f (w_db w) in (r, w\<lparr>w_db := d\<rparr>))"

text \<open>\<open>call.callLogId ?? await createCallLog(...)\<close>.\<close>

definition known_log :: "string \<Rightarrow> ActiveCall \<Rightarrow> time \<Rightarrow> world \<Rightarrow> (thrown + string) \<times> world" where
  "known_log logId call now w =
     (case ac_callLogId call of
        Some l \<Rightarrow> (Inr l, w)
      | None \<Rightarrow> run_db (createCallLog logId ''WEBRTC'' (ac_initiatorId call) (Some (ac_targetId call)) None None now) w)"

definition finishConnectedCall :: "string \<Rightarrow> (nat \<Rightarrow> string) \<Rightarrow> ActiveCall \<Rightarrow> time \<Rightarrow> world \<Rightarrow> (thrown + unit) \<times> world" where
  "finishConnectedCall logId rowId call now w =
     (case known_log logId call now w of
        (Inl e, w1) \<Rightarrow> (Inl e, w1)
      | (Inr l, w1) \<Rightarrow> run_db (endCallLog rowId l (ac_initiatorId call) (ac_targetId call) (ac_startedAt call) now) w1)"

definition handleDisconnect ::
  "json \<Rightarrow> string \<Rightarrow> (nat \<Rightarrow> string) \<Rightarrow> SocketUser option \<Rightarrow> string \<Rightarrow> string list \<Rightarrow> time \<Rightarrow> world \<Rightarrow> world" where
  "handleDisconnect rerr logId rowId user clientId remaining now w =
     (case user of
        None \<Rightarrow> w
      | Some usr \<Rightarrow>
          if list_ex (\<lambda>s. s \<noteq> clientId) remaining then w
          else (case cleanupUserCall rerr (su_id usr) now w of
                  (Inl e, w1) \<Rightarrow> w1
                | (Inr None, w1) \<Rightarrow> w1
                | (Inr (Some call), w1) \<Rightarrow>
                    (let otherId = getOtherUserId call (su_id usr) in
                     if ac_status call = ''connected''
                     then (case finishConnectedCall logId rowId call now w1 of
                             (Inl e, w2) \<Rightarrow> w2
                           | (Inr u, w2) \<Rightarrow> snd (emitToUser otherId ''call:hangup''
                               (JObj [(''callId'', JStr (ac_callId call)), (''reason'', JStr ''disconnected'')]) w2))
                     else snd (emitToUser otherId ''call:hangup''
                            (JObj [(''callId'', JStr (ac_callId call)), (''reason'', JStr ''caller_disconnected'')]) w1))))"

text \<open>What \<open>handleInvite\<close> and the DM branch of \<open>handleInitiate\<close> check before they ring.\<close>

definition already_in_call :: ack where
  "already_in_call = AckRefused ''ALREADY_IN_CALL'' ''You are already in a call'' []"

definition ring ::
  "json \<Rightarrow> string \<Rightarrow> string \<Rightarrow> SocketUser \<Rightarrow> uid \<Rightarrow> cid option \<Rightarrow> time \<Rightarrow> world \<Rightarrow> (thrown + ActiveCall) \<times> world" where
  "ring rerr callId logId usr targetId channelId now w =
     (case run_db (createCallLog logId ''WEBRTC'' (su_id usr) (Some targetId) None channelId now) w of
        (Inl e, w1) \<Rightarrow> (Inl e, w1)
      | (Inr callLogId, w1) \<Rightarrow> createCall rerr callId (su_id usr) targetId (Some callLogId) now w1)"

definition incoming_json :: "string \<Rightarrow> SocketUser \<Rightarrow> json" where
  "incoming_json callId usr = JObj [(''callId'', JStr callId), (''callerId'', JStr (su_id usr)), (''callerUsername'', JStr (su_username usr))]"

definition invite_checks :: "SocketUser option \<Rightarrow> json \<Rightarrow> time \<Rightarrow> world \<Rightarrow> (ack + SocketUser \<times> uid) \<times> world" where
  "invite_checks user data now w =
     (case user of
        None \<Rightarrow> (Inl notAuthenticated, w)
      | Some usr \<Rightarrow>
          (case isUuid (jfield ''targetUserId'' data) of
             None \<Rightarrow> (Inl (invalid ''targetUserId must be a valid user id''), w)
           | Some target \<Rightarrow>
               if target = su_id usr then (Inl (invalid ''targetUserId must be a valid user id''), w)
               else (let (ok, w1) = call_allowed (su_id usr) ''call'' CALL_RATE_LIMIT now w in
                     if \<not> ok then (Inl (AckError (socketError S_RATE_LIMITED ''Too many call attempts'')), w1)
                     else if getActiveCall now (su_id usr) w1 \<noteq> None then (Inl already_in_call, w1)
                     else if getActiveCall now target w1 \<noteq> None then (Inl (AckRefused ''TARGET_BUSY'' ''User is busy'' []), w1)
                     else if \<not> isOnline now target w1 then (Inl (AckRefused ''TARGET_OFFLINE'' ''User is offline'' []), w1)
                     else (Inr (usr, target), w1))))"

definition invite_commit :: "json \<Rightarrow> string \<Rightarrow> string \<Rightarrow> SocketUser \<Rightarrow> uid \<Rightarrow> time \<Rightarrow> world \<Rightarrow> ack \<times> world" where
  "invite_commit rerr callId logId usr target now w =
     (case ring rerr callId logId usr target None now w of
        (Inl e, w1) \<Rightarrow> (AckError (toSocketError e), w1)
      | (Inr call, w1) \<Rightarrow>
          (AckOk [(''callId'', JStr (ac_callId call)), (''callLogId'', JStr logId)],
           snd (emitToUser target ''call:incoming'' (incoming_json (ac_callId call) usr) w1)))"

definition handleInvite :: "json \<Rightarrow> string \<Rightarrow> string \<Rightarrow> SocketUser option \<Rightarrow> json \<Rightarrow> time \<Rightarrow> world \<Rightarrow> ack \<times> world" where
  "handleInvite rerr callId logId user data now w =
     (case invite_checks user data now w of
        (Inl a, w1) \<Rightarrow> (a, w1)
      | (Inr (usr, target), w1) \<Rightarrow> invite_commit rerr callId logId usr target now w1)"

definition call_not_found :: ack where
  "call_not_found = AckRefused ''INVALID_CALL'' ''Call not found'' []"

definition handleAccept :: "SocketUser option \<Rightarrow> json \<Rightarrow> time \<Rightarrow> world \<Rightarrow> ack \<times> world" where
  "handleAccept user data now w =
     (case user of
        None \<Rightarrow> (notAuthenticated, w)
      | Some usr \<Rightarrow>
          (case isUuid (jfield ''callId'' data) of
             None \<Rightarrow> (invalid ''callId must be a valid id'', w)
           | Some callId \<Rightarrow>
               (case getActiveCall now (su_id usr) w of
                  None \<Rightarrow> (call_not_found, w)
                | Some call \<Rightarrow>
                    if ac_callId call \<noteq> callId \<or> ac_targetId call \<noteq> su_id usr then (call_not_found, w)
                    else (let w1 = acceptCall call now w;
                              w2 = (case ac_callLogId call of None \<Rightarrow> w1 | Some l \<Rightarrow> w1\<lparr>w_db := updateCallLogAccepted l (w_db w1)\<rparr>)
                          in (AckOk [], snd (emitToUser (ac_initiatorId call) ''call:accepted''
                                (JObj [(''callId'', JStr (ac_callId call)), (''calleeId'', JStr (su_id usr)),
                                       (''calleeUsername'', JStr (su_username usr))]) w2))))))"

definition handleReject :: "string \<Rightarrow> SocketUser option \<Rightarrow> json \<Rightarrow> time \<Rightarrow> world \<Rightarrow> ack \<times> world" where
  "handleReject logId user data now w =
     (case user of
        None \<Rightarrow> (notAuthenticated, w)
      | Some usr \<Rightarrow>
          (case isUuid (jfield ''callId'' data) of
             None \<Rightarrow> (invalid ''callId must be a valid id'', w)
           | Some callId \<Rightarrow>
               (case getActiveCall now (su_id usr) w of
                  None \<Rightarrow> (call_not_found, w)
                | Some call \<Rightarrow>
                    if ac_callId call \<noteq> callId then (call_not_found, w)
                    else (case known_log logId call now w of
                            (Inl e, w1) \<Rightarrow> (AckError (toSocketError e), w1)
                          | (Inr l, w1) \<Rightarrow>
                              (let w2 = w1\<lparr>w_db := updateCallLogRejected l (w_db w1)\<rparr>;
                                   w3 = snd (cleanupCall (ac_callId call) now w2)
                               in (AckOk [], snd (emitToUser (getOtherUserId call (su_id usr)) ''call:rejected''
                                     (JObj [(''callId'', JStr (ac_callId call))]) w3)))))))"

definition end_if_connected :: "string \<Rightarrow> (nat \<Rightarrow> string) \<Rightarrow> ActiveCall \<Rightarrow> time \<Rightarrow> world \<Rightarrow> (thrown + unit) \<times> world" where
  "end_if_connected logId rowId call now w =
     (if ac_status call = ''connected'' then finishConnectedCall logId rowId call now w else (Inr (), w))"

definition handleHangup :: "string \<Rightarrow> (nat \<Rightarrow> string) \<Rightarrow> SocketUser option \<Rightarrow> json \<Rightarrow> time \<Rightarrow> world \<Rightarrow> ack \<times> world" where
  "handleHangup logId rowId user data now w =
     (case user of
        None \<Rightarrow> (notAuthenticated, w)
      | Some usr \<Rightarrow>
          (case isUuid (jfield ''callId'' data) of
             None \<Rightarrow> (invalid ''callId must be a valid id'', w)
           | Some callId \<Rightarrow>
               (case getActiveCall now (su_id usr) w of
                  None \<Rightarrow> (call_not_found, w)
                | Some call \<Rightarrow>
                    if ac_callId call \<noteq> callId then (call_not_found, w)
                    else (case end_if_connected logId rowId call now w of
                            (Inl e, w1) \<Rightarrow> (AckError (toSocketError e), w1)
                          | (Inr u, w1) \<Rightarrow>
                              (let w2 = snd (cleanupCall (ac_callId call) now w1)
                               in (AckOk [], snd (emitToUser (getOtherUserId call (su_id usr)) ''call:hangup''
                                     (JObj [(''callId'', JStr (ac_callId call))]) w2)))))))"

subsection \<open>Signalling\<close>

definition relayTarget :: "SocketUser option \<Rightarrow> json option \<Rightarrow> time \<Rightarrow> world \<Rightarrow> (SocketUser \<times> ActiveCall) option \<times> world" where
  "relayTarget user callId now w =
     (case (user, isUuid callId) of
        (Some usr, Some cid) \<Rightarrow>
          (let (ok, w1) = call_allowed (su_id usr) ''call-signal'' SIGNAL_RATE_LIMIT now w in
           if \<not> ok then (None, w1)
           else (case getActiveCall now (su_id usr) w1 of
                   None \<Rightarrow> (None, w1)
                 | Some call \<Rightarrow> if ac_callId call \<noteq> cid then (None, w1) else (Some (usr, call), w1)))
      | _ \<Rightarrow> (None, w))"

definition relay :: "string \<Rightarrow> (SocketUser \<Rightarrow> (string \<times> json) list) \<Rightarrow> SocketUser option \<Rightarrow> json \<Rightarrow> time \<Rightarrow> world \<Rightarrow> world" where
  "relay event body user data now w =
     (case relayTarget user (jfield ''callId'' data) now w of
        (None, w1) \<Rightarrow> w1
      | (Some (usr, call), w1) \<Rightarrow>
          snd (emitToUser (getOtherUserId call (su_id usr)) event
            (JObj ((''callId'', JStr (ac_callId call)) # body usr)) w1))"

fun sdp_of :: "json option \<Rightarrow> string option" where
  "sdp_of (Some (JStr s)) = (if s = [] \<or> length s > MAX_SDP_LENGTH then None else Some s)"
| "sdp_of _ = None"

definition handleOffer :: "SocketUser option \<Rightarrow> json \<Rightarrow> time \<Rightarrow> world \<Rightarrow> world" where
  "handleOffer user data now w =
     (case sdp_of (jfield ''sdp'' data) of
        None \<Rightarrow> w
      | Some sdp \<Rightarrow> relay ''call:offer'' (\<lambda>usr. [(''offer'', JObj [(''type'', JStr ''offer''), (''sdp'', JStr sdp)]),
            (''callerId'', JStr (su_id usr)), (''callerUsername'', JStr (su_username usr))]) user data now w)"

definition handleAnswer :: "SocketUser option \<Rightarrow> json \<Rightarrow> time \<Rightarrow> world \<Rightarrow> world" where
  "handleAnswer user data now w =
     (case sdp_of (jfield ''sdp'' data) of
        None \<Rightarrow> w
      | Some sdp \<Rightarrow> relay ''call:answer'' (\<lambda>usr. [(''answer'', JObj [(''type'', JStr ''answer''), (''sdp'', JStr sdp)]),
            (''calleeId'', JStr (su_id usr)), (''calleeUsername'', JStr (su_username usr))]) user data now w)"

definition handleIceCandidate :: "SocketUser option \<Rightarrow> json \<Rightarrow> time \<Rightarrow> world \<Rightarrow> world" where
  "handleIceCandidate user data now w =
     (case jfield ''candidate'' data of
        None \<Rightarrow> w
      | Some candidate \<Rightarrow>
          if length (json_text candidate) > MAX_CANDIDATE_LENGTH then w
          else relay ''call:ice-candidate'' (\<lambda>usr. [(''candidate'', candidate), (''from'', JStr (su_id usr))]) user data now w)"

section \<open>The state of calls\<close>

lemma call_keys_inj [simp]:
  "roomKey c = roomKey c' \<longleftrightarrow> c = c'" "userCallKey u = userCallKey u' \<longleftrightarrow> u = u'"
  by (simp_all add: roomKey_def userCallKey_def)

lemma hfield_call_hash [simp]:
  "hfield (call_hash i t now l) ''initiatorId'' = i" "hfield (call_hash i t now l) ''targetId'' = t"
  "hfield (call_hash i t now l) ''status'' = ''ringing''" "hfield (call_hash i t now l) ''startedAt'' = show_int now"
  "hfield (call_hash i t now l) ''callLogId'' = (case l of None \<Rightarrow> [] | Some x \<Rightarrow> x)"
  by (simp_all add: hfield_def call_hash_def)

lemma hfield_accept [simp]:
  "hfield (hset [(''status'', a), (''startedAt'', b)] h) k =
     (if k = ''startedAt'' then b else if k = ''status'' then a else hfield h k)"
  by (auto simp: hfield_def hset_def update_conv)

text \<open>
  Every live call names two different users, and each of them holds a key with the same deadline that
  points back to it; every live user key points to a live call of that user.
\<close>

definition call_room_ok :: "string \<Rightarrow> (string \<times> string) list \<Rightarrow> time \<Rightarrow> rstate \<Rightarrow> bool" where
  "call_room_ok c h dl r \<longleftrightarrow> c \<noteq> [] \<and> hfield h ''initiatorId'' \<noteq> [] \<and> hfield h ''targetId'' \<noteq> [] \<and>
     hfield h ''initiatorId'' \<noteq> hfield h ''targetId'' \<and>
     r_strings r (userCallKey (hfield h ''initiatorId'')) = Some (c, Some dl) \<and>
     r_strings r (userCallKey (hfield h ''targetId'')) = Some (c, Some dl)"

definition call_user_ok :: "uid \<Rightarrow> string \<Rightarrow> time \<Rightarrow> rstate \<Rightarrow> bool" where
  "call_user_ok u c dl r \<longleftrightarrow> (\<exists>h. r_hashes r (roomKey c) = Some (h, Some dl) \<and>
     (u = hfield h ''initiatorId'' \<or> u = hfield h ''targetId''))"

definition calls_ok :: "time \<Rightarrow> rstate \<Rightarrow> bool" where
  "calls_ok now r \<longleftrightarrow>
     (\<forall>c h x. r_hashes r (roomKey c) = Some (h, x) \<longrightarrow> (\<exists>dl. x = Some dl \<and> (now < dl \<longrightarrow> call_room_ok c h dl r))) \<and>
     (\<forall>u c x. r_strings r (userCallKey u) = Some (c, x) \<longrightarrow> (\<exists>dl. x = Some dl \<and> (now < dl \<longrightarrow> call_user_ok u c dl r)))"

lemma calls_okD_room:
  "calls_ok now r \<Longrightarrow> r_hashes r (roomKey c) = Some (h, x) \<Longrightarrow> \<exists>dl. x = Some dl \<and> (now < dl \<longrightarrow> call_room_ok c h dl r)"
  by (simp add: calls_ok_def)

lemma calls_okD_user:
  "calls_ok now r \<Longrightarrow> r_strings r (userCallKey u) = Some (c, x) \<Longrightarrow> \<exists>dl. x = Some dl \<and> (now < dl \<longrightarrow> call_user_ok u c dl r)"
  by (simp add: calls_ok_def)

lemma calls_ok_empty: "calls_ok now empty_redis"
  by (simp add: calls_ok_def)

lemma calls_ok_later: "calls_ok now r \<Longrightarrow> now \<le> now' \<Longrightarrow> calls_ok now' r"
  unfolding calls_ok_def by (metis (no_types, lifting) le_less_trans)

text \<open>The invariant reads only hashes and strings.\<close>

lemma calls_ok_cong: "r_hashes r' = r_hashes r \<Longrightarrow> r_strings r' = r_strings r \<Longrightarrow> calls_ok now r' = calls_ok now r"
  by (simp add: calls_ok_def call_room_ok_def call_user_ok_def)

lemma toActiveCall_fields:
  assumes "toActiveCall c h = Some call"
  shows "ac_callId call = c" "ac_initiatorId call = hfield h ''initiatorId''" "ac_targetId call = hfield h ''targetId''"
    "ac_status call = hfield h ''status''" "ac_startedAt call = js_number (hfield h ''startedAt'')"
    "ac_callLogId call = (if hfield h ''callLogId'' = [] then None else Some (hfield h ''callLogId''))"
  using assms by (auto simp: toActiveCall_def split: if_splits)

lemma live_SomeD: "live now ks k = Some v \<Longrightarrow> \<exists>x. ks k = Some (v, x) \<and> (\<forall>dl. x = Some dl \<longrightarrow> now < dl)"
  by (auto simp: live_def split: option.splits if_splits)

lemma list_at_at: "ks k = ks' k \<Longrightarrow> list_at now ks k = list_at now ks' k"
  by (simp add: list_at_def live_def)

text \<open>The call a user is in, spelled out in keys.\<close>

lemma read_call_Some:
  assumes ok: "calls_ok now r" and rc: "read_call now u r = Some call"
  obtains h dl where "now < dl" "r_hashes r (roomKey (ac_callId call)) = Some (h, Some dl)" "call_room_ok (ac_callId call) h dl r"
    "toActiveCall (ac_callId call) h = Some call" "u = ac_initiatorId call \<or> u = ac_targetId call"
    "ac_initiatorId call = hfield h ''initiatorId''" "ac_targetId call = hfield h ''targetId''"
proof -
  obtain c where c: "live now (r_strings r) (userCallKey u) = Some c"
    using rc by (auto simp: read_call_def split: option.splits)
  obtain x where x: "r_strings r (userCallKey u) = Some (c, x)" "\<forall>dl. x = Some dl \<longrightarrow> now < dl" using live_SomeD[OF c] by blast
  obtain dl where dl: "x = Some dl" "now < dl \<longrightarrow> call_user_ok u c dl r" using calls_okD_user[OF ok x(1)] by blast
  have lt: "now < dl" using x(2) dl(1) by blast
  obtain h where h: "r_hashes r (roomKey c) = Some (h, Some dl)" "u = hfield h ''initiatorId'' \<or> u = hfield h ''targetId''"
    using dl(2) lt by (auto simp: call_user_ok_def)
  have room: "call_room_ok c h dl r" using calls_okD_room[OF ok h(1)] lt by auto
  have "list_at now (r_hashes r) (roomKey c) = h" using h(1) lt by (simp add: list_at_def live_def)
  then have t: "toActiveCall c h = Some call" using rc c by (auto simp: read_call_def split: if_splits)
  note f = toActiveCall_fields[OF t]
  show thesis
  proof (rule that)
    show "now < dl" by (fact lt)
    show "r_hashes r (roomKey (ac_callId call)) = Some (h, Some dl)" "call_room_ok (ac_callId call) h dl r"
      "toActiveCall (ac_callId call) h = Some call" using h(1) room t by (simp_all add: f(1))
    show "u = ac_initiatorId call \<or> u = ac_targetId call" using h(2) f(2,3) by simp
    show "ac_initiatorId call = hfield h ''initiatorId''" "ac_targetId call = hfield h ''targetId''" by (fact f(2), fact f(3))
  qed
qed

lemma read_call_live:
  assumes "call_room_ok c h dl r" "r_hashes r (roomKey c) = Some (h, Some dl)" "now < dl"
  shows "read_call now (hfield h ''initiatorId'') r = toActiveCall c h" "read_call now (hfield h ''targetId'') r = toActiveCall c h"
    "toActiveCall c h \<noteq> None"
  using assms by (simp_all add: read_call_def call_room_ok_def live_def list_at_def toActiveCall_def)

lemma read_call_sym:
  assumes "calls_ok now r" "read_call now u r = Some call"
  shows "read_call now (getOtherUserId call u) r = Some call" "getOtherUserId call u \<noteq> u"
    "u = ac_initiatorId call \<or> u = ac_targetId call"
proof -
  from assms obtain h dl where *: "now < dl" "r_hashes r (roomKey (ac_callId call)) = Some (h, Some dl)" "call_room_ok (ac_callId call) h dl r"
    "toActiveCall (ac_callId call) h = Some call" "u = ac_initiatorId call \<or> u = ac_targetId call"
    "ac_initiatorId call = hfield h ''initiatorId''" "ac_targetId call = hfield h ''targetId''" by (rule read_call_Some)
  note l = read_call_live[OF *(3,2,1)]
  show "read_call now (getOtherUserId call u) r = Some call" using l(1,2) *(4,6,7) by (simp add: getOtherUserId_def)
  show "getOtherUserId call u \<noteq> u" using *(3,5,6,7) by (auto simp: getOtherUserId_def call_room_ok_def)
  show "u = ac_initiatorId call \<or> u = ac_targetId call" by (fact *(5))
qed

lemma no_call_no_room:
  assumes "calls_ok now r" "read_call now u r = None" "r_hashes r (roomKey c) = Some (h, Some dl)" "now < dl"
  shows "u \<noteq> hfield h ''initiatorId''" "u \<noteq> hfield h ''targetId''"
proof -
  have room: "call_room_ok c h dl r" using calls_okD_room[OF assms(1,3)] assms(4) by auto
  show "u \<noteq> hfield h ''initiatorId''" "u \<noteq> hfield h ''targetId''" using read_call_live[OF room assms(3,4)] assms(2) by auto
qed

lemma calls_okI:
  assumes "\<And>c h x. r_hashes r (roomKey c) = Some (h, x) \<Longrightarrow> \<exists>dl. x = Some dl \<and> (now < dl \<longrightarrow> call_room_ok c h dl r)"
    and "\<And>u c x. r_strings r (userCallKey u) = Some (c, x) \<Longrightarrow> \<exists>dl. x = Some dl \<and> (now < dl \<longrightarrow> call_user_ok u c dl r)"
  shows "calls_ok now r"
  unfolding calls_ok_def using assms by blast

lemma create_keys_at:
  "r_hashes (create_keys c i t l now r) (roomKey c') =
     (if c' = c then Some (call_hash i t now l, Some (now + 1000 * RINGING_TTL_SECONDS)) else r_hashes r (roomKey c'))"
  "r_strings (create_keys c i t l now r) (userCallKey u) =
     (if u = i \<or> u = t then Some (c, Some (now + 1000 * RINGING_TTL_SECONDS)) else r_strings r (userCallKey u))"
  by (simp_all add: create_keys_def put_ex_def)

lemma calls_ok_create:
  assumes ok: "calls_ok now r" and free: "read_call now i r = None" "read_call now t r = None"
    and ids: "i \<noteq> t" "i \<noteq> []" "t \<noteq> []" "c \<noteq> []"
    and fresh: "\<And>h dl. r_hashes r (roomKey c) = Some (h, Some dl) \<Longrightarrow> \<not> now < dl"
  shows "calls_ok now (create_keys c i t l now r)"
proof (rule calls_okI)
  let ?r = "create_keys c i t l now r"
  fix c' h x assume e: "r_hashes ?r (roomKey c') = Some (h, x)"
  show "\<exists>dl. x = Some dl \<and> (now < dl \<longrightarrow> call_room_ok c' h dl ?r)"
  proof (cases "c' = c")
    case True
    then show ?thesis using e ids by (auto simp: create_keys_at call_room_ok_def)
  next
    case False
    then have o: "r_hashes r (roomKey c') = Some (h, x)" using e by (simp add: create_keys_at)
    obtain dl where dl: "x = Some dl" "now < dl \<longrightarrow> call_room_ok c' h dl r" using calls_okD_room[OF ok o] by blast
    have "call_room_ok c' h dl ?r" if lt: "now < dl"
      using dl(2) lt no_call_no_room[OF ok free(1) o[unfolded dl(1)] lt] no_call_no_room[OF ok free(2) o[unfolded dl(1)] lt]
      by (simp add: call_room_ok_def create_keys_at)
    then show ?thesis using dl(1) by simp
  qed
next
  let ?r = "create_keys c i t l now r"
  fix u c' x assume e: "r_strings ?r (userCallKey u) = Some (c', x)"
  show "\<exists>dl. x = Some dl \<and> (now < dl \<longrightarrow> call_user_ok u c' dl ?r)"
  proof (cases "u = i \<or> u = t")
    case True
    then have "c' = c" "x = Some (now + 1000 * RINGING_TTL_SECONDS)" using e by (simp_all add: create_keys_at)
    then show ?thesis using True by (auto simp: create_keys_at call_user_ok_def)
  next
    case False
    then have o: "r_strings r (userCallKey u) = Some (c', x)" using e by (simp add: create_keys_at)
    obtain dl where dl: "x = Some dl" "now < dl \<longrightarrow> call_user_ok u c' dl r" using calls_okD_user[OF ok o] by blast
    have "call_user_ok u c' dl ?r" if lt: "now < dl"
      using dl(2) lt fresh by (auto simp: call_user_ok_def create_keys_at)
    then show ?thesis using dl(1) by simp
  qed
qed

text \<open>Two live calls share no participant.\<close>

lemma rooms_disjoint:
  assumes "call_room_ok c h dl r" "call_room_ok c' h' dl' r" "c \<noteq> c'"
  shows "hfield h ''initiatorId'' \<noteq> hfield h' ''initiatorId''" "hfield h ''initiatorId'' \<noteq> hfield h' ''targetId''"
    "hfield h ''targetId'' \<noteq> hfield h' ''initiatorId''" "hfield h ''targetId'' \<noteq> hfield h' ''targetId''"
  using assms by (auto simp: call_room_ok_def)

lemma accept_keys_at:
  assumes room: "call_room_ok (ac_callId call) h dl r" "r_hashes r (roomKey (ac_callId call)) = Some (h, Some dl)" "now < dl"
    and ids: "ac_initiatorId call = hfield h ''initiatorId''" "ac_targetId call = hfield h ''targetId''"
  shows "r_hashes (accept_keys call now r) (roomKey c') =
      (if c' = ac_callId call then Some (hset [(''status'', ''connected''), (''startedAt'', show_int now)] h, Some (now + 1000 * CONNECTED_TTL_SECONDS))
       else r_hashes r (roomKey c'))"
    "r_strings (accept_keys call now r) (userCallKey v) =
      (if v = ac_initiatorId call \<or> v = ac_targetId call then Some (ac_callId call, Some (now + 1000 * CONNECTED_TTL_SECONDS))
       else r_strings r (userCallKey v))"
proof -
  let ?c = "ac_callId call" and ?i = "ac_initiatorId call" and ?t = "ac_targetId call"
  have lk: "live now (r_strings r) (userCallKey ?i) = Some ?c" "live now (r_strings r) (userCallKey ?t) = Some ?c"
    using room(1,3) ids by (simp_all add: call_room_ok_def live_def)
  have hh: "list_at now (r_hashes r) (roomKey ?c) = h" using room(2,3) by (simp add: list_at_def live_def)
  show "r_hashes (accept_keys call now r) (roomKey c') =
      (if c' = ?c then Some (hset [(''status'', ''connected''), (''startedAt'', show_int now)] h, Some (now + 1000 * CONNECTED_TTL_SECONDS))
       else r_hashes r (roomKey c'))" by (simp add: accept_keys_def put_ex_def hh)
  have ne: "?i \<noteq> ?t" using room(1) ids by (simp add: call_room_ok_def)
  have lk2: "live now (put_ex now CONNECTED_TTL_SECONDS (userCallKey ?i) ?c (r_strings r)) (userCallKey ?t) = Some ?c"
    using lk(2) ne by (simp add: put_ex_def live_def)
  show "r_strings (accept_keys call now r) (userCallKey v) =
      (if v = ?i \<or> v = ?t then Some (?c, Some (now + 1000 * CONNECTED_TTL_SECONDS)) else r_strings r (userCallKey v))"
    by (simp add: accept_keys_def expire_key_def lk lk2 put_ex_def[of _ _ "userCallKey ?t"]) (simp add: put_ex_def)
qed

lemma calls_ok_accept:
  assumes ok: "calls_ok now r" and rc: "read_call now u r = Some call"
  shows "calls_ok now (accept_keys call now r)"
proof -
  let ?r = "accept_keys call now r" and ?c = "ac_callId call" and ?i = "ac_initiatorId call" and ?t = "ac_targetId call"
  let ?dl = "now + 1000 * CONNECTED_TTL_SECONDS"
  from ok rc obtain h dl where *: "now < dl" "r_hashes r (roomKey ?c) = Some (h, Some dl)" "call_room_ok ?c h dl r"
    "toActiveCall ?c h = Some call" "u = ?i \<or> u = ?t" "?i = hfield h ''initiatorId''" "?t = hfield h ''targetId''" by (rule read_call_Some)
  let ?h = "hset [(''status'', ''connected''), (''startedAt'', show_int now)] h"
  note hashes = accept_keys_at(1)[OF *(3,2,1,6,7)] and strings = accept_keys_at(2)[OF *(3,2,1,6,7)]
  show ?thesis
  proof (rule calls_okI)
    fix c' h' x assume e: "r_hashes ?r (roomKey c') = Some (h', x)"
    show "\<exists>dl. x = Some dl \<and> (now < dl \<longrightarrow> call_room_ok c' h' dl ?r)"
    proof (cases "c' = ?c")
      case True
      then have "h' = ?h" "x = Some ?dl" using e by (simp_all add: hashes)
      then show ?thesis using True *(3,6,7) by (simp add: call_room_ok_def strings)
    next
      case False
      then have o: "r_hashes r (roomKey c') = Some (h', x)" using e by (simp add: hashes)
      obtain dl' where dl': "x = Some dl'" "now < dl' \<longrightarrow> call_room_ok c' h' dl' r" using calls_okD_room[OF ok o] by blast
      have "call_room_ok c' h' dl' ?r" if lt: "now < dl'"
        using dl'(2) lt rooms_disjoint[OF _ *(3) False, of h' dl'] by (simp add: call_room_ok_def strings *(6,7))
      then show ?thesis using dl'(1) by simp
    qed
  next
    fix v c' x assume e: "r_strings ?r (userCallKey v) = Some (c', x)"
    show "\<exists>dl. x = Some dl \<and> (now < dl \<longrightarrow> call_user_ok v c' dl ?r)"
    proof (cases "v = ?i \<or> v = ?t")
      case True
      then have "c' = ?c" "x = Some ?dl" using e by (simp_all add: strings)
      then show ?thesis using True *(6,7) by (simp add: hashes call_user_ok_def)
    next
      case False
      then have o: "r_strings r (userCallKey v) = Some (c', x)" using e by (simp add: strings)
      obtain dl' where dl': "x = Some dl'" "now < dl' \<longrightarrow> call_user_ok v c' dl' r" using calls_okD_user[OF ok o] by blast
      have "call_user_ok v c' dl' ?r" if lt: "now < dl'"
      proof -
        obtain h' where h': "r_hashes r (roomKey c') = Some (h', Some dl')" "v = hfield h' ''initiatorId'' \<or> v = hfield h' ''targetId''"
          using dl'(2) lt by (auto simp: call_user_ok_def)
        then have "c' \<noteq> ?c" using False *(2,6,7) by auto
        then show ?thesis using h' by (simp add: call_user_ok_def hashes)
      qed
      then show ?thesis using dl'(1) by simp
    qed
  qed
qed

lemma cleanup_keys_at:
  assumes ok: "calls_ok now r" and rc: "read_call now u r = Some call"
  defines "r' \<equiv> cleanup_keys (ac_callId call) (list_at now (r_hashes r) (roomKey (ac_callId call))) r"
  shows "r_hashes r' (roomKey c) = (if c = ac_callId call then None else r_hashes r (roomKey c))"
    and "r_strings r' (userCallKey v) = (if v = ac_initiatorId call \<or> v = ac_targetId call then None else r_strings r (userCallKey v))"
    and "r_strings r (userCallKey v) = Some (c, Some dl) \<Longrightarrow> now < dl \<Longrightarrow> \<not> (v = ac_initiatorId call \<or> v = ac_targetId call) \<Longrightarrow>
      c \<noteq> ac_callId call"
proof -
  let ?c = "ac_callId call" and ?i = "ac_initiatorId call" and ?t = "ac_targetId call"
  from ok rc obtain h x where *: "now < x" "r_hashes r (roomKey ?c) = Some (h, Some x)" "call_room_ok ?c h x r"
    "toActiveCall ?c h = Some call" "u = ?i \<or> u = ?t" "?i = hfield h ''initiatorId''" "?t = hfield h ''targetId''" by (rule read_call_Some)
  have hh: "list_at now (r_hashes r) (roomKey ?c) = h" using *(1,2) by (simp add: list_at_def live_def)
  show "r_hashes r' (roomKey c) = (if c = ?c then None else r_hashes r (roomKey c))"
    by (simp add: r'_def cleanup_keys_def del_key_def)
  show "r_strings r' (userCallKey v) = (if v = ?i \<or> v = ?t then None else r_strings r (userCallKey v))"
    using *(3,6,7) by (simp add: r'_def cleanup_keys_def del_key_def hh Let_def call_room_ok_def)
  assume user: "r_strings r (userCallKey v) = Some (c, Some dl)" "now < dl" "\<not> (v = ?i \<or> v = ?t)"
  show "c \<noteq> ?c"
  proof
    assume "c = ?c"
    then have "call_user_ok v ?c dl r" using calls_okD_user[OF ok user(1)] user(2) by auto
    then show False using user(3) *(2,6,7) by (auto simp: call_user_ok_def)
  qed
qed

lemma calls_ok_cleanup:
  assumes ok: "calls_ok now r" and rc: "read_call now u r = Some call"
  shows "calls_ok now (cleanup_keys (ac_callId call) (list_at now (r_hashes r) (roomKey (ac_callId call))) r)"
    and "read_call now v (cleanup_keys (ac_callId call) (list_at now (r_hashes r) (roomKey (ac_callId call))) r) =
      (if v = ac_initiatorId call \<or> v = ac_targetId call then None else read_call now v r)"
proof -
  let ?c = "ac_callId call" and ?i = "ac_initiatorId call" and ?t = "ac_targetId call"
  let ?r = "cleanup_keys ?c (list_at now (r_hashes r) (roomKey ?c)) r"
  from ok rc obtain h dl where *: "now < dl" "r_hashes r (roomKey ?c) = Some (h, Some dl)" "call_room_ok ?c h dl r"
    "toActiveCall ?c h = Some call" "u = ?i \<or> u = ?t" "?i = hfield h ''initiatorId''" "?t = hfield h ''targetId''" by (rule read_call_Some)
  note hashes = cleanup_keys_at(1)[OF assms] and strings = cleanup_keys_at(2)[OF assms] and user = cleanup_keys_at(3)[OF assms]
  show "calls_ok now ?r"
  proof (rule calls_okI)
    fix c' h' x assume e: "r_hashes ?r (roomKey c') = Some (h', x)"
    then have o: "r_hashes r (roomKey c') = Some (h', x)" "c' \<noteq> ?c" by (simp_all add: hashes split: if_splits)
    obtain dl' where dl': "x = Some dl'" "now < dl' \<longrightarrow> call_room_ok c' h' dl' r" using calls_okD_room[OF ok o(1)] by blast
    have "call_room_ok c' h' dl' ?r" if lt: "now < dl'"
      using dl'(2) lt rooms_disjoint[OF _ *(3) o(2), of h' dl'] by (simp add: call_room_ok_def strings *(6,7))
    then show "\<exists>dl. x = Some dl \<and> (now < dl \<longrightarrow> call_room_ok c' h' dl ?r)" using dl'(1) by simp
  next
    fix v c' x assume e: "r_strings ?r (userCallKey v) = Some (c', x)"
    then have o: "r_strings r (userCallKey v) = Some (c', x)" "\<not> (v = ?i \<or> v = ?t)" by (simp_all add: strings split: if_splits)
    obtain dl' where dl': "x = Some dl'" "now < dl' \<longrightarrow> call_user_ok v c' dl' r" using calls_okD_user[OF ok o(1)] by blast
    have "call_user_ok v c' dl' ?r" if lt: "now < dl'"
      using dl'(2) lt user[OF o(1)[unfolded dl'(1)] lt o(2)] by (simp add: call_user_ok_def hashes)
    then show "\<exists>dl. x = Some dl \<and> (now < dl \<longrightarrow> call_user_ok v c' dl ?r)" using dl'(1) by simp
  qed
  show "read_call now v ?r = (if v = ?i \<or> v = ?t then None else read_call now v r)"
  proof (cases "v = ?i \<or> v = ?t")
    case True
    then show ?thesis using strings[of v] by (simp add: read_call_def live_def)
  next
    case False
    then have l: "live now (r_strings ?r) (userCallKey v) = live now (r_strings r) (userCallKey v)" by (simp add: live_def strings)
    have "list_at now (r_hashes ?r) (roomKey c') = list_at now (r_hashes r) (roomKey c')" if lc: "live now (r_strings r) (userCallKey v) = Some c'" for c'
    proof -
      obtain x where x: "r_strings r (userCallKey v) = Some (c', x)" "\<forall>dl. x = Some dl \<longrightarrow> now < dl" using live_SomeD[OF lc] by blast
      obtain dl' where dl': "x = Some dl'" using calls_okD_user[OF ok x(1)] by blast
      have "c' \<noteq> ?c" using user x dl' False by blast
      then show ?thesis by (intro list_at_at) (simp add: hashes)
    qed
    then show ?thesis using False by (simp add: read_call_def l split: option.splits)
  qed
qed

section \<open>Frames\<close>

lemma run_db_frame [simp]:
  "w_redis (snd (run_db f w)) = w_redis w" "w_link (snd (run_db f w)) = w_link w" "w_server (snd (run_db f w)) = w_server w"
  "w_out (snd (run_db f w)) = w_out w" "fst (run_db f w) = fst (f (w_db w))" "w_db (snd (run_db f w)) = snd (f (w_db w))"
  by (simp_all add: run_db_def split_beta)

lemma emitToUser_frame [simp]:
  "w_redis (snd (emitToUser u e j w)) = w_redis w" "w_db (snd (emitToUser u e j w)) = w_db w" "w_link (snd (emitToUser u e j w)) = w_link w"
  by (simp_all add: emitToUser_def)

lemma getActiveCall_emit [simp]: "getActiveCall now v (snd (emitToUser u e j w)) = getActiveCall now v w"
  by (simp add: getActiveCall_def split: link.split)

lemma checkRateLimit_frame:
  "r_hashes (w_redis (snd (checkRateLimit k c now w))) = r_hashes (w_redis w)"
  "r_strings (w_redis (snd (checkRateLimit k c now w))) = r_strings (w_redis w)"
  "w_db (snd (checkRateLimit k c now w)) = w_db w" "w_link (snd (checkRateLimit k c now w)) = w_link w"
  "w_out (snd (checkRateLimit k c now w)) = w_out w" "w_server (snd (checkRateLimit k c now w)) = w_server w"
  by (simp_all add: checkRateLimit_def upd_counters_def split_beta Let_def split: link.splits)

lemma call_allowed_frame [simp]:
  "r_hashes (w_redis (snd (call_allowed u s l now w))) = r_hashes (w_redis w)"
  "r_strings (w_redis (snd (call_allowed u s l now w))) = r_strings (w_redis w)"
  "w_db (snd (call_allowed u s l now w)) = w_db w" "w_link (snd (call_allowed u s l now w)) = w_link w"
  "w_out (snd (call_allowed u s l now w)) = w_out w" "w_server (snd (call_allowed u s l now w)) = w_server w"
  by (simp_all add: call_allowed_def split_beta Let_def checkRateLimit_frame)

lemma getActiveCall_cong:
  assumes "r_hashes (w_redis w') = r_hashes (w_redis w)" "r_strings (w_redis w') = r_strings (w_redis w)" "w_link w' = w_link w"
  shows "getActiveCall now u w' = getActiveCall now u w"
  using assms by (simp add: getActiveCall_def read_call_def split: link.split option.split)

lemma call_allowed_ok [simp]: "calls_ok t (w_redis (snd (call_allowed u s l now w))) = calls_ok t (w_redis w)"
  by (rule calls_ok_cong) simp_all

lemma getActiveCall_allowed [simp]: "getActiveCall now v (snd (call_allowed u s l t w)) = getActiveCall now v w"
  by (rule getActiveCall_cong) simp_all

lemma known_log_frame [simp]:
  "w_redis (snd (known_log logId call now w)) = w_redis w" "w_link (snd (known_log logId call now w)) = w_link w"
  by (simp_all add: known_log_def split: option.splits)

lemma finishConnectedCall_frame [simp]:
  "w_redis (snd (finishConnectedCall logId rowId call now w)) = w_redis w"
  "w_link (snd (finishConnectedCall logId rowId call now w)) = w_link w"
proof -
  obtain x w1 where k: "known_log logId call now w = (x, w1)" by fastforce
  then have "w_redis w1 = w_redis w" "w_link w1 = w_link w" using known_log_frame[of logId call now w] by simp_all
  then show "w_redis (snd (finishConnectedCall logId rowId call now w)) = w_redis w"
    "w_link (snd (finishConnectedCall logId rowId call now w)) = w_link w"
    by (simp_all add: finishConnectedCall_def k split: sum.splits)
qed

lemma getActiveCall_Some: "getActiveCall now u w = Some call \<longleftrightarrow> w_link w = Up \<and> read_call now u (w_redis w) = Some call"
  by (simp add: getActiveCall_def split: link.splits)

lemma cleanupCall_ok:
  assumes "calls_ok now (w_redis w)" "getActiveCall now u w = Some call" "w_redis w' = w_redis w" "w_link w' = w_link w"
  shows "calls_ok now (w_redis (snd (cleanupCall (ac_callId call) now w')))"
    "getActiveCall now v (snd (cleanupCall (ac_callId call) now w')) =
       (if v = ac_initiatorId call \<or> v = ac_targetId call then None else getActiveCall now v w)"
    "w_db (snd (cleanupCall (ac_callId call) now w')) = w_db w'"
proof -
  have up: "w_link w' = Up" and r: "read_call now u (w_redis w) = Some call" using assms(2,4) by (simp_all add: getActiveCall_Some)
  show "calls_ok now (w_redis (snd (cleanupCall (ac_callId call) now w')))"
    "getActiveCall now v (snd (cleanupCall (ac_callId call) now w')) =
       (if v = ac_initiatorId call \<or> v = ac_targetId call then None else getActiveCall now v w)"
    using up assms(3,4) calls_ok_cleanup(1)[OF assms(1) r] calls_ok_cleanup(2)[OF assms(1) r, of v]
    by (simp_all add: cleanupCall_def Let_def getActiveCall_def)
  show "w_db (snd (cleanupCall (ac_callId call) now w')) = w_db w'" using up by (simp add: cleanupCall_def Let_def)
qed

section \<open>The handlers keep the state\<close>

lemma invite_checks_frame:
  assumes "invite_checks user data now w = (x, w1)"
  shows "r_hashes (w_redis w1) = r_hashes (w_redis w)" "r_strings (w_redis w1) = r_strings (w_redis w)" "w_link w1 = w_link w" "w_db w1 = w_db w"
proof -
  have "w1 = w \<or> (\<exists>u s l. w1 = snd (call_allowed u s l now w))"
    using assms by (auto simp: invite_checks_def split_beta Let_def split: option.splits if_splits)
  then show "r_hashes (w_redis w1) = r_hashes (w_redis w)" "r_strings (w_redis w1) = r_strings (w_redis w)"
    "w_link w1 = w_link w" "w_db w1 = w_db w" by auto
qed

lemma invite_checks_Inr:
  assumes "invite_checks user data now w = (Inr (usr, target), w1)"
  shows "user = Some usr" "jfield ''targetUserId'' data = Some (JStr target)" "is_uuid target" "target \<noteq> su_id usr"
    "getActiveCall now (su_id usr) w1 = None" "getActiveCall now target w1 = None" "isOnline now target w1" "w_link w1 = Up"
proof -
  have u: "isUuid x = Some t \<Longrightarrow> x = Some (JStr t) \<and> is_uuid t" for x t by (cases x rule: isUuid.cases) (auto split: if_splits)
  show "user = Some usr" "target \<noteq> su_id usr" "getActiveCall now (su_id usr) w1 = None" "getActiveCall now target w1 = None"
    "isOnline now target w1" using assms by (auto simp: invite_checks_def split_beta Let_def split: option.splits if_splits)
  have "isUuid (jfield ''targetUserId'' data) = Some target"
    using assms by (auto simp: invite_checks_def split_beta Let_def split: option.splits if_splits)
  then show "jfield ''targetUserId'' data = Some (JStr target)" "is_uuid target" using u by blast+
  show "w_link w1 = Up" using \<open>isOnline now target w1\<close> by (simp add: isOnline_def with_redis_def split: link.splits)
qed

lemma ring_Inr:
  assumes "ring rerr callId logId usr target ch now w = (Inr call, w1)" "w_link w = Up"
  shows "w_redis w1 = create_keys callId (su_id usr) target (Some logId) now (w_redis w)" "w_link w1 = Up"
    "call = \<lparr>ac_callId = callId, ac_initiatorId = su_id usr, ac_targetId = target, ac_status = ''ringing'', ac_startedAt = now, ac_callLogId = Some logId\<rparr>"
    "w_db w1 = (w_db w)\<lparr>callLogs := callLogs (w_db w) @ [\<lparr>cl_id = logId, cl_type = ''WEBRTC'', cl_callerId = Some (to_lower (su_id usr)),
        cl_calleeId = Some (to_lower target), cl_roomName = None, cl_startedAt = now, cl_endedAt = None, cl_duration = None,
        cl_status = ''missed'', cl_channelId = map_option to_lower ch\<rparr>]\<rparr>"
    "w_server w1 = w_server w"
  using assms
  by (auto simp: ring_def run_db_def createCallLog_def createCall_def Let_def split: sum.splits prod.splits dest!: insert_call_log_Inr)

lemma ring_Inl:
  assumes "ring rerr callId logId usr target ch now w = (Inl e, w1)"
  shows "w_redis w1 = w_redis w"
  using assms by (auto simp: ring_def run_db_def createCallLog_def createCall_def Let_def split: sum.splits prod.splits link.splits)

lemma invite_commit_redis:
  assumes "w_link w = Up"
  shows "w_redis (snd (invite_commit rerr callId logId usr target now w)) = w_redis w \<or>
    w_redis (snd (invite_commit rerr callId logId usr target now w)) = create_keys callId (su_id usr) target (Some logId) now (w_redis w)"
proof -
  obtain x w1 where r: "ring rerr callId logId usr target None now w = (x, w1)" by fastforce
  show ?thesis
  proof (cases x)
    case (Inl e)
    then show ?thesis using r ring_Inl[of rerr callId logId usr target None now w e w1] by (simp add: invite_commit_def)
  next
    case (Inr call)
    then show ?thesis using r ring_Inr(1)[of rerr callId logId usr target None now w call w1] assms by (simp add: invite_commit_def)
  qed
qed

lemma handleInvite_ok:
  assumes ok: "calls_ok now (w_redis w)" and fresh: "r_hashes (w_redis w) (roomKey callId) = None" and ids: "callId \<noteq> []"
    and uid: "\<forall>usr. user = Some usr \<longrightarrow> su_id usr \<noteq> []"
  shows "calls_ok now (w_redis (snd (handleInvite rerr callId logId user data now w)))"
proof -
  obtain x w1 where c: "invite_checks user data now w = (x, w1)" by fastforce
  note fr = invite_checks_frame[OF c]
  have ok1: "calls_ok now (w_redis w1)" using calls_ok_cong[OF fr(1,2)] ok by simp
  show ?thesis
  proof (cases x)
    case (Inl a)
    then show ?thesis using c ok1 by (simp add: handleInvite_def)
  next
    case (Inr ut)
    obtain usr target where ut: "ut = (usr, target)" by fastforce
    note ch = invite_checks_Inr[OF c[unfolded Inr ut]]
    have "is_uuid []" if "target = []" using ch(3) that by simp
    then have tne: "target \<noteq> []" using is_uuid_length[of "[]"] by auto
    have "calls_ok now (create_keys callId (su_id usr) target (Some logId) now (w_redis w1))"
      using ch(1,4,5,6,8) uid tne ids fresh fr(1) by (intro calls_ok_create[OF ok1]) (simp_all add: getActiveCall_def)
    then show ?thesis using invite_commit_redis[OF ch(8), of rerr callId logId usr target now] ok1 c Inr ut
      by (auto simp: handleInvite_def)
  qed
qed

lemma handleAccept_ok:
  assumes ok: "calls_ok now (w_redis w)"
  shows "calls_ok now (w_redis (snd (handleAccept user data now w)))"
proof -
  have acc: "calls_ok now (w_redis (acceptCall call now w))" if "getActiveCall now u w = Some call" for u call
    using that calls_ok_accept[OF ok, of u call] by (simp add: getActiveCall_Some acceptCall_def)
  show ?thesis using ok acc by (auto simp: handleAccept_def Let_def split: option.splits)
qed

lemma handleReject_ok:
  assumes ok: "calls_ok now (w_redis w)"
  shows "calls_ok now (w_redis (snd (handleReject logId user data now w)))"
proof -
  have cl: "calls_ok now (w_redis (snd (cleanupCall (ac_callId call) now (snd (known_log logId call now w)\<lparr>w_db := d\<rparr>))))"
    if "getActiveCall now u w = Some call" for u call d
    using cleanupCall_ok(1)[OF ok that, of "snd (known_log logId call now w)\<lparr>w_db := d\<rparr>"] by simp
  have kl: "w_redis w1 = w_redis w" if "known_log logId call now w = (x, w1)" for call x w1
    using that known_log_frame(1)[of logId call now w] by simp
  have "calls_ok now (w_redis (snd (cleanupCall (ac_callId call) now (w1\<lparr>w_db := d\<rparr>))))"
    if "getActiveCall now u w = Some call" "known_log logId call now w = (x, w1)" for u call d x w1
    using cl[OF that(1), of d] that(2) by simp
  then show ?thesis using ok kl by (fastforce simp: handleReject_def Let_def split: option.splits prod.splits sum.splits)
qed

lemma end_if_connected_frame [simp]:
  "w_redis (snd (end_if_connected logId rowId call now w)) = w_redis w"
  "w_link (snd (end_if_connected logId rowId call now w)) = w_link w"
  by (simp_all add: end_if_connected_def)

lemma handleHangup_ok:
  assumes ok: "calls_ok now (w_redis w)"
  shows "calls_ok now (w_redis (snd (handleHangup logId rowId user data now w)))"
proof -
  have fr: "w_redis w1 = w_redis w" "w_link w1 = w_link w" if "end_if_connected logId rowId call now w = (x, w1)" for call x w1
    using that end_if_connected_frame[of logId rowId call now w] by simp_all
  have "calls_ok now (w_redis (snd (cleanupCall (ac_callId call) now w1)))"
    if "getActiveCall now u w = Some call" "end_if_connected logId rowId call now w = (x, w1)" for u call x w1
    using cleanupCall_ok(1)[OF ok that(1) fr(1)[OF that(2)] fr(2)[OF that(2)]] .
  then show ?thesis using ok fr(1) by (fastforce simp: handleHangup_def Let_def split: option.splits prod.splits sum.splits)
qed

lemma handleDisconnect_ok:
  assumes ok: "calls_ok now (w_redis w)"
  shows "calls_ok now (w_redis (handleDisconnect rerr logId rowId user clientId remaining now w))"
proof -
  have cu: "calls_ok now (w_redis w1)" if cuc: "cleanupUserCall rerr u now w = (x, w1)" for u x w1
  proof (cases "w_redis w1 = w_redis w")
    case True
    then show ?thesis using ok by simp
  next
    case False
    then obtain c where c: "w_link w = Up" "live now (r_strings (w_redis w)) (userCallKey u) = Some c" "c \<noteq> []" "w1 = snd (cleanupCall c now w)"
      using cuc by (auto simp: cleanupUserCall_def split_beta Let_def split: link.splits option.splits if_splits)
    obtain y where y: "r_strings (w_redis w) (userCallKey u) = Some (c, y)" "\<forall>dl. y = Some dl \<longrightarrow> now < dl" using live_SomeD[OF c(2)] by blast
    obtain dl where dl: "y = Some dl" "now < dl \<longrightarrow> call_user_ok u c dl (w_redis w)" using calls_okD_user[OF ok y(1)] by blast
    then obtain h where h: "r_hashes (w_redis w) (roomKey c) = Some (h, Some dl)" "u = hfield h ''initiatorId'' \<or> u = hfield h ''targetId''"
      using y(2) by (auto simp: call_user_ok_def)
    have lt: "now < dl" using y(2) dl(1) by blast
    have room: "call_room_ok c h dl (w_redis w)" using calls_okD_room[OF ok h(1)] lt by auto
    obtain call where call: "toActiveCall c h = Some call" using read_call_live(3)[OF room h(1) lt] by blast
    have "getActiveCall now u w = Some call" using read_call_live(1,2)[OF room h(1) lt] call h(2) c(1) by (auto simp: getActiveCall_Some)
    from cleanupCall_ok(1)[OF ok this refl refl] show ?thesis using c(4) toActiveCall_fields(1)[OF call] by simp
  qed
  have fin: "calls_ok now (w_redis w2)" if "calls_ok now (w_redis w1)" "finishConnectedCall logId rowId call now w1 = (x, w2)" for call w1 x w2
    using that finishConnectedCall_frame(1)[of logId rowId call now w1] by simp
  show ?thesis using ok cu fin
    by (fastforce simp: handleDisconnect_def Let_def split: option.splits prod.splits sum.splits)
qed

lemma relayTarget_frame:
  assumes "relayTarget user c now w = (x, w1)"
  shows "r_hashes (w_redis w1) = r_hashes (w_redis w)" "r_strings (w_redis w1) = r_strings (w_redis w)" "w_db w1 = w_db w"
    "w_out w1 = w_out w" "w_server w1 = w_server w" "w_link w1 = w_link w"
proof -
  have "w1 = w \<or> (\<exists>u s l. w1 = snd (call_allowed u s l now w))"
    using assms by (auto simp: relayTarget_def split_beta Let_def split: option.splits if_splits)
  then show "r_hashes (w_redis w1) = r_hashes (w_redis w)" "r_strings (w_redis w1) = r_strings (w_redis w)" "w_db w1 = w_db w"
    "w_out w1 = w_out w" "w_server w1 = w_server w" "w_link w1 = w_link w" by auto
qed

lemma relayTarget_Some:
  assumes "relayTarget user c now w = (Some (usr, call), w1)"
  shows "user = Some usr" "getActiveCall now (su_id usr) w = Some call" "isUuid c = Some (ac_callId call)"
  using assms by (auto simp: relayTarget_def split_beta Let_def split: option.splits if_splits)

lemma relay_redis:
  "r_hashes (w_redis (relay event body user data now w)) = r_hashes (w_redis w)"
  "r_strings (w_redis (relay event body user data now w)) = r_strings (w_redis w)"
proof -
  obtain x w1 where r: "relayTarget user (jfield ''callId'' data) now w = (x, w1)" by fastforce
  note f = relayTarget_frame[OF r]
  show "r_hashes (w_redis (relay event body user data now w)) = r_hashes (w_redis w)"
    "r_strings (w_redis (relay event body user data now w)) = r_strings (w_redis w)"
    using f(1,2) by (simp_all add: relay_def r split_beta split: option.split)
qed

lemma relay_ok: "calls_ok now (w_redis (relay event body user data t w)) = calls_ok now (w_redis w)"
  by (rule calls_ok_cong) (rule relay_redis)+

lemma signals_ok:
  "calls_ok now (w_redis (handleOffer user data t w)) = calls_ok now (w_redis w)"
  "calls_ok now (w_redis (handleAnswer user data t w)) = calls_ok now (w_redis w)"
  "calls_ok now (w_redis (handleIceCandidate user data t w)) = calls_ok now (w_redis w)"
  by (simp_all add: handleOffer_def handleAnswer_def handleIceCandidate_def relay_ok split: option.split)

section \<open>Properties\<close>

text \<open>
  A user is in at most one call, and both ends agree on it. In every state the call events lead to, the
  call a user is in names that user, and the other party, a different user, is in the same call; each of
  the events invite, accept, reject, hangup, disconnect and the three signalling relays keeps it so, one
  after the other.
\<close>

theorem call_state_consistent:
  assumes ok: "calls_ok now (w_redis w)"
    and new: "r_hashes (w_redis w) (roomKey callId) = None" "callId \<noteq> []" "\<forall>usr. user = Some usr \<longrightarrow> su_id usr \<noteq> []"
  shows "(\<forall>u call. getActiveCall now u w = Some call \<longrightarrow>
        (u = ac_initiatorId call \<or> u = ac_targetId call) \<and> getOtherUserId call u \<noteq> u \<and>
        getActiveCall now (getOtherUserId call u) w = Some call) \<and>
    calls_ok now (w_redis (snd (handleInvite rerr callId logId user data now w))) \<and>
    calls_ok now (w_redis (snd (handleAccept user data now w))) \<and>
    calls_ok now (w_redis (snd (handleReject logId user data now w))) \<and>
    calls_ok now (w_redis (snd (handleHangup logId rowId user data now w))) \<and>
    calls_ok now (w_redis (handleDisconnect rerr logId rowId user clientId remaining now w)) \<and>
    calls_ok now (w_redis (handleOffer user data now w)) \<and> calls_ok now (w_redis (handleAnswer user data now w)) \<and>
    calls_ok now (w_redis (handleIceCandidate user data now w)) \<and>
    (now \<le> later \<longrightarrow> calls_ok later (w_redis w))"
proof (intro conjI allI impI)
  fix u call assume c: "getActiveCall now u w = Some call"
  then have rc: "w_link w = Up" "read_call now u (w_redis w) = Some call" by (simp_all add: getActiveCall_Some)
  note sym = read_call_sym[OF ok rc(2)]
  show "u = ac_initiatorId call \<or> u = ac_targetId call" "getOtherUserId call u \<noteq> u" by (fact sym(3), fact sym(2))
  show "getActiveCall now (getOtherUserId call u) w = Some call" using sym(1) rc(1) by (simp add: getActiveCall_Some)
qed (use calls_ok_later[OF ok] handleInvite_ok[OF ok new] handleAccept_ok[OF ok] handleReject_ok[OF ok]
      handleHangup_ok[OF ok] handleDisconnect_ok[OF ok] ok signals_ok in simp_all)

definition sample_ann :: SocketUser where
  "sample_ann = \<lparr>su_id = ''aaaaaaaa-0000-0000-0000-000000000001'', su_username = ''ann''\<rparr>"
definition sample_bob :: SocketUser where
  "sample_bob = \<lparr>su_id = ''bbbbbbbb-0000-0000-0000-000000000002'', su_username = ''bob''\<rparr>"
definition sample_cleo :: SocketUser where
  "sample_cleo = \<lparr>su_id = ''cccccccc-0000-0000-0000-000000000003'', su_username = ''cleo''\<rparr>"

theorem call_state_consistent_witness:
  "calls_ok 0 (w_redis empty_world) \<and>
   calls_ok 0 (w_redis (snd (handleInvite JNull ''c1'' ''l1'' (Some sample_ann)
     (JObj [(''targetUserId'', JStr (su_id sample_bob))]) 0 empty_world)))"
proof -
  have ok: "calls_ok 0 (w_redis empty_world)" using calls_ok_empty by simp
  have "r_hashes (w_redis empty_world) (roomKey ''c1'') = None" "''c1'' \<noteq> []"
    "\<forall>usr. Some sample_ann = Some usr \<longrightarrow> su_id usr \<noteq> []" by (simp_all add: sample_ann_def)
  note t = call_state_consistent[OF ok this]
  from conjunct1[OF conjunct2[OF t]] show ?thesis using ok by blast
qed

text \<open>The event was dropped, or passed on to the other party of the call the sender named and is in.\<close>

definition relayed :: "string \<Rightarrow> SocketUser option \<Rightarrow> json \<Rightarrow> time \<Rightarrow> world \<Rightarrow> world \<Rightarrow> bool" where
  "relayed ev user data now w w' \<longleftrightarrow> w_db w' = w_db w \<and>
     (w_out w' = w_out w \<or>
      (\<exists>usr call j. user = Some usr \<and> getActiveCall now (su_id usr) w = Some call \<and>
         jfield ''callId'' data = Some (JStr (ac_callId call)) \<and>
         w_out w' = w_out w @ [Emit [userRoom (getOtherUserId call (su_id usr))] [] ev j]))"

lemma relay_relayed: "relayed ev user data now w (relay ev body user data now w)"
proof -
  have u: "isUuid x = Some t \<Longrightarrow> x = Some (JStr t)" for x t by (cases x rule: isUuid.cases) (auto split: if_splits)
  obtain x w1 where r: "relayTarget user (jfield ''callId'' data) now w = (x, w1)" by fastforce
  note f = relayTarget_frame[OF r]
  show ?thesis
  proof (cases x)
    case None
    then show ?thesis using f r by (simp add: relay_def relayed_def)
  next
    case (Some uc)
    obtain usr call where uc: "uc = (usr, call)" by fastforce
    note g = relayTarget_Some[OF r[unfolded Some uc]]
    have "w_out (relay ev body user data now w) = w_out w \<or> (\<exists>j. w_out (relay ev body user data now w) =
        w_out w @ [Emit [userRoom (getOtherUserId call (su_id usr))] [] ev j])"
      using f r Some uc by (cases "w_server w1") (auto simp: relay_def emitToUser_def send_out_def)
    moreover have "w_db (relay ev body user data now w) = w_db w" using f r Some uc by (simp add: relay_def)
    ultimately show ?thesis using g u[OF g(3)] unfolding relayed_def by blast
  qed
qed

text \<open>
  C27: Signalling stays inside the call. Whatever a client sends as offer, answer or ICE candidate, the
  server either drops it or passes it on to one user: the other party of the call the sender is in, under
  the id the sender named; no table changes.
\<close>

theorem signals_stay_in_call:
  "relayed ''call:offer'' user data now w (handleOffer user data now w) \<and>
   relayed ''call:answer'' user data now w (handleAnswer user data now w) \<and>
   relayed ''call:ice-candidate'' user data now w (handleIceCandidate user data now w)"
proof -
  have "relayed ev user data now w w" for ev by (simp add: relayed_def)
  then show ?thesis
    by (simp add: handleOffer_def handleAnswer_def handleIceCandidate_def relay_relayed split: option.split)
qed

text \<open>
  Two callers who ring the same user at the same moment break the pairing. Both pass the checks before
  either has written its call; the second overwrites the callee's key, and when the first caller gives up,
  \<open>cleanupCall\<close> deletes the key although it belongs to the second call: the second caller is still in a
  call with the callee, who is in none, and so cannot accept, reject or hang up.
\<close>

theorem concurrent_invites_lose_callee:
  assumes chk: "invite_checks (Some a) dataA now w = (Inr (a, c), w1)" "invite_checks (Some b) dataB now w1 = (Inr (b, c), w2)"
    and com: "invite_commit rerr c1 l1 a c now w2 = (AckOk x, w3)" "invite_commit rerr c2 l2 b c now w3 = (AckOk y, w4)"
    and ids: "su_id a \<noteq> su_id b" "c1 \<noteq> c2" "is_uuid c1" "is_uuid c2" "su_id a \<noteq> []" "su_id b \<noteq> []"
  shows "\<exists>call. getActiveCall now (su_id b) (snd (handleHangup lid rid (Some a) (JObj [(''callId'', JStr c1)]) now w4)) = Some call \<and>
    ac_targetId call = c \<and> getActiveCall now c (snd (handleHangup lid rid (Some a) (JObj [(''callId'', JStr c1)]) now w4)) = None \<and>
    fst (handleAccept (Some \<lparr>su_id = c, su_username = name\<rparr>) (JObj [(''callId'', JStr c2)]) now
      (snd (handleHangup lid rid (Some a) (JObj [(''callId'', JStr c1)]) now w4))) = call_not_found"
proof -
  note A = invite_checks_Inr[OF chk(1)] and B = invite_checks_Inr[OF chk(2)]
  have commit: "w_redis w'' = create_keys k (su_id v) c (Some l) now (w_redis w') \<and> w_link w'' = Up"
    if "invite_commit rerr k l v c now w' = (AckOk z, w'')" "w_link w' = Up" for k l v z w' w''
  proof -
    obtain r w3 where r: "ring rerr k l v c None now w' = (r, w3)" by fastforce
    with that(1) obtain call where "r = Inr call" by (cases r) (auto simp: invite_commit_def)
    with ring_Inr[OF r[unfolded this] that(2)] r that(1) show ?thesis by (auto simp: invite_commit_def)
  qed
  have w3: "w_redis w3 = create_keys c1 (su_id a) c (Some l1) now (w_redis w2)" "w_link w3 = Up" using commit[OF com(1) B(8)] by simp_all
  have w4: "w_redis w4 = create_keys c2 (su_id b) c (Some l2) now (w_redis w3)" "w_link w4 = Up" using commit[OF com(2) w3(2)] by simp_all
  have ne: "c1 \<noteq> []" "c2 \<noteq> []" "c \<noteq> []" using is_uuid_length[OF ids(3)] is_uuid_length[OF ids(4)] is_uuid_length[OF A(3)] by auto
  have pos: "0 < RINGING_TTL_SECONDS" by (simp add: RINGING_TTL_SECONDS_def)
  have neq: "c \<noteq> su_id a" "c \<noteq> su_id b" by (fact A(4), fact B(4))
  have hash4: "list_at now (r_hashes (w_redis w4)) (roomKey c1) = call_hash (su_id a) c now (Some l1)"
    "list_at now (r_hashes (w_redis w4)) (roomKey c2) = call_hash (su_id b) c now (Some l2)"
    using ids(2) pos by (simp_all add: list_at_def live_def w4(1) w3(1) create_keys_at)
  have key4: "live now (r_strings (w_redis w4)) (userCallKey (su_id a)) = Some c1" "live now (r_strings (w_redis w4)) (userCallKey (su_id b)) = Some c2"
    using ids(1) pos neq by (simp_all add: live_def w4(1) w3(1) create_keys_at)
  obtain callA where callA: "getActiveCall now (su_id a) w4 = Some callA" "ac_callId callA = c1" "ac_status callA = ''ringing''"
    using key4(1) hash4(1) ne(1) ids(5) w4(2) by (simp add: getActiveCall_def read_call_def toActiveCall_def)
  let ?w5 = "snd (handleHangup lid rid (Some a) (JObj [(''callId'', JStr c1)]) now w4)"
  have w5: "w_redis ?w5 = cleanup_keys c1 (call_hash (su_id a) c now (Some l1)) (w_redis w4)" "w_link ?w5 = Up"
    using callA ids(3) w4(2) hash4(1)
    by (simp_all add: handleHangup_def end_if_connected_def cleanupCall_def Let_def)
  have "live now (r_strings (w_redis ?w5)) (userCallKey c) = None"
    "live now (r_strings (w_redis ?w5)) (userCallKey (su_id b)) = Some c2"
    using key4(2) ids(1,5) neq ne(3) by (simp_all add: w5(1) cleanup_keys_def)
  moreover have "list_at now (r_hashes (w_redis ?w5)) (roomKey c2) = call_hash (su_id b) c now (Some l2)"
    using hash4(2) ids(2) by (simp add: w5(1) cleanup_keys_def)
  ultimately have none: "getActiveCall now c ?w5 = None" and "\<exists>call. getActiveCall now (su_id b) ?w5 = Some call \<and> ac_targetId call = c"
    using w5(2) ne(2) ids(6) by (simp_all add: getActiveCall_def read_call_def toActiveCall_def)
  then show ?thesis using ids(4) by (simp add: handleAccept_def)
qed

lemma call_allowed_first:
  assumes "live now (r_counters (w_redis w)) (''zevra:ratelimit:'' @ s @ '':'' @ u) = None" "1 \<le> maxRequests l"
  shows "fst (call_allowed u s l now w)"
  using assms by (simp add: call_allowed_def checkRateLimit_def fixed_window_script_def Let_def split_beta split: link.split)

lemma call_allowed_counters:
  "k \<noteq> ''zevra:ratelimit:'' @ s @ '':'' @ u \<Longrightarrow>
   live now (r_counters (w_redis (snd (call_allowed u s l now w)))) k = live now (r_counters (w_redis w)) k"
  by (simp add: call_allowed_def checkRateLimit_def fixed_window_script_def upd_counters_def Let_def split_beta split: link.split)
    (simp add: live_def put_keep_def split: option.split)

lemma invite_checks_pass:
  assumes "is_uuid t" "t \<noteq> su_id usr" "fst (call_allowed (su_id usr) ''call'' CALL_RATE_LIMIT now w)"
    "getActiveCall now (su_id usr) w = None" "getActiveCall now t w = None" "isOnline now t w"
  shows "invite_checks (Some usr) (JObj [(''targetUserId'', JStr t)]) now w =
    (Inr (usr, t), snd (call_allowed (su_id usr) ''call'' CALL_RATE_LIMIT now w))"
proof -
  have "isOnline now t (snd (call_allowed (su_id usr) ''call'' CALL_RATE_LIMIT now w))"
    using assms(6) by (simp add: isOnline_def with_redis_def split: link.splits)
  then show ?thesis using assms by (simp add: invite_checks_def split_beta Let_def)
qed

definition sample_call_world :: world where
  "sample_call_world = empty_world\<lparr>
     w_db := empty_db\<lparr>users := map (\<lambda>u. sample_user\<lparr>u_id := su_id u, u_username := su_username u\<rparr>) [sample_ann, sample_bob, sample_cleo]\<rparr>,
     w_redis := empty_redis\<lparr>r_strings := put_ex 0 RedisTtl_presenceSeconds (RedisKeys_presence (su_id sample_cleo)) ''online'' (\<lambda>_. None)\<rparr>\<rparr>"

lemma lower_char_idem: "lower_char (lower_char c) = lower_char c"
  by (auto simp: lower_char_def Let_def)

lemma to_lower_idem [simp]: "to_lower (to_lower s) = to_lower s"
  by (simp add: to_lower_def lower_char_idem)

lemma invite_commit_AckOk:
  assumes "w_link w = Up" "user_exists (Some (su_id usr)) (w_db w)" "user_exists (Some t) (w_db w)" "\<forall>l \<in> set (callLogs (w_db w)). cl_id l \<noteq> logId"
  shows "\<exists>x w'. invite_commit rerr callId logId usr t now w = (AckOk x, w') \<and> w_link w' = Up \<and> users (w_db w') = users (w_db w) \<and>
    map cl_id (callLogs (w_db w')) = map cl_id (callLogs (w_db w)) @ [logId]"
  using assms by (simp add: invite_commit_def ring_def run_db_def createCallLog_def insert_call_log_def user_exists_def channel_exists_def
      insert_row_def list_ex_iff call_log_conflict_def createCall_def Let_def) metis

lemma sample_call_world_facts:
  "w_link sample_call_world = Up" "r_hashes (w_redis sample_call_world) = (\<lambda>_. None)" "r_counters (w_redis sample_call_world) = (\<lambda>_. None)"
  "callLogs (w_db sample_call_world) = []" "callParticipants (w_db sample_call_world) = []"
  "isOnline 5 (su_id sample_cleo) sample_call_world" "getActiveCall t u sample_call_world = None"
  by (simp_all add: sample_call_world_def isOnline_def with_redis_def live_put_ex_later redis_ttl_defs getActiveCall_def read_call_def
      list_at_def toActiveCall_def hfield_def split: option.split)

lemma sample_call_ids:
  "is_uuid (su_id sample_cleo)" "is_uuid (su_id sample_ann)" "su_id sample_ann \<noteq> su_id sample_bob" "su_id sample_cleo \<noteq> su_id sample_ann"
  "su_id sample_cleo \<noteq> su_id sample_bob"
  by (simp_all add: sample_ann_def sample_bob_def sample_cleo_def is_uuid_def is_hex_def)

lemma sample_call_users:
  "user_exists (Some (su_id sample_ann)) (w_db sample_call_world)" "user_exists (Some (su_id sample_bob)) (w_db sample_call_world)"
  "user_exists (Some (su_id sample_cleo)) (w_db sample_call_world)"
  by (simp_all add: user_exists_def sample_call_world_def sample_ann_def sample_bob_def sample_cleo_def to_lower_def lower_char_def)

lemma user_exists_users: "users d' = users d \<Longrightarrow> user_exists u d' = user_exists u d"
  by (simp add: user_exists_def split: option.split)

theorem concurrent_invites_lose_callee_witness:
  "\<exists>w4 call. getActiveCall 5 (su_id sample_bob) w4 = Some call \<and> ac_targetId call = su_id sample_cleo \<and>
     getActiveCall 5 (su_id sample_cleo) w4 = None"
proof -
  let ?c1 = "''11111111-0000-0000-0000-000000000001''" and ?c2 = "''22222222-0000-0000-0000-000000000002''"
  have uu: "is_uuid ?c1" "is_uuid ?c2" "?c1 \<noteq> ?c2" by (simp_all add: is_uuid_def is_hex_def)
  let ?w1 = "snd (call_allowed (su_id sample_ann) ''call'' CALL_RATE_LIMIT 5 sample_call_world)"
  let ?w2 = "snd (call_allowed (su_id sample_bob) ''call'' CALL_RATE_LIMIT 5 ?w1)"
  note f = sample_call_world_facts
  have one: "1 \<le> maxRequests CALL_RATE_LIMIT" by (simp add: CALL_RATE_LIMIT_def)
  have chkA: "invite_checks (Some sample_ann) (JObj [(''targetUserId'', JStr (su_id sample_cleo))]) 5 sample_call_world = (Inr (sample_ann, su_id sample_cleo), ?w1)"
    using f sample_call_ids one by (intro invite_checks_pass call_allowed_first) simp_all
  have "live 5 (r_counters (w_redis ?w1)) (''zevra:ratelimit:'' @ ''call'' @ '':'' @ su_id sample_bob) = None"
    using sample_call_ids(3) f(3) by (subst call_allowed_counters) simp_all
  then have "fst (call_allowed (su_id sample_bob) ''call'' CALL_RATE_LIMIT 5 ?w1)" using one by (intro call_allowed_first) simp_all
  moreover have "isOnline 5 (su_id sample_cleo) ?w1" using f(6) by (simp add: isOnline_def with_redis_def split: link.splits)
  ultimately have chkB: "invite_checks (Some sample_bob) (JObj [(''targetUserId'', JStr (su_id sample_cleo))]) 5 ?w1 = (Inr (sample_bob, su_id sample_cleo), ?w2)"
    using f sample_call_ids by (intro invite_checks_pass) simp_all
  have us2: "users (w_db ?w2) = users (w_db sample_call_world)" by simp
  obtain x w3 where com1: "invite_commit JNull ?c1 ''l1'' sample_ann (su_id sample_cleo) 5 ?w2 = (AckOk x, w3)" "w_link w3 = Up"
      "users (w_db w3) = users (w_db sample_call_world)" "map cl_id (callLogs (w_db w3)) = [''l1'']"
    using invite_commit_AckOk[of ?w2 sample_ann "su_id sample_cleo" "''l1''" JNull ?c1 5] f(1,4) sample_call_users by auto
  have "''l2'' \<notin> set (map cl_id (callLogs (w_db w3)))" using com1(4) by simp
  then have "\<forall>l \<in> set (callLogs (w_db w3)). cl_id l \<noteq> ''l2''" by (metis image_eqI set_map)
  then obtain y w4 where com2: "invite_commit JNull ?c2 ''l2'' sample_bob (su_id sample_cleo) 5 w3 = (AckOk y, w4)"
    using invite_commit_AckOk[of w3 sample_bob "su_id sample_cleo" "''l2''" JNull ?c2 5] com1(2) sample_call_users user_exists_users[OF com1(3)] by auto
  have "su_id sample_ann \<noteq> []" "su_id sample_bob \<noteq> []" by (simp_all add: sample_ann_def sample_bob_def)
  from concurrent_invites_lose_callee[OF chkA chkB com1(1) com2 sample_call_ids(3) uu(3,1,2) this]
  show ?thesis by blast
qed

end
