(* ===== verification/Call_Flows.thy ===== *)
theory Call_Flows
  imports Calls
begin

text \<open>
  The rest of \<open>calls.gateway.ts\<close>: the events that start a call of either kind and hand out LiveKit tokens,
  and the run of a whole call: invited, accepted, hung up, logged.
\<close>

section \<open>Starting calls and LiveKit rooms\<close>

text \<open>An optional id of a payload: absent or null, a uuid, or neither (\<^const>\<open>None\<close>).\<close>

fun optional_uuid :: "json option \<Rightarrow> string option option" where
  "optional_uuid None = Some None"
| "optional_uuid (Some JNull) = Some None"
| "optional_uuid (Some x) = map_option Some (isUuid (Some x))"

definition rate_limited :: ack where
  "rate_limited = AckError (socketError S_RATE_LIMITED ''Too many call attempts'')"

definition not_configured :: ack where
  "not_configured = AckRefused ''LIVEKIT_NOT_CONFIGURED'' ''Calls are not available'' []"

definition no_target :: ack where
  "no_target = AckRefused ''NO_TARGET'' ''A target user is required'' []"

definition invite_json :: "livekit_sdk \<Rightarrow> string \<Rightarrow> string \<Rightarrow> string \<Rightarrow> SocketUser \<Rightarrow> json" where
  "invite_json lk who roomName token usr =
     JObj [(''roomName'', JStr roomName), (''serverUrl'', JStr (lk_url lk)), (''token'', JStr token),
           (who @ ''Id'', JStr (su_id usr)), (who @ ''Username'', JStr (su_username usr))]"

definition livekit_ack :: "livekit_sdk \<Rightarrow> string \<Rightarrow> string option \<Rightarrow> string \<Rightarrow> ack" where
  "livekit_ack lk roomName token callLogId =
     AckOk [(''method'', JStr ''LIVEKIT''), (''roomName'', JStr roomName), (''serverUrl'', JStr (lk_url lk)),
            (''token'', case token of None \<Rightarrow> JNull | Some t \<Rightarrow> JStr t), (''callLogId'', JStr callLogId)]"

text \<open>One round of the loop over the candidates of a group call.\<close>

definition group_invite ::
  "livekit_sdk \<Rightarrow> bool \<Rightarrow> string \<Rightarrow> SocketUser \<Rightarrow> (uid \<times> string) list \<Rightarrow> uid \<Rightarrow> world \<Rightarrow> world" where
  "group_invite lk db_ok roomName usr names targetId w =
     (case map_of names targetId of
        None \<Rightarrow> w
      | Some name \<Rightarrow>
          if name = [] \<or> \<not> authorizeRoomAccess db_ok roomName targetId (w_db w) then w
          else (case generateToken lk roomName targetId name of
                  None \<Rightarrow> w
                | Some token \<Rightarrow>
                    if token = [] then w
                    else snd (emitToUser targetId ''livekit:group-invite'' (invite_json lk ''creator'' roomName token usr) w)))"

definition initiateLiveKitGroupCall ::
  "livekit_sdk \<Rightarrow> bool \<Rightarrow> string \<Rightarrow> SocketUser \<Rightarrow> cid \<Rightarrow> uid list \<Rightarrow> time \<Rightarrow> world \<Rightarrow> ack \<times> world" where
  "initiateLiveKitGroupCall lk db_ok logId usr channelId targetUserIds now w =
     (if \<not> lk_configured lk then (not_configured, w)
      else (let roomName = getGroupRoomName channelId; w1 = createRoom lk roomName 10 w in
            case run_db (createCallLog logId ''LIVEKIT'' (su_id usr) None (Some roomName) (Some channelId) now) w1 of
              (Inl e, w2) \<Rightarrow> (AckError (toSocketError e), w2)
            | (Inr callLogId, w2) \<Rightarrow>
                (let creatorToken = generateToken lk roomName (su_id usr) (su_username usr);
                     candidates = js_uniq (filter (\<lambda>i. i \<noteq> su_id usr) targetUserIds);
                     names = getUsernames candidates (w_db w2)
                 in (livekit_ack lk roomName creatorToken callLogId,
                     fold (group_invite lk db_ok roomName usr names) candidates w2))))"

definition initiate_dm ::
  "json \<Rightarrow> string \<Rightarrow> string \<Rightarrow> SocketUser \<Rightarrow> cid option \<Rightarrow> uid list \<Rightarrow> time \<Rightarrow> world \<Rightarrow> ack \<times> world" where
  "initiate_dm rerr callId logId usr channelId targetUserIds now w =
     (case targetUserIds of
        [] \<Rightarrow> (no_target, w)
      | targetId # _ \<Rightarrow>
          if targetId = [] \<or> targetId = su_id usr then (no_target, w)
          else if getActiveCall now targetId w \<noteq> None then (AckRefused ''TARGET_BUSY'' ''User is busy'' [], w)
          else if \<not> isOnline now targetId w
          then (AckRefused ''TARGET_OFFLINE'' ''User is offline'' [(''fallback'', JStr ''LIVEKIT'')], w)
          else (case ring rerr callId logId usr targetId channelId now w of
                  (Inl e, w1) \<Rightarrow> (AckError (toSocketError e), w1)
                | (Inr call, w1) \<Rightarrow>
                    (let name = (case map_of (getUsernames [targetId] (w_db w1)) targetId of None \<Rightarrow> ''Unknown'' | Some n \<Rightarrow> n);
                         w2 = snd (emitToUser (su_id usr) ''call:method-selected''
                                (JObj [(''callId'', JStr (ac_callId call)), (''method'', JStr ''WEBRTC''),
                                       (''targetUserId'', JStr targetId), (''targetUsername'', JStr name)]) w1);
                         w3 = snd (emitToUser targetId ''call:incoming'' (incoming_json (ac_callId call) usr) w2)
                     in (AckOk [(''method'', JStr ''WEBRTC''), (''callId'', JStr (ac_callId call)), (''callLogId'', JStr logId)], w3))))"

definition handleInitiate ::
  "livekit_sdk \<Rightarrow> bool \<Rightarrow> json \<Rightarrow> string \<Rightarrow> string \<Rightarrow> SocketUser option \<Rightarrow> json \<Rightarrow> time \<Rightarrow> world \<Rightarrow> ack \<times> world" where
  "handleInitiate lk db_ok rerr callId logId user data now w =
     (case user of
        None \<Rightarrow> (notAuthenticated, w)
      | Some usr \<Rightarrow>
          let type = jfield ''type'' data in
          if type \<noteq> Some (JStr ''DM'') \<and> type \<noteq> Some (JStr ''GROUP'') then (invalid ''type must be DM or GROUP'', w)
          else (case isUuidList (jfield ''targetUserIds'' data) MAX_GROUP_TARGETS of
             None \<Rightarrow> (invalid ''targetUserIds must be a list of user ids'', w)
           | Some targetUserIds \<Rightarrow>
               (case optional_uuid (jfield ''channelId'' data) of
                  None \<Rightarrow> (invalid ''channelId must be a valid id'', w)
                | Some channelId \<Rightarrow>
                    (let (ok, w1) = call_allowed (su_id usr) ''call'' CALL_RATE_LIMIT now w in
                     if \<not> ok then (rate_limited, w1)
                     else if getActiveCall now (su_id usr) w1 \<noteq> None then (already_in_call, w1)
                     else if type = Some (JStr ''GROUP'')
                     then (case channelId of
                             None \<Rightarrow> (AckRefused ''CHANNEL_REQUIRED'' ''channelId is required'' [], w1)
                           | Some c \<Rightarrow>
                               if \<not> authorizeRoomAccess db_ok (getGroupRoomName c) (su_id usr) (w_db w1)
                               then (AckError (socketError S_NOT_MEMBER ''Not a member of this channel''), w1)
                               else initiateLiveKitGroupCall lk db_ok logId usr c targetUserIds now w1)
                     else initiate_dm rerr callId logId usr channelId targetUserIds now w1))))"

definition livekit_incoming :: "livekit_sdk \<Rightarrow> string \<Rightarrow> SocketUser \<Rightarrow> uid \<Rightarrow> world \<Rightarrow> world" where
  "livekit_incoming lk roomName usr targetId w =
     (case map_of (getUsernames [targetId] (w_db w)) targetId of
        None \<Rightarrow> w
      | Some targetName \<Rightarrow>
          if targetName = [] then w
          else (case generateToken lk roomName targetId targetName of
                  None \<Rightarrow> w
                | Some token \<Rightarrow>
                    if token = [] then w
                    else snd (emitToUser targetId ''livekit:incoming'' (invite_json lk ''caller'' roomName token usr) w)))"

definition handleLiveKitFallback ::
  "livekit_sdk \<Rightarrow> string \<Rightarrow> SocketUser option \<Rightarrow> json \<Rightarrow> time \<Rightarrow> world \<Rightarrow> ack \<times> world" where
  "handleLiveKitFallback lk logId user data now w =
     (case user of
        None \<Rightarrow> (notAuthenticated, w)
      | Some usr \<Rightarrow>
          (case isUuidList (jfield ''targetUserIds'' data) MAX_GROUP_TARGETS of
             None \<Rightarrow> (invalid ''targetUserIds must be a list of user ids'', w)
           | Some targetUserIds \<Rightarrow>
               (case optional_uuid (jfield ''channelId'' data) of
                  None \<Rightarrow> (invalid ''channelId must be a valid id'', w)
                | Some channelId \<Rightarrow>
                    if \<not> lk_configured lk then (not_configured, w)
                    else (let (ok, w1) = call_allowed (su_id usr) ''call'' CALL_RATE_LIMIT now w in
                      if \<not> ok then (rate_limited, w1)
                      else (case targetUserIds of
                        [] \<Rightarrow> (no_target, w1)
                      | targetId # _ \<Rightarrow>
                          if targetId = [] \<or> targetId = su_id usr then (no_target, w1)
                          else (let roomName = getDmRoomName (su_id usr) targetId; w2 = createRoom lk roomName 2 w1 in
                            case run_db (createCallLog logId ''LIVEKIT'' (su_id usr) (Some targetId) (Some roomName) channelId now) w2 of
                              (Inl e, w3) \<Rightarrow> (AckError (toSocketError e), w3)
                            | (Inr callLogId, w3) \<Rightarrow>
                                (case generateToken lk roomName (su_id usr) (su_username usr) of
                                   None \<Rightarrow> (AckRefused ''TOKEN_FAILED'' ''Could not start the call'' [], w3)
                                 | Some token \<Rightarrow>
                                     if token = [] then (AckRefused ''TOKEN_FAILED'' ''Could not start the call'' [], w3)
                                     else (livekit_ack lk roomName (Some token) callLogId, livekit_incoming lk roomName usr targetId w3))))))))"

definition handleLiveKitActive ::
  "livekit_sdk \<Rightarrow> (string \<Rightarrow> 'a list option) \<Rightarrow> bool \<Rightarrow> SocketUser option \<Rightarrow> json \<Rightarrow> world \<Rightarrow> ack" where
  "handleLiveKitActive lk listParticipants db_ok user data w =
     (case user of
        None \<Rightarrow> notAuthenticated
      | Some usr \<Rightarrow>
          (case isUuid (jfield ''channelId'' data) of
             None \<Rightarrow> invalid ''channelId must be a valid id''
           | Some channelId \<Rightarrow>
               (let roomName = getGroupRoomName channelId in
                if \<not> authorizeRoomAccess db_ok roomName (su_id usr) (w_db w)
                then AckError (socketError S_NOT_MEMBER ''Not a member of this channel'')
                else if \<not> lk_configured lk then AckOk [(''active'', JBool False), (''participantCount'', JNum 0)]
                else (let n = length (getParticipants lk listParticipants roomName)
                      in AckOk [(''active'', JBool (0 < n)), (''participantCount'', JNum (int n)), (''roomName'', JStr roomName)]))))"

definition handleLiveKitJoinGroup :: "livekit_sdk \<Rightarrow> bool \<Rightarrow> SocketUser option \<Rightarrow> json \<Rightarrow> world \<Rightarrow> ack" where
  "handleLiveKitJoinGroup lk db_ok user data w =
     (case user of
        None \<Rightarrow> notAuthenticated
      | Some usr \<Rightarrow>
          (case jfield ''roomName'' data of
             Some (JStr roomName) \<Rightarrow>
               if \<not> ROOM_NAME_RE roomName then invalid ''roomName is invalid''
               else if \<not> lk_configured lk then not_configured
               else if \<not> authorizeRoomAccess db_ok roomName (su_id usr) (w_db w)
               then AckError (socketError S_NOT_MEMBER ''Not allowed to join this call'')
               else (case generateToken lk roomName (su_id usr) (su_username usr) of
                       None \<Rightarrow> AckRefused ''TOKEN_FAILED'' ''Could not join the call'' []
                     | Some token \<Rightarrow>
                         if token = [] then AckRefused ''TOKEN_FAILED'' ''Could not join the call'' []
                         else AckOk [(''serverUrl'', JStr (lk_url lk)), (''token'', JStr token), (''roomName'', JStr roomName)])
           | _ \<Rightarrow> invalid ''roomName is invalid''))"

section \<open>A call from ringing to hanging up\<close>

lemma digit_value: "d < 10 \<Longrightarrow> (of_char (char_of (48 + d) :: char) :: nat) - 48 = d"
  by simp

lemma js_number_show_nat: "foldl (\<lambda>a c. 10 * a + (of_char c - 48)) 0 (show_nat n) = n"
proof (induction n rule: show_nat.induct)
  case (1 n)
  show ?case
  proof (cases "n < 10")
    case True
    then show ?thesis by (simp add: show_nat.simps[of n])
  next
    case False
    have "foldl (\<lambda>a c. 10 * a + (of_char c - 48)) 0 (show_nat n) = 10 * (n div 10) + n mod 10"
      using 1 False by (simp add: show_nat.simps[of n])
    then show ?thesis by simp
  qed
qed

lemma js_number_show: "0 \<le> n \<Longrightarrow> js_number (show_int n) = n"
  by (simp add: js_number_def show_int_def js_number_show_nat)

lemma insert_call_log_users:
  "insert_call_log row d = Inr d' \<Longrightarrow> user_exists (cl_callerId row) d \<and> user_exists (cl_calleeId row) d"
  by (auto simp: insert_call_log_def split: if_splits)

lemma ring_users:
  assumes "ring rerr callId logId usr target ch now w = (Inr call, w1)"
  shows "user_exists (Some (su_id usr)) (w_db w)" "user_exists (Some target) (w_db w)"
  using assms by (auto simp: ring_def run_db_def createCallLog_def createCall_def user_exists_def split: sum.splits prod.splits
      dest!: insert_call_log_users)

lemma ring_fresh_log:
  assumes "ring rerr callId logId usr target ch now w = (Inr call, w1)"
  shows "\<forall>l \<in> set (callLogs (w_db w)). cl_id l \<noteq> logId"
  using assms by (auto simp: ring_def run_db_def createCallLog_def insert_call_log_def insert_row_def list_ex_iff call_log_conflict_def
      bindE_Inr_iff split: sum.splits prod.splits if_splits)

lemma handleInvite_AckOk:
  assumes "handleInvite rerr callId logId (Some caller) data now w = (AckOk x, w1)" "jfield ''targetUserId'' data = Some (JStr t)"
  shows "\<exists>R. r_strings R = r_strings (w_redis w) \<and> w_redis w1 = create_keys callId (su_id caller) t (Some logId) now R"
    "w_link w1 = Up" "is_uuid t" "t \<noteq> su_id caller" "user_exists (Some (su_id caller)) (w_db w)" "user_exists (Some t) (w_db w)"
    "users (w_db w1) = users (w_db w)" "callParticipants (w_db w1) = callParticipants (w_db w)"
    "callLogs (w_db w1) = callLogs (w_db w) @ [\<lparr>cl_id = logId, cl_type = ''WEBRTC'', cl_callerId = Some (to_lower (su_id caller)),
        cl_calleeId = Some (to_lower t), cl_roomName = None, cl_startedAt = now, cl_endedAt = None, cl_duration = None,
        cl_status = ''missed'', cl_channelId = None\<rparr>]"
    "\<forall>l \<in> set (callLogs (w_db w)). cl_id l \<noteq> logId"
proof -
  obtain c w0 where c: "invite_checks (Some caller) data now w = (c, w0)" by fastforce
  have "c = Inr (caller, t)"
  proof (cases c)
    case (Inl a)
    have "a \<noteq> AckOk x" if "invite_checks (Some caller) data now w = (Inl a, w0)" for a
      using that by (auto simp: invite_checks_def notAuthenticated_def invalid_def already_in_call_def split_beta Let_def split: option.splits if_splits)
    then show ?thesis using assms(1) c Inl by (auto simp: handleInvite_def)
  next
    case (Inr ut)
    then show ?thesis using invite_checks_Inr[of "Some caller" data now w "fst ut" "snd ut" w0] c assms(2) by (cases ut) auto
  qed
  note ch = invite_checks_Inr[OF c[unfolded this]] and fr = invite_checks_frame[OF c]
  obtain r w2 where r: "ring rerr callId logId caller t None now w0 = (r, w2)" by fastforce
  obtain call where call: "r = Inr call" using assms(1) c \<open>c = Inr (caller, t)\<close> r by (cases r) (auto simp: handleInvite_def invite_commit_def)
  note ri = ring_Inr[OF r[unfolded call] ch(8)] and ru = ring_users[OF r[unfolded call]]
  have w1: "w_redis w1 = w_redis w2" "w_db w1 = w_db w2" "w_link w1 = w_link w2"
    using assms(1) c \<open>c = Inr (caller, t)\<close> r call by (auto simp: handleInvite_def invite_commit_def)
  show "\<exists>R. r_strings R = r_strings (w_redis w) \<and> w_redis w1 = create_keys callId (su_id caller) t (Some logId) now R"
    using w1(1) ri(1) fr(2) by (intro exI[of _ "w_redis w0"]) simp
  show "w_link w1 = Up" "is_uuid t" "t \<noteq> su_id caller" using w1(3) ri(2) ch(3,4) by simp_all
  show "user_exists (Some (su_id caller)) (w_db w)" "user_exists (Some t) (w_db w)" using ru fr(4) by simp_all
  show "users (w_db w1) = users (w_db w)" "callParticipants (w_db w1) = callParticipants (w_db w)"
    "callLogs (w_db w1) = callLogs (w_db w) @ [\<lparr>cl_id = logId, cl_type = ''WEBRTC'', cl_callerId = Some (to_lower (su_id caller)),
        cl_calleeId = Some (to_lower t), cl_roomName = None, cl_startedAt = now, cl_endedAt = None, cl_duration = None,
        cl_status = ''missed'', cl_channelId = None\<rparr>]" using w1(2) ri(4) fr(4) by simp_all
  show "\<forall>l \<in> set (callLogs (w_db w)). cl_id l \<noteq> logId" using ring_fresh_log[OF r[unfolded call]] fr(4) by simp
qed

lemma ringing_call:
  assumes "w_redis w = create_keys c i t (Some l) t0 R" "w_link w = Up" "c \<noteq> []" "i \<noteq> []" "t \<noteq> []" "i \<noteq> t"
    and "now < t0 + 1000 * RINGING_TTL_SECONDS"
  shows "call_room_ok c (call_hash i t t0 (Some l)) (t0 + 1000 * RINGING_TTL_SECONDS) (w_redis w)"
    "r_hashes (w_redis w) (roomKey c) = Some (call_hash i t t0 (Some l), Some (t0 + 1000 * RINGING_TTL_SECONDS))"
    "getActiveCall now t w = toActiveCall c (call_hash i t t0 (Some l))"
proof -
  show room: "call_room_ok c (call_hash i t t0 (Some l)) (t0 + 1000 * RINGING_TTL_SECONDS) (w_redis w)"
    "r_hashes (w_redis w) (roomKey c) = Some (call_hash i t t0 (Some l), Some (t0 + 1000 * RINGING_TTL_SECONDS))"
    using assms by (simp_all add: call_room_ok_def create_keys_at)
  show "getActiveCall now t w = toActiveCall c (call_hash i t t0 (Some l))"
    using read_call_live(2)[OF room assms(7)] assms(2) by (simp add: getActiveCall_def)
qed

lemma handleAccept_run:
  assumes "getActiveCall now (su_id callee) w = Some call" "ac_targetId call = su_id callee" "is_uuid (ac_callId call)" "ac_callLogId call = Some l"
  shows "\<exists>w'. handleAccept (Some callee) (JObj [(''callId'', JStr (ac_callId call))]) now w = (AckOk [], w') \<and>
    w_redis w' = accept_keys call now (w_redis w) \<and> w_db w' = updateCallLogAccepted l (w_db w) \<and> w_link w' = Up"
proof -
  have "w_link w = Up" using assms(1) by (simp add: getActiveCall_Some)
  then show ?thesis using assms by (simp add: handleAccept_def Let_def acceptCall_def)
qed

lemma handleHangup_run:
  assumes ok: "calls_ok now (w_redis w)" and c: "getActiveCall now (su_id usr) w = Some call"
    and call: "is_uuid (ac_callId call)" "ac_status call = ''connected''" "ac_callLogId call = Some l"
    and e: "endCallLog rowId l (ac_initiatorId call) (ac_targetId call) (ac_startedAt call) now (w_db w) = (Inr (), d)"
  shows "\<exists>w'. handleHangup logId rowId (Some usr) (JObj [(''callId'', JStr (ac_callId call))]) now w = (AckOk [], w') \<and>
    w_db w' = d \<and> getActiveCall now (ac_initiatorId call) w' = None \<and> getActiveCall now (ac_targetId call) w' = None"
proof -
  have "end_if_connected logId rowId call now w = (Inr (), w\<lparr>w_db := d\<rparr>)"
    using call e by (simp add: end_if_connected_def finishConnectedCall_def known_log_def run_db_def)
  then show ?thesis using c call(1) cleanupCall_ok(2,3)[OF ok c, of "w\<lparr>w_db := d\<rparr>"]
    by (simp add: handleHangup_def Let_def)
qed

text \<open>The log at the end of a call, when its row is the last one.\<close>

lemma endCallLog_run:
  assumes "callLogs d = ls @ [row]" "cl_id row = l" "\<forall>x \<in> set ls. cl_id x \<noteq> l" "user_exists (Some i) d" "user_exists (Some t) d"
    and "\<forall>p \<in> set (callParticipants d). cp_callLogId p \<noteq> l \<and> cp_id p \<noteq> rowId 0 \<and> cp_id p \<noteq> rowId 1" "rowId 0 \<noteq> rowId (1::nat)"
    and "to_lower i \<noteq> to_lower t" "started \<le> now"
  shows "\<exists>d'. endCallLog rowId l i t started now d = (Inr (), d') \<and>
     callLogs d' = ls @ [row\<lparr>cl_endedAt := Some now, cl_duration := Some ((now - started) div 1000), cl_status := ''completed''\<rparr>] \<and>
     map cp_userId (filter (\<lambda>p. cp_callLogId p = l) (callParticipants d')) = [to_lower i, to_lower t]"
proof -
  have none: "filter (\<lambda>p. cp_callLogId p = l) (callParticipants d) = []" using assms(6) by (simp add: filter_empty_conv)
  have fs: "floor_seconds (now - started) = (now - started) div 1000" using assms(9) by (simp add: floor_seconds_def)
  let ?p = "call_participant" and ?n = "getUsernames [i, t] d"
  let ?f = "\<lambda>x. x\<lparr>cl_endedAt := Some now, cl_duration := Some (floor_seconds (now - started)), cl_status := ''completed''\<rparr>"
  let ?d = "d\<lparr>callLogs := ls @ [?f row]\<rparr>"
  have logs: "update_where (\<lambda>x. cl_id x = l) ?f (callLogs d) = ls @ [?f row]"
    using assms(1,2,3) update_where_none[of ls "\<lambda>x. cl_id x = l" ?f] by simp
  have us: "user_exists (Some i) ?d" "user_exists (Some t) ?d" using assms(4,5) by (simp_all add: user_exists_def)
  have "insert_or_nothing call_participant_conflict (?p (rowId 0) l started now ?n i) (callParticipants d) =
      callParticipants d @ [?p (rowId 0) l started now ?n i]"
    using assms(6) by (auto simp: insert_or_nothing_def list_ex_iff call_participant_conflict_def call_participant_def)
  moreover have "insert_or_nothing call_participant_conflict (?p (rowId 1) l started now ?n t) (callParticipants d @ [?p (rowId 0) l started now ?n i]) =
      callParticipants d @ [?p (rowId 0) l started now ?n i, ?p (rowId 1) l started now ?n t]"
    using assms(6,7,8) by (auto simp: insert_or_nothing_def list_ex_iff call_participant_conflict_def call_participant_def)
  ultimately have "endCallLog rowId l i t started now d = (Inr (), ?d\<lparr>callParticipants :=
      callParticipants d @ [?p (rowId 0) l started now ?n i, ?p (rowId 1) l started now ?n t]\<rparr>)"
    using us assms(2) by (simp add: endCallLog_def logs[simplified] Let_def)
  then show ?thesis using fs none by (simp add: call_participant_def)
qed

text \<open>
  C25: A call runs its course. When an invite is acknowledged, the callee accepts before the 120 seconds of
  ringing are over and either party hangs up within the four hours of a connected call, then both
  events are acknowledged, afterwards neither party is in a call, and the log of the call is closed: completed,
  ended at the hangup, with the whole seconds since it was accepted as its duration and both parties
  as participants.
\<close>

theorem call_lifecycle:
  fixes rowId :: "nat \<Rightarrow> string"
  assumes inv: "handleInvite rerr callId logId (Some caller) (JObj [(''targetUserId'', JStr (su_id callee))]) t0 w0 = (AckOk x, w1)"
    and ok: "calls_ok t0 (w_redis w0)" "r_hashes (w_redis w0) (roomKey callId) = None" "is_uuid callId" "logId \<noteq> []" "su_id caller \<noteq> []"
    and time: "0 \<le> t1" "t0 \<le> t1" "t1 < t0 + 120000" "t1 \<le> t2" "t2 < t1 + 14400000"
    and rows: "\<forall>p \<in> set (callParticipants (w_db w0)). cp_callLogId p \<noteq> logId \<and> cp_id p \<noteq> rowId 0 \<and> cp_id p \<noteq> rowId 1" "rowId 0 \<noteq> rowId 1"
    and users: "to_lower (su_id caller) \<noteq> to_lower (su_id callee)" "usr = caller \<or> usr = callee"
  shows "\<exists>w2 w3 ls l. handleAccept (Some callee) (JObj [(''callId'', JStr callId)]) t1 w1 = (AckOk [], w2) \<and>
    handleHangup logId2 rowId (Some usr) (JObj [(''callId'', JStr callId)]) t2 w2 = (AckOk [], w3) \<and>
    getActiveCall t2 (su_id caller) w3 = None \<and> getActiveCall t2 (su_id callee) w3 = None \<and>
    callLogs (w_db w3) = callLogs (w_db w0) @ [l] \<and> cl_id l = logId \<and>
    cl_callerId l = Some (to_lower (su_id caller)) \<and> cl_calleeId l = Some (to_lower (su_id callee)) \<and>
    cl_startedAt l = t0 \<and> cl_status l = ''completed'' \<and> cl_endedAt l = Some t2 \<and> cl_duration l = Some ((t2 - t1) div 1000) \<and>
    map cp_userId (log_participants l (w_db w3)) = [to_lower (su_id caller), to_lower (su_id callee)]"
proof -
  let ?i = "su_id caller" and ?t = "su_id callee" and ?h = "call_hash (su_id caller) (su_id callee) t0 (Some logId)"
  have "jfield ''targetUserId'' (JObj [(''targetUserId'', JStr (su_id callee))]) = Some (JStr (su_id callee))" by simp
  note a = handleInvite_AckOk[OF inv this]
  obtain R where R: "w_redis w1 = create_keys callId ?i ?t (Some logId) t0 R" using a(1) by blast
  have cne: "callId \<noteq> []" "?t \<noteq> []" using ok(3) a(3) is_uuid_length[of "[]"] by auto
  have "calls_ok t0 (w_redis w1)" using handleInvite_ok[OF ok(1,2) cne(1), of "Some caller"] ok(5) inv by (metis option.inject snd_conv)
  then have ok1: "calls_ok t1 (w_redis w1)" by (rule calls_ok_later) (rule time(2))
  have "t1 < t0 + 1000 * RINGING_TTL_SECONDS" using time(3) by (simp add: RINGING_TTL_SECONDS_def)
  note r1 = ringing_call[OF R a(2) cne(1) ok(5) cne(2) a(4)[symmetric] this] and lt1 = this
  define call1 where "call1 = the (toActiveCall callId ?h)"
  have c1: "getActiveCall t1 ?t w1 = Some call1" "ac_callId call1 = callId" "ac_targetId call1 = ?t" "ac_initiatorId call1 = ?i" "ac_callLogId call1 = Some logId"
    using r1(3) ok(4,5) by (simp_all add: call1_def toActiveCall_def)
  obtain w2 where w2: "handleAccept (Some callee) (JObj [(''callId'', JStr callId)]) t1 w1 = (AckOk [], w2)"
      "w_redis w2 = accept_keys call1 t1 (w_redis w1)" "w_db w2 = updateCallLogAccepted logId (w_db w1)" "w_link w2 = Up"
    using handleAccept_run[OF c1(1,3), of logId] c1(2,5) ok(3) by auto
  have "calls_ok t1 (w_redis w2)" using handleAccept_ok[OF ok1, of "Some callee"] w2(1) by (metis snd_conv)
  then have ok2: "calls_ok t2 (w_redis w2)" by (rule calls_ok_later) (rule time(4))
  let ?h2 = "hset [(''status'', ''connected''), (''startedAt'', show_int t1)] ?h" and ?dl = "t1 + 1000 * CONNECTED_TTL_SECONDS"
  have "call_room_ok (ac_callId call1) ?h (t0 + 1000 * RINGING_TTL_SECONDS) (w_redis w1)" using r1(1) c1(2) by simp
  note ak = accept_keys_at[OF this _ lt1]
  have hs: "r_hashes (w_redis w2) (roomKey callId) = Some (?h2, Some ?dl)"
    "call_room_ok callId ?h2 ?dl (w_redis w2)"
    using ak r1(2) c1 w2(2) ok(5) cne a(4) by (simp_all add: call_room_ok_def)
  have "t2 < ?dl" using time(5) by (simp add: CONNECTED_TTL_SECONDS_def)
  note rl = read_call_live[OF hs(2,1) this]
  define call2 where "call2 = the (toActiveCall callId ?h2)"
  have c2: "getActiveCall t2 (su_id usr) w2 = Some call2" "ac_callId call2 = callId" "ac_targetId call2 = ?t" "ac_initiatorId call2 = ?i"
      "ac_callLogId call2 = Some logId" "ac_status call2 = ''connected''" "ac_startedAt call2 = t1"
    using rl w2(4) users(2) ok(4,5) js_number_show[OF time(1)] by (auto simp: call2_def toActiveCall_def getActiveCall_def)
  let ?row = "\<lparr>cl_id = logId, cl_type = ''WEBRTC'', cl_callerId = Some (to_lower ?i), cl_calleeId = Some (to_lower ?t), cl_roomName = None,
    cl_startedAt = t0, cl_endedAt = None, cl_duration = None, cl_status = ''completed'', cl_channelId = None\<rparr>"
  have db2: "callLogs (w_db w2) = callLogs (w_db w0) @ [?row]" "users (w_db w2) = users (w_db w0)" "callParticipants (w_db w2) = callParticipants (w_db w0)"
    using w2(3) a(7,8,9) update_where_none[of "callLogs (w_db w0)" "\<lambda>l. cl_id l = logId"] a(10)
    by (simp_all add: updateCallLogAccepted_def set_log_status_def)
  have us: "user_exists (Some ?i) (w_db w2)" "user_exists (Some ?t) (w_db w2)" using a(5,6) user_exists_users[OF db2(2)] by simp_all
  obtain d where d: "endCallLog rowId logId ?i ?t t1 t2 (w_db w2) = (Inr (), d)"
      "callLogs d = callLogs (w_db w0) @ [?row\<lparr>cl_endedAt := Some t2, cl_duration := Some ((t2 - t1) div 1000), cl_status := ''completed''\<rparr>]"
      "map cp_userId (filter (\<lambda>p. cp_callLogId p = logId) (callParticipants d)) = [to_lower ?i, to_lower ?t]"
    using endCallLog_run[OF db2(1) _ a(10) us _ rows(2) users(1) time(4)] rows(1) db2(3) by auto
  obtain w3 where w3: "handleHangup logId2 rowId (Some usr) (JObj [(''callId'', JStr callId)]) t2 w2 = (AckOk [], w3)" "w_db w3 = d"
      "getActiveCall t2 ?i w3 = None" "getActiveCall t2 ?t w3 = None"
    using handleHangup_run[OF ok2 c2(1) _ c2(6,5), of rowId d logId2] d(1) c2(2,3,4,7) ok(3) by auto
  show ?thesis using w2(1) w3 d(2,3) by (intro exI[of _ w2] exI[of _ w3]) (simp add: log_participants_def)
qed

lemma sample_invite_AckOk:
  assumes "w_link w = Up" "r_counters (w_redis w) = (\<lambda>_. None)" "callLogs (w_db w) = []" "isOnline 5 (su_id sample_cleo) w"
    "getActiveCall 5 (su_id sample_ann) w = None" "getActiveCall 5 (su_id sample_cleo) w = None" "users (w_db w) = users (w_db sample_call_world)"
  shows "\<exists>x w1. handleInvite JNull callId logId (Some sample_ann) (JObj [(''targetUserId'', JStr (su_id sample_cleo))]) 5 w = (AckOk x, w1)"
proof -
  have "fst (call_allowed (su_id sample_ann) ''call'' CALL_RATE_LIMIT 5 w)"
    using assms(2) by (intro call_allowed_first) (simp_all add: CALL_RATE_LIMIT_def)
  from invite_checks_pass[OF sample_call_ids(1,4) this assms(5,6,4)]
  show ?thesis using invite_commit_AckOk[of "snd (call_allowed (su_id sample_ann) ''call'' CALL_RATE_LIMIT 5 w)" sample_ann "su_id sample_cleo" logId JNull callId 5]
      assms(1,3) sample_call_users user_exists_users[OF assms(7)] by (auto simp: handleInvite_def)
qed

theorem call_lifecycle_witness:
  "\<exists>w1 w2 w3 l. handleAccept (Some sample_cleo) (JObj [(''callId'', JStr ''11111111-0000-0000-0000-000000000001'')]) 1005 w1 = (AckOk [], w2) \<and>
    handleHangup ''l2'' show_nat (Some sample_ann) (JObj [(''callId'', JStr ''11111111-0000-0000-0000-000000000001'')]) 66505 w2 = (AckOk [], w3) \<and>
    callLogs (w_db w3) = [l] \<and> cl_duration l = Some 65 \<and> getActiveCall 66505 (su_id sample_cleo) w3 = None"
proof -
  note f = sample_call_world_facts
  obtain x w1 where inv: "handleInvite JNull ''11111111-0000-0000-0000-000000000001'' ''l1'' (Some sample_ann)
      (JObj [(''targetUserId'', JStr (su_id sample_cleo))]) 5 sample_call_world = (AckOk x, w1)"
    using sample_invite_AckOk[OF f(1,3,4,6,7,7) refl] by blast
  have ok: "calls_ok 5 (w_redis sample_call_world)" 
    by (simp add: calls_ok_def f(2)) (simp add: sample_call_world_def put_ex_def userCallKey_def RedisKeys_presence_def)
  have "r_hashes (w_redis sample_call_world) (roomKey ''11111111-0000-0000-0000-000000000001'') = None"
    "is_uuid ''11111111-0000-0000-0000-000000000001''" "''l1'' \<noteq> ([] :: char list)" "su_id sample_ann \<noteq> []"
    by (simp_all add: f(2) is_uuid_def is_hex_def sample_ann_def)
  note t = call_lifecycle[OF inv ok this, of 1005 66505 show_nat sample_ann "''l2''"]
  have "to_lower (su_id sample_ann) \<noteq> to_lower (su_id sample_cleo)" by (simp add: sample_ann_def sample_cleo_def to_lower_def lower_char_def)
  moreover have "show_nat 0 \<noteq> show_nat 1" by (simp add: show_nat.simps)
  ultimately show ?thesis using t f(4,5) by auto
qed

section \<open>Group calls\<close>

lemma emitToUser_snd: "snd (emitToUser u e j w) = w\<lparr>w_out := w_out w @ (if w_server w then [Emit [userRoom u] [] e j] else [])\<rparr>"
  by (simp add: emitToUser_def send_out_def)

definition invitee :: "livekit_sdk \<Rightarrow> bool \<Rightarrow> string \<Rightarrow> (uid \<times> string) list \<Rightarrow> db \<Rightarrow> uid \<Rightarrow> bool" where
  "invitee lk db_ok roomName names d t \<longleftrightarrow>
     (\<exists>name. map_of names t = Some name \<and> name \<noteq> []) \<and> authorizeRoomAccess db_ok roomName t d"

lemma group_invite_if:
  assumes "lk_configured lk" "\<forall>r i n. lk_jwt lk r i n \<noteq> []"
  shows "group_invite lk db_ok roomName usr names t w =
    (if invitee lk db_ok roomName names (w_db w) t
     then snd (emitToUser t ''livekit:group-invite'' (invite_json lk ''creator'' roomName (lk_jwt lk roomName t (the (map_of names t))) usr) w)
     else w)"
  using assms by (auto simp: group_invite_def invitee_def generateToken_def split: option.split)

lemma group_invites_run:
  assumes "lk_configured lk" "\<forall>r i n. lk_jwt lk r i n \<noteq> []" "w_server w"
  shows "fold (group_invite lk db_ok roomName usr names) cs w = w\<lparr>w_out := w_out w @
    map (\<lambda>t. Emit [userRoom t] [] ''livekit:group-invite''
        (invite_json lk ''creator'' roomName (lk_jwt lk roomName t (the (map_of names t))) usr))
      (filter (invitee lk db_ok roomName names (w_db w)) cs)\<rparr>"
  using assms(3)
proof (induction cs arbitrary: w)
  case (Cons c cs)
  then show ?case by (simp add: group_invite_if[OF assms(1,2)] emitToUser_snd)
qed simp

lemma map_of_getUsernames:
  assumes "t \<in> set ids" "t \<noteq> []" "\<forall>u \<in> set (users d). to_lower (u_id u) = u_id u \<and> u_username u \<noteq> []"
  shows "(\<exists>name. map_of (getUsernames ids d) t = Some name \<and> name \<noteq> []) \<longleftrightarrow> t \<in> u_id ` set (users d)"
proof
  assume "\<exists>name. map_of (getUsernames ids d) t = Some name \<and> name \<noteq> []"
  then show "t \<in> u_id ` set (users d)" by (auto simp: getUsernames_def dest!: map_of_SomeD)
next
  assume "t \<in> u_id ` set (users d)"
  then obtain u where u: "u \<in> set (users d)" "u_id u = t" by blast
  then have "t = to_lower t" using assms(3) by force
  moreover have "t \<in> set (filter (\<lambda>i. i \<noteq> []) ids)" using assms(1,2) by simp
  ultimately have "t \<in> to_lower ` set (filter (\<lambda>i. i \<noteq> []) ids)" by (rule image_eqI)
  then have "(t, u_username u) \<in> set (getUsernames ids d)" using u by (force simp: getUsernames_def)
  then obtain n where n: "map_of (getUsernames ids d) t = Some n" using weak_map_of_SomeI by fast
  then have "\<exists>v \<in> set (users d). n = u_username v" by (auto simp: getUsernames_def dest!: map_of_SomeD)
  then have "n \<noteq> []" using assms(3) by fastforce
  then show "\<exists>name. map_of (getUsernames ids d) t = Some name \<and> name \<noteq> []" using n by blast
qed

lemma isUuidList_Some: "isUuidList x mx = Some ids \<Longrightarrow> length ids \<le> mx \<and> (\<forall>i \<in> set ids. is_uuid i)"
proof (induction x mx rule: isUuidList.induct)
  case (1 xs mx)
  have "is_uuid (the (isUuid (Some x)))" if "isUuid (Some x) \<noteq> None" for x
    using that by (cases "Some x" rule: isUuid.cases) (auto split: if_splits)
  then show ?case using 1 by (auto simp: list_all_iff split: if_splits)
qed auto

lemma group_authorized: "is_uuid c \<Longrightarrow> authorizeRoomAccess True (getGroupRoomName c) u d \<longleftrightarrow> active_member u c d"
  using group_room_part[of c] group_not_dm[of c]
  by (simp add: getGroupRoomName_def authorizeRoomAccess_def active_member_def list_ex_iff)

lemma call_allowed_rest [simp]:
  "w_server (snd (call_allowed u s l now w)) = w_server w" "w_out (snd (call_allowed u s l now w)) = w_out w"
  "w_rooms (snd (call_allowed u s l now w)) = w_rooms w"
  by (simp_all add: call_allowed_def checkRateLimit_def upd_counters_def Let_def split_beta split: link.split)

lemma optional_uuid_Some: "optional_uuid x = Some (Some c) \<Longrightarrow> x = Some (JStr c) \<and> is_uuid c"
  by (cases x rule: optional_uuid.cases) (auto split: if_splits)

text \<open>What an acknowledged group call was allowed by and did, up to its invitations.\<close>

lemma handleInitiate_group:
  assumes "handleInitiate lk ok rerr callId logId (Some usr) data now w = (AckOk x, w')" "jfield ''type'' data = Some (JStr ''GROUP'')"
  obtains c targets where "jfield ''channelId'' data = Some (JStr c)" "is_uuid c"
    "isUuidList (jfield ''targetUserIds'' data) MAX_GROUP_TARGETS = Some targets"
    "authorizeRoomAccess ok (getGroupRoomName c) (su_id usr) (w_db w)"
    "initiateLiveKitGroupCall lk ok logId usr c targets now (snd (call_allowed (su_id usr) ''call'' CALL_RATE_LIMIT now w)) = (AckOk x, w')"
proof -
  obtain targets where t: "isUuidList (jfield ''targetUserIds'' data) MAX_GROUP_TARGETS = Some targets"
    using assms by (auto simp: handleInitiate_def invalid_def Let_def split: option.splits)
  obtain ch where ch: "optional_uuid (jfield ''channelId'' data) = Some ch"
    using assms t by (auto simp: handleInitiate_def invalid_def Let_def split: option.splits)
  obtain a w1 where a: "call_allowed (su_id usr) ''call'' CALL_RATE_LIMIT now w = (a, w1)" by fastforce
  have db: "w_db w1 = w_db w" using call_allowed_frame[of "su_id usr" "''call''" CALL_RATE_LIMIT now w] a by simp
  obtain c where c: "ch = Some c" "authorizeRoomAccess ok (getGroupRoomName c) (su_id usr) (w_db w)"
      "initiateLiveKitGroupCall lk ok logId usr c targets now w1 = (AckOk x, w')"
    using assms t ch a db by (auto simp: handleInitiate_def rate_limited_def already_in_call_def Let_def split: option.splits if_splits)
  show thesis using that[of c targets] optional_uuid_Some[of "jfield ''channelId'' data" c] ch c t a by simp
qed

lemma createCallLog_Inr:
  assumes "createCallLog logId ty i t room ch now d = (Inr l, d')"
  shows "l = logId" "d' = d\<lparr>callLogs := callLogs d @ [\<lparr>cl_id = logId, cl_type = ty, cl_callerId = Some (to_lower i),
    cl_calleeId = map_option to_lower t, cl_roomName = room, cl_startedAt = now, cl_endedAt = None, cl_duration = None,
    cl_status = ''missed'', cl_channelId = map_option to_lower ch\<rparr>]\<rparr>"
  using assms by (auto simp: createCallLog_def split: sum.splits dest!: insert_call_log_Inr)

lemma newest_log_snoc: "\<forall>l \<in> set ls. cl_startedAt l < cl_startedAt row \<Longrightarrow> newest_log (ls @ [row]) = Some row"
proof -
  assume a: "\<forall>l \<in> set ls. cl_startedAt l < cl_startedAt row"
  have "sort_key cl_startedAt (ls @ [row]) = sort_key cl_startedAt ls @ [row]"
  proof (rule properties_for_sort_key)
    show "mset (sort_key cl_startedAt ls @ [row]) = mset (ls @ [row])" by simp
    show "filter (\<lambda>x. cl_startedAt k = cl_startedAt x) (sort_key cl_startedAt ls @ [row]) = filter (\<lambda>x. cl_startedAt k = cl_startedAt x) (ls @ [row])" for k
      using sort_key_stable[of cl_startedAt "cl_startedAt k" ls] by (simp add: eq_commute)
    show "sorted (map cl_startedAt (sort_key cl_startedAt ls @ [row]))" using a by (auto simp: sorted_append less_imp_le)
  qed
  then show ?thesis by (simp add: newest_log_def)
qed

lemma split_on_chars: "list_all (list_all P) (split_on d s) \<Longrightarrow> list_all (\<lambda>c. P c \<or> c = d) s"
proof (induction s)
  case (Cons c s)
  obtain w ws where "split_on d s = w # ws" by (meson neq_Nil_conv split_on_not_Nil)
  with Cons show ?case by (auto split: if_splits)
qed simp

lemma group_room_name_ok: "is_uuid c \<Longrightarrow> ROOM_NAME_RE (getGroupRoomName c)"
proof -
  assume u: "is_uuid c"
  then have "length c = 36" by (rule is_uuid_length)
  moreover have "list_all (\<lambda>ch. is_hex ch \<or> ch = CHR ''-'') c"
    using u split_on_chars[of is_hex "CHR ''-''" c] by (simp add: is_uuid_def)
  ultimately show ?thesis by (simp add: ROOM_NAME_RE_def getGroupRoomName_def to_lower_def lower_char_def)
qed

lemma join_group_ack:
  assumes "handleLiveKitJoinGroup lk ok v req w = AckOk y"
  obtains j room where "v = Some j" "jfield ''roomName'' req = Some (JStr room)"
    "y = [(''serverUrl'', JStr (lk_url lk)), (''token'', JStr (lk_jwt lk room (su_id j) (su_username j))), (''roomName'', JStr room)]"
    "authorizeRoomAccess ok room (su_id j) (w_db w)"
proof -
  obtain j where j: "v = Some j" using assms by (cases v) (simp_all add: handleLiveKitJoinGroup_def notAuthenticated_def)
  obtain room where r: "jfield ''roomName'' req = Some (JStr room)"
    using assms j by (auto simp: handleLiveKitJoinGroup_def invalid_def split: option.splits json.splits)
  show thesis
    using assms j r by (intro that[of j room])
      (auto simp: handleLiveKitJoinGroup_def invalid_def not_configured_def generateToken_def split: if_splits)
qed

lemma room_authorized_cases:
  "authorizeRoomAccess ok room u d \<Longrightarrow>
   (\<exists>b. GROUP_ROOM_RE room = Some b \<and> active_member u b d) \<or>
   (\<exists>a b. DM_ROOM_RE room = Some (a, b) \<and> to_lower u \<in> {to_lower a, to_lower b})"
  by (auto simp: authorizeRoomAccess_def active_member_def list_ex_iff split: option.splits)

lemma join_group_only:
  assumes "handleLiveKitJoinGroup lk ok v req w2 = AckOk y"
  shows "\<exists>j room. v = Some j \<and> jfield ''roomName'' req = Some (JStr room) \<and>
        y = [(''serverUrl'', JStr (lk_url lk)), (''token'', JStr (lk_jwt lk room (su_id j) (su_username j))), (''roomName'', JStr room)] \<and>
        ((\<exists>b. GROUP_ROOM_RE room = Some b \<and> active_member (su_id j) b (w_db w2)) \<or>
         (\<exists>a b. DM_ROOM_RE room = Some (a, b) \<and> to_lower (su_id j) \<in> {to_lower a, to_lower b}))"
proof -
  obtain j room where a: "v = Some j" "jfield ''roomName'' req = Some (JStr room)"
    "y = [(''serverUrl'', JStr (lk_url lk)), (''token'', JStr (lk_jwt lk room (su_id j) (su_username j))), (''roomName'', JStr room)]"
    "authorizeRoomAccess ok room (su_id j) (w_db w2)"
    using assms by (rule join_group_ack)
  from a(1-3) room_authorized_cases[OF a(4)] show ?thesis by (intro exI[of _ j] exI[of _ room] conjI)
qed

lemma join_group_exact:
  assumes "is_uuid c" "lk_configured lk" "\<forall>r i n. lk_jwt lk r i n \<noteq> []"
  shows "handleLiveKitJoinGroup lk True (Some j) (JObj [(''roomName'', JStr (getGroupRoomName c))]) w =
    (if active_member (su_id j) c (w_db w)
     then AckOk [(''serverUrl'', JStr (lk_url lk)), (''token'', JStr (lk_jwt lk (getGroupRoomName c) (su_id j) (su_username j))),
                 (''roomName'', JStr (getGroupRoomName c))]
     else AckError (socketError S_NOT_MEMBER ''Not allowed to join this call''))"
  using group_room_name_ok[OF assms(1)] group_authorized[OF assms(1)] assms(2,3)
  by (simp add: handleLiveKitJoinGroup_def generateToken_def)

text \<open>
  C28: A group call reaches the channel and nobody else. When starting one is acknowledged, the caller is a
  present member of the channel; the invitations go to exactly the requested users who exist and are present
  members, each once, never to the caller, and each carries a token for that user and the room of the channel; the
  room is requested from LiveKit with ten seats; and the log opened for it is the one the webhook
  finds when the room starts, so the call is logged once. Whoever then asks to join the room of the
  channel gets a token, made out for that user and the room, exactly when a present member of the
  channel at that moment, and is refused otherwise; and no payload at all gives a token of any other room
  than that of a channel the asking user is in or of a direct call the user is one of the two sides of.
\<close>

theorem group_call_stays_in_channel:
  assumes run: "handleInitiate lk True rerr callId logId (Some usr) data now w = (AckOk x, w')"
    and type: "jfield ''type'' data = Some (JStr ''GROUP'')"
    and ids: "\<forall>u \<in> set (users (w_db w)). to_lower (u_id u) = u_id u \<and> u_username u \<noteq> []"
    and jwt: "\<forall>r i n. lk_jwt lk r i n \<noteq> []" and server: "w_server w"
    and older: "\<forall>l \<in> set (callLogs (w_db w)). cl_startedAt l < now"
  shows "(\<exists>c targets name. jfield ''channelId'' data = Some (JStr c) \<and>
    isUuidList (jfield ''targetUserIds'' data) MAX_GROUP_TARGETS = Some targets \<and> active_member (su_id usr) c (w_db w) \<and>
    w_out w' = w_out w @
      map (\<lambda>t. Emit [userRoom t] [] ''livekit:group-invite''
          (invite_json lk ''creator'' (getGroupRoomName c) (lk_jwt lk (getGroupRoomName c) t (name t)) usr))
        (filter (\<lambda>t. t \<in> u_id ` set (users (w_db w)) \<and> active_member t c (w_db w)) (js_uniq (filter (\<lambda>t. t \<noteq> su_id usr) targets))) \<and>
    w_rooms w' = w_rooms w @ [(getGroupRoomName c, 10)] \<and>
    length (callLogs (w_db w')) = Suc (length (callLogs (w_db w))) \<and>
    handleRoomStarted True logId2 (getGroupRoomName c) later (w_db w') = (Some logId, w_db w') \<and>
    handleLiveKitJoinGroup lk True (Some j) (JObj [(''roomName'', JStr (getGroupRoomName c))]) w2 =
      (if active_member (su_id j) c (w_db w2)
       then AckOk [(''serverUrl'', JStr (lk_url lk)), (''token'', JStr (lk_jwt lk (getGroupRoomName c) (su_id j) (su_username j))),
                   (''roomName'', JStr (getGroupRoomName c))]
       else AckError (socketError S_NOT_MEMBER ''Not allowed to join this call''))) \<and>
    (handleLiveKitJoinGroup lk ok v req w2 = AckOk y \<longrightarrow>
      (\<exists>j room. v = Some j \<and> jfield ''roomName'' req = Some (JStr room) \<and>
        y = [(''serverUrl'', JStr (lk_url lk)), (''token'', JStr (lk_jwt lk room (su_id j) (su_username j))), (''roomName'', JStr room)] \<and>
        ((\<exists>b. GROUP_ROOM_RE room = Some b \<and> active_member (su_id j) b (w_db w2)) \<or>
         (\<exists>a b. DM_ROOM_RE room = Some (a, b) \<and> to_lower (su_id j) \<in> {to_lower a, to_lower b}))))"
proof -
  obtain c targets where g: "jfield ''channelId'' data = Some (JStr c)" "is_uuid c"
    "isUuidList (jfield ''targetUserIds'' data) MAX_GROUP_TARGETS = Some targets"
    "authorizeRoomAccess True (getGroupRoomName c) (su_id usr) (w_db w)"
    "initiateLiveKitGroupCall lk True logId usr c targets now (snd (call_allowed (su_id usr) ''call'' CALL_RATE_LIMIT now w)) = (AckOk x, w')"
    using run type by (rule handleInitiate_group)
  let ?w1 = "snd (call_allowed (su_id usr) ''call'' CALL_RATE_LIMIT now w)" and ?room = "getGroupRoomName c"
  let ?cs = "js_uniq (filter (\<lambda>t. t \<noteq> su_id usr) targets)"
  have lk: "lk_configured lk" using g(5) by (auto simp: initiateLiveKitGroupCall_def not_configured_def split: if_splits)
  obtain l d where ld: "createCallLog logId ''LIVEKIT'' (su_id usr) None (Some ?room) (Some c) now (w_db w) = (Inr l, d)"
    and w': "w' = fold (group_invite lk True ?room usr (getUsernames ?cs d)) ?cs ((createRoom lk ?room 10 ?w1)\<lparr>w_db := d\<rparr>)"
    using g(5) lk by (auto simp: initiateLiveKitGroupCall_def run_db_def createRoom_def Let_def split: prod.splits sum.splits)
  note d = createCallLog_Inr(2)[OF ld]
  have same: "users d = users (w_db w)" "memberships d = memberships (w_db w)" by (simp_all add: d)
  have ok: "invitee lk True ?room (getUsernames ?cs d) d t \<longleftrightarrow> t \<in> u_id ` set (users (w_db w)) \<and> active_member t c (w_db w)" if t: "t \<in> set ?cs" for t
  proof -
    have "is_uuid t" using t isUuidList_Some[OF g(3)] by simp
    then have "t \<noteq> []" using is_uuid_length[of "[]"] by auto
    then show ?thesis using map_of_getUsernames[OF t, of d] ids group_authorized[OF g(2), of t d]
      by (simp add: invitee_def same active_member_def)
  qed
  have srv: "w_server ((createRoom lk ?room 10 ?w1)\<lparr>w_db := d\<rparr>)" using server by (simp add: createRoom_def)
  have fin: "w' = (createRoom lk ?room 10 ?w1)\<lparr>w_db := d, w_out := w_out w @
      map (\<lambda>t. Emit [userRoom t] [] ''livekit:group-invite''
          (invite_json lk ''creator'' ?room (lk_jwt lk ?room t (the (map_of (getUsernames ?cs d) t))) usr))
        (filter (\<lambda>t. t \<in> u_id ` set (users (w_db w)) \<and> active_member t c (w_db w)) ?cs)\<rparr>"
    unfolding w' group_invites_run[OF lk jwt srv] using filter_cong[OF refl ok, of ?cs] by (simp add: createRoom_def)
  let ?row = "\<lparr>cl_id = logId, cl_type = ''LIVEKIT'', cl_callerId = Some (to_lower (su_id usr)), cl_calleeId = None, cl_roomName = Some ?room,
    cl_startedAt = now, cl_endedAt = None, cl_duration = None, cl_status = ''missed'', cl_channelId = Some (to_lower c)\<rparr>"
  have "newest_log (filter (open_log ?room) (callLogs (w_db w)) @ [?row]) = Some ?row"
    using older by (intro newest_log_snoc) simp
  then have hook: "handleRoomStarted True logId2 ?room later d = (Some logId, d)" by (simp add: handleRoomStarted_def d open_log_def)
  have active: "active_member (su_id usr) c (w_db w)" using g(4) group_authorized[OF g(2)] by simp
  note join = join_group_exact[OF g(2) lk jwt, of j w2]
  have only: "handleLiveKitJoinGroup lk ok v req w2 = AckOk y \<longrightarrow> (\<exists>j room. v = Some j \<and> jfield ''roomName'' req = Some (JStr room) \<and>
        y = [(''serverUrl'', JStr (lk_url lk)), (''token'', JStr (lk_jwt lk room (su_id j) (su_username j))), (''roomName'', JStr room)] \<and>
        ((\<exists>b. GROUP_ROOM_RE room = Some b \<and> active_member (su_id j) b (w_db w2)) \<or>
         (\<exists>a b. DM_ROOM_RE room = Some (a, b) \<and> to_lower (su_id j) \<in> {to_lower a, to_lower b})))"
    by (intro impI join_group_only)
  have eff: "w_out w' = w_out w @
      map (\<lambda>t. Emit [userRoom t] [] ''livekit:group-invite''
          (invite_json lk ''creator'' ?room (lk_jwt lk ?room t (the (map_of (getUsernames ?cs d) t))) usr))
        (filter (\<lambda>t. t \<in> u_id ` set (users (w_db w)) \<and> active_member t c (w_db w)) ?cs)"
    "w_rooms w' = w_rooms w @ [(?room, 10)]" "length (callLogs (w_db w')) = Suc (length (callLogs (w_db w)))" "w_db w' = d"
    unfolding fin using d lk by (simp_all add: createRoom_def)
  note hook' = hook[folded eff(4)]
  show ?thesis
    by (intro conjI exI[of _ c] exI[of _ targets] exI[of _ "\<lambda>t. the (map_of (getUsernames ?cs d) t)"] g(1,3) active eff(1-3) hook' join only)
qed

definition sample_group :: cid where
  "sample_group = ''dddddddd-0000-0000-0000-000000000004''"

definition sample_group_world :: world where
  "sample_group_world = sample_call_world\<lparr>w_db := (w_db sample_call_world)\<lparr>
     channels := [sample_channel\<lparr>ch_id := sample_group\<rparr>],
     memberships := map (\<lambda>u. (sample_membership (su_id u))\<lparr>mb_channelId := sample_group\<rparr>) [sample_ann, sample_bob]\<rparr>\<rparr>"

definition sample_sdk :: livekit_sdk where
  "sample_sdk = \<lparr>lk_configured = True, lk_jwt = (\<lambda>r i n. ''jwt:'' @ r @ i), lk_url = ''wss://calls''\<rparr>"

definition sample_group_data :: json where
  "sample_group_data = JObj [(''type'', JStr ''GROUP''), (''channelId'', JStr sample_group),
     (''targetUserIds'', JArr [JStr (su_id sample_bob), JStr (su_id sample_bob), JStr (su_id sample_cleo), JStr (su_id sample_ann)])]"

lemma sample_group_run:
  "\<exists>x w'. handleInitiate sample_sdk True JNull ''c1'' ''l1'' (Some sample_ann) sample_group_data 5 sample_group_world = (AckOk x, w')"
proof -
  let ?w1 = "snd (call_allowed (su_id sample_ann) ''call'' CALL_RATE_LIMIT 5 sample_group_world)"
  have rl: "fst (call_allowed (su_id sample_ann) ''call'' CALL_RATE_LIMIT 5 sample_group_world)"
    using sample_call_world_facts(3) by (intro call_allowed_first) (simp_all add: CALL_RATE_LIMIT_def sample_group_world_def)
  have ac: "getActiveCall 5 (su_id sample_ann) sample_group_world = None"
    using sample_call_world_facts(7)[of 5 "su_id sample_ann"] by (simp add: sample_group_world_def getActiveCall_def sample_call_world_facts(1))
  have uu: "is_uuid sample_group" "is_uuid (su_id sample_ann)" "is_uuid (su_id sample_bob)" "is_uuid (su_id sample_cleo)"
    by (simp_all add: sample_group_def sample_ann_def sample_bob_def sample_cleo_def is_uuid_def is_hex_def)
  have lower: "to_lower (su_id sample_ann) = su_id sample_ann" "to_lower sample_group = sample_group"
    by (simp_all add: sample_group_def sample_ann_def to_lower_def lower_char_def)
  have au: "authorizeRoomAccess True (getGroupRoomName sample_group) (su_id sample_ann) (w_db sample_group_world)"
    using group_authorized[OF uu(1)] lower by (simp add: active_member_def sample_group_world_def sample_membership_def)
  obtain d where d: "createCallLog ''l1'' ''LIVEKIT'' (su_id sample_ann) None (Some (getGroupRoomName sample_group)) (Some sample_group) 5 (w_db sample_group_world) = (Inr ''l1'', d)"
    using lower by (simp add: createCallLog_def insert_call_log_def user_exists_def channel_exists_def sample_group_world_def
        sample_call_world_def insert_row_def)
  have "\<exists>x w'. initiateLiveKitGroupCall sample_sdk True ''l1'' sample_ann sample_group ts 5 ?w1 = (AckOk x, w')" for ts
    using d by (simp add: initiateLiveKitGroupCall_def sample_sdk_def run_db_def createRoom_def Let_def livekit_ack_def)
  then show ?thesis using rl ac au uu
    by (simp add: handleInitiate_def sample_group_data_def Let_def split_beta MAX_GROUP_TARGETS_def)
qed

theorem group_call_stays_in_channel_witness:
  "\<exists>w' name. snd (handleInitiate sample_sdk True JNull ''c1'' ''l1'' (Some sample_ann) sample_group_data 5 sample_group_world) = w' \<and>
    w_out w' = [Emit [userRoom (su_id sample_bob)] [] ''livekit:group-invite''
      (invite_json sample_sdk ''creator'' (getGroupRoomName sample_group) (lk_jwt sample_sdk (getGroupRoomName sample_group) (su_id sample_bob) (name (su_id sample_bob))) sample_ann)]"
proof -
  obtain x w' where run: "handleInitiate sample_sdk True JNull ''c1'' ''l1'' (Some sample_ann) sample_group_data 5 sample_group_world = (AckOk x, w')"
    using sample_group_run by blast
  let ?d = "w_db sample_group_world"
  have us: "set (map u_id (users ?d)) = {su_id sample_ann, su_id sample_bob, su_id sample_cleo}"
    "\<forall>u \<in> set (users ?d). to_lower (u_id u) = u_id u \<and> u_username u \<noteq> []"
    by (simp_all add: sample_group_world_def sample_call_world_def sample_ann_def sample_bob_def sample_cleo_def to_lower_def lower_char_def)
  have lower: "to_lower (su_id sample_bob) = su_id sample_bob" "to_lower (su_id sample_cleo) = su_id sample_cleo" "to_lower sample_group = sample_group"
    by (simp_all add: sample_group_def sample_bob_def sample_cleo_def to_lower_def lower_char_def)
  have mem: "active_member (su_id sample_bob) sample_group ?d" "\<not> active_member (su_id sample_cleo) sample_group ?d"
    using sample_call_ids(3-5) lower by (auto simp: active_member_def sample_group_world_def sample_membership_def)
  have "jfield ''type'' sample_group_data = Some (JStr ''GROUP'')" "\<forall>r i n. lk_jwt sample_sdk r i n \<noteq> []" "w_server sample_group_world"
    "\<forall>l \<in> set (callLogs ?d). cl_startedAt l < 5" "w_out sample_group_world = []"
    by (simp_all add: sample_group_data_def sample_sdk_def sample_group_world_def sample_call_world_def)
  note f = this
  have uu: "is_uuid (su_id sample_ann)" "is_uuid (su_id sample_bob)" "is_uuid (su_id sample_cleo)"
    by (simp_all add: sample_ann_def sample_bob_def sample_cleo_def is_uuid_def is_hex_def)
  obtain c targets name where t: "jfield ''channelId'' sample_group_data = Some (JStr c)"
    "isUuidList (jfield ''targetUserIds'' sample_group_data) MAX_GROUP_TARGETS = Some targets"
    "w_out w' = w_out sample_group_world @
      map (\<lambda>t. Emit [userRoom t] [] ''livekit:group-invite''
          (invite_json sample_sdk ''creator'' (getGroupRoomName c) (lk_jwt sample_sdk (getGroupRoomName c) t (name t)) sample_ann))
        (filter (\<lambda>t. t \<in> u_id ` set (users ?d) \<and> active_member t c ?d) (js_uniq (filter (\<lambda>t. t \<noteq> su_id sample_ann) targets)))"
    using group_call_stays_in_channel[OF run f(1) us(2) f(2,3,4), THEN conjunct1] by blast
  have "c = sample_group" "targets = [su_id sample_bob, su_id sample_bob, su_id sample_cleo, su_id sample_ann]"
    using t(1,2) uu by (simp_all add: sample_group_data_def MAX_GROUP_TARGETS_def)
  then have "w_out w' = [Emit [userRoom (su_id sample_bob)] [] ''livekit:group-invite''
      (invite_json sample_sdk ''creator'' (getGroupRoomName sample_group) (lk_jwt sample_sdk (getGroupRoomName sample_group) (su_id sample_bob) (name (su_id sample_bob))) sample_ann)]"
    using t(3) f(5) us(1) mem sample_call_ids(3-5) by simp
  then show ?thesis using run by auto
qed

end
