(* ===== verification/Chat_Gateway.thy ===== *)
theory Chat_Gateway
  imports Channels_Service Reactions_Keys Call_Flows
begin

text \<open>
  \<open>chat/chat.service.ts\<close>, \<open>chat/chat.gateway.ts\<close> and \<open>socket/validate-payload.ts\<close>: the socket events for messages,
  read marks, unread counts, the offline queue and reactions. A handler gets the socket's user from the guard, the payload
  and the world. \<open>valid\<close> stands for the class-validator run on the event's DTO: the errors it reports and
  the whitelisted instance; the arguments the services take are passed through.
\<close>

section \<open>Payload validation\<close>

definition validatePayload :: "(json \<Rightarrow> ValidationError list \<times> 'dto) \<Rightarrow> json \<Rightarrow> thrown + 'dto" where
  "validatePayload valid data =
     (if \<not> is_object data then Inl (SocketErr S_VALIDATION_ERROR ''Invalid payload'')
      else (let (errors, dto) = valid data in if errors \<noteq> [] then Inl (validate_payload_error errors) else Inr dto))"

section \<open>The chat service\<close>

definition PENDING_BATCH_SIZE :: nat where "PENDING_BATCH_SIZE = 100"

definition getUserChannelIds :: "uid \<Rightarrow> db \<Rightarrow> cid list" where
  "getUserChannelIds userId d = map mb_channelId (filter (\<lambda>m. mb_userId m = userId) (memberships d))"

definition getUserDMPeers :: "uid \<Rightarrow> db \<Rightarrow> uid list" where
  "getUserDMPeers userId d =
     (let mine = [mb_channelId m. m \<leftarrow> memberships d, mb_userId m = userId, c \<leftarrow> channels d, ch_id c = mb_channelId m \<and> ch_type c = ''DIRECT'']
      in js_uniq (map mb_userId (filter (\<lambda>m. mb_channelId m \<in> set mine \<and> mb_userId m \<noteq> userId) (memberships d))))"

definition chat_getUnreadCounts :: "time \<Rightarrow> uid \<Rightarrow> world \<Rightarrow> cid \<Rightarrow> int option" where
  "chat_getUnreadCounts now userId w = getUnreadCounts now userId (getUserChannelIds userId (w_db w)) w"

definition deliverPendingMessages :: "time \<Rightarrow> uid \<Rightarrow> world \<Rightarrow> (json list \<times> nat) \<times> world" where
  "deliverPendingMessages now userId = popPendingMessages now userId PENDING_BATCH_SIZE"

section \<open>The chat gateway\<close>

record GetMessagesSocketDto =
  gm_channelId :: cid
  gm_limit :: "int option"
  gm_cursor :: "int option"
  gm_mode :: "MessagePageMode option"

record MarkReadSocketDto =
  mrs_channelId :: cid
  mrs_messageId :: mid

record ReactionDto =
  rd_channelId :: cid
  rd_messageId :: mid
  rd_emoji :: string

text \<open>The outcome of a handler's \<open>try\<close> block: its result, or what \<open>toSocketError\<close> makes of the exception.\<close>

type_synonym 'a reply = "SocketErrorAck + 'a"

definition socket_try :: "(thrown + 'a) \<times> world \<Rightarrow> 'a reply \<times> world" where
  "socket_try rw = (case rw of (Inl e, w) \<Rightarrow> (Inl (toSocketError e), w) | (Inr x, w) \<Rightarrow> (Inr x, w))"

definition limit :: "string \<Rightarrow> RateLimitConfig \<Rightarrow> string \<Rightarrow> time \<Rightarrow> world \<Rightarrow> (thrown + unit) \<times> world" where
  "limit key config message now w =
     (let (rl, w1) = checkRateLimit key config now w
      in (if rl_allowed rl then Inr () else Inl (SocketErr S_RATE_LIMITED message), w1))"

text \<open>\<open>await\<close> on a call that may throw, followed by the rest of the block.\<close>

definition bindW :: "(thrown + 'a) \<times> world \<Rightarrow> ('a \<Rightarrow> world \<Rightarrow> (thrown + 'b) \<times> world) \<Rightarrow> (thrown + 'b) \<times> world" where
  "bindW rw f = (case rw of (Inl e, w) \<Rightarrow> (Inl e, w) | (Inr x, w) \<Rightarrow> f x w)"

definition content_too_large :: "json \<Rightarrow> bool" where
  "content_too_large data =
     (case jfield ''encryptedContent'' data of Some (JStr s) \<Rightarrow> utf8_len s > MAX_ENCRYPTED_CONTENT_BYTES | _ \<Rightarrow> False)"

text \<open>
  The instance of a message payload is given as the input it becomes in \<open>{ userId: user.id, ...dto }\<close>, where a property
  \<open>userId\<close> of the instance would win.
\<close>

definition handleSendMessage ::
  "(json \<Rightarrow> ValidationError list \<times> (uid \<Rightarrow> SendMessageInput)) \<Rightarrow> (string \<Rightarrow> string \<Rightarrow> string \<Rightarrow> bool) \<Rightarrow> (nat \<Rightarrow> thrown option) \<Rightarrow> (nat \<Rightarrow> mid) \<Rightarrow>
   (string \<Rightarrow> uid option list option) \<Rightarrow> bool \<Rightarrow> string \<Rightarrow> uid \<Rightarrow> json \<Rightarrow> time \<Rightarrow> world \<Rightarrow> MessagePayload reply \<times> world" where
  "handleSendMessage valid verify fault gen fetch queue_up clientId userId data now w =
     socket_try (bindW (limit (''send:'' @ userId) RL_SEND_MESSAGE ''Too many messages'' now w) (\<lambda>_ w1.
       if content_too_large data then (Inl (SocketErr S_PAYLOAD_TOO_LARGE ''Message exceeds 10KB limit''), w1)
       else bindW (validatePayload valid data, w1) (\<lambda>dto w2.
         send verify fault gen fetch queue_up (dto userId) (Some clientId) now w2)))"

definition handleGetMessages ::
  "(json \<Rightarrow> ValidationError list \<times> GetMessagesSocketDto) \<Rightarrow> uid \<Rightarrow> json \<Rightarrow> time \<Rightarrow> world \<Rightarrow> MessagePage reply \<times> world" where
  "handleGetMessages valid userId data now w =
     socket_try (bindW (limit (''getmsg:'' @ userId) RL_GET_MESSAGES ''Too many requests'' now w) (\<lambda>_ w1.
       bindW (validatePayload valid data, w1) (\<lambda>dto w2.
         getMessages (gm_channelId dto) userId (case gm_limit dto of None \<Rightarrow> 50 | Some n \<Rightarrow> n) (gm_cursor dto)
           (case gm_mode dto of None \<Rightarrow> Before | Some m \<Rightarrow> m) now w2)))"

definition handleMarkRead ::
  "(json \<Rightarrow> ValidationError list \<times> MarkReadSocketDto) \<Rightarrow> string \<Rightarrow> uid \<Rightarrow> json \<Rightarrow> time \<Rightarrow> world \<Rightarrow> bool reply \<times> world" where
  "handleMarkRead valid readId userId data now w =
     socket_try (bindW (validatePayload valid data, w) (\<lambda>dto.
       markRead readId userId (mrs_channelId dto) (mrs_messageId dto) now))"

definition handleGetUnread :: "uid \<Rightarrow> time \<Rightarrow> world \<Rightarrow> (cid \<Rightarrow> int option) reply" where
  "handleGetUnread userId now w = Inr (chat_getUnreadCounts now userId w)"

record pending_reply =
  pr_count :: nat
  pr_messages :: "json list"
  pr_hasMore :: bool

definition handleGetPending :: "uid \<Rightarrow> time \<Rightarrow> world \<Rightarrow> pending_reply reply \<times> world" where
  "handleGetPending userId now w =
     socket_try (bindW (limit (''pending:'' @ userId) RL_GET_MESSAGES ''Too many requests'' now w) (\<lambda>_ w1.
       let ((msgs, remaining), w2) = deliverPendingMessages now userId w1
       in (Inr \<lparr>pr_count = length msgs, pr_messages = msgs, pr_hasMore = (remaining > 0)\<rparr>, w2)))"

definition handleReactionAdd ::
  "(json \<Rightarrow> ValidationError list \<times> ReactionDto) \<Rightarrow> string \<Rightarrow> SocketUser \<Rightarrow> json \<Rightarrow> time \<Rightarrow> world \<Rightarrow> (add_action \<times> string list) reply \<times> world" where
  "handleReactionAdd valid newId user data now w =
     socket_try (bindW (limit (''reaction:'' @ su_id user) RL_REACTION ''Too many requests'' now w) (\<lambda>_ w1.
       bindW (validatePayload valid data, w1) (\<lambda>dto.
         addReaction newId \<lparr>ac_id = su_id user, ac_username = su_username user\<rparr> (rd_channelId dto) (rd_messageId dto) (rd_emoji dto) now)))"

definition handleReactionRemove ::
  "(json \<Rightarrow> ValidationError list \<times> ReactionDto) \<Rightarrow> SocketUser \<Rightarrow> json \<Rightarrow> time \<Rightarrow> world \<Rightarrow> remove_action reply \<times> world" where
  "handleReactionRemove valid user data now w =
     socket_try (bindW (limit (''reaction:'' @ su_id user) RL_REACTION ''Too many requests'' now w) (\<lambda>_ w1.
       bindW (validatePayload valid data, w1) (\<lambda>dto.
         removeReaction \<lparr>ac_id = su_id user, ac_username = su_username user\<rparr> (rd_channelId dto) (rd_messageId dto) (rd_emoji dto))))"

definition handleReactionRemoveLegacy ::
  "(json \<Rightarrow> ValidationError list \<times> ReactionDto) \<Rightarrow> SocketUser \<Rightarrow> json \<Rightarrow> time \<Rightarrow> world \<Rightarrow> remove_action reply \<times> world" where
  "handleReactionRemoveLegacy = handleReactionRemove"

section \<open>Lemmas\<close>

lemma bindW_simps [simp]: "bindW (Inl e, w) f = (Inl e, w)" "bindW (Inr x, w) f = f x w"
  by (simp_all add: bindW_def)

lemma socket_try_simps [simp]: "socket_try (Inl e, w) = (Inl (toSocketError e), w)" "socket_try (Inr x, w) = (Inr x, w)"
  by (simp_all add: socket_try_def)

text \<open>Rate limiting touches nothing but its counter.\<close>

lemma limit_frame:
  "\<exists>ks. snd (limit key config message now w) = w\<lparr>w_redis := (w_redis w)\<lparr>r_counters := ks\<rparr>\<rparr>"
proof -
  have same: "\<exists>ks. w = w\<lparr>w_redis := (w_redis w)\<lparr>r_counters := ks\<rparr>\<rparr>" by (rule exI[of _ "r_counters (w_redis w)"]) simp
  show ?thesis using same by (auto simp: limit_def checkRateLimit_def upd_counters_def Let_def split_beta split: link.split)
qed

lemma limit_cases:
  obtains (passed) w1 where "limit key config message now w = (Inr (), w1)" "rl_allowed (fst (checkRateLimit key config now w))"
  | (refused) w1 where "limit key config message now w = (Inl (SocketErr S_RATE_LIMITED message), w1)"
      "\<not> rl_allowed (fst (checkRateLimit key config now w))"
  by (cases "rl_allowed (fst (checkRateLimit key config now w))") (auto simp: limit_def split_beta Let_def)

section \<open>Properties\<close>

text \<open>A client that asks again, at the times given, while \<open>hasMore\<close> is set.\<close>

fun drain :: "time list \<Rightarrow> uid \<Rightarrow> world \<Rightarrow> json list \<times> world" where
  "drain [] userId w = ([], w)"
| "drain (t # ts) userId w =
     (case handleGetPending userId t w of
        (Inl e, w1) \<Rightarrow> ([], w1)
      | (Inr p, w1) \<Rightarrow>
          if pr_hasMore p then (let (msgs, w2) = drain ts userId w1 in (pr_messages p @ msgs, w2))
          else (pr_messages p, w1))"

lemma pop_pending_entry:
  assumes "w_link w = Up" "r_pending (w_redis w) (RedisKeys_pending u) = Some (map queue_entry ms, Some dl)" "t < dl"
    "sorted_wrt (<) (map pl_createdAt ms)" "0 < n"
  shows "fst (popPendingMessages t u n w) = (map payload_json (take n ms), length ms - n)"
    "w_link (snd (popPendingMessages t u n w)) = Up"
    "r_counters (w_redis (snd (popPendingMessages t u n w))) = r_counters (w_redis w)"
    "n < length ms \<Longrightarrow> r_pending (w_redis (snd (popPendingMessages t u n w))) (RedisKeys_pending u) = Some (map queue_entry (drop n ms), Some dl)"
    "length ms \<le> n \<Longrightarrow> pending_queue t' u (snd (popPendingMessages t u n w)) = []"
proof -
  have q: "pending_queue t u w = map queue_entry ms" using assms(2,3) by (simp add: pending_queue_def list_at_def live_def)
  note pop = pop_sorted_queue[OF assms(1) q assms(4,5)]
  show "fst (popPendingMessages t u n w) = (map payload_json (take n ms), length ms - n)" by (fact pop(1))
  show "w_link (snd (popPendingMessages t u n w)) = Up" using assms(1) by (simp add: popPendingMessages_def)
  show "r_counters (w_redis (snd (popPendingMessages t u n w))) = r_counters (w_redis w)"
    using assms(1) by (simp add: popPendingMessages_Up Let_def pop_remove_def split_beta)
  let ?q = "map queue_entry ms" and ?k = "RedisKeys_pending u" and ?p = "r_pending (w_redis w)"
  let ?raw = "zRange stored_text n ?q"
  have w': "r_pending (w_redis (snd (popPendingMessages t u n w))) =
      (if ?raw = [] then ?p else put_keep_list t ?k (zRem ?raw ?q) ?p)"
    by (simp add: popPendingMessages_Up[OF assms(1)] Let_def q)
  have rem: "zRem ?raw ?q = map queue_entry (drop n ms)"
    using pop(2) w' q by (auto simp: pending_queue_def zRem_def split: if_splits)
  have scores: "map snd ?q = map pl_createdAt ms" by (simp add: queue_entry_def)
  then have "zsorted stored_text ?q = ?q" using assms(4) by (intro zsorted_sorted) (simp only: scores)
  then have raw: "?raw = [] \<longleftrightarrow> ms = []" using assms(5) by (simp add: zRange_def)
  show "r_pending (w_redis (snd (popPendingMessages t u n w))) ?k = Some (map queue_entry (drop n ms), Some dl)" if "n < length ms"
    using that raw assms(2,3) by (auto simp: w' rem put_keep_list_def put_keep_def live_def)
  show "pending_queue t' u (snd (popPendingMessages t u n w)) = []" if "length ms \<le> n"
    using that raw rem assms(2) by (simp add: pending_queue_def w' put_keep_list_def del_key_def list_at_def live_def)
qed

lemma limit_new_window:
  assumes "w_link w = Up" "\<And>c e. r_counters (w_redis w) (''zevra:ratelimit:'' @ key) = Some (c, e) \<Longrightarrow> \<exists>d. e = Some d \<and> d \<le> t" "1 \<le> maxRequests config"
  shows "limit key config message t w =
    (Inr (), w\<lparr>w_redis := (w_redis w)\<lparr>r_counters := (r_counters (w_redis w))(''zevra:ratelimit:'' @ key \<mapsto> (1, Some (t + windowMs config)))\<rparr>\<rparr>)"
proof -
  have "fixed_window_script t (windowMs config) (''zevra:ratelimit:'' @ key) (r_counters (w_redis w)) =
      ((1, windowMs config), (r_counters (w_redis w))(''zevra:ratelimit:'' @ key \<mapsto> (1, Some (t + windowMs config))))"
    by (rule script_new) (use assms(2) in fastforce)+
  then show ?thesis using assms(1,3) by (simp add: limit_def checkRateLimit_def upd_counters_def)
qed

text \<open>
  C16: The offline queue can be emptied over the socket. A client that asks for its pending messages once a
  second or slower, for as long as \<open>hasMore\<close> is set, receives every queued message, once and in the order they were
  created, provided it asks often enough for batches of 100 and before the queue expires; afterwards the queue is empty.
\<close>

theorem get_pending_drains:
  assumes "w_link w = Up" "r_pending (w_redis w) (RedisKeys_pending u) = Some (map queue_entry ms, Some dl)"
    and "sorted_wrt (<) (map pl_createdAt ms)" "\<forall>t \<in> set ts. t < dl" "sorted_wrt (\<lambda>a b. a + 1000 \<le> b) ts"
    and "r_counters (w_redis w) (''zevra:ratelimit:pending:'' @ u) = None"
    and "ts \<noteq> []" "length ms \<le> length ts * PENDING_BATCH_SIZE"
  shows "fst (drain ts u w) = map payload_json ms \<and> pending_queue t' u (snd (drain ts u w)) = []"
proof -
  have "\<lbrakk>w_link w = Up; r_pending (w_redis w) (RedisKeys_pending u) = Some (map queue_entry ms, Some dl);
      sorted_wrt (<) (map pl_createdAt ms); \<forall>t \<in> set ts. t < dl; sorted_wrt (\<lambda>a b. a + 1000 \<le> b) ts;
      \<And>c e. r_counters (w_redis w) (''zevra:ratelimit:'' @ ''pending:'' @ u) = Some (c, e) \<Longrightarrow> \<exists>d. e = Some d \<and> (\<forall>t \<in> set ts. d \<le> t);
      ts \<noteq> []; length ms \<le> length ts * PENDING_BATCH_SIZE\<rbrakk> \<Longrightarrow>
      fst (drain ts u w) = map payload_json ms \<and> pending_queue t' u (snd (drain ts u w)) = []"
  proof (induction ts arbitrary: w ms)
    case (Cons t ts)
    let ?n = PENDING_BATCH_SIZE and ?k = "''zevra:ratelimit:'' @ ''pending:'' @ u"
    define w1 where "w1 = w\<lparr>w_redis := (w_redis w)\<lparr>r_counters := (r_counters (w_redis w))(?k \<mapsto> (1, Some (t + 1000)))\<rparr>\<rparr>"
    have lim: "limit (''pending:'' @ u) RL_GET_MESSAGES m t w = (Inr (), w1)" for m
      unfolding w1_def using limit_new_window[OF Cons.prems(1), of "''pending:'' @ u" t RL_GET_MESSAGES m] Cons.prems(6)
      by (fastforce simp: RL_GET_MESSAGES_def)
    have w1: "w_link w1 = Up" "r_pending (w_redis w1) (RedisKeys_pending u) = Some (map queue_entry ms, Some dl)" "t < dl"
      using Cons.prems(1,2,4) by (simp_all add: w1_def)
    have pos: "0 < ?n" by (simp add: PENDING_BATCH_SIZE_def)
    note pop = pop_pending_entry[OF w1 Cons.prems(3) pos]
    define w2 where "w2 = snd (popPendingMessages t u ?n w1)"
    have h: "handleGetPending u t w = (Inr \<lparr>pr_count = length (take ?n ms), pr_messages = map payload_json (take ?n ms),
        pr_hasMore = (0 < length ms - ?n)\<rparr>, w2)"
      using lim pop(1) by (simp add: handleGetPending_def deliverPendingMessages_def split_beta Let_def w2_def)
    show ?case
    proof (cases "?n < length ms")
      case True
      have c2: "r_counters (w_redis w2) = (r_counters (w_redis w))(?k \<mapsto> (1, Some (t + 1000)))" using pop(3) by (simp add: w2_def w1_def)
      have "ts \<noteq> []" using True Cons.prems(8) by (cases ts) auto
      moreover have "length (drop ?n ms) \<le> length ts * ?n" using Cons.prems(8) by simp
      moreover have "sorted_wrt (<) (map pl_createdAt (drop ?n ms))" using sorted_wrt_drop[OF Cons.prems(3), of ?n] by (simp add: drop_map)
      ultimately have "fst (drain ts u w2) = map payload_json (drop ?n ms) \<and> pending_queue t' u (snd (drain ts u w2)) = []"
        using Cons.IH[of w2 "drop ?n ms"] pop(2) pop(4)[OF True] Cons.prems(4,5) c2 by (auto simp: w2_def)
      then show ?thesis using True h by (simp add: split_beta Let_def flip: map_append)
    next
      case False
      then show ?thesis using h pop(5)[of t'] by (simp add: w2_def)
    qed
  qed simp
  then show ?thesis using assms by simp
qed

theorem get_pending_drains_witness:
  "fst (drain [10, 1010] ''u1'' (addPendingMessage 8 [''u1''] sample_payload empty_world)) = [payload_json sample_payload]"
proof -
  let ?w = "addPendingMessage 8 [''u1''] sample_payload empty_world"
  have "w_link ?w = Up" "r_pending (w_redis ?w) (RedisKeys_pending ''u1'') = Some (map queue_entry [sample_payload], Some (8 + 1000 * RedisTtl_pendingSeconds))"
    "sorted_wrt (<) (map pl_createdAt [sample_payload])" "\<forall>t \<in> set [10, 1010]. t < 8 + 1000 * RedisTtl_pendingSeconds"
    "sorted_wrt (\<lambda>a b. a + 1000 \<le> b) [10, 1010 :: int]" "r_counters (w_redis ?w) (''zevra:ratelimit:pending:'' @ ''u1'') = None"
    "[10, 1010 :: int] \<noteq> []" "length [sample_payload] \<le> length [10, 1010 :: int] * PENDING_BATCH_SIZE"
    by (simp_all add: addPendingMessage_def with_redis_def empty_world_def empty_redis_def add_pending_def list_at_def live_def put_ex_def
        zAdd_def queue_entry_def sample_payload_def redis_ttl_defs PENDING_BATCH_SIZE_def Let_def)
  from get_pending_drains[OF this, of 0] show ?thesis by simp
qed

end
