(* ===== verification/Socket_Gateway.thy ===== *)
theory Socket_Gateway
  imports Chat_Gateway
begin

text \<open>
  \<open>socket/socket-auth.guard.ts\<close> and \<open>socket/socket.gateway.ts\<close>: authentication of a socket, connecting and
  disconnecting, presence, joining rooms, typing indicators with their timers and the heartbeat.
  A socket is a record (its data, the rooms it is in, the events sent to it); the gateway's own state is the set of heartbeat
  intervals and the map of typing timers, beside the world. The JWT library is the argument
  \<open>ge_verify\<close>; the flags of the environment say which queries reject, and whether the socket is
  still connected at the two points where a new connection looks.
\<close>

section \<open>The guard\<close>

record SocketAuthUser = SocketUser +
  su_status :: string

datatype jwt_failure = TokenExpiredError | JsonWebTokenError

record jwt_payload =
  jp_sub :: string
  jp_exp :: "int option"

record handshake =
  hs_authToken :: "json option"
  hs_authorization :: "string option"
  hs_forwardedFor :: "string list"
  hs_address :: string

record socket_client =
  so_id :: string
  so_user :: "SocketAuthUser option"
  so_tokenExp :: "int option"
  so_connected :: bool
  so_rooms :: "string list"
  so_sent :: "(string \<times> json) list"

record gate_env =
  ge_verify :: "string \<Rightarrow> jwt_failure + jwt_payload"
  ge_trustProxy :: bool
  ge_userDb :: bool
  ge_channelsDb :: bool
  ge_peersDb :: bool

definition extractSocketToken :: "handshake \<Rightarrow> string option" where
  "extractSocketToken hs =
     (let header = (case hs_authorization hs of
                      Some h \<Rightarrow> if starts_with ''Bearer '' h then Some (drop 7 h) else None
                    | None \<Rightarrow> None)
      in case hs_authToken hs of Some (JStr t) \<Rightarrow> if t \<noteq> [] then Some t else header | _ \<Rightarrow> header)"

definition isTokenExpired :: "int option \<Rightarrow> time \<Rightarrow> bool" where
  "isTokenExpired tokenExp nowMs = (case tokenExp of None \<Rightarrow> False | Some e \<Rightarrow> e * 1000 \<le> nowMs)"

definition client_emit :: "string \<Rightarrow> json \<Rightarrow> socket_client \<Rightarrow> socket_client" where
  "client_emit event data c = c\<lparr>so_sent := so_sent c @ [(event, data)]\<rparr>"

text \<open>\<open>reject\<close> of the guard and \<open>rejectConnection\<close> of the gateway.\<close>

definition rejectConnection :: "string \<Rightarrow> string \<Rightarrow> socket_client \<Rightarrow> socket_client" where
  "rejectConnection code message c =
     (client_emit ''error'' (JObj [(''code'', JStr code), (''message'', JStr message)]) c)\<lparr>so_connected := False\<rparr>"

definition active_user :: "string \<Rightarrow> db \<Rightarrow> SocketAuthUser option" where
  "active_user sub d = map_option (\<lambda>u. \<lparr>su_id = u_id u, su_username = u_username u, su_status = u_status u\<rparr>)
     (first_row (filter (\<lambda>u. u_id u = to_lower sub \<and> u_isActive u) (users d)))"

definition canActivate :: "gate_env \<Rightarrow> handshake \<Rightarrow> time \<Rightarrow> db \<Rightarrow> socket_client \<Rightarrow> bool \<times> socket_client" where
  "canActivate env hs now d c =
     (case so_user c of
        Some u \<Rightarrow>
          if \<not> isTokenExpired (so_tokenExp c) now then (True, c)
          else (False, rejectConnection ''TOKEN_EXPIRED'' ''TOKEN_EXPIRED'' c)
      | None \<Rightarrow>
          (case extractSocketToken hs of
             None \<Rightarrow> (False, rejectConnection ''NO_TOKEN'' ''No token provided'' c)
           | Some token \<Rightarrow>
               if token = [] then (False, rejectConnection ''NO_TOKEN'' ''No token provided'' c)
               else (case ge_verify env token of
                       Inl TokenExpiredError \<Rightarrow> (False, rejectConnection ''TOKEN_EXPIRED'' ''TOKEN_EXPIRED'' c)
                     | Inl JsonWebTokenError \<Rightarrow> (False, rejectConnection ''INVALID_TOKEN'' ''INVALID_TOKEN'' c)
                     | Inr payload \<Rightarrow>
                         if \<not> ge_userDb env then (False, rejectConnection ''INVALID_TOKEN'' ''INVALID_TOKEN'' c)
                         else (case active_user (jp_sub payload) d of
                                 None \<Rightarrow> (False, rejectConnection ''USER_NOT_FOUND'' ''User not found'' c)
                               | Some u \<Rightarrow> (True, c\<lparr>so_user := Some u, so_tokenExp := jp_exp payload\<rparr>)))))"

text \<open>\<open>JwtStrategy.validate\<close> of \<open>shared/guards/jwt.strategy.ts\<close>: who a verified REST token speaks for. \<open>queryFails\<close>
  gives the SQLSTATE of the query for an id when it fails, as it does for a text that is not a uuid.\<close>

record AuthenticatedUser =
  jw_id :: uid
  jw_username :: string
  jw_email :: string
  jw_status :: string

definition validate :: "(string \<Rightarrow> string option) \<Rightarrow> json option \<Rightarrow> db \<Rightarrow> thrown + AuthenticatedUser option" where
  "validate queryFails sub d =
     (case sub of
        Some (JStr s) \<Rightarrow>
          if s = [] then Inr None
          else (case queryFails s of
                  Some code \<Rightarrow> Inl (pg_error code)
                | None \<Rightarrow>
                    (case first_row (filter (\<lambda>u. u_id u = to_lower s) (users d)) of
                       None \<Rightarrow> Inr None
                     | Some u \<Rightarrow> if \<not> u_isActive u then Inr None
                                 else Inr (Some \<lparr>jw_id = u_id u, jw_username = u_username u, jw_email = u_email u, jw_status = u_status u\<rparr>)))
      | _ \<Rightarrow> Inr None)"

section \<open>Gateway state\<close>

definition HEARTBEAT_INTERVAL_MS :: int where "HEARTBEAT_INTERVAL_MS = 30000"
definition TYPING_AUTO_STOP_MS :: int where "TYPING_AUTO_STOP_MS = 6000"

record typing_timer =
  tt_deadline :: time
  tt_user :: SocketAuthUser
  tt_channel :: cid

record gateway =
  gw_world :: world
  gw_heartbeats :: "string list"
  gw_typing :: "(string \<times> typing_timer) list"

definition upd_world :: "(world \<Rightarrow> world) \<Rightarrow> gateway \<Rightarrow> gateway" where
  "upd_world f g = g\<lparr>gw_world := f (gw_world g)\<rparr>"

definition onModuleDestroy :: "gateway \<Rightarrow> gateway" where
  "onModuleDestroy g = g\<lparr>gw_heartbeats := [], gw_typing := []\<rparr>"

definition stopHeartbeat :: "string \<Rightarrow> gateway \<Rightarrow> gateway" where
  "stopHeartbeat socketId g = g\<lparr>gw_heartbeats := filter (\<lambda>s. s \<noteq> socketId) (gw_heartbeats g)\<rparr>"

definition startHeartbeat :: "string \<Rightarrow> gateway \<Rightarrow> gateway" where
  "startHeartbeat socketId g = (let g1 = stopHeartbeat socketId g in g1\<lparr>gw_heartbeats := gw_heartbeats g1 @ [socketId]\<rparr>)"

definition clientIp :: "bool \<Rightarrow> handshake \<Rightarrow> string" where
  "clientIp trustProxy hs =
     (let first = (case hs_forwardedFor hs of [] \<Rightarrow> [] | raw # _ \<Rightarrow> js_trim (hd (split_on (CHR '','') raw)))
      in if trustProxy \<and> first \<noteq> [] then first else hs_address hs)"

section \<open>Connecting\<close>

definition presence_json :: "SocketAuthUser \<Rightarrow> json" where
  "presence_json u = JObj [(''userId'', JStr (su_id u)), (''username'', JStr (su_username u))]"

definition pushPresence :: "bool \<Rightarrow> time \<Rightarrow> SocketAuthUser \<Rightarrow> bool \<Rightarrow> socket_client \<Rightarrow> gateway \<Rightarrow> socket_client \<times> gateway" where
  "pushPresence peersDb now u firstSocket c g =
     (let peerIds = getUserDMPeers (su_id u) (w_db (gw_world g)) in
      if \<not> peersDb \<or> peerIds = [] then (c, g)
      else (let online = getOnlineUsers now peerIds (gw_world g);
                c1 = client_emit ''presence:bulk'' (JObj [(''online'', JArr (map JStr online))]) c
            in (c1, if firstSocket then upd_world (emitToUsers online ''user:joined'' (presence_json u)) g else g)))"

text \<open>Who the handshake token speaks for, or the code and message of the refusal.\<close>

definition authenticate :: "gate_env \<Rightarrow> handshake \<Rightarrow> db \<Rightarrow> (string \<times> string) + (SocketAuthUser \<times> int option)" where
  "authenticate env hs d =
     (let anonymous = Inl (''NOT_AUTHENTICATED'', ''Authentication required'') in
      case extractSocketToken hs of
        None \<Rightarrow> anonymous
      | Some token \<Rightarrow>
          if token = [] then anonymous
          else (case ge_verify env token of
                  Inl TokenExpiredError \<Rightarrow> Inl (''TOKEN_EXPIRED'', ''Token expired'')
                | Inl JsonWebTokenError \<Rightarrow> anonymous
                | Inr payload \<Rightarrow>
                    if \<not> ge_userDb env then anonymous
                    else (case active_user (jp_sub payload) d of
                            None \<Rightarrow> anonymous
                          | Some u \<Rightarrow> Inr (u, jp_exp payload))))"

definition connect_rooms :: "uid \<Rightarrow> db \<Rightarrow> string list" where
  "connect_rooms userId d = userRoom userId # map channelRoom (getUserChannelIds userId d)"

definition finish_connection ::
  "gate_env \<Rightarrow> bool \<Rightarrow> bool \<Rightarrow> time \<Rightarrow> SocketAuthUser \<Rightarrow> socket_client \<Rightarrow> gateway \<Rightarrow> socket_client \<times> gateway" where
  "finish_connection env conn1 conn2 now u c g =
     (if \<not> ge_channelsDb env then (rejectConnection ''INTERNAL_ERROR'' ''Connection setup failed'' c, g)
      else (let c1 = c\<lparr>so_rooms := so_rooms c @ connect_rooms (su_id u) (w_db (gw_world g))\<rparr> in
            if \<not> conn1 then (c1\<lparr>so_connected := False\<rparr>, g)
            else (let (socketCount, w1) = addSocket now (su_id u) (so_id c) (gw_world g);
                      w2 = setOnline now (su_id u) w1
                  in if \<not> conn2
                     then (c1\<lparr>so_connected := False\<rparr>, g\<lparr>gw_world := snd (removeSocket now (su_id u) (so_id c) w2)\<rparr>)
                     else (let g1 = startHeartbeat (so_id c) (g\<lparr>gw_world := w2\<rparr>);
                               c2 = client_emit ''connected'' (JObj [(''userId'', JStr (su_id u)), (''username'', JStr (su_username u)),
                                      (''socketId'', JStr (so_id c))]) c1
                           in pushPresence (ge_peersDb env) now u (socketCount = Some 1) c2 g1))))"

definition handleConnection ::
  "gate_env \<Rightarrow> handshake \<Rightarrow> bool \<Rightarrow> bool \<Rightarrow> time \<Rightarrow> socket_client \<Rightarrow> gateway \<Rightarrow> socket_client \<times> gateway" where
  "handleConnection env hs conn1 conn2 now c g =
     (let (rl, w1) = checkRateLimit (''conn-ip:'' @ clientIp (ge_trustProxy env) hs) RL_CONNECTION_PER_IP now (gw_world g);
          g1 = g\<lparr>gw_world := w1\<rparr>
      in if \<not> rl_allowed rl then (rejectConnection ''RATE_LIMITED'' ''Too many connections'' c, g1)
         else (case authenticate env hs (w_db w1) of
                 Inl (code, message) \<Rightarrow> (rejectConnection code message c, g1)
               | Inr (u, tokenExp) \<Rightarrow>
                   finish_connection env conn1 conn2 now u (c\<lparr>so_user := Some u, so_tokenExp := tokenExp\<rparr>) g1))"

section \<open>Typing indicators\<close>

definition emitTyping :: "string \<Rightarrow> SocketAuthUser \<Rightarrow> cid \<Rightarrow> world \<Rightarrow> world" where
  "emitTyping event u channelId =
     emitToChannel channelId event
       (JObj [(''userId'', JStr (su_id u)), (''username'', JStr (su_username u)), (''channelId'', JStr channelId)])
       \<lparr>exceptSocketId = None, exceptUserId = Some (su_id u)\<rparr>"

definition stopTyping :: "time \<Rightarrow> SocketAuthUser \<Rightarrow> cid \<Rightarrow> world \<Rightarrow> world" where
  "stopTyping now u channelId w = emitTyping ''typing:stop'' u channelId (clearTyping now channelId (su_id u) w)"

definition timeout_key :: "string \<Rightarrow> cid \<Rightarrow> string" where
  "timeout_key socketId channelId = socketId @ ''|'' @ channelId"

definition requireMember :: "time \<Rightarrow> cid \<Rightarrow> uid \<Rightarrow> world \<Rightarrow> (thrown + unit) \<times> world" where
  "requireMember now channelId userId w =
     (let (member, w1) = isMember now channelId userId w
      in (if member then Inr () else Inl (SocketErr S_NOT_MEMBER ''Not a member of this channel''), w1))"

text \<open>The checks both typing events start with.\<close>

definition typing_checks :: "(json \<Rightarrow> ValidationError list \<times> cid) \<Rightarrow> SocketAuthUser \<Rightarrow> json \<Rightarrow> time \<Rightarrow> world \<Rightarrow> (thrown + cid) \<times> world" where
  "typing_checks valid u data now w =
     bindW (validatePayload valid data, w) (\<lambda>channelId w1.
       bindW (limit (''typing:'' @ su_id u) RL_TYPING ''Too many typing events'' now w1) (\<lambda>_ w2.
         bindW (requireMember now channelId (su_id u) w2) (\<lambda>_ w3. (Inr channelId, w3))))"

definition handleTypingStart ::
  "(json \<Rightarrow> ValidationError list \<times> cid) \<Rightarrow> string \<Rightarrow> SocketAuthUser \<Rightarrow> json \<Rightarrow> time \<Rightarrow> gateway \<Rightarrow> unit reply \<times> gateway" where
  "handleTypingStart valid clientId u data now g =
     (case typing_checks valid u data now (gw_world g) of
        (Inl e, w1) \<Rightarrow> (Inl (toSocketError e), g\<lparr>gw_world := w1\<rparr>)
      | (Inr channelId, w1) \<Rightarrow>
          (Inr (), g\<lparr>gw_world := emitTyping ''typing:start'' u channelId (setTyping now channelId (su_id u) w1),
                     gw_typing := AList.update (timeout_key clientId channelId)
                       \<lparr>tt_deadline = now + TYPING_AUTO_STOP_MS, tt_user = u, tt_channel = channelId\<rparr> (gw_typing g)\<rparr>))"

definition handleTypingStop ::
  "(json \<Rightarrow> ValidationError list \<times> cid) \<Rightarrow> string \<Rightarrow> SocketAuthUser \<Rightarrow> json \<Rightarrow> time \<Rightarrow> gateway \<Rightarrow> unit reply \<times> gateway" where
  "handleTypingStop valid clientId u data now g =
     (case typing_checks valid u data now (gw_world g) of
        (Inl e, w1) \<Rightarrow> (Inl (toSocketError e), g\<lparr>gw_world := w1\<rparr>)
      | (Inr channelId, w1) \<Rightarrow>
          (Inr (), g\<lparr>gw_world := stopTyping now u channelId w1,
                     gw_typing := AList.delete (timeout_key clientId channelId) (gw_typing g)\<rparr>))"

text \<open>A typing timer goes off.\<close>

definition typing_timeout :: "time \<Rightarrow> string \<Rightarrow> gateway \<Rightarrow> gateway" where
  "typing_timeout now key g =
     (case map_of (gw_typing g) key of
        None \<Rightarrow> g
      | Some t \<Rightarrow> g\<lparr>gw_typing := AList.delete key (gw_typing g), gw_world := stopTyping now (tt_user t) (tt_channel t) (gw_world g)\<rparr>)"

definition clearTypingFor :: "time \<Rightarrow> socket_client \<Rightarrow> gateway \<Rightarrow> gateway" where
  "clearTypingFor now c g =
     (let prefix = so_id c @ ''|'';
          mine = filter (\<lambda>(key, t). starts_with prefix key) (gw_typing g);
          stop = (\<lambda>(key, t) w. case so_user c of None \<Rightarrow> w | Some u \<Rightarrow> stopTyping now u (drop (length prefix) key) w)
      in g\<lparr>gw_typing := filter (\<lambda>(key, t). \<not> starts_with prefix key) (gw_typing g),
           gw_world := fold stop mine (gw_world g)\<rparr>)"

section \<open>Disconnecting\<close>

definition socket_handleDisconnect :: "bool \<Rightarrow> time \<Rightarrow> socket_client \<Rightarrow> gateway \<Rightarrow> gateway" where
  "socket_handleDisconnect peersDb now c g =
     (let g1 = clearTypingFor now c (stopHeartbeat (so_id c) g) in
      case so_user c of
        None \<Rightarrow> g1
      | Some u \<Rightarrow>
          (let (remaining, w1) = removeSocket now (su_id u) (so_id c) (gw_world g1) in
           if remaining \<noteq> Some 0 then g1\<lparr>gw_world := w1\<rparr>
           else (let w2 = setOffline (su_id u) w1
                 in g1\<lparr>gw_world := (if peersDb then emitToUsers (getUserDMPeers (su_id u) (w_db w2)) ''user:left'' (presence_json u) w2 else w2)\<rparr>)))"

section \<open>Presence, rooms and heartbeat\<close>

definition handlePresenceBulk ::
  "(json \<Rightarrow> ValidationError list \<times> uid list option) \<Rightarrow> SocketAuthUser \<Rightarrow> json \<Rightarrow> time \<Rightarrow> world \<Rightarrow> uid list reply" where
  "handlePresenceBulk valid u data now w =
     (case validatePayload valid (if data = JNull then JObj [] else data) of
        Inl e \<Rightarrow> Inl (toSocketError e)
      | Inr dto \<Rightarrow>
          (let userIds = (case dto of None \<Rightarrow> [] | Some ids \<Rightarrow> ids);
               ids = (if userIds = [] then getUserDMPeers (su_id u) (w_db w) else userIds)
           in Inr (getOnlineUsers now ids w)))"

record CreateChannelDto =
  cd_type :: string
  cd_name :: "string option"
  cd_participantIds :: "uid list"

definition handleCreateOrJoin ::
  "(json \<Rightarrow> ValidationError list \<times> CreateChannelDto) \<Rightarrow> cid \<Rightarrow> (nat \<Rightarrow> string) \<Rightarrow> SocketAuthUser \<Rightarrow> json \<Rightarrow> time \<Rightarrow> socket_client \<Rightarrow> world \<Rightarrow>
   (cid \<times> bool) reply \<times> socket_client \<times> world" where
  "handleCreateOrJoin valid newId memberId u data now c w =
     (case validatePayload valid data of
        Inl e \<Rightarrow> (Inl (toSocketError e), c, w)
      | Inr dto \<Rightarrow>
          (case create newId memberId (su_id u) (cd_participantIds dto) (cd_type dto) (cd_name dto) now w of
             (Inl e, w1) \<Rightarrow> (Inl (toSocketError e), c, w1)
           | (Inr res, w1) \<Rightarrow>
               (let i = ch_id (cr_channel res)
                in (Inr (i, cr_created res), c\<lparr>so_rooms := so_rooms c @ [channelRoom i]\<rparr>, w1))))"

definition join_checks :: "(json \<Rightarrow> ValidationError list \<times> cid) \<Rightarrow> SocketAuthUser \<Rightarrow> json \<Rightarrow> time \<Rightarrow> world \<Rightarrow> (thrown + cid) \<times> world" where
  "join_checks valid u data now w =
     bindW (validatePayload valid data, w) (\<lambda>channelId w1.
       bindW (requireMember now channelId (su_id u) w1) (\<lambda>_ w2. (Inr channelId, w2)))"

definition handleJoinChannel ::
  "(json \<Rightarrow> ValidationError list \<times> cid) \<Rightarrow> SocketAuthUser \<Rightarrow> json \<Rightarrow> time \<Rightarrow> socket_client \<Rightarrow> world \<Rightarrow> unit reply \<times> socket_client \<times> world" where
  "handleJoinChannel valid u data now c w =
     (case join_checks valid u data now w of
        (Inl e, w1) \<Rightarrow> (Inl (toSocketError e), c, w1)
      | (Inr channelId, w1) \<Rightarrow> (Inr (), c\<lparr>so_rooms := so_rooms c @ [channelRoom channelId]\<rparr>, w1))"

definition handleLeaveChannel ::
  "(json \<Rightarrow> ValidationError list \<times> cid) \<Rightarrow> SocketAuthUser \<Rightarrow> json \<Rightarrow> time \<Rightarrow> socket_client \<Rightarrow> world \<Rightarrow> unit reply \<times> socket_client \<times> world" where
  "handleLeaveChannel valid u data now c w =
     (case join_checks valid u data now w of
        (Inl e, w1) \<Rightarrow> (Inl (toSocketError e), c, w1)
      | (Inr channelId, w1) \<Rightarrow> (Inr (), c\<lparr>so_rooms := filter (\<lambda>r. r \<noteq> channelRoom channelId) (so_rooms c)\<rparr>, w1))"

definition beat :: "time \<Rightarrow> socket_client \<Rightarrow> world \<Rightarrow> bool \<times> socket_client \<times> world" where
  "beat now c w =
     (case so_user c of
        None \<Rightarrow> (False, c, w)
      | Some u \<Rightarrow>
          if isTokenExpired (so_tokenExp c) now then (False, rejectConnection ''TOKEN_EXPIRED'' ''Token expired'' c, w)
          else (True, c, setOnline now (su_id u) (refreshSocket now (su_id u) (so_id c) w)))"

definition handleHeartbeat :: "time \<Rightarrow> socket_client \<Rightarrow> world \<Rightarrow> ack \<times> socket_client \<times> world" where
  "handleHeartbeat now c w =
     (if so_user c = None then (AckRefused ''NOT_AUTHENTICATED'' ''Authentication required'' [], c, w)
      else (case beat now c w of
              (False, c1, w1) \<Rightarrow> (AckRefused ''NOT_AUTHENTICATED'' ''Token expired'' [], c1, w1)
            | (True, c1, w1) \<Rightarrow>
                (AckOk [(''timestamp'', JNum now)], client_emit ''heartbeat-ack'' (JObj [(''timestamp'', JNum now)]) c1, w1)))"

text \<open>One round of the heartbeat interval of a socket.\<close>

definition heartbeat_tick :: "time \<Rightarrow> socket_client \<Rightarrow> gateway \<Rightarrow> socket_client \<times> gateway" where
  "heartbeat_tick now c g =
     (if \<not> so_connected c then (c, stopHeartbeat (so_id c) g)
      else (let (ok, c1, w1) = beat now c (gw_world g) in (c1, g\<lparr>gw_world := w1\<rparr>)))"

section \<open>Lemmas\<close>

lemma client_emit_simps [simp]:
  "so_sent (client_emit e j c) = so_sent c @ [(e, j)]" "so_rooms (client_emit e j c) = so_rooms c" "so_id (client_emit e j c) = so_id c"
  "so_user (client_emit e j c) = so_user c" "so_connected (client_emit e j c) = so_connected c" "so_tokenExp (client_emit e j c) = so_tokenExp c"
  by (simp_all add: client_emit_def)

lemma rejectConnection_simps [simp]:
  "so_sent (rejectConnection code m c) = so_sent c @ [(''error'', JObj [(''code'', JStr code), (''message'', JStr m)])]"
  "so_user (rejectConnection code m c) = so_user c" "\<not> so_connected (rejectConnection code m c)" "so_rooms (rejectConnection code m c) = so_rooms c"
  "so_tokenExp (rejectConnection code m c) = so_tokenExp c" "so_id (rejectConnection code m c) = so_id c"
  by (simp_all add: rejectConnection_def)

lemma active_user_Some:
  assumes "active_user sub d = Some u"
  shows "\<exists>row \<in> set (users d). u_id row = to_lower sub \<and> u_isActive row \<and> su_id u = u_id row \<and> su_username u = u_username row"
  using assms by (auto simp: active_user_def dest!: first_row_filterD)

lemma authenticate_Inr:
  "authenticate env hs d = Inr (u, e) \<longleftrightarrow>
     (\<exists>tok p. extractSocketToken hs = Some tok \<and> tok \<noteq> [] \<and> ge_verify env tok = Inr p \<and> ge_userDb env \<and>
        active_user (jp_sub p) d = Some u \<and> e = jp_exp p)"
  by (auto simp: authenticate_def Let_def split: option.splits sum.splits jwt_failure.splits)

lemma pushPresence_client:
  "so_user (fst (pushPresence pd now u fs c g)) = so_user c" "so_rooms (fst (pushPresence pd now u fs c g)) = so_rooms c"
  "so_connected (fst (pushPresence pd now u fs c g)) = so_connected c"
  "\<exists>r. so_sent (fst (pushPresence pd now u fs c g)) = so_sent c @ r \<and> (\<forall>x \<in> set r. fst x = ''presence:bulk'')"
  by (simp_all add: pushPresence_def Let_def)

lemma emitToUsers_frame [simp]:
  "w_redis (emitToUsers us e j w) = w_redis w" "w_link (emitToUsers us e j w) = w_link w" "w_db (emitToUsers us e j w) = w_db w"
  by (simp_all add: emitToUsers_def send_out_def)

lemma pushPresence_gateway:
  "gw_heartbeats (snd (pushPresence pd now u fs c g)) = gw_heartbeats g" "gw_typing (snd (pushPresence pd now u fs c g)) = gw_typing g"
  "w_redis (gw_world (snd (pushPresence pd now u fs c g))) = w_redis (gw_world g)"
  "w_link (gw_world (snd (pushPresence pd now u fs c g))) = w_link (gw_world g)"
  by (simp_all add: pushPresence_def Let_def upd_world_def)

lemma live_sockets_cong:
  "r_zsets (w_redis w') (RedisKeys_sockets u) = r_zsets (w_redis w) (RedisKeys_sockets u) \<Longrightarrow> live_sockets now u w' = live_sockets now u w"
  using list_at_at[of "r_zsets (w_redis w')" "RedisKeys_sockets u" "r_zsets (w_redis w)" now] by (simp add: live_sockets_def)

lemma setOnline_Up:
  assumes "w_link w = Up"
  shows "setOnline now u w = w\<lparr>w_redis := (w_redis w)\<lparr>r_strings := put_ex now RedisTtl_presenceSeconds (RedisKeys_presence u) ''online'' (r_strings (w_redis w))\<rparr>\<rparr>"
  using assms by (simp add: setOnline_def with_redis_Up)

lemma isOnline_after_setOnline:
  "w_link w = Up \<Longrightarrow> t < now + 1000 * RedisTtl_presenceSeconds \<Longrightarrow> isOnline t u (setOnline now u w)"
  by (simp add: setOnline_Up isOnline_def with_redis_Up live_put_ex_later)

lemma isOnline_cong:
  "w_link w' = w_link w \<Longrightarrow> r_strings (w_redis w') = r_strings (w_redis w) \<Longrightarrow> isOnline t u w' = isOnline t u w"
  by (simp add: isOnline_def with_redis_def split: link.split)

lemma finish_connection_ok:
  assumes "ge_channelsDb env"
  shows "fst (finish_connection env True True now u c g) =
      fst (pushPresence (ge_peersDb env) now u (fst (addSocket now (su_id u) (so_id c) (gw_world g)) = Some 1)
        (client_emit ''connected'' (JObj [(''userId'', JStr (su_id u)), (''username'', JStr (su_username u)), (''socketId'', JStr (so_id c))])
          (c\<lparr>so_rooms := so_rooms c @ connect_rooms (su_id u) (w_db (gw_world g))\<rparr>))
        (startHeartbeat (so_id c) (g\<lparr>gw_world := setOnline now (su_id u) (snd (addSocket now (su_id u) (so_id c) (gw_world g)))\<rparr>)))"
    "so_id c \<in> set (gw_heartbeats (snd (finish_connection env True True now u c g)))"
    "w_redis (gw_world (snd (finish_connection env True True now u c g))) = w_redis (setOnline now (su_id u) (snd (addSocket now (su_id u) (so_id c) (gw_world g))))"
    "w_link (gw_world (snd (finish_connection env True True now u c g))) = w_link (gw_world g)"
  using assms
  by (simp_all add: finish_connection_def split_beta Let_def pushPresence_gateway startHeartbeat_def stopHeartbeat_def)

lemma finish_connection_refused:
  assumes "\<not> (ge_channelsDb env \<and> conn1 \<and> conn2)"
  shows "\<not> so_connected (fst (finish_connection env conn1 conn2 now u c g))"
    "gw_heartbeats (snd (finish_connection env conn1 conn2 now u c g)) = gw_heartbeats g"
    "\<exists>r. so_sent (fst (finish_connection env conn1 conn2 now u c g)) = so_sent c @ r \<and> (\<forall>x \<in> set r. fst x = ''error'')"
  using assms by (auto simp: finish_connection_def split_beta Let_def)

section \<open>Properties\<close>

definition told_connected :: "socket_client \<Rightarrow> bool" where
  "told_connected c = list_ex (\<lambda>x. fst x = ''connected'') (so_sent c)"

definition admissible :: "gate_env \<Rightarrow> handshake \<Rightarrow> time \<Rightarrow> world \<Rightarrow> SocketAuthUser \<Rightarrow> bool" where
  "admissible env hs now w u \<longleftrightarrow>
     rl_allowed (fst (checkRateLimit (''conn-ip:'' @ clientIp (ge_trustProxy env) hs) RL_CONNECTION_PER_IP now w)) \<and>
     (\<exists>tok p. extractSocketToken hs = Some tok \<and> tok \<noteq> [] \<and> ge_verify env tok = Inr p \<and> ge_userDb env \<and>
        active_user (jp_sub p) (w_db w) = Some u)"

lemma handleConnection_cases:
  assumes run: "handleConnection env hs conn1 conn2 now c g = (c', g')"
  obtains (refused) code m w1 where "c' = rejectConnection code m c" "g' = g\<lparr>gw_world := w1\<rparr>" "\<forall>u. \<not> admissible env hs now (gw_world g) u"
  | (admitted) u e w1 where "admissible env hs now (gw_world g) u" "w_db w1 = w_db (gw_world g)" "w_link w1 = w_link (gw_world g)"
      "r_zsets (w_redis w1) = r_zsets (w_redis (gw_world g))" "r_pending (w_redis w1) = r_pending (w_redis (gw_world g))" 
      "finish_connection env conn1 conn2 now u (c\<lparr>so_user := Some u, so_tokenExp := e\<rparr>) (g\<lparr>gw_world := w1\<rparr>) = (c', g')"
proof -
  let ?k = "''conn-ip:'' @ clientIp (ge_trustProxy env) hs"
  define w1 where "w1 = snd (checkRateLimit ?k RL_CONNECTION_PER_IP now (gw_world g))"
  have z: "r_zsets (w_redis w1) = r_zsets (w_redis (gw_world g))" "r_pending (w_redis w1) = r_pending (w_redis (gw_world g))"
    by (simp_all add: w1_def checkRateLimit_def upd_counters_def split_beta Let_def split: link.splits)
  have db: "w_db w1 = w_db (gw_world g)" "w_link w1 = w_link (gw_world g)" by (simp_all add: w1_def checkRateLimit_frame)
  show thesis
  proof (cases "rl_allowed (fst (checkRateLimit ?k RL_CONNECTION_PER_IP now (gw_world g)))")
    case False
    then show thesis using run
      by (intro refused[of "''RATE_LIMITED''" "''Too many connections''" w1]) (auto simp: handleConnection_def w1_def admissible_def split_beta Let_def)
  next
    case ok: True
    show thesis
    proof (cases "authenticate env hs (w_db (gw_world g))")
      case (Inl x)
      have "\<not> admissible env hs now (gw_world g) u" for u
      proof
        assume "admissible env hs now (gw_world g) u"
        then have "\<exists>e. authenticate env hs (w_db (gw_world g)) = Inr (u, e)" unfolding admissible_def authenticate_Inr by blast
        then show False using Inl by simp
      qed
      moreover have "c' = rejectConnection (fst x) (snd x) c" "g' = g\<lparr>gw_world := w1\<rparr>"
        using run ok Inl db by (simp_all add: handleConnection_def w1_def split_beta Let_def)
      ultimately show thesis by (intro refused) auto
    next
      case (Inr y)
      obtain u e where y: "y = (u, e)" by fastforce
      have "admissible env hs now (gw_world g) u" using ok Inr y authenticate_Inr[of env hs "w_db (gw_world g)" u e] by (auto simp: admissible_def)
      moreover have "finish_connection env conn1 conn2 now u (c\<lparr>so_user := Some u, so_tokenExp := e\<rparr>) (g\<lparr>gw_world := w1\<rparr>) = (c', g')"
        using run ok Inr y db by (simp add: handleConnection_def w1_def split_beta Let_def)
      ultimately show thesis using admitted db z by blast
    qed
  qed
qed

text \<open>
  C23: Only authenticated users get a connection. A new socket is told \<open>connected\<close> exactly when its address is
  within the connection limit, its handshake carries a token the JWT library accepts whose subject is an
  active user, and the set-up runs through. Then it acts for that user, is in the rooms of the user
  and of every channel of the user, has a heartbeat, and while Redis answers it is
  registered and the user is online. Any other socket ends disconnected and without heartbeat.
\<close>

theorem connection_authenticated:
  assumes new: "so_sent c = []" "so_rooms c = []" "so_connected c" "so_id c \<notin> set (gw_heartbeats g)"
    and run: "handleConnection env hs conn1 conn2 now c g = (c', g')"
  shows "(told_connected c' \<longleftrightarrow> (\<exists>u. admissible env hs now (gw_world g) u) \<and> ge_channelsDb env \<and> conn1 \<and> conn2) \<and>
    (told_connected c' \<longrightarrow> (\<exists>u row. so_user c' = Some u \<and> admissible env hs now (gw_world g) u \<and> row \<in> set (users (w_db (gw_world g))) \<and>
      u_isActive row \<and> su_id u = u_id row \<and> so_rooms c' = connect_rooms (su_id u) (w_db (gw_world g)) \<and> so_connected c' \<and>
      so_id c \<in> set (gw_heartbeats g') \<and>
      (w_link (gw_world g) = Up \<and> zsets_ok (w_redis (gw_world g)) \<longrightarrow>
         isOnline now (su_id u) (gw_world g') \<and> so_id c \<in> live_sockets now (su_id u) (gw_world g')))) \<and>
    (\<not> told_connected c' \<longrightarrow> \<not> so_connected c' \<and> so_id c \<notin> set (gw_heartbeats g'))"
  using run
proof (cases rule: handleConnection_cases)
  case (refused code m w1)
  then show ?thesis using new by (simp add: told_connected_def)
next
  case (admitted u e w1)
  let ?c = "c\<lparr>so_user := Some u, so_tokenExp := e\<rparr>" and ?g = "g\<lparr>gw_world := w1\<rparr>"
  show ?thesis
  proof (cases "ge_channelsDb env \<and> conn1 \<and> conn2")
    case False
    note r = finish_connection_refused[OF False, of now u ?c ?g]
    obtain x where "so_sent c' = x" "\<forall>y \<in> set x. fst y = ''error''" using r(3) admitted(6) new(1) by auto
    then have "\<not> told_connected c'" by (auto simp: told_connected_def list_ex_iff)
    then show ?thesis using False r(1,2) admitted(6) new(4) by simp
  next
    case True
    then have t: "ge_channelsDb env" "finish_connection env True True now u ?c ?g = (c', g')" using admitted(6) by simp_all
    note f = finish_connection_ok[OF t(1), where now = now and u = u and c = ?c and g = ?g]
    let ?c1 = "client_emit ''connected'' (JObj [(''userId'', JStr (su_id u)), (''username'', JStr (su_username u)), (''socketId'', JStr (so_id ?c))])
          (?c\<lparr>so_rooms := so_rooms ?c @ connect_rooms (su_id u) (w_db (gw_world ?g))\<rparr>)"
    obtain pd fs h where c': "c' = fst (pushPresence pd now u fs ?c1 h)" using f(1) t(2) by auto
    obtain r where r: "so_sent c' = so_sent ?c1 @ r" using pushPresence_client(4)[of pd now u fs ?c1 h] c' by blast
    have told: "told_connected c'" using r by (simp add: told_connected_def)
    have cl: "so_user c' = Some u" "so_rooms c' = connect_rooms (su_id u) (w_db (gw_world g))" "so_connected c'"
      using new(2,3) admitted(2) by (simp_all add: c' pushPresence_client)
    have hb: "so_id c \<in> set (gw_heartbeats g')" using f(2) t(2) by simp
    obtain row where row: "row \<in> set (users (w_db (gw_world g)))" "u_isActive row" "su_id u = u_id row"
      using admitted(1) active_user_Some by (fastforce simp: admissible_def)
    have "isOnline now (su_id u) (gw_world g') \<and> so_id c \<in> live_sockets now (su_id u) (gw_world g')"
      if up: "w_link (gw_world g) = Up" "zsets_ok (w_redis (gw_world g))"
    proof -
      let ?w = "snd (addSocket now (su_id u) (so_id c) w1)"
      have ok1: "w_link w1 = Up" "zsets_ok (w_redis w1)" using up admitted(3,4,5) by (simp_all add: zsets_ok_def)
      have ok2: "w_link ?w = Up" using ok1(1) by (simp add: addSocket_def)
      have g': "w_redis (gw_world g') = w_redis (setOnline now (su_id u) ?w)" "w_link (gw_world g') = Up" using f(3,4) t(2) ok1(1) by simp_all
      have "isOnline now (su_id u) (setOnline now (su_id u) ?w)" using ok2 by (intro isOnline_after_setOnline) (simp_all add: redis_ttl_defs)
      moreover have "w_link (setOnline now (su_id u) ?w) = Up" using ok2 by (simp add: setOnline_Up)
      ultimately have on: "isOnline now (su_id u) (gw_world g')" using isOnline_cong[of "gw_world g'" "setOnline now (su_id u) ?w" now "su_id u"] g' by simp
      have "live_sockets now (su_id u) (gw_world g') = live_sockets now (su_id u) ?w"
        using g'(1) ok2 by (intro live_sockets_cong) (simp add: setOnline_Up)
      then show ?thesis using on addSocket_live(1)[OF ok1] by simp
    qed
    then show ?thesis using told cl hb row admitted(1) True by blast
  qed
qed

definition sample_env :: gate_env where
  "sample_env = \<lparr>ge_verify = (\<lambda>t. if t = ''tok'' then Inr \<lparr>jp_sub = su_id sample_ann, jp_exp = Some 900\<rparr> else Inl JsonWebTokenError),
     ge_trustProxy = False, ge_userDb = True, ge_channelsDb = True, ge_peersDb = True\<rparr>"

definition sample_hs :: handshake where
  "sample_hs = \<lparr>hs_authToken = Some (JStr ''tok''), hs_authorization = None, hs_forwardedFor = [], hs_address = ''10.0.0.1''\<rparr>"

definition sample_client :: socket_client where
  "sample_client = \<lparr>so_id = ''s1'', so_user = None, so_tokenExp = None, so_connected = True, so_rooms = [], so_sent = []\<rparr>"

definition sample_gateway :: gateway where
  "sample_gateway = \<lparr>gw_world = sample_call_world, gw_heartbeats = [], gw_typing = []\<rparr>"

definition sample_auth_ann :: SocketAuthUser where
  "sample_auth_ann = \<lparr>su_id = su_id sample_ann, su_username = su_username sample_ann, su_status = ''ACTIVE''\<rparr>"

lemma sample_active: "active_user (su_id sample_ann) (w_db sample_call_world) = Some sample_auth_ann"
  by (simp add: active_user_def sample_call_world_def sample_user_def sample_ann_def sample_bob_def sample_cleo_def sample_auth_ann_def
      to_lower_def lower_char_def)

lemma rate_limit_first:
  "live now (r_counters (w_redis w)) (''zevra:ratelimit:'' @ key) = None \<Longrightarrow> 1 \<le> maxRequests config \<Longrightarrow>
   rl_allowed (fst (checkRateLimit key config now w))"
  by (simp add: checkRateLimit_def fixed_window_script_def Let_def split_beta split: link.split)

lemma sample_admissible: "admissible sample_env sample_hs 5 sample_call_world sample_auth_ann"
proof -
  have "rl_allowed (fst (checkRateLimit (''conn-ip:'' @ clientIp (ge_trustProxy sample_env) sample_hs) RL_CONNECTION_PER_IP 5 sample_call_world))"
    by (rule rate_limit_first) (simp_all add: sample_call_world_facts(3) RL_CONNECTION_PER_IP_def)
  then show ?thesis using sample_active by (simp add: admissible_def extractSocketToken_def sample_hs_def sample_env_def)
qed

theorem connection_authenticated_witness:
  "told_connected (fst (handleConnection sample_env sample_hs True True 5 sample_client sample_gateway)) \<and>
   \<not> told_connected (fst (handleConnection sample_env (sample_hs\<lparr>hs_authToken := None\<rparr>) True True 5 sample_client sample_gateway))"
proof -
  have new: "so_sent sample_client = []" "so_rooms sample_client = []" "so_connected sample_client" "so_id sample_client \<notin> set (gw_heartbeats sample_gateway)"
    by (simp_all add: sample_client_def sample_gateway_def)
  have w: "gw_world sample_gateway = sample_call_world" by (simp add: sample_gateway_def)
  have "\<not> admissible sample_env (sample_hs\<lparr>hs_authToken := None\<rparr>) 5 sample_call_world u" for u
    by (simp add: admissible_def extractSocketToken_def sample_hs_def)
  then show ?thesis
    using connection_authenticated[OF new, of sample_env sample_hs True True 5 _ _]
      connection_authenticated[OF new, of sample_env "sample_hs\<lparr>hs_authToken := None\<rparr>" True True 5 _ _]
      sample_admissible w by (metis prod.collapse sample_env_def gate_env.select_convs(4))
qed

section \<open>Typing timers\<close>

text \<open>
  The map of typing timers: one entry per socket and channel, under the key of both; no timer lies further ahead
  than the auto-stop. Socket ids hold no bar, so a key has one reading.
\<close>

definition typing_ok :: "time \<Rightarrow> gateway \<Rightarrow> bool" where
  "typing_ok now g \<longleftrightarrow> distinct (map fst (gw_typing g)) \<and>
     (\<forall>(k, t) \<in> set (gw_typing g). (\<exists>s. CHR ''|'' \<notin> set s \<and> k = timeout_key s (tt_channel t)) \<and> tt_deadline t \<le> now + TYPING_AUTO_STOP_MS)"

lemma typing_okD:
  "typing_ok now g \<Longrightarrow> (k, t) \<in> set (gw_typing g) \<Longrightarrow>
     (\<exists>s. CHR ''|'' \<notin> set s \<and> k = timeout_key s (tt_channel t)) \<and> tt_deadline t \<le> now + TYPING_AUTO_STOP_MS"
  unfolding typing_ok_def by fast

lemma typing_okI:
  assumes "distinct (map fst (gw_typing g))"
    and "\<And>k t. (k, t) \<in> set (gw_typing g) \<Longrightarrow>
      (\<exists>s. CHR ''|'' \<notin> set s \<and> k = timeout_key s (tt_channel t)) \<and> tt_deadline t \<le> now + TYPING_AUTO_STOP_MS"
  shows "typing_ok now g"
  unfolding typing_ok_def using assms by blast

lemma typing_ok_sub:
  assumes "typing_ok now g" "set (gw_typing g') \<subseteq> set (gw_typing g)" "distinct (map fst (gw_typing g'))"
  shows "typing_ok now g'"
  using assms(2,3) typing_okD[OF assms(1)] by (intro typing_okI) blast+

lemma typing_ok_update:
  assumes "typing_ok now g" "CHR ''|'' \<notin> set s" "gw_typing g' = AList.update (timeout_key s ch) \<lparr>tt_deadline = now + TYPING_AUTO_STOP_MS, tt_user = u, tt_channel = ch\<rparr> (gw_typing g)"
  shows "typing_ok now g'"
proof (rule typing_okI)
  have d: "distinct (map fst (gw_typing g))" using assms(1) by (simp add: typing_ok_def)
  then show d': "distinct (map fst (gw_typing g'))" unfolding assms(3) by (rule distinct_update)
  fix k t assume "(k, t) \<in> set (gw_typing g')"
  then have "map_of (gw_typing g') k = Some t" using d' by (simp add: map_of_eq_Some_iff)
  then have "(k, t) \<in> set (gw_typing g) \<or> k = timeout_key s ch \<and> t = \<lparr>tt_deadline = now + TYPING_AUTO_STOP_MS, tt_user = u, tt_channel = ch\<rparr>"
    by (auto simp: assms(3) update_conv dest: map_of_SomeD split: if_splits)
  then show "(\<exists>s. CHR ''|'' \<notin> set s \<and> k = timeout_key s (tt_channel t)) \<and> tt_deadline t \<le> now + TYPING_AUTO_STOP_MS"
    using typing_okD[OF assms(1)] assms(2) by auto
qed

lemma typing_ok_delete:
  assumes "typing_ok now g" "gw_typing g' = AList.delete k (gw_typing g)"
  shows "typing_ok now g'"
proof (rule typing_ok_sub[OF assms(1)])
  show "set (gw_typing g') \<subseteq> set (gw_typing g)" by (auto simp: assms(2) AList.delete_eq)
  show "distinct (map fst (gw_typing g'))" using assms(1) distinct_delete[of "gw_typing g" k] by (simp add: assms(2) typing_ok_def)
qed

lemma timeout_key_prefix:
  assumes "CHR ''|'' \<notin> set s" "CHR ''|'' \<notin> set s'"
  shows "starts_with (s @ ''|'') (timeout_key s' ch) \<longleftrightarrow> s = s'"
proof
  assume "starts_with (s @ ''|'') (timeout_key s' ch)"
  then have "take (length s + 1) (s' @ ''|'' @ ch) = s @ ''|''" by (simp add: starts_with_def timeout_key_def)
  then have "\<exists>rest. s' @ CHR ''|'' # ch = s @ CHR ''|'' # rest" by (metis append_Cons append_Nil append_assoc append_take_drop_id)
  then obtain rest where e: "s' @ CHR ''|'' # ch = s @ CHR ''|'' # rest" by blast
  have "takeWhile (\<lambda>c. c \<noteq> CHR ''|'') (s' @ CHR ''|'' # ch) = s'" "takeWhile (\<lambda>c. c \<noteq> CHR ''|'') (s @ CHR ''|'' # rest) = s"
    using assms by (subst takeWhile_append2; auto)+
  then show "s = s'" using e by simp
qed (simp add: starts_with_def timeout_key_def)

lemma fold_stopTyping_out:
  assumes "w_server w"
  shows "w_out (fold (\<lambda>ch w. stopTyping now u ch w) chs w) = w_out w @
      map (\<lambda>ch. Emit [channelRoom ch] (emit_except \<lparr>exceptSocketId = None, exceptUserId = Some (su_id u)\<rparr>) ''typing:stop''
        (JObj [(''userId'', JStr (su_id u)), (''username'', JStr (su_username u)), (''channelId'', JStr ch)])) chs"
  using assms
proof (induction chs arbitrary: w)
  case (Cons ch chs)
  have "w_server (stopTyping now u ch w)" "w_out (stopTyping now u ch w) = w_out w @ [Emit [channelRoom ch]
      (emit_except \<lparr>exceptSocketId = None, exceptUserId = Some (su_id u)\<rparr>) ''typing:stop''
        (JObj [(''userId'', JStr (su_id u)), (''username'', JStr (su_username u)), (''channelId'', JStr ch)])]"
    using Cons.prems by (simp_all add: stopTyping_def emitTyping_def emitToChannel_def send_out_def clearTyping_def)
  then show ?case using Cons.IH by simp
qed simp

lemma clearTypingFor_run:
  assumes "typing_ok now0 g" "CHR ''|'' \<notin> set (so_id c)" "so_user c = Some u"
  shows "clearTypingFor now c g = g\<lparr>gw_typing := filter (\<lambda>(k, t). k \<noteq> timeout_key (so_id c) (tt_channel t)) (gw_typing g),
     gw_world := fold (stopTyping now u) (map (tt_channel \<circ> snd) (filter (\<lambda>(k, t). k = timeout_key (so_id c) (tt_channel t)) (gw_typing g))) (gw_world g)\<rparr>"
proof -
  let ?p = "so_id c @ ''|''"
  have key: "starts_with ?p k \<longleftrightarrow> k = timeout_key (so_id c) (tt_channel t)" if kt: "(k, t) \<in> set (gw_typing g)" for k t
  proof -
    obtain s where "CHR ''|'' \<notin> set s" "k = timeout_key s (tt_channel t)" using typing_okD[OF assms(1) kt] by blast
    then show ?thesis using timeout_key_prefix[OF assms(2), of s "tt_channel t"] by (auto simp: timeout_key_def)
  qed
  have f: "filter (\<lambda>(k, t). starts_with ?p k) (gw_typing g) = filter (\<lambda>(k, t). k = timeout_key (so_id c) (tt_channel t)) (gw_typing g)"
    "filter (\<lambda>(k, t). \<not> starts_with ?p k) (gw_typing g) = filter (\<lambda>(k, t). k \<noteq> timeout_key (so_id c) (tt_channel t)) (gw_typing g)"
    using key by (auto intro!: filter_cong)
  have d: "drop (Suc (length (so_id c))) (timeout_key (so_id c) ch) = ch" for ch by (simp add: timeout_key_def)
  have st: "fold (\<lambda>(key, t) w. stopTyping now u (drop (length ?p) key) w) (filter (\<lambda>(k, t). k = timeout_key (so_id c) (tt_channel t)) xs) w =
      fold (stopTyping now u) (map (tt_channel \<circ> snd) (filter (\<lambda>(k, t). k = timeout_key (so_id c) (tt_channel t)) xs)) w" for xs w
    by (induction xs arbitrary: w) (auto simp: d)
  show ?thesis unfolding clearTypingFor_def Let_def f using assms(3) st[of "gw_typing g" "gw_world g"] by simp
qed

text \<open>
  No typing indicator is left behind by a socket. Starting to type sets a timer that stops it six seconds later;
  when the socket disconnects, every timer of it is gone, a \<open>typing:stop\<close> has gone out for each of these
  channels, once and to everyone but the user, and the timers of other sockets stay; the timers stay
  well formed under every event.
\<close>

theorem disconnect_stops_typing:
  assumes ok: "typing_ok now g" and id: "CHR ''|'' \<notin> set (so_id c)" and u: "so_user c = Some u" and srv: "w_server (gw_world g)"
  shows "(\<forall>(k, t) \<in> set (gw_typing (clearTypingFor now c g)). k \<noteq> timeout_key (so_id c) (tt_channel t)) \<and>
    (\<forall>(k, t) \<in> set (gw_typing g). k \<noteq> timeout_key (so_id c) (tt_channel t) \<longrightarrow> (k, t) \<in> set (gw_typing (clearTypingFor now c g))) \<and>
    gw_typing (socket_handleDisconnect pd now c g) = gw_typing (clearTypingFor now c g) \<and>
    w_out (gw_world (clearTypingFor now c g)) = w_out (gw_world g) @
      map (\<lambda>(k, t). Emit [channelRoom (tt_channel t)] (emit_except \<lparr>exceptSocketId = None, exceptUserId = Some (su_id u)\<rparr>) ''typing:stop''
        (JObj [(''userId'', JStr (su_id u)), (''username'', JStr (su_username u)), (''channelId'', JStr (tt_channel t))]))
        (filter (\<lambda>(k, t). k = timeout_key (so_id c) (tt_channel t)) (gw_typing g)) \<and>
    typing_ok now (socket_handleDisconnect pd now c g) \<and>
    typing_ok now (snd (handleTypingStart valid (so_id c) u data now g)) \<and>
    typing_ok now (snd (handleTypingStop valid (so_id c) u data now g)) \<and>
    typing_ok now (typing_timeout now key g) \<and>
    (fst (handleTypingStart valid (so_id c) u data now g) = Inr () \<longrightarrow>
      (\<exists>ch t. validatePayload valid data = Inr ch \<and> tt_deadline t = now + 6000 \<and> tt_channel t = ch \<and> tt_user t = u \<and>
        map_of (gw_typing (snd (handleTypingStart valid (so_id c) u data now g))) (timeout_key (so_id c) ch) = Some t))"
proof -
  note run = clearTypingFor_run[OF ok id u, of now]
  let ?mine = "filter (\<lambda>(k, t). k = timeout_key (so_id c) (tt_channel t)) (gw_typing g)"
  have g1: "gw_typing (clearTypingFor now c g) = filter (\<lambda>(k, t). k \<noteq> timeout_key (so_id c) (tt_channel t)) (gw_typing g)" by (simp add: run)
  have dis: "gw_typing (socket_handleDisconnect pd now c g) = gw_typing (clearTypingFor now c g)"
    by (simp add: socket_handleDisconnect_def u split_beta Let_def clearTypingFor_def stopHeartbeat_def)
  have out: "w_out (gw_world (clearTypingFor now c g)) = w_out (gw_world g) @
      map (\<lambda>(k, t). Emit [channelRoom (tt_channel t)] (emit_except \<lparr>exceptSocketId = None, exceptUserId = Some (su_id u)\<rparr>) ''typing:stop''
        (JObj [(''userId'', JStr (su_id u)), (''username'', JStr (su_username u)), (''channelId'', JStr (tt_channel t))])) ?mine"
    unfolding run using fold_stopTyping_out[OF srv, of now u "map (tt_channel \<circ> snd) ?mine"] by (simp add: case_prod_beta' comp_def)
  have d: "typing_ok now (socket_handleDisconnect pd now c g)"
    using ok distinct_map_filter[of fst "gw_typing g"] by (intro typing_ok_sub[OF ok]) (auto simp: dis g1 typing_ok_def)
  obtain r w1 where r: "typing_checks valid u data now (gw_world g) = (r, w1)" by fastforce
  have st: "typing_ok now (snd (handleTypingStart valid (so_id c) u data now g)) \<and> typing_ok now (snd (handleTypingStop valid (so_id c) u data now g))"
  proof (cases r)
    case (Inl e)
    then show ?thesis using ok r by (simp add: handleTypingStart_def handleTypingStop_def typing_ok_def)
  next
    case (Inr ch)
    then show ?thesis using r typing_ok_update[OF ok id, of _ ch u] typing_ok_delete[OF ok]
      by (simp add: handleTypingStart_def handleTypingStop_def)
  qed
  have tt: "typing_ok now (typing_timeout now key g)"
    using ok typing_ok_delete[OF ok, of _ key] by (simp add: typing_timeout_def split: option.split)
  have start: "\<exists>ch t. validatePayload valid data = Inr ch \<and> tt_deadline t = now + 6000 \<and> tt_channel t = ch \<and> tt_user t = u \<and>
        map_of (gw_typing (snd (handleTypingStart valid (so_id c) u data now g))) (timeout_key (so_id c) ch) = Some t"
    if yes: "fst (handleTypingStart valid (so_id c) u data now g) = Inr ()"
  proof -
    obtain ch where ch: "r = Inr ch" using yes r by (cases r) (auto simp: handleTypingStart_def)
    have "validatePayload valid data = Inr ch" using r ch
      by (cases "validatePayload valid data") (auto simp: typing_checks_def bindW_def split: prod.splits sum.splits)
    then show ?thesis using r ch by (auto simp: handleTypingStart_def update_conv TYPING_AUTO_STOP_MS_def)
  qed
  have keep: "(\<forall>(k, t) \<in> set (gw_typing (clearTypingFor now c g)). k \<noteq> timeout_key (so_id c) (tt_channel t)) \<and>
    (\<forall>(k, t) \<in> set (gw_typing g). k \<noteq> timeout_key (so_id c) (tt_channel t) \<longrightarrow> (k, t) \<in> set (gw_typing (clearTypingFor now c g)))"
    by (auto simp: g1)
  show ?thesis using keep dis out d st tt start by blast
qed

definition sample_typing :: gateway where
  "sample_typing = sample_gateway\<lparr>gw_typing := [(timeout_key ''s1'' ''c1'', \<lparr>tt_deadline = 6005, tt_user = sample_auth_ann, tt_channel = ''c1''\<rparr>),
     (timeout_key ''s2'' ''c1'', \<lparr>tt_deadline = 6004, tt_user = sample_auth_ann, tt_channel = ''c1''\<rparr>)]\<rparr>"

theorem disconnect_stops_typing_witness:
  "map fst (gw_typing (clearTypingFor 5 (sample_client\<lparr>so_user := Some sample_auth_ann\<rparr>) sample_typing)) = [timeout_key ''s2'' ''c1''] \<and>
   length (w_out (gw_world (clearTypingFor 5 (sample_client\<lparr>so_user := Some sample_auth_ann\<rparr>) sample_typing))) = 1"
proof -
  let ?c = "sample_client\<lparr>so_user := Some sample_auth_ann\<rparr>"
  have ok: "typing_ok 5 sample_typing"
  proof (rule typing_okI)
    show "distinct (map fst (gw_typing sample_typing))" by (simp add: sample_typing_def timeout_key_def)
    fix k t assume "(k, t) \<in> set (gw_typing sample_typing)"
    then have "(k = timeout_key ''s1'' (tt_channel t) \<or> k = timeout_key ''s2'' (tt_channel t)) \<and> tt_deadline t \<le> 5 + TYPING_AUTO_STOP_MS"
      by (auto simp: sample_typing_def TYPING_AUTO_STOP_MS_def)
    moreover have "CHR ''|'' \<notin> set ''s1''" "CHR ''|'' \<notin> set ''s2''" by simp_all
    ultimately show "(\<exists>s. CHR ''|'' \<notin> set s \<and> k = timeout_key s (tt_channel t)) \<and> tt_deadline t \<le> 5 + TYPING_AUTO_STOP_MS" by blast
  qed
  have f: "CHR ''|'' \<notin> set (so_id ?c)" "so_user ?c = Some sample_auth_ann" "w_server (gw_world sample_typing)" "w_out (gw_world sample_typing) = []"
    by (simp_all add: sample_client_def sample_typing_def sample_gateway_def sample_call_world_def)
  note t = disconnect_stops_typing[OF ok f(1-3), of True "\<lambda>_. ([], [])" JNull "[]"]
  have run: "gw_typing (clearTypingFor 5 ?c sample_typing) = filter (\<lambda>(k, t). k \<noteq> timeout_key (so_id ?c) (tt_channel t)) (gw_typing sample_typing)"
    using clearTypingFor_run[OF ok f(1,2), of 5] by simp
  have "map fst (gw_typing (clearTypingFor 5 ?c sample_typing)) = [timeout_key ''s2'' ''c1'']"
    unfolding run by (simp add: sample_typing_def sample_client_def timeout_key_def)
  moreover have "length (w_out (gw_world (clearTypingFor 5 ?c sample_typing))) = 1"
    using conjunct1[OF conjunct2[OF conjunct2[OF conjunct2[OF t]]]] f(4) by (simp add: sample_typing_def sample_client_def timeout_key_def)
  ultimately show ?thesis by simp
qed

section \<open>Presence\<close>

lemma typing_not_sockets [simp]: "RedisKeys_typing c \<noteq> RedisKeys_sockets u" "RedisKeys_sockets u \<noteq> RedisKeys_typing c"
  by (simp_all add: RedisKeys_typing_def RedisKeys_sockets_def)

lemma stopTyping_frame [simp]:
  "w_link (stopTyping now u ch w) = w_link w" "w_db (stopTyping now u ch w) = w_db w" "w_server (stopTyping now u ch w) = w_server w"
  "r_strings (w_redis (stopTyping now u ch w)) = r_strings (w_redis w)"
  "r_zsets (w_redis (stopTyping now u ch w)) (RedisKeys_sockets v) = r_zsets (w_redis w) (RedisKeys_sockets v)"
  "zsets_ok (w_redis w) \<Longrightarrow> zsets_ok (w_redis (stopTyping now u ch w))"
  by (simp_all add: stopTyping_def emitTyping_def emitToChannel_def send_out_def)
    (simp_all add: clearTyping_def with_redis_def put_keep_list_def put_keep_def del_key_def Let_def split: link.split option.split)

lemma fold_stopTyping_frame [simp]:
  "w_link (fold (stopTyping now u) chs w) = w_link w" "w_db (fold (stopTyping now u) chs w) = w_db w"
  "w_server (fold (stopTyping now u) chs w) = w_server w"
  "r_strings (w_redis (fold (stopTyping now u) chs w)) = r_strings (w_redis w)"
  "r_zsets (w_redis (fold (stopTyping now u) chs w)) (RedisKeys_sockets v) = r_zsets (w_redis w) (RedisKeys_sockets v)"
  "zsets_ok (w_redis w) \<Longrightarrow> zsets_ok (w_redis (fold (stopTyping now u) chs w))"
  by (induction chs arbitrary: w) simp_all

lemma clearTypingFor_world:
  assumes "so_user c = Some u"
  shows "\<exists>chs. gw_world (clearTypingFor now c g) = fold (stopTyping now u) chs (gw_world g)"
proof -
  have "\<exists>chs. fold (\<lambda>(key, t) w. stopTyping now u (drop n key) w) xs w = fold (stopTyping now u) chs w" for xs :: "(string \<times> typing_timer) list" and w n
    by (rule exI[of _ "map (drop n \<circ> fst) xs"]) (induction xs arbitrary: w, auto)
  then show ?thesis using assms by (auto simp: clearTypingFor_def Let_def)
qed

text \<open>
  C35: A user goes offline with the last socket. When a socket disconnects and no other socket of the user is alive
  anywhere in the cluster, the user is no longer shown online and exactly the users with whom there is a
  direct channel are told; while another socket is alive, the presence of the user does not change and nobody is
  told.
\<close>

theorem last_socket_goes_offline:
  assumes up: "w_link (gw_world g) = Up" "zsets_ok (w_redis (gw_world g))" "w_server (gw_world g)" and u: "so_user c = Some u"
  shows "let w' = gw_world (socket_handleDisconnect True now c g); typed = w_out (gw_world (clearTypingFor now c g)) in
    live_sockets now (su_id u) w' = live_sockets now (su_id u) (gw_world g) - {so_id c} \<and>
    (live_sockets now (su_id u) (gw_world g) \<subseteq> {so_id c} \<longrightarrow>
       \<not> isOnline t (su_id u) w' \<and>
       w_out w' = typed @ (let peers = getUserDMPeers (su_id u) (w_db (gw_world g)) in
         if peers = [] then [] else [Emit (map userRoom peers) [] ''user:left'' (presence_json u)])) \<and>
    (\<not> live_sockets now (su_id u) (gw_world g) \<subseteq> {so_id c} \<longrightarrow>
       isOnline t (su_id u) w' = isOnline t (su_id u) (gw_world g) \<and> w_out w' = typed)"
proof -
  let ?g1 = "clearTypingFor now c (stopHeartbeat (so_id c) g)"
  have g1: "gw_world ?g1 = gw_world (clearTypingFor now c g)" by (simp add: clearTypingFor_def stopHeartbeat_def Let_def)
  obtain chs where chs: "gw_world ?g1 = fold (stopTyping now u) chs (gw_world g)" using clearTypingFor_world[OF u] g1 by auto
  define w1 where "w1 = gw_world ?g1"
  have w1: "w_link w1 = Up" "zsets_ok (w_redis w1)" "w_server w1" "w_db w1 = w_db (gw_world g)" "r_strings (w_redis w1) = r_strings (w_redis (gw_world g))"
    "live_sockets now (su_id u) w1 = live_sockets now (su_id u) (gw_world g)"
    using up by (simp_all add: w1_def chs) (rule live_sockets_cong, simp)
  define rm where "rm = removeSocket now (su_id u) (so_id c) w1"
  note live = removeSocket_live[OF w1(1,2), of now "su_id u" "so_id c", folded rm_def]
  have cnt: "fst rm = Some 0 \<longleftrightarrow> live_sockets now (su_id u) (gw_world g) \<subseteq> {so_id c}"
    using live(2) live_sockets_finite[OF w1(2), of now "su_id u"] w1(6) by auto
  have rmf: "w_link (snd rm) = Up" "w_out (snd rm) = w_out w1" "w_server (snd rm)" "w_db (snd rm) = w_db w1" "r_strings (w_redis (snd rm)) = r_strings (w_redis w1)"
    using w1(1,3) by (simp_all add: rm_def removeSocket_def with_redis_Up Let_def)
  let ?w' = "gw_world (socket_handleDisconnect True now c g)"
  have run: "?w' = (if fst rm \<noteq> Some 0 then snd rm
      else emitToUsers (getUserDMPeers (su_id u) (w_db (setOffline (su_id u) (snd rm)))) ''user:left'' (presence_json u) (setOffline (su_id u) (snd rm)))"
    by (simp add: socket_handleDisconnect_def u split_beta Let_def rm_def w1_def)
  have off: "w_redis (setOffline (su_id u) (snd rm)) = (w_redis (snd rm))\<lparr>r_strings := del_key (RedisKeys_presence (su_id u)) (r_strings (w_redis (snd rm)))\<rparr>"
    "w_link (setOffline (su_id u) (snd rm)) = Up" "w_db (setOffline (su_id u) (snd rm)) = w_db w1" "w_out (setOffline (su_id u) (snd rm)) = w_out w1"
    "w_server (setOffline (su_id u) (snd rm))"
    using rmf by (simp_all add: setOffline_def with_redis_Up)
  have ls: "live_sockets now (su_id u) ?w' = live_sockets now (su_id u) (snd rm)"
    by (rule live_sockets_cong) (simp add: run off)
  have "\<not> isOnline t (su_id u) ?w'" if "fst rm = Some 0"
    using that off(1,2) by (simp add: run isOnline_def with_redis_Up del_key_def live_def)
  moreover have "w_out ?w' = w_out w1 @ (let peers = getUserDMPeers (su_id u) (w_db (gw_world g)) in
         if peers = [] then [] else [Emit (map userRoom peers) [] ''user:left'' (presence_json u)])" if "fst rm = Some 0"
    using that off(3-5) w1(4) by (simp add: run emitToUsers_def send_out_def Let_def)
  moreover have "isOnline t (su_id u) ?w' = isOnline t (su_id u) (gw_world g) \<and> w_out ?w' = w_out w1" if "fst rm \<noteq> Some 0"
    using that rmf w1(5) up(1) isOnline_cong[of "snd rm" "gw_world g" t "su_id u"] by (simp add: run)
  ultimately show ?thesis using ls live(1) w1(6) cnt g1 by (simp add: Let_def w1_def)
qed

text \<open>
  A connection that drops while it is being set up leaves the user shown online. When the socket goes away after it was
  registered, \<open>handleConnection\<close> takes the registration back but not the presence it has just written: without any live
  socket the user stays online for the 90 seconds the key lives.
\<close>

theorem dropped_connection_stays_online:
  assumes adm: "admissible env hs now (gw_world g) u" "ge_channelsDb env" and up: "w_link (gw_world g) = Up" "zsets_ok (w_redis (gw_world g))"
    and none: "live_sockets now (su_id u) (gw_world g) = {}" and t: "t < now + 90000"
  shows "let w' = gw_world (snd (handleConnection env hs True False now c g)) in
    live_sockets now (su_id u) w' = {} \<and> isOnline t (su_id u) w'"
proof -
  obtain c' g' where run: "handleConnection env hs True False now c g = (c', g')" by fastforce
  then have "live_sockets now (su_id u) (gw_world g') = {} \<and> isOnline t (su_id u) (gw_world g')"
  proof (cases rule: handleConnection_cases)
    case (refused code m w1)
    then show ?thesis using adm(1) by blast
  next
    case (admitted v e w1)
    have v: "v = u" using adm(1) admitted(1) by (auto simp: admissible_def)
    have ok1: "w_link w1 = Up" "zsets_ok (w_redis w1)" using up admitted(3,4,5) by (simp_all add: zsets_ok_def)
    let ?a = "snd (addSocket now (su_id u) (so_id c) w1)" and ?s = "so_id c"
    let ?o = "setOnline now (su_id u) ?a"
    have ok2: "w_link ?a = Up" "zsets_ok (w_redis ?a)" using ok1 redis_services_zsets_ok(1)[OF ok1(2)] by (simp_all add: addSocket_def)
    have ok3: "w_link ?o = Up" "zsets_ok (w_redis ?o)" using ok2 by (simp_all add: setOnline_Up zsets_ok_def)
    have g': "gw_world g' = snd (removeSocket now (su_id u) ?s ?o)"
      using admitted(6) adm(2) v by (auto simp: finish_connection_def split_beta Let_def)
    have "live_sockets now (su_id u) w1 = {}" using none live_sockets_cong[of w1 "su_id u" "gw_world g" now] admitted(4) by simp
    then have "live_sockets now (su_id u) ?a = {?s}" using addSocket_live(1)[OF ok1] by simp
    then have "live_sockets now (su_id u) ?o = {?s}" using live_sockets_cong[of ?o "su_id u" ?a now] ok2(1) by (simp add: setOnline_Up)
    then have "live_sockets now (su_id u) (gw_world g') = {}" using removeSocket_live(1)[OF ok3, of now "su_id u" ?s] g' by simp
    moreover have "isOnline t (su_id u) ?o" using t ok2(1) by (intro isOnline_after_setOnline) (simp_all add: redis_ttl_defs)
    then have "isOnline t (su_id u) (gw_world g')"
      using isOnline_cong[of "gw_world g'" ?o t "su_id u"] ok3(1) by (simp add: g' removeSocket_def with_redis_Up Let_def)
    ultimately show ?thesis by blast
  qed
  then show ?thesis using run by simp
qed

lemma sample_gateway_facts:
  "w_link (gw_world sample_gateway) = Up" "zsets_ok (w_redis (gw_world sample_gateway))" "w_server (gw_world sample_gateway)"
  "live_sockets now u (gw_world sample_gateway) = {}" "gw_world sample_gateway = sample_call_world"
  using zsets_ok_empty
  by (simp_all add: sample_gateway_def sample_call_world_def zsets_ok_def live_sockets_def list_at_def live_def empty_redis_def)

theorem last_socket_goes_offline_witness:
  "\<not> isOnline 9 (su_id sample_auth_ann) (gw_world (socket_handleDisconnect True 5 (sample_client\<lparr>so_user := Some sample_auth_ann\<rparr>) sample_gateway))"
  using last_socket_goes_offline[OF sample_gateway_facts(1-3), of "sample_client\<lparr>so_user := Some sample_auth_ann\<rparr>" sample_auth_ann 5 9]
  by (simp add: Let_def sample_gateway_facts(4))

theorem dropped_connection_stays_online_witness:
  "isOnline 60000 (su_id sample_ann) (gw_world (snd (handleConnection sample_env sample_hs True False 5 sample_client sample_gateway)))"
proof -
  have "admissible sample_env sample_hs 5 (gw_world sample_gateway) sample_auth_ann" "ge_channelsDb sample_env"
    using sample_admissible by (simp_all add: sample_gateway_facts(5) sample_env_def)
  from dropped_connection_stays_online[OF this sample_gateway_facts(1,2,4), of 60000 sample_client]
  show ?thesis by (simp add: Let_def sample_auth_ann_def)
qed

end
