(* ===== verification/Srp.thy ===== *)
theory Srp
  imports Zevra_World
begin

text \<open>
  \<open>modules/auth/srp.service.ts\<close> and \<open>shared/crypto/crypto.service.ts\<close>. A \<open>Buffer\<close> is a list of byte
  values, a \<open>bigint\<close> an integer; \<open>%\<close> is the remainder that takes the sign of the dividend. SHA-256,
  HMAC, AES-GCM, Argon2id, the key generators and the random source are arguments. The client's side
  of the handshake is the one the repository's test of the service spells out; the main theorem is
  that such a client, knowing the password, is accepted, and that both sides hold the same key.
\<close>

section \<open>Buffers and numbers\<close>

type_synonym bytes = "nat list"

definition is_bytes :: "bytes \<Rightarrow> bool" where
  "is_bytes bs = list_all (\<lambda>b. b < 256) bs"

text \<open>\<open>buf.toString('hex')\<close> and \<open>Buffer.from(s, 'hex')\<close>, which stops at the first malformed pair.\<close>

definition to_hex :: "bytes \<Rightarrow> string" where
  "to_hex bs = concat (map (\<lambda>b. [hex_digit (b div 16), hex_digit (b mod 16)]) bs)"

fun from_hex :: "string \<Rightarrow> bytes" where
  "from_hex (a # b # s) = (if is_hex a \<and> is_hex b then (16 * hex_val a + hex_val b) # from_hex s else [])"
| "from_hex s = []"

text \<open>\<open>Buffer.from(s, 'utf-8')\<close>.\<close>

definition utf8 :: "string \<Rightarrow> bytes" where
  "utf8 s = concat (map (\<lambda>c. let n = (of_char c :: nat) in if n < 128 then [n] else [192 + n div 64, 128 + n mod 64]) s)"

fun hex_text :: "nat \<Rightarrow> string" where
  "hex_text n = (if n < 16 then [hex_digit n] else hex_text (n div 16) @ [hex_digit (n mod 16)])"

declare hex_text.simps [simp del]

text \<open>\<open>n.toString(16)\<close>, \<open>s.padStart(len, c)\<close> and \<open>BigInt('0x' + s)\<close>.\<close>

definition bigint_text :: "int \<Rightarrow> string" where
  "bigint_text n = (if n < 0 then CHR ''-'' # hex_text (nat (- n)) else hex_text (nat n))"

definition padStart :: "nat \<Rightarrow> char \<Rightarrow> string \<Rightarrow> string" where
  "padStart len c s = replicate (len - length s) c @ s"

definition BigInt_0x :: "string \<Rightarrow> int" where
  "BigInt_0x s = int (parse_hex s)"

definition js_rem :: "int \<Rightarrow> int \<Rightarrow> int" where
  "js_rem a b = (if a < 0 then - ((- a) mod \<bar>b\<bar>) else a mod \<bar>b\<bar>)"

definition bigintToBuffer :: "int \<Rightarrow> bytes" where
  "bigintToBuffer n = from_hex (padStart 512 CHR ''0'' (bigint_text n))"

definition bufferToBigInt :: "bytes \<Rightarrow> int" where
  "bufferToBigInt buf = BigInt_0x (to_hex buf)"

definition bigintToHex :: "int \<Rightarrow> string" where
  "bigintToHex n = padStart 2 CHR ''0'' (bigint_text n)"

section \<open>The group\<close>

definition N_HEX :: string where
  "N_HEX =
     ''FFFFFFFFFFFFFFFFC90FDAA22168C234C4C6628B80DC1CD1'' @
     ''29024E088A67CC74020BBEA63B139B22514A08798E3404DD'' @
     ''EF9519B3CD3A431B302B0A6DF25F14374FE1356D6D51C245'' @
     ''E485B576625E7EC6F44C42E9A637ED6B0BFF5CB6F406B7ED'' @
     ''EE386BFB5A899FA5AE9F24117C4B1FE649286651ECE45B3D'' @
     ''C2007CB8A163BF0598DA48361C55D39A69163FA8FD24CF5F'' @
     ''83655D23DCA3AD961C62F356208552BB9ED529077096966D'' @
     ''670C354E4ABC9804F1746C08CA18217C32905E462E36CE3B'' @
     ''E39E772C180E86039B2783A2EC07A28FB5C55DF06F4C52C9'' @
     ''DE2BCBF6955817183995497CEA956AE515D2261898FA0510'' @
     ''15728E5A8AACAA68FFFFFFFFFFFFFFFF''"

definition srp_G :: int where "srp_G = 2"
definition srp_N :: int where "srp_N = BigInt_0x N_HEX"

function modPow_loop :: "int \<Rightarrow> int \<Rightarrow> int \<Rightarrow> int \<Rightarrow> int" where
  "modPow_loop result base exponent modulus =
     (if exponent > 0
      then modPow_loop (if js_rem exponent 2 = 1 then js_rem (result * base) modulus else result)
             (js_rem (base * base) modulus) (exponent div 2) modulus
      else result)"
  by auto
termination by (relation "measure (\<lambda>(r, b, e, m). nat e)") auto

declare modPow_loop.simps [simp del]

definition modPow :: "int \<Rightarrow> int \<Rightarrow> int \<Rightarrow> int" where
  "modPow base exponent modulus =
     modPow_loop 1 (js_rem (js_rem base modulus + modulus) modulus) exponent modulus"

section \<open>The service\<close>

definition MAX_A_HEX_LENGTH :: nat where "MAX_A_HEX_LENGTH = 1024"

definition parseClientEphemeral :: "string \<Rightarrow> int option" where
  "parseClientEphemeral hex =
     (if hex = [] \<or> length hex > MAX_A_HEX_LENGTH then None
      else if \<not> list_all is_hex hex then None
      else let A = BigInt_0x hex in if js_rem A srp_N = 0 then None else Some A)"

definition computeVerifier :: "int \<Rightarrow> int" where
  "computeVerifier x = modPow srp_G x srp_N"

definition decoyCredentials :: "(string \<Rightarrow> bytes \<Rightarrow> bytes) \<Rightarrow> string \<Rightarrow> string \<Rightarrow> string \<times> int" where
  "decoyCredentials hmac username secret =
     (let srpSalt = to_hex (take 16 (hmac secret (utf8 (''zevra-srp-salt:'' @ username))));
          x = bufferToBigInt (hmac secret (utf8 (''zevra-srp-x:'' @ username)))
      in (srpSalt, computeVerifier x))"

text \<open>\<open>sha256(...args)\<close> hashes the concatenation; \<open>sha\<close> is the hash function.\<close>

definition srp_k :: "(bytes \<Rightarrow> bytes) \<Rightarrow> int" where
  "srp_k sha = bufferToBigInt (sha (bigintToBuffer srp_N @ bigintToBuffer srp_G))"

definition generateServerEphemeral :: "(bytes \<Rightarrow> bytes) \<Rightarrow> bytes \<Rightarrow> int \<Rightarrow> int \<times> int" where
  "generateServerEphemeral sha random v =
     (let b = bufferToBigInt random;
          B = js_rem (srp_k sha * v + modPow srp_G b srp_N) srp_N
      in (B, b))"

definition xor_buffers :: "bytes \<Rightarrow> bytes \<Rightarrow> bytes" where
  "xor_buffers a b = map (\<lambda>(x, y). Bit_Operations.xor x y) (zip a b)"

definition proof_M1 :: "(bytes \<Rightarrow> bytes) \<Rightarrow> string \<Rightarrow> int \<Rightarrow> int \<Rightarrow> bytes \<Rightarrow> bytes" where
  "proof_M1 sha srpSalt A B K =
     (let hN = sha (bigintToBuffer srp_N); hg = sha (bigintToBuffer srp_G); hSalt = sha (from_hex srpSalt)
      in sha (xor_buffers hN hg @ hSalt @ bigintToBuffer A @ bigintToBuffer B @ K))"

record ProofResult =
  pr_valid :: bool
  pr_M2 :: string
  pr_K :: bytes

definition invalid_proof :: ProofResult where
  "invalid_proof = \<lparr>pr_valid = False, pr_M2 = [], pr_K = []\<rparr>"

definition verifyClientProof ::
  "(bytes \<Rightarrow> bytes) \<Rightarrow> int \<Rightarrow> string \<Rightarrow> int \<Rightarrow> int \<Rightarrow> int \<Rightarrow> string \<Rightarrow> string \<Rightarrow> ProofResult" where
  "verifyClientProof sha A M1 b B v srpSalt username =
     (if js_rem A srp_N = 0 then invalid_proof
      else
        let u = bufferToBigInt (sha (bigintToBuffer A @ bigintToBuffer B));
            S = modPow (A * modPow v u srp_N) b srp_N;
            K = sha (bigintToBuffer S);
            expectedM1 = proof_M1 sha srpSalt A B K;
            provided = (if length M1 = 64 \<and> list_all is_hex M1 then from_hex M1 else [])
        in if \<not> (length provided = length expectedM1 \<and> provided = expectedM1) then invalid_proof
           else \<lparr>pr_valid = True, pr_M2 = to_hex (sha (bigintToBuffer A @ from_hex M1 @ K)), pr_K = K\<rparr>)"

text \<open>The client of \<open>test/modules/auth/srp.service.spec.ts\<close>.\<close>

definition client_x :: "(bytes \<Rightarrow> bytes) \<Rightarrow> string \<Rightarrow> string \<Rightarrow> int" where
  "client_x sha password salt = bufferToBigInt (sha (utf8 (salt @ password)))"

definition client_key :: "(bytes \<Rightarrow> bytes) \<Rightarrow> int \<Rightarrow> int \<Rightarrow> int \<Rightarrow> int \<times> bytes" where
  "client_key sha a x B =
     (let A = modPow srp_G a srp_N;
          u = bufferToBigInt (sha (bigintToBuffer A @ bigintToBuffer B));
          base = js_rem (js_rem (B - srp_k sha * modPow srp_G x srp_N) srp_N + srp_N) srp_N;
          S = modPow base (a + u * x) srp_N
      in (A, sha (bigintToBuffer S)))"

definition clientProof :: "(bytes \<Rightarrow> bytes) \<Rightarrow> bytes \<Rightarrow> string \<Rightarrow> string \<Rightarrow> string \<Rightarrow> int \<times> string" where
  "clientProof sha random password salt Bhex =
     (let B = BigInt_0x Bhex;
          (A, K) = client_key sha (bufferToBigInt random) (client_x sha password salt) B
      in (A, to_hex (proof_M1 sha salt A B K)))"

section \<open>Encodings\<close>

lemma hex_digit_props:
  assumes "d < 16"
  shows "is_hex (hex_digit d)" "hex_val (hex_digit d) = d"
proof -
  have "d < 10 \<or> d = 10 \<or> d = 11 \<or> d = 12 \<or> d = 13 \<or> d = 14 \<or> d = 15" using assms by auto
  then have *: "is_hex (hex_digit d) \<and> hex_val (hex_digit d) = d"
    by (auto simp: is_hex_def hex_digit_def hex_val_def Let_def)
  show "is_hex (hex_digit d)" "hex_val (hex_digit d) = d" using * by simp_all
qed

lemma hex_val_less: "is_hex c \<Longrightarrow> hex_val c < 16"
  by (auto simp: is_hex_def hex_val_def Let_def)

lemma parse_hex_snoc: "parse_hex (s @ [c]) = 16 * parse_hex s + hex_val c"
  by (simp add: parse_hex_def)

lemma foldl_hex: "foldl (\<lambda>a c. 16 * a + hex_val c) z s = z * 16 ^ length s + foldl (\<lambda>a c. 16 * a + hex_val c) 0 s"
proof (induction s rule: rev_induct)
  case (snoc c s)
  then show ?case by (simp add: algebra_simps)
qed simp

lemma parse_hex_append: "parse_hex (s @ t) = parse_hex s * 16 ^ length t + parse_hex t"
  using foldl_hex[of "parse_hex s" t] by (simp add: parse_hex_def)

lemma parse_hex_zeros: "parse_hex (replicate n CHR ''0'' @ s) = parse_hex s"
proof -
  have "parse_hex (replicate n CHR ''0'') = 0"
    by (induction n) (simp_all add: parse_hex_def hex_val_def)
  then show ?thesis by (simp add: parse_hex_append)
qed

lemma parse_hex_text: "parse_hex (hex_text n) = n"
proof (induction n rule: hex_text.induct)
  case (1 n)
  show ?case
  proof (cases "n < 16")
    case True
    then show ?thesis by (simp add: hex_text.simps[of n] parse_hex_def hex_digit_props)
  next
    case False
    then have "parse_hex (hex_text n) = 16 * (n div 16) + n mod 16"
      using 1 by (simp add: hex_text.simps[of n] parse_hex_snoc hex_digit_props)
    then show ?thesis by simp
  qed
qed

lemma hex_text_hex: "list_all is_hex (hex_text n)"
proof (induction n rule: hex_text.induct)
  case (1 n)
  then show ?case by (cases "n < 16") (simp_all add: hex_text.simps[of n] hex_digit_props)
qed

lemma hex_text_not_Nil: "hex_text n \<noteq> []"
  by (cases "n < 16") (simp_all add: hex_text.simps[of n])

lemma length_hex_text: "n < 16 ^ k \<Longrightarrow> 0 < k \<Longrightarrow> length (hex_text n) \<le> k"
proof (induction n arbitrary: k rule: hex_text.induct)
  case (1 n)
  show ?case
  proof (cases "n < 16")
    case True
    then show ?thesis using 1 by (simp add: hex_text.simps[of n])
  next
    case False
    obtain j where j: "k = Suc j" using 1(3) by (cases k) auto
    with False 1(2) have "0 < j" by (cases j) auto
    moreover have "n div 16 < 16 ^ j" using 1(2) j by (simp add: less_mult_imp_div_less mult.commute)
    ultimately have "length (hex_text (n div 16)) \<le> j" using 1(1) False by simp
    then show ?thesis using False j by (simp add: hex_text.simps[of n])
  qed
qed

lemma from_hex_to_hex: "is_bytes bs \<Longrightarrow> from_hex (to_hex bs) = bs"
  by (induction bs) (auto simp: is_bytes_def to_hex_def hex_digit_props)

lemma length_to_hex [simp]: "length (to_hex bs) = 2 * length bs"
  by (induction bs) (auto simp: to_hex_def)

lemma to_hex_hex: "is_bytes bs \<Longrightarrow> list_all is_hex (to_hex bs)"
  by (induction bs) (auto simp: is_bytes_def to_hex_def hex_digit_props)

lemma length_from_hex: "list_all is_hex s \<Longrightarrow> length (from_hex s) = length s div 2"
  by (induction s rule: from_hex.induct) auto

lemma is_bytes_from_hex: "is_bytes (from_hex s)"
proof (induction s rule: from_hex.induct)
  case (1 a b s)
  then show ?case using hex_val_less[of a] hex_val_less[of b] by (auto simp: is_bytes_def)
qed (simp_all add: is_bytes_def)

lemma parse_hex_Cons: "parse_hex (c # s) = hex_val c * 16 ^ length s + parse_hex s"
  using parse_hex_append[of "[c]" s] by (simp add: parse_hex_def)

lemma parse_to_from_hex: "list_all is_hex s \<Longrightarrow> even (length s) \<Longrightarrow> parse_hex (to_hex (from_hex s)) = parse_hex s"
proof (induction s rule: from_hex.induct)
  case (1 a b s)
  have d: "hex_val a < 16" "hex_val b < 16" using 1(2) hex_val_less by simp_all
  have "length (to_hex (from_hex s)) = length s" using 1(2,3) length_from_hex[of s] by simp
  then show ?case using 1 d by (simp add: to_hex_def parse_hex_Cons hex_digit_props)
qed (auto simp: to_hex_def)

lemma BigInt_bigint_text: "0 \<le> n \<Longrightarrow> BigInt_0x (bigint_text n) = n"
  by (simp add: BigInt_0x_def bigint_text_def parse_hex_text)

lemma BigInt_bigintToHex: "0 \<le> n \<Longrightarrow> BigInt_0x (bigintToHex n) = n"
  by (simp add: BigInt_0x_def bigintToHex_def padStart_def bigint_text_def parse_hex_zeros parse_hex_text)

lemma bufferToBigInt_nonneg [simp]: "0 \<le> bufferToBigInt b"
  by (simp add: bufferToBigInt_def BigInt_0x_def)

lemma js_rem_nonneg: "0 \<le> a \<Longrightarrow> 0 < b \<Longrightarrow> js_rem a b = a mod b"
  by (simp add: js_rem_def)

lemma js_rem_shift:
  assumes "0 < m"
  shows "js_rem (js_rem b m + m) m = b mod m"
proof (cases "b < 0")
  case True
  have "0 \<le> (- b) mod m" "(- b) mod m < m" using assms by simp_all
  moreover have "js_rem b m = - ((- b) mod m)" using True assms by (simp add: js_rem_def)
  ultimately have "js_rem (js_rem b m + m) m = (m - (- b) mod m) mod m"
    using assms by (simp only: js_rem_nonneg uminus_add_conv_diff)
  also have "\<dots> = b mod m" by (metis add.inverse_inverse minus_mod_self2 mod_diff_right_eq mod_minus_eq zmod_zminus1_not_zero diff_0 mod_diff_left_eq mod_self)
  finally show ?thesis .
next
  case False
  then show ?thesis using assms by (simp add: js_rem_def add_nonneg_pos pos_mod_sign less_imp_le)
qed

lemma square_multiply_step:
  fixes r b e m :: int
  assumes "0 < e"
  shows "(if e mod 2 = 1 then r * b mod m else r) * (b * b mod m) ^ nat (e div 2) mod m = r * b ^ nat e mod m"
proof -
  have pow: "(b * b mod m) ^ nat (e div 2) mod m = b ^ (2 * nat (e div 2)) mod m"
    by (simp add: power_mod power_mult power2_eq_square)
  show ?thesis
  proof (cases "e mod 2 = 1")
    case True
    have "e = 2 * (e div 2) + 1" using True by presburger
    then have "nat e = Suc (2 * nat (e div 2))" using assms by linarith
    then have "r * b ^ nat e mod m = (r * b mod m) * (b ^ (2 * nat (e div 2)) mod m) mod m"
      by (simp add: mod_mult_eq mult.assoc)
    also have "\<dots> = (r * b mod m) * ((b * b mod m) ^ nat (e div 2) mod m) mod m" by (simp only: pow)
    finally show ?thesis using True by (simp add: mod_mult_right_eq)
  next
    case False
    have "e = 2 * (e div 2)" using False by presburger
    then have "nat e = 2 * nat (e div 2)" using assms by linarith
    then have "r * b ^ nat e mod m = r * (b ^ (2 * nat (e div 2)) mod m) mod m" by (simp add: mod_mult_right_eq)
    also have "\<dots> = r * ((b * b mod m) ^ nat (e div 2) mod m) mod m" by (simp only: pow)
    finally show ?thesis using False by (simp add: mod_mult_right_eq)
  qed
qed

lemma modPow_loop_correct:
  assumes "0 < m" "0 \<le> r" "0 \<le> b" "0 \<le> e"
  shows "modPow_loop r b e m mod m = r * b ^ nat e mod m \<and> 0 \<le> modPow_loop r b e m \<and>
     (0 < e \<longrightarrow> modPow_loop r b e m < m)"
  using assms
proof (induction r b e m rule: modPow_loop.induct)
  case (1 r b e m)
  show ?case
  proof (cases "0 < e")
    case False
    then have "e = 0" using 1(5) by simp
    then show ?thesis using 1(3) by (simp add: modPow_loop.simps[of r b 0 m])
  next
    case True
    let ?r = "if js_rem e 2 = 1 then js_rem (r * b) m else r"
    let ?b = "js_rem (b * b) m"
    have odd: "js_rem e 2 = e mod 2" using True by (simp add: js_rem_def)
    have rb: "js_rem (r * b) m = r * b mod m" "?b = b * b mod m" using 1(2-4) by (simp_all add: js_rem_nonneg)
    have IH: "modPow_loop ?r ?b (e div 2) m mod m = ?r * ?b ^ nat (e div 2) mod m \<and> 0 \<le> modPow_loop ?r ?b (e div 2) m \<and>
        (0 < e div 2 \<longrightarrow> modPow_loop ?r ?b (e div 2) m < m)"
      using 1(2-5) True by (intro 1(1)) (simp_all add: js_rem_nonneg)
    have step: "modPow_loop r b e m = modPow_loop ?r ?b (e div 2) m" using True by (simp add: modPow_loop.simps[of r b e m])
    have "?r * ?b ^ nat (e div 2) mod m = r * b ^ nat e mod m"
      unfolding odd rb by (rule square_multiply_step[OF True])
    moreover have "modPow_loop ?r ?b (e div 2) m < m" if "\<not> 0 < e div 2"
    proof -
      have "e = 1" using that True by presburger
      then show ?thesis using 1(2) odd rb by (simp add: modPow_loop.simps[of _ _ 0])
    qed
    ultimately show ?thesis using IH step by metis
  qed
qed

lemma modPow_eq:
  assumes "1 < m" "0 \<le> e"
  shows "modPow b e m = b ^ nat e mod m"
proof -
  have "0 \<le> b mod m" using assms by simp
  then have l: "modPow b e m mod m = 1 * (b mod m) ^ nat e mod m \<and> 0 \<le> modPow b e m \<and>
      (0 < e \<longrightarrow> modPow b e m < m)"
    using modPow_loop_correct[of m 1 "b mod m" e] assms by (simp add: modPow_def js_rem_shift)
  have "modPow b e m < m"
  proof (cases "0 < e")
    case False
    then show ?thesis using assms by (simp add: modPow_def modPow_loop.simps)
  qed (use l in simp)
  then have "modPow b e m mod m = modPow b e m" using l by (intro mod_pos_pos_trivial) simp_all
  with l show ?thesis by (simp add: power_mod)
qed

lemma parse_hex_bound: "list_all is_hex s \<Longrightarrow> parse_hex s < 16 ^ length s"
proof (induction s rule: rev_induct)
  case (snoc c s)
  then have "parse_hex s < 16 ^ length s" "hex_val c < 16" using hex_val_less by simp_all
  then show ?case by (simp add: parse_hex_snoc)
qed (simp add: parse_hex_def)

lemma N_HEX_facts: "length N_HEX = 512" "list_all is_hex N_HEX" "hd N_HEX = CHR ''F''" "last N_HEX = CHR ''F''"
  unfolding N_HEX_def by (simp_all add: is_hex_def)

lemma pow_hex: "(16::nat) ^ n = 2 ^ (4 * n)"
  by (simp add: power_mult)

lemma srp_N_facts: "2 ^ 2047 < srp_N" "srp_N < 2 ^ 2048" "odd srp_N"
proof -
  obtain t where t: "N_HEX = CHR ''F'' # t" using N_HEX_facts(1,3)
    by (metis length_0_conv list.collapse zero_neq_numeral)
  have len: "length t = 511" using N_HEX_facts(1) unfolding t length_Cons by linarith
  have "parse_hex N_HEX < 2 ^ 2048"
    using parse_hex_bound[OF N_HEX_facts(2)] unfolding N_HEX_facts(1) pow_hex by simp
  moreover have "(2::nat) ^ 2047 < 15 * 16 ^ 511" by simp
  then have "2 ^ 2047 < parse_hex N_HEX"
    unfolding t parse_hex_Cons len by (rule less_le_trans) (simp add: hex_val_def)
  moreover have "odd (parse_hex N_HEX)"
  proof -
    have "N_HEX = butlast N_HEX @ [CHR ''F'']" using N_HEX_facts(1,4)
      by (metis append_butlast_last_id list.size(3) zero_neq_numeral)
    then have "parse_hex N_HEX = 16 * parse_hex (butlast N_HEX) + 15" using parse_hex_snoc[of "butlast N_HEX" "CHR ''F''"]
      by (simp add: hex_val_def)
    then show ?thesis by presburger
  qed
  ultimately show "2 ^ 2047 < srp_N" "srp_N < 2 ^ 2048" "odd srp_N"
    unfolding srp_N_def BigInt_0x_def by (simp_all flip: of_nat_power)
qed

lemma srp_N_gt: "1 < srp_N" "0 < srp_N"
proof -
  have "(1::int) < 2 ^ 2047" by simp
  then show "1 < srp_N" using srp_N_facts(1) by (rule less_trans)
  then show "0 < srp_N" by simp
qed

lemma modPow_N: "0 \<le> e \<Longrightarrow> modPow b e srp_N = b ^ nat e mod srp_N"
  using srp_N_gt(1) by (rule modPow_eq)

lemma modPow_N_range: "0 \<le> e \<Longrightarrow> 0 \<le> modPow b e srp_N \<and> modPow b e srp_N < srp_N"
  using srp_N_gt(2) by (simp add: modPow_N)

text \<open>No power of the generator is 0 in the group.\<close>

lemma srp_G_power_nonzero: "srp_G ^ n mod srp_N \<noteq> 0"
proof
  assume "srp_G ^ n mod srp_N = 0"
  then have "srp_N dvd 2 ^ n" by (simp add: srp_G_def mod_eq_0_iff_dvd)
  moreover have "coprime srp_N (2 ^ n)" using srp_N_facts(3) by simp
  ultimately have "is_unit srp_N" using coprime_common_divisor[of srp_N "2 ^ n" srp_N] by simp
  then show False using srp_N_gt(1) by simp
qed

lemma bigintToBuffer_small:
  assumes "0 \<le> n" "n < 2 ^ 2048"
  shows "length (bigintToBuffer n) = 256" "is_bytes (bigintToBuffer n)" "bufferToBigInt (bigintToBuffer n) = n"
proof -
  let ?s = "padStart 512 CHR ''0'' (bigint_text n)"
  have "nat n < 2 ^ 2048" using assms by (simp add: nat_less_iff)
  then have "nat n < 16 ^ 512" unfolding pow_hex by simp
  then have len: "length ?s = 512" using length_hex_text[of "nat n" 512] assms(1) by (simp add: padStart_def bigint_text_def)
  have hex: "list_all is_hex ?s" using hex_text_hex[of "nat n"] assms(1)
    by (auto simp: padStart_def bigint_text_def list_all_iff is_hex_def)
  show "length (bigintToBuffer n) = 256" using length_from_hex[OF hex] len by (simp add: bigintToBuffer_def)
  show "is_bytes (bigintToBuffer n)" by (simp add: bigintToBuffer_def is_bytes_from_hex)
  have "parse_hex (to_hex (from_hex ?s)) = parse_hex ?s" using hex len by (intro parse_to_from_hex) auto
  also have "\<dots> = nat n" using assms(1) by (simp add: padStart_def bigint_text_def parse_hex_zeros parse_hex_text)
  finally show "bufferToBigInt (bigintToBuffer n) = n"
    using assms(1) by (simp add: bufferToBigInt_def bigintToBuffer_def BigInt_0x_def)
qed

lemma from_hex_odd: "list_all is_hex s \<Longrightarrow> even (length s) \<Longrightarrow> from_hex (s @ [c]) = from_hex s"
  by (induction s rule: from_hex.induct) auto

lemma client_base:
  "js_rem (js_rem (js_rem (k * (srp_G ^ x mod srp_N) + srp_G ^ b mod srp_N) srp_N - k * (srp_G ^ x mod srp_N)) srp_N + srp_N) srp_N
     = srp_G ^ b mod srp_N" if "0 \<le> k"
proof -
  have nn: "0 \<le> k * (srp_G ^ x mod srp_N) + srp_G ^ b mod srp_N" using that srp_N_gt(2) by simp
  show ?thesis unfolding js_rem_shift[OF srp_N_gt(2)] js_rem_nonneg[OF nn srp_N_gt(2)] by (simp add: mod_diff_left_eq)
qed

lemma power_mod_mult: "((a mod m) * ((b mod m) ^ u mod m)) ^ n mod m = (a * b ^ u) ^ n mod (m :: int)"
  by (metis mod_mult_eq power_mod)

text \<open>Both sides of the handshake compute the same group element.\<close>

lemma srp_agreement:
  assumes "0 \<le> a" "0 \<le> b" "0 \<le> x" "0 \<le> u"
  shows "modPow (modPow srp_G a srp_N * modPow (modPow srp_G x srp_N) u srp_N) b srp_N =
         modPow (srp_G ^ nat b mod srp_N) (a + u * x) srp_N"
proof -
  have "modPow (modPow srp_G a srp_N * modPow (modPow srp_G x srp_N) u srp_N) b srp_N =
      (srp_G ^ nat a * (srp_G ^ nat x) ^ nat u) ^ nat b mod srp_N"
    using assms by (simp add: modPow_N power_mod_mult)
  also have "\<dots> = (srp_G ^ nat b) ^ nat (a + u * x) mod srp_N"
    using assms by (simp add: nat_add_distrib nat_mult_distrib power_add power_mult_distrib mult.commute flip: power_mult)
  also have "\<dots> = modPow (srp_G ^ nat b mod srp_N) (a + u * x) srp_N"
    using assms by (simp add: modPow_N power_mod)
  finally show ?thesis .
qed

lemma generateServerEphemeral_range:
  assumes "0 \<le> v" "generateServerEphemeral sha random v = (B, b)"
  shows "b = bufferToBigInt random" "B = (srp_k sha * v + srp_G ^ nat b mod srp_N) mod srp_N" "0 \<le> B" "B < srp_N"
proof -
  have k: "0 \<le> srp_k sha" by (simp add: srp_k_def)
  show b: "b = bufferToBigInt random" using assms(2) by (simp add: generateServerEphemeral_def Let_def)
  have "0 \<le> srp_k sha * v + srp_G ^ nat b mod srp_N" using k assms(1) srp_N_gt(2) by simp
  then show B: "B = (srp_k sha * v + srp_G ^ nat b mod srp_N) mod srp_N"
    using assms(2) b srp_N_gt(2) by (simp add: generateServerEphemeral_def Let_def modPow_N js_rem_nonneg)
  show "0 \<le> B" "B < srp_N" using B srp_N_gt(2) by simp_all
qed

definition sha_ok :: "(bytes \<Rightarrow> bytes) \<Rightarrow> bool" where
  "sha_ok sha \<longleftrightarrow> (\<forall>m. length (sha m) = 32 \<and> is_bytes (sha m))"

text \<open>A client that knows the password is accepted, and the server ends with the client's key.\<close>

lemma honest_client_accepted:
  assumes "sha_ok sha" "v = computeVerifier (client_x sha password salt)"
    "generateServerEphemeral sha random v = (B, b)"
    "clientProof sha crandom password salt (bigintToHex B) = (A, M1)"
  shows "verifyClientProof sha A M1 b B v salt username =
      \<lparr>pr_valid = True, pr_M2 = to_hex (sha (bigintToBuffer A @ from_hex M1 @ snd (client_key sha (bufferToBigInt crandom) (client_x sha password salt) B))),
       pr_K = snd (client_key sha (bufferToBigInt crandom) (client_x sha password salt) B)\<rparr>"
    and "parseClientEphemeral (bigint_text A) = Some A"
proof -
  let ?a = "bufferToBigInt crandom" and ?x = "client_x sha password salt"
  have x: "0 \<le> ?x" by (simp add: client_x_def)
  have v: "0 \<le> v" "v = srp_G ^ nat ?x mod srp_N" using modPow_N_range[OF x] x by (simp_all add: assms(2) computeVerifier_def modPow_N)
  note B = generateServerEphemeral_range[OF v(1) assms(3)]
  have rtrip: "BigInt_0x (bigintToHex B) = B" using B(3) by (rule BigInt_bigintToHex)
  let ?u = "bufferToBigInt (sha (bigintToBuffer (modPow srp_G ?a srp_N) @ bigintToBuffer B))"
  have A: "A = modPow srp_G ?a srp_N" and M1: "M1 = to_hex (proof_M1 sha salt A B (snd (client_key sha ?a ?x B)))"
    using assms(4) by (auto simp: clientProof_def client_key_def Let_def rtrip)
  have Arange: "0 \<le> A" "A < srp_N" "A \<noteq> 0" using modPow_N_range[of ?a srp_G] srp_G_power_nonzero A
    by (simp_all add: modPow_N)
  then have A0: "js_rem A srp_N \<noteq> 0" by (simp add: js_rem_def srp_N_gt)
  have k: "0 \<le> srp_k sha" by (simp add: srp_k_def)
  have b: "0 \<le> b" using B(1) by simp
  have base: "js_rem (js_rem (B - srp_k sha * modPow srp_G ?x srp_N) srp_N + srp_N) srp_N = srp_G ^ nat b mod srp_N"
  proof -
    have nn: "0 \<le> srp_k sha * v + srp_G ^ nat b mod srp_N" using k v(1) srp_N_gt(2) by simp
    show ?thesis using client_base[OF k, of "nat ?x" "nat b"] unfolding B(2) v(2) modPow_N[OF x] js_rem_nonneg[OF nn[unfolded v(2)] srp_N_gt(2)] .
  qed
  have K: "snd (client_key sha ?a ?x B) = sha (bigintToBuffer (modPow (A * modPow v ?u srp_N) b srp_N))"
    unfolding client_key_def Let_def snd_conv base A assms(2) computeVerifier_def
    using srp_agreement[of ?a b ?x ?u] x b by simp
  have M: "is_bytes (proof_M1 sha salt A B K)" "length (proof_M1 sha salt A B K) = 32" for K
    using assms(1) by (simp_all add: sha_ok_def proof_M1_def Let_def)
  have M1ok: "length M1 = 64" "list_all is_hex M1" "from_hex M1 = proof_M1 sha salt A B (snd (client_key sha ?a ?x B))"
    using M to_hex_hex[OF M(1)] from_hex_to_hex[OF M(1)] by (simp_all add: M1)
  show "verifyClientProof sha A M1 b B v salt username =
      \<lparr>pr_valid = True, pr_M2 = to_hex (sha (bigintToBuffer A @ from_hex M1 @ snd (client_key sha ?a ?x B))),
       pr_K = snd (client_key sha ?a ?x B)\<rparr>"
    using A0 M1ok K A by (simp add: verifyClientProof_def Let_def)
  show "parseClientEphemeral (bigint_text A) = Some A"
  proof -
    have "nat A < 2 ^ 2048" using Arange(1,2) srp_N_facts(2) by (simp add: nat_less_iff)
    then have "nat A < 16 ^ 512" unfolding pow_hex by simp
    then have "length (hex_text (nat A)) \<le> 512" by (rule length_hex_text) simp
    then show ?thesis using Arange A0 hex_text_hex[of "nat A"] hex_text_not_Nil[of "nat A"]
      by (simp add: parseClientEphemeral_def bigint_text_def MAX_A_HEX_LENGTH_def BigInt_0x_def parse_hex_text Let_def)
  qed
qed

section \<open>Properties\<close>

text \<open>
  C33: The square-and-multiply loop of \<open>modPow\<close> always ends and computes the modular power, for every
  base (negative ones included) and every positive modulus; the result of a power with exponent 0 or
  less is 1.
\<close>

theorem modPow_is_modular_power:
  assumes "0 < m"
  shows "modPow b e m = (if e \<le> 0 then 1 else b ^ nat e mod m)"
proof (cases "e \<le> 0")
  case True
  then show ?thesis by (simp add: modPow_def modPow_loop.simps)
next
  case False
  have "0 \<le> b mod m" using assms by simp
  then have l: "modPow b e m mod m = b ^ nat e mod m" "0 \<le> modPow b e m" "modPow b e m < m"
    using modPow_loop_correct[of m 1 "b mod m" e] assms False by (simp_all add: modPow_def js_rem_shift power_mod)
  then show ?thesis using False by (metis mod_pos_pos_trivial)
qed

theorem modPow_is_modular_power_witness: "0 < (1000::int) \<and> modPow (- 7) 5 1000 = 193"
  using modPow_is_modular_power[of 1000 "- 7" 5] by (simp add: power_numeral_reduce)

text \<open>
  Every number of the group is written as exactly 256 bytes and read back unchanged, so the hashes
  of the handshake see fixed-width fields. Numbers of more than 2048 bits, which a client may still send
  as its ephemeral value, are not injective: with an odd number of hex digits the last digit is dropped.
\<close>

theorem bigint_buffers_fixed_width:
  "(\<forall>n. 0 \<le> n \<longrightarrow> n < srp_N \<longrightarrow>
      length (bigintToBuffer n) = 256 \<and> is_bytes (bigintToBuffer n) \<and> bufferToBigInt (bigintToBuffer n) = n) \<and>
   (\<forall>n. 2 ^ 2048 \<le> n \<longrightarrow> odd (length (bigint_text n)) \<longrightarrow> bigintToBuffer n = bigintToBuffer (n div 16))"
proof (intro conjI allI impI)
  fix n :: int assume n: "0 \<le> n" "n < srp_N"
  have "n < 2 ^ 2048" using n(2) srp_N_facts(2) by (rule less_trans)
  with n(1) show "length (bigintToBuffer n) = 256" "is_bytes (bigintToBuffer n)" "bufferToBigInt (bigintToBuffer n) = n"
    by (rule bigintToBuffer_small)+
next
  fix n :: int assume n: "2 ^ 2048 \<le> n" "odd (length (bigint_text n))"
  have pos: "0 \<le> n" using n(1) by (rule order_trans[rotated]) simp
  let ?d = "hex_text (nat n div 16)"
  have big: "\<not> nat n < 16 ^ 512" unfolding pow_hex using n(1) pos by (simp add: nat_less_iff not_less le_nat_iff)
  have "(16::nat) \<le> 16 ^ 512" by simp
  then have "\<not> nat n < 16" using big by linarith
  then have ht: "hex_text (nat n) = ?d @ [hex_digit (nat n mod 16)]" by (simp add: hex_text.simps[of "nat n"])
  then have ev: "even (length ?d)" using n(2) pos by (simp add: bigint_text_def)
  have "512 \<le> length ?d"
  proof (rule ccontr)
    assume "\<not> 512 \<le> length ?d"
    then have "length (hex_text (nat n)) \<le> 512" by (simp add: ht)
    then have "(16::nat) ^ length (hex_text (nat n)) \<le> 16 ^ 512" by (intro power_increasing) auto
    with parse_hex_bound[OF hex_text_hex[of "nat n"]] have "nat n < 16 ^ 512" unfolding parse_hex_text by (rule less_le_trans)
    then show False using big by (rule notE[rotated])
  qed
  then have p: "padStart 512 CHR ''0'' (bigint_text n) = ?d @ [hex_digit (nat n mod 16)]"
    "padStart 512 CHR ''0'' (bigint_text (n div 16)) = ?d"
    using pos by (simp_all add: padStart_def bigint_text_def ht nat_div_distrib pos_imp_zdiv_neg_iff)
  show "bigintToBuffer n = bigintToBuffer (n div 16)"
    unfolding bigintToBuffer_def p using from_hex_odd[OF hex_text_hex ev] .
qed

theorem bigint_buffers_fixed_width_witness:
  "length (bigintToBuffer 5) = 256 \<and> bufferToBigInt (bigintToBuffer 5) = 5"
proof -
  have "(5::int) < 2 ^ 2047" by simp
  then have "5 < srp_N" using srp_N_facts(1) by (rule less_trans)
  then show ?thesis using bigint_buffers_fixed_width by simp
qed

text \<open>
  C9: Completeness of the login handshake. For every password, salt and random choice of both sides, a
  client that knows the password and answers the server's \<open>B\<close> is accepted: its \<open>A\<close> passes the parser,
  its proof is valid, the server derives the client's session key, and the proof \<open>M2\<close> it returns is the
  one the client expects. SHA-256 is any function with 32-byte results.
\<close>

theorem srp_handshake_complete:
  assumes "sha_ok sha"
  shows "let v = computeVerifier (client_x sha password salt);
             (B, b) = generateServerEphemeral sha random v;
             (A, M1) = clientProof sha crandom password salt (bigintToHex B);
             K = snd (client_key sha (bufferToBigInt crandom) (client_x sha password salt) B)
         in parseClientEphemeral (bigint_text A) = Some A \<and>
            verifyClientProof sha A M1 b B v salt username =
              \<lparr>pr_valid = True, pr_M2 = to_hex (sha (bigintToBuffer A @ from_hex M1 @ K)), pr_K = K\<rparr>"
proof -
  let ?v = "computeVerifier (client_x sha password salt)"
  obtain B b where B: "generateServerEphemeral sha random ?v = (B, b)" by fastforce
  obtain A M1 where A: "clientProof sha crandom password salt (bigintToHex B) = (A, M1)" by fastforce
  show ?thesis unfolding Let_def B A prod.case
    using honest_client_accepted[OF assms refl B A] by simp
qed

theorem srp_handshake_complete_witness:
  "sha_ok (\<lambda>m. replicate 32 (length m mod 256)) \<and>
   (let sha = (\<lambda>m. replicate 32 (length m mod 256));
        v = computeVerifier (client_x sha ''secret'' ''ab12'');
        (B, b) = generateServerEphemeral sha [1, 2, 3] v;
        (A, M1) = clientProof sha [4, 5] ''secret'' ''ab12'' (bigintToHex B)
    in pr_valid (verifyClientProof sha A M1 b B v ''ab12'' ''alice''))"
proof -
  have sha: "sha_ok (\<lambda>m. replicate 32 (length m mod 256))" by (simp add: sha_ok_def is_bytes_def list_all_iff)
  show ?thesis using sha srp_handshake_complete[OF sha, of "''secret''" "''ab12''" "[1, 2, 3]" "[4, 5]" "''alice''"]
    by (simp add: Let_def split_beta)
qed

text \<open>
  The values that would force a known key are refused before any computation: what the parser
  returns is the number its hex digits denote and is never a multiple of the modulus, and a proof
  offered with such a multiple is invalid and reveals neither key nor server proof.
\<close>

theorem zero_ephemeral_refused:
  "(\<forall>A. parseClientEphemeral hex = Some A \<longleftrightarrow>
      hex \<noteq> [] \<and> length hex \<le> 1024 \<and> list_all is_hex hex \<and> A = int (parse_hex hex) \<and> \<not> srp_N dvd A) \<and>
   verifyClientProof sha (srp_N * k) M1 b B v srpSalt username = invalid_proof"
proof -
  have "js_rem a srp_N = 0 \<longleftrightarrow> srp_N dvd a" for a
    using srp_N_gt(2) by (auto simp: js_rem_def mod_eq_0_iff_dvd)
  then show ?thesis
    by (auto simp: parseClientEphemeral_def MAX_A_HEX_LENGTH_def BigInt_0x_def verifyClientProof_def Let_def)
qed

end
