(* ===== verification/Crypto_Service.thy ===== *)
theory Crypto_Service
  imports Srp
begin

text \<open>
  \<open>shared/crypto/crypto.service.ts\<close>: random hex strings, the sealed form of a private key and the raw
  keys cut out of their DER encodings. AES-256-GCM is a pair of arguments: \<open>gcm key iv plain\<close> returns
  ciphertext and tag, \<open>ungcm key iv tag cipher\<close> the plain text, or nothing when \<open>final()\<close> throws because the
  tag does not fit. Base64 is written out, the decoder as lenient as \<open>Buffer.from(s, 'base64')\<close>.
\<close>

section \<open>Base64\<close>

definition b64_digit :: "nat \<Rightarrow> char" where
  "b64_digit n =
     (if n < 26 then char_of (65 + n) else if n < 52 then char_of (71 + n)
      else if n < 62 then char_of (n - 4) else if n = 62 then CHR ''+'' else CHR ''/'')"

text \<open>The decoder also reads the URL-safe alphabet; every other character is skipped.\<close>

definition b64_val :: "char \<Rightarrow> nat option" where
  "b64_val c = (let n = (of_char c :: nat) in
     if 65 \<le> n \<and> n \<le> 90 then Some (n - 65) else if 97 \<le> n \<and> n \<le> 122 then Some (n - 71)
     else if 48 \<le> n \<and> n \<le> 57 then Some (n + 4) else if n = 43 \<or> n = 45 then Some 62
     else if n = 47 \<or> n = 95 then Some 63 else None)"

fun b64_encode :: "bytes \<Rightarrow> string" where
  "b64_encode (a # b # c # r) =
     b64_digit (a div 4) # b64_digit (a mod 4 * 16 + b div 16) #
     b64_digit (b mod 16 * 4 + c div 64) # b64_digit (c mod 64) # b64_encode r"
| "b64_encode [a, b] = [b64_digit (a div 4), b64_digit (a mod 4 * 16 + b div 16), b64_digit (b mod 16 * 4), CHR ''='']"
| "b64_encode [a] = [b64_digit (a div 4), b64_digit (a mod 4 * 16), CHR ''='', CHR ''='']"
| "b64_encode [] = []"

fun b64_groups :: "nat list \<Rightarrow> bytes" where
  "b64_groups (w # x # y # z # r) =
     (w * 4 + x div 16) # (x mod 16 * 16 + y div 4) # (y mod 4 * 64 + z) # b64_groups r"
| "b64_groups [w, x, y] = [w * 4 + x div 16, x mod 16 * 16 + y div 4]"
| "b64_groups [w, x] = [w * 4 + x div 16]"
| "b64_groups ws = []"

definition b64_decode :: "string \<Rightarrow> bytes" where
  "b64_decode s = b64_groups (List.map_filter b64_val (takeWhile (\<lambda>c. c \<noteq> CHR ''='') s))"

section \<open>The service\<close>

definition randomHex :: "bytes \<Rightarrow> string" where
  "randomHex random = to_hex random"

definition sealPrivateKey :: "(bytes \<Rightarrow> bytes \<Rightarrow> bytes \<Rightarrow> bytes \<times> bytes) \<Rightarrow> bytes \<Rightarrow> bytes \<Rightarrow> bytes \<Rightarrow> string" where
  "sealPrivateKey gcm iv privateKey kek =
     (let (ciphertext, tag) = gcm kek iv privateKey
      in b64_encode iv @ '':'' @ b64_encode tag @ '':'' @ b64_encode ciphertext)"

text \<open>A missing part makes \<open>Buffer.from(undefined)\<close> throw; parts after the third are ignored.\<close>

definition unsealPrivateKey ::
  "(bytes \<Rightarrow> bytes \<Rightarrow> bytes \<Rightarrow> bytes \<Rightarrow> bytes option) \<Rightarrow> string \<Rightarrow> bytes \<Rightarrow> bytes option" where
  "unsealPrivateKey ungcm sealed kek =
     (case split_on CHR '':'' sealed of
        iv # tag # ciphertext # _ \<Rightarrow> ungcm kek (b64_decode iv) (b64_decode tag) (b64_decode ciphertext)
      | _ \<Rightarrow> None)"

definition last_bytes :: "nat \<Rightarrow> bytes \<Rightarrow> bytes" where
  "last_bytes n der = drop (length der - n) der"

definition generateX25519KeyPair :: "bytes \<times> bytes \<Rightarrow> bytes \<times> bytes" where
  "generateX25519KeyPair der = (last_bytes 32 (fst der), last_bytes 32 (snd der))"

definition generateEd25519KeyPair :: "bytes \<times> bytes \<Rightarrow> bytes \<times> bytes" where
  "generateEd25519KeyPair der = (last_bytes 32 (fst der), last_bytes 32 (snd der))"

section \<open>Round trips\<close>

lemma b64_digit_val: "n < 64 \<Longrightarrow> b64_val (b64_digit n) = Some n"
  by (auto simp: b64_val_def b64_digit_def Let_def)

lemma b64_digit_chars: "n < 64 \<Longrightarrow> b64_digit n \<noteq> CHR ''='' \<and> b64_digit n \<noteq> CHR '':''"
  using b64_digit_val[of n] by (auto simp: b64_val_def)

lemma b64_decode_encode: "is_bytes bs \<Longrightarrow> b64_decode (b64_encode bs) = bs"
proof (induction bs rule: b64_encode.induct)
  case (1 a b c r)
  have s: "a < 256" "b < 256" "c < 256" and r: "is_bytes r" using 1(2) by (simp_all add: is_bytes_def)
  have d: "a div 4 < 64" "a mod 4 * 16 + b div 16 < 64" "b mod 16 * 4 + c div 64 < 64" "c mod 64 < 64" using s by auto
  have "(a mod 4 * 16 + b div 16) div 16 = a mod 4" "(a mod 4 * 16 + b div 16) mod 16 = b div 16"
    "(b mod 16 * 4 + c div 64) div 4 = b mod 16" "(b mod 16 * 4 + c div 64) mod 4 = c div 64" using s by auto
  then show ?case using 1(1)[OF r] d b64_digit_chars[OF d(1)] b64_digit_chars[OF d(2)] b64_digit_chars[OF d(3)] b64_digit_chars[OF d(4)]
    by (simp add: b64_decode_def List.map_filter_simps b64_digit_val)
next
  case (2 a b)
  have s: "a < 256" "b < 256" using 2 by (simp_all add: is_bytes_def)
  have d: "a div 4 < 64" "a mod 4 * 16 + b div 16 < 64" "b mod 16 * 4 < 64" using s by auto
  have "(a mod 4 * 16 + b div 16) div 16 = a mod 4" "(a mod 4 * 16 + b div 16) mod 16 = b div 16" using s by auto
  then show ?case using d b64_digit_chars[OF d(1)] b64_digit_chars[OF d(2)] b64_digit_chars[OF d(3)]
    by (simp add: b64_decode_def List.map_filter_simps b64_digit_val)
next
  case (3 a)
  have s: "a < 256" using 3 by (simp add: is_bytes_def)
  have d: "a div 4 < 64" "a mod 4 * 16 < 64" using s by auto
  show ?case using d b64_digit_chars[OF d(1)] b64_digit_chars[OF d(2)]
    by (simp add: b64_decode_def List.map_filter_simps b64_digit_val)
qed (simp add: b64_decode_def List.map_filter_simps)

lemma b64_no_colon: "is_bytes bs \<Longrightarrow> CHR '':'' \<notin> set (b64_encode bs)"
proof (induction bs rule: b64_encode.induct)
  case (1 a b c r)
  have s: "a < 256" "b < 256" "c < 256" and r: "is_bytes r" using 1(2) by (simp_all add: is_bytes_def)
  have d: "a div 4 < 64" "a mod 4 * 16 + b div 16 < 64" "b mod 16 * 4 + c div 64 < 64" "c mod 64 < 64" using s by auto
  show ?case using 1(1)[OF r] b64_digit_chars[OF d(1)] b64_digit_chars[OF d(2)] b64_digit_chars[OF d(3)] b64_digit_chars[OF d(4)]
    by auto
next
  case (2 a b)
  have d: "a div 4 < 64" "a mod 4 * 16 + b div 16 < 64" "b mod 16 * 4 < 64" using 2 by (auto simp: is_bytes_def)
  show ?case using b64_digit_chars[OF d(1)] b64_digit_chars[OF d(2)] b64_digit_chars[OF d(3)] by auto
next
  case (3 a)
  have d: "a div 4 < 64" "a mod 4 * 16 < 64" using 3 by (auto simp: is_bytes_def)
  show ?case using b64_digit_chars[OF d(1)] b64_digit_chars[OF d(2)] by auto
qed simp

text \<open>The parts of a sealed key are found again between the colons, whatever bytes they hold.\<close>

lemma split_sealed:
  assumes "is_bytes iv" "is_bytes tag" "is_bytes ct" "gcm kek iv privateKey = (ct, tag)"
  shows "split_on CHR '':'' (sealPrivateKey gcm iv privateKey kek) = [b64_encode iv, b64_encode tag, b64_encode ct]"
  unfolding sealPrivateKey_def assms(4) Let_def prod.case
  using b64_no_colon[OF assms(1)] b64_no_colon[OF assms(2)] b64_no_colon[OF assms(3)]
  by (simp add: split_on_app split_on_no_sep)

text \<open>What the code relies on of AES-256-GCM: the text keeps its length, the tag has 16 bytes, and opening undoes sealing.\<close>

definition gcm_ok ::
  "(bytes \<Rightarrow> bytes \<Rightarrow> bytes \<Rightarrow> bytes \<times> bytes) \<Rightarrow> (bytes \<Rightarrow> bytes \<Rightarrow> bytes \<Rightarrow> bytes \<Rightarrow> bytes option) \<Rightarrow> bool" where
  "gcm_ok gcm ungcm \<longleftrightarrow> (\<forall>kek iv plain. is_bytes plain \<longrightarrow>
     is_bytes (fst (gcm kek iv plain)) \<and> length (fst (gcm kek iv plain)) = length plain \<and>
     is_bytes (snd (gcm kek iv plain)) \<and> length (snd (gcm kek iv plain)) = 16 \<and>
     ungcm kek iv (snd (gcm kek iv plain)) (fst (gcm kek iv plain)) = Some plain)"

lemma unseal_seal:
  assumes "gcm_ok gcm ungcm" "is_bytes iv" "is_bytes privateKey"
  shows "unsealPrivateKey ungcm (sealPrivateKey gcm iv privateKey kek) kek = Some privateKey"
proof -
  obtain ct tag where g: "gcm kek iv privateKey = (ct, tag)" by fastforce
  then have b: "is_bytes tag" "is_bytes ct" "ungcm kek iv tag ct = Some privateKey"
    using assms(1,3) unfolding gcm_ok_def by (metis fst_conv snd_conv)+
  then show ?thesis using split_sealed[where gcm = gcm, OF assms(2) b(1,2) g] assms(2) by (simp add: unsealPrivateKey_def b64_decode_encode)
qed

end
