(* ===== verification/Auth_Service.thy ===== *)
theory Auth_Service
  imports Crypto_Service Reactions_Keys
begin

text \<open>
  \<open>modules/auth/auth.service.ts\<close> and \<open>modules/auth/srp-state.service.ts\<close>: registration, the two steps of
  the SRP login with its single-use state in Redis, access and refresh tokens, logout. The cryptographic
  primitives and the signer of access tokens come in one record, random bytes and generated ids are
  arguments, and \<open>audit_ok\<close> says whether the audit insert, whose failure is only logged, goes through.
  \<open>rerr\<close> is what the Redis client rejects with. The theorems follow a login from registration to the
  issued tokens and show what no request can get past: a login state serves once, a refresh token is
  redeemed at most once, a logout revokes them all, and an unknown user name answers like a known one.
\<close>

record crypto_fns =
  cf_sha :: "bytes \<Rightarrow> bytes"
  cf_hmac :: "string \<Rightarrow> bytes \<Rightarrow> bytes"
  cf_argon2 :: "string \<Rightarrow> bytes \<Rightarrow> bytes"
  cf_gcm :: "bytes \<Rightarrow> bytes \<Rightarrow> bytes \<Rightarrow> bytes \<times> bytes"
  cf_sign :: "uid \<Rightarrow> int \<Rightarrow> time \<Rightarrow> string"

definition REFRESH_TOKEN_TTL_MS :: int where "REFRESH_TOKEN_TTL_MS = 7 * 24 * 60 * 60 * 1000"
definition INVALID_CREDENTIALS :: string where "INVALID_CREDENTIALS = ''Invalid username or password''"
definition INVALID_REFRESH :: string where "INVALID_REFRESH = ''Invalid or expired refresh token''"

definition hashRefreshToken :: "(bytes \<Rightarrow> bytes) \<Rightarrow> string \<Rightarrow> string" where
  "hashRefreshToken sha token = to_hex (sha (utf8 token))"

section \<open>The audit row\<close>

definition auth_audit :: "string \<Rightarrow> bool \<Rightarrow> string \<Rightarrow> uid \<Rightarrow> json option \<Rightarrow> string option \<Rightarrow> time \<Rightarrow> db \<Rightarrow> db" where
  "auth_audit auditId audit_ok action userId details ip now d =
     (if audit_ok then d\<lparr>auditLog := auditLog d @ [new_audit auditId action details ip (Some userId) now]\<rparr> else d)"

section \<open>Registration\<close>

record RegisterRandom =
  rr_id :: uid
  rr_srpSalt :: bytes
  rr_keySalt :: bytes
  rr_keySaltSign :: bytes
  rr_x25519 :: "bytes \<times> bytes"
  rr_ed25519 :: "bytes \<times> bytes"
  rr_iv :: bytes
  rr_ivSign :: bytes

text \<open>The number of random bytes asked for the salt of a new user: \<open>randomHex(16)\<close>.\<close>

definition SRP_SALT_BYTES :: nat where "SRP_SALT_BYTES = 16"

definition deriveKEK :: "crypto_fns \<Rightarrow> string \<Rightarrow> bytes \<Rightarrow> bytes" where
  "deriveKEK cf password salt = cf_argon2 cf password salt"

definition new_user :: "crypto_fns \<Rightarrow> RegisterRandom \<Rightarrow> string \<Rightarrow> string \<Rightarrow> string \<Rightarrow> time \<Rightarrow> user_row" where
  "new_user cf rr username email password now =
     (let srpSalt = randomHex (rr_srpSalt rr);
          x = bufferToBigInt (cf_sha cf (utf8 (srpSalt @ password)));
          srpVerifier = computeVerifier x;
          keySalt = b64_encode (rr_keySalt rr);
          kek = deriveKEK cf password (b64_decode keySalt);
          keySaltSign = b64_encode (rr_keySaltSign rr);
          kekSign = deriveKEK cf password (b64_decode keySaltSign);
          x25519 = generateX25519KeyPair (rr_x25519 rr);
          sealedX25519 = sealPrivateKey (cf_gcm cf) (rr_iv rr) (snd x25519) kek;
          ed25519 = generateEd25519KeyPair (rr_ed25519 rr);
          sealedEd25519 = sealPrivateKey (cf_gcm cf) (rr_ivSign rr) (snd ed25519) kekSign
      in \<lparr>u_id = rr_id rr, u_username = username, u_email = email, u_srpSalt = srpSalt,
          u_srpVerifier = bigintToHex srpVerifier,
          u_argon2Params = JObj [(''m'', JNum 65536), (''t'', JNum 3), (''p'', JNum 4)],
          u_publicKey = b64_encode (fst x25519), u_encryptedPrivateKey = sealedX25519, u_keySalt = keySalt,
          u_publicKeySign = b64_encode (fst ed25519), u_encryptedPrivateKeySign = sealedEd25519,
          u_keySaltSign = keySaltSign, u_keyVersion = 1, u_status = ''OFFLINE'', u_isActive = True,
          u_createdAt = now, u_updatedAt = now, u_lastLoginAt = None\<rparr>)"

definition register ::
  "crypto_fns \<Rightarrow> RegisterRandom \<Rightarrow> string \<Rightarrow> bool \<Rightarrow> string \<Rightarrow> string \<Rightarrow> string \<Rightarrow> time \<Rightarrow> db \<Rightarrow> (thrown + user_row) \<times> db" where
  "register cf rr auditId audit_ok username email password now d =
     (case first_row (filter (\<lambda>u. u_username u = username \<or> u_email u = email) (users d)) of
        Some existing \<Rightarrow>
          (Inl (ConflictException (if u_username existing = username then ''Username already taken''
                                   else ''Email already registered'')), d)
      | None \<Rightarrow>
          (let user = new_user cf rr username email password now
           in case insert_row user_conflict user (users d) of
                Inl e \<Rightarrow> (Inl e, d)
              | Inr rows \<Rightarrow>
                  (Inr user, auth_audit auditId audit_ok ''REGISTER'' (u_id user) None None now (d\<lparr>users := rows\<rparr>))))"

section \<open>The login state\<close>

record SrpState =
  st_b :: int
  st_B :: int
  st_userId :: "uid option"

definition SRP_STATE_TTL_SECONDS :: int where "SRP_STATE_TTL_SECONDS = 120"

definition srp_key :: "string \<Rightarrow> string" where
  "srp_key username = ''zevra:srp:'' @ username"

definition StoredSrpState :: "SrpState \<Rightarrow> json" where
  "StoredSrpState state = JObj [(''b'', JStr (bigint_text (st_b state))), (''B'', JStr (bigint_text (st_B state))),
     (''userId'', jstr_of (st_userId state))]"

definition srpState_set :: "json \<Rightarrow> time \<Rightarrow> string \<Rightarrow> SrpState \<Rightarrow> world \<Rightarrow> (thrown + unit) \<times> world" where
  "srpState_set rerr now username state w =
     (case w_link w of
        Down \<Rightarrow> (Inl (ServiceUnavailableException ''Login is temporarily unavailable''), w)
      | Failing \<Rightarrow> (Inl (Other rerr), w)
      | Up \<Rightarrow> (Inr (), w\<lparr>w_redis := (w_redis w)\<lparr>r_json :=
                 put_ex now SRP_STATE_TTL_SECONDS (srp_key username) (Stored (StoredSrpState state)) (r_json (w_redis w))\<rparr>\<rparr>))"

text \<open>
  \<open>BigInt('0x' + parsed.b)\<close> of a stored value that is not a string of hex digits throws, and the state
  is discarded. Only \<open>set\<close> writes these keys.
\<close>

fun stored_hex :: "json option \<Rightarrow> int option" where
  "stored_hex (Some (JStr s)) = (if s \<noteq> [] \<and> list_all is_hex s then Some (BigInt_0x s) else None)"
| "stored_hex _ = None"

fun stored_user :: "json option \<Rightarrow> uid option" where
  "stored_user (Some (JStr s)) = Some s"
| "stored_user _ = None"

definition parse_state :: "stored \<Rightarrow> SrpState option" where
  "parse_state raw =
     (case json_parse raw of
        None \<Rightarrow> None
      | Some parsed \<Rightarrow>
          (case (stored_hex (jfield ''b'' parsed), stored_hex (jfield ''B'' parsed)) of
             (Some b, Some B) \<Rightarrow> Some \<lparr>st_b = b, st_B = B, st_userId = stored_user (jfield ''userId'' parsed)\<rparr>
           | _ \<Rightarrow> None))"

definition srpState_consume :: "json \<Rightarrow> time \<Rightarrow> string \<Rightarrow> world \<Rightarrow> (thrown + SrpState option) \<times> world" where
  "srpState_consume rerr now username w =
     (case w_link w of
        Down \<Rightarrow> (Inl (ServiceUnavailableException ''Login is temporarily unavailable''), w)
      | Failing \<Rightarrow> (Inl (Other rerr), w)
      | Up \<Rightarrow>
          (Inr (case live now (r_json (w_redis w)) (srp_key username) of None \<Rightarrow> None | Some raw \<Rightarrow> parse_state raw),
           w\<lparr>w_redis := (w_redis w)\<lparr>r_json := del_key (srp_key username) (r_json (w_redis w))\<rparr>\<rparr>))"

section \<open>Login, first step\<close>

record LoginStart =
  ls_username :: string
  ls_srpSalt :: string
  ls_B :: string

definition login_credentials :: "crypto_fns \<Rightarrow> string \<Rightarrow> string \<Rightarrow> db \<Rightarrow> string \<times> int \<times> uid option" where
  "login_credentials cf secret username d =
     (case first_row (filter (\<lambda>u. u_username u = username) (users d)) of
        Some user \<Rightarrow>
          if u_isActive user then (u_srpSalt user, BigInt_0x (u_srpVerifier user), Some (u_id user))
          else (let (srpSalt, verifier) = decoyCredentials (cf_hmac cf) username secret in (srpSalt, verifier, None))
      | None \<Rightarrow> (let (srpSalt, verifier) = decoyCredentials (cf_hmac cf) username secret in (srpSalt, verifier, None)))"

definition loginStart ::
  "crypto_fns \<Rightarrow> string \<Rightarrow> bytes \<Rightarrow> json \<Rightarrow> time \<Rightarrow> string \<Rightarrow> world \<Rightarrow> (thrown + LoginStart) \<times> world" where
  "loginStart cf secret random rerr now username w =
     (let (srpSalt, verifier, userId) = login_credentials cf secret username (w_db w);
          (B, b) = generateServerEphemeral (cf_sha cf) random verifier
      in case srpState_set rerr now username \<lparr>st_b = b, st_B = B, st_userId = userId\<rparr> w of
           (Inl e, w1) \<Rightarrow> (Inl e, w1)
         | (Inr u, w1) \<Rightarrow> (Inr \<lparr>ls_username = username, ls_srpSalt = srpSalt, ls_B = bigintToHex B\<rparr>, w1))"

section \<open>Tokens\<close>

record Tokens =
  tk_accessToken :: string
  tk_refreshToken :: string
  tk_expiresIn :: int

definition issueTokens :: "crypto_fns \<Rightarrow> int \<Rightarrow> bytes \<Rightarrow> string \<Rightarrow> uid \<Rightarrow> time \<Rightarrow> db \<Rightarrow> (thrown + Tokens) \<times> db" where
  "issueTokens cf expiresIn random rowId userId now d =
     (let accessToken = cf_sign cf userId expiresIn now;
          refreshToken = randomHex random;
          kept = filter (\<lambda>t. \<not> (rt_userId t = userId \<and> rt_expiresAt t < now)) (refreshTokens d);
          row = \<lparr>rt_id = rowId, rt_tokenHash = hashRefreshToken (cf_sha cf) refreshToken,
                 rt_expiresAt = now + REFRESH_TOKEN_TTL_MS, rt_createdAt = now, rt_userId = userId\<rparr>
      in case insert_row refresh_token_conflict row kept of
           Inl e \<Rightarrow> (Inl e, d\<lparr>refreshTokens := kept\<rparr>)
         | Inr rows \<Rightarrow> (Inr \<lparr>tk_accessToken = accessToken, tk_refreshToken = refreshToken, tk_expiresIn = expiresIn\<rparr>,
                       d\<lparr>refreshTokens := rows\<rparr>))"

definition auth_refreshTokens :: "crypto_fns \<Rightarrow> int \<Rightarrow> bytes \<Rightarrow> string \<Rightarrow> string \<Rightarrow> time \<Rightarrow> db \<Rightarrow> (thrown + Tokens) \<times> db" where
  "auth_refreshTokens cf expiresIn random rowId refreshToken now d =
     (let hit = (\<lambda>t. rt_tokenHash t = hashRefreshToken (cf_sha cf) refreshToken);
          d1 = d\<lparr>refreshTokens := filter (\<lambda>t. \<not> hit t) (refreshTokens d)\<rparr>
      in case first_row (filter hit (refreshTokens d)) of
           None \<Rightarrow> (Inl (UnauthorizedException INVALID_REFRESH), d1)
         | Some record \<Rightarrow>
             if rt_expiresAt record < now then (Inl (UnauthorizedException INVALID_REFRESH), d1)
             else (case first_row (filter (\<lambda>u. u_id u = rt_userId record) (users d1)) of
                     Some user \<Rightarrow>
                       if u_isActive user then issueTokens cf expiresIn random rowId (rt_userId record) now d1
                       else (Inl (UnauthorizedException INVALID_REFRESH),
                             d1\<lparr>refreshTokens := filter (\<lambda>t. rt_userId t \<noteq> rt_userId record) (refreshTokens d1)\<rparr>)
                   | None \<Rightarrow>
                       (Inl (UnauthorizedException INVALID_REFRESH),
                        d1\<lparr>refreshTokens := filter (\<lambda>t. rt_userId t \<noteq> rt_userId record) (refreshTokens d1)\<rparr>)))"

section \<open>Login, second step\<close>

record LoginResult =
  lr_id :: uid
  lr_username :: string
  lr_email :: string
  lr_tokens :: Tokens
  lr_keys :: user_row
  lr_M2 :: string

definition login_row :: "time \<Rightarrow> user_row \<Rightarrow> user_row" where
  "login_row now u = u\<lparr>u_lastLoginAt := Some now, u_status := ''ONLINE''\<rparr>"

text \<open>\<open>lr_keys\<close> is the row the returned \<open>keys\<close> object is cut from.\<close>

definition login_user :: "SrpState \<Rightarrow> string \<Rightarrow> db \<Rightarrow> user_row option" where
  "login_user state username d =
     (case st_userId state of
        None \<Rightarrow> None
      | Some i \<Rightarrow> if i = [] then None
                 else (case first_row (filter (\<lambda>u. u_id u = i) (users d)) of
                         None \<Rightarrow> None
                       | Some user \<Rightarrow> if u_isActive user \<and> u_username user = username then Some user else None))"

definition finish_login ::
  "crypto_fns \<Rightarrow> int \<Rightarrow> bytes \<Rightarrow> string \<Rightarrow> string \<Rightarrow> bool \<Rightarrow> time \<Rightarrow> string option \<Rightarrow> user_row \<Rightarrow> string \<Rightarrow> world
     \<Rightarrow> (thrown + LoginResult) \<times> world" where
  "finish_login cf expiresIn random rowId auditId audit_ok now ip user M2 w =
     (case issueTokens cf expiresIn random rowId (u_id user) now (w_db w) of
        (Inl e, d1) \<Rightarrow> (Inl e, w\<lparr>w_db := d1\<rparr>)
      | (Inr tokens, d1) \<Rightarrow>
          (let d2 = d1\<lparr>users := update_where (\<lambda>u. u_id u = u_id user) (login_row now) (users d1)\<rparr>;
               w2 = setOnline now (u_id user) (w\<lparr>w_db := d2\<rparr>);
               w3 = w2\<lparr>w_db := auth_audit auditId audit_ok ''LOGIN'' (u_id user) None ip now (w_db w2)\<rparr>
           in (Inr \<lparr>lr_id = u_id user, lr_username = u_username user, lr_email = u_email user, lr_tokens = tokens,
                    lr_keys = user, lr_M2 = M2\<rparr>, w3)))"

definition loginFinish ::
  "crypto_fns \<Rightarrow> int \<Rightarrow> bytes \<Rightarrow> string \<Rightarrow> string \<Rightarrow> bool \<Rightarrow> json \<Rightarrow> time \<Rightarrow>
   string \<Rightarrow> string \<Rightarrow> string \<Rightarrow> string option \<Rightarrow> world \<Rightarrow> (thrown + LoginResult) \<times> world" where
  "loginFinish cf expiresIn random rowId auditId audit_ok rerr now username A_hex M1 ip w =
     (case srpState_consume rerr now username w of
        (Inl e, w1) \<Rightarrow> (Inl e, w1)
      | (Inr None, w1) \<Rightarrow> (Inl (UnauthorizedException ''Login session expired. Please try again.''), w1)
      | (Inr (Some state), w1) \<Rightarrow>
          (case parseClientEphemeral A_hex of
             None \<Rightarrow> (Inl (UnauthorizedException INVALID_CREDENTIALS), w1)
           | Some A \<Rightarrow>
               (case login_user state username (w_db w1) of
                  None \<Rightarrow> (Inl (UnauthorizedException INVALID_CREDENTIALS), w1)
                | Some user \<Rightarrow>
                    (let result = verifyClientProof (cf_sha cf) A M1 (st_b state) (st_B state)
                                    (BigInt_0x (u_srpVerifier user)) (u_srpSalt user) (u_username user)
                     in if \<not> pr_valid result
                        then (Inl (UnauthorizedException INVALID_CREDENTIALS),
                              w1\<lparr>w_db := auth_audit auditId audit_ok ''LOGIN_FAILED'' (u_id user)
                                   (Some (JObj [(''reason'', JStr ''Invalid SRP proof'')])) ip now (w_db w1)\<rparr>)
                        else finish_login cf expiresIn random rowId auditId audit_ok now ip user (pr_M2 result) w1))))"

section \<open>Profile and logout\<close>

definition getProfile :: "uid \<Rightarrow> db \<Rightarrow> thrown + user_row" where
  "getProfile userId d =
     (case first_row (filter (\<lambda>u. u_id u = userId) (users d)) of
        None \<Rightarrow> Inl (UnauthorizedException ''Authentication required'')
      | Some user \<Rightarrow> Inr user)"

definition logout :: "string \<Rightarrow> bool \<Rightarrow> time \<Rightarrow> uid \<Rightarrow> world \<Rightarrow> world" where
  "logout auditId audit_ok now userId w =
     (let d1 = auth_audit auditId audit_ok ''LOGOUT'' userId None None now (w_db w);
          d2 = d1\<lparr>users := update_where (\<lambda>u. u_id u = userId) (\<lambda>u. u\<lparr>u_status := ''OFFLINE''\<rparr>) (users d1)\<rparr>;
          d3 = d2\<lparr>refreshTokens := filter (\<lambda>t. rt_userId t \<noteq> userId) (refreshTokens d2)\<rparr>
      in setOffline userId (w\<lparr>w_db := d3\<rparr>))"

section \<open>Lemmas\<close>

lemma parse_state_stored:
  assumes "0 \<le> st_b s" "0 \<le> st_B s"
  shows "parse_state (Stored (StoredSrpState s)) = Some s"
proof -
  have u: "stored_user (Some (jstr_of x)) = x" for x by (cases x) simp_all
  have h: "stored_hex (Some (JStr (bigint_text n))) = Some n" if "0 \<le> n" for n
    using that hex_text_hex[of "nat n"] hex_text_not_Nil[of "nat n"] BigInt_bigint_text[OF that] by (simp add: bigint_text_def)
  show ?thesis using assms by (simp add: parse_state_def StoredSrpState_def u h del: stored_hex.simps)
qed

lemma auth_audit_simps [simp]:
  "users (auth_audit i ok a u det ip now d) = users d"
  "refreshTokens (auth_audit i ok a u det ip now d) = refreshTokens d"
  by (simp_all add: auth_audit_def)

lemma srpState_consume_Up:
  assumes "w_link w = Up"
  shows "fst (srpState_consume rerr now username w) =
      Inr (case live now (r_json (w_redis w)) (srp_key username) of None \<Rightarrow> None | Some raw \<Rightarrow> parse_state raw)"
    and "r_json (w_redis (snd (srpState_consume rerr now username w))) = del_key (srp_key username) (r_json (w_redis w))"
    and "w_db (snd (srpState_consume rerr now username w)) = w_db w"
    and "w_link (snd (srpState_consume rerr now username w)) = Up"
  using assms by (simp_all add: srpState_consume_def)

lemma setOnline_json [simp]: "r_json (w_redis (setOnline now u w)) = r_json (w_redis w)"
  by (simp add: setOnline_def with_redis_def split: link.splits)

lemma finish_login_frame:
  "r_json (w_redis (snd (finish_login cf ttl random rowId auditId ok now ip user M2 w))) = r_json (w_redis w)"
  "w_link (snd (finish_login cf ttl random rowId auditId ok now ip user M2 w)) = w_link w"
  by (simp_all add: finish_login_def Let_def redis_services_link split: prod.splits sum.splits)

text \<open>Whatever the outcome, a finished login leaves no login state behind.\<close>

lemma loginFinish_consumes:
  assumes "w_link w = Up"
  shows "r_json (w_redis (snd (loginFinish cf ttl random rowId auditId ok rerr now username A M1 ip w))) =
      del_key (srp_key username) (r_json (w_redis w))"
    and "w_link (snd (loginFinish cf ttl random rowId auditId ok rerr now username A M1 ip w)) = Up"
proof -
  obtain r w1 where c: "srpState_consume rerr now username w = (r, w1)" by fastforce
  have j: "r_json (w_redis w1) = del_key (srp_key username) (r_json (w_redis w))" "w_link w1 = Up"
    using srpState_consume_Up[OF assms, of rerr now username] c by simp_all
  show "r_json (w_redis (snd (loginFinish cf ttl random rowId auditId ok rerr now username A M1 ip w))) =
      del_key (srp_key username) (r_json (w_redis w))"
    "w_link (snd (loginFinish cf ttl random rowId auditId ok rerr now username A M1 ip w)) = Up"
    unfolding loginFinish_def c using j
    by (simp_all add: Let_def finish_login_frame split: sum.splits option.splits)
qed

lemma loginFinish_no_state:
  assumes "w_link w = Up" "live now (r_json (w_redis w)) (srp_key username) = None"
  shows "fst (loginFinish cf ttl random rowId auditId ok rerr now username A M1 ip w) =
      Inl (UnauthorizedException ''Login session expired. Please try again.'')"
  using assms by (simp add: loginFinish_def srpState_consume_def)

lemma loginFinish_Inr:
  assumes "loginFinish cf ttl random rowId auditId ok rerr now username A_hex M1 ip w = (Inr r, w')"
  obtains raw state A user where "w_link w = Up" "live now (r_json (w_redis w)) (srp_key username) = Some raw"
    "parse_state raw = Some state" "parseClientEphemeral A_hex = Some A"
    "login_user state username (w_db w) = Some user"
    "pr_valid (verifyClientProof (cf_sha cf) A M1 (st_b state) (st_B state) (BigInt_0x (u_srpVerifier user)) (u_srpSalt user) username)"
    "lr_id r = u_id user"
proof -
  have up: "w_link w = Up" using assms by (cases "w_link w") (auto simp: loginFinish_def srpState_consume_def)
  obtain w1 where c: "srpState_consume rerr now username w =
      (Inr (case live now (r_json (w_redis w)) (srp_key username) of None \<Rightarrow> None | Some raw \<Rightarrow> parse_state raw), w1)"
    using srpState_consume_Up(1)[OF up] by (metis prod.collapse)
  then have db: "w_db w1 = w_db w" using srpState_consume_Up(3)[OF up, of rerr now username] by simp
  obtain raw where raw: "live now (r_json (w_redis w)) (srp_key username) = Some raw"
    using assms c by (cases "live now (r_json (w_redis w)) (srp_key username)") (auto simp: loginFinish_def)
  obtain state where st: "parse_state raw = Some state"
    using assms c raw by (cases "parse_state raw") (auto simp: loginFinish_def)
  obtain A where A: "parseClientEphemeral A_hex = Some A"
    using assms c raw st by (cases "parseClientEphemeral A_hex") (auto simp: loginFinish_def)
  obtain user where u: "login_user state username (w_db w) = Some user"
    using assms c raw st A db
    by (cases "login_user state username (w_db w)") (auto simp: loginFinish_def)
  have name: "u_username user = username" using u by (auto simp: login_user_def split: option.splits if_splits)
  have fin: "finish_login cf ttl random rowId auditId ok now ip user
        (pr_M2 (verifyClientProof (cf_sha cf) A M1 (st_b state) (st_B state) (BigInt_0x (u_srpVerifier user)) (u_srpSalt user) username)) w1 = (Inr r, w')"
    and v: "pr_valid (verifyClientProof (cf_sha cf) A M1 (st_b state) (st_B state) (BigInt_0x (u_srpVerifier user)) (u_srpSalt user) username)"
    using assms c raw st A u name db
    by (simp_all add: loginFinish_def Let_def split: if_splits)
  have "lr_id r = u_id user" using fin by (auto simp: finish_login_def Let_def split: prod.splits sum.splits)
  then show thesis using that up raw st A u v by blast
qed

lemma login_user_Some:
  assumes "login_user state username d = Some user"
  shows "st_userId state = Some (u_id user)" "user \<in> set (users d)" "u_isActive user" "u_username user = username"
  using assms by (auto simp: login_user_def split: option.splits if_splits dest!: first_row_filterD)

lemma issueTokens_Inr:
  assumes "issueTokens cf ttl random rowId userId now d = (Inr tokens, d')"
  shows "tk_refreshToken tokens = randomHex random"
    "refreshTokens d' = filter (\<lambda>t. \<not> (rt_userId t = userId \<and> rt_expiresAt t < now)) (refreshTokens d) @
       [\<lparr>rt_id = rowId, rt_tokenHash = hashRefreshToken (cf_sha cf) (randomHex random),
         rt_expiresAt = now + REFRESH_TOKEN_TTL_MS, rt_createdAt = now, rt_userId = userId\<rparr>]"
    "users d' = users d"
  using assms by (auto simp: issueTokens_def Let_def insert_row_def split: sum.splits if_splits)

lemma issueTokens_Inl:
  assumes "issueTokens cf ttl random rowId userId now d = (Inl e, d')"
  shows "set (refreshTokens d') \<subseteq> set (refreshTokens d)" "users d' = users d"
  using assms by (auto simp: issueTokens_def Let_def insert_row_def split: sum.splits if_splits)

lemma issueTokens_fresh:
  assumes "\<forall>t \<in> set (refreshTokens d). rt_id t \<noteq> rowId \<and> rt_tokenHash t \<noteq> hashRefreshToken (cf_sha cf) (randomHex random)"
  shows "\<exists>tokens d'. issueTokens cf ttl random rowId userId now d = (Inr tokens, d')"
  using assms by (auto simp: issueTokens_def Let_def insert_row_def list_ex_iff refresh_token_conflict_def)

lemma register_Inr:
  assumes "register cf rr auditId ok username email password now d = (Inr u, d')"
  shows "u = new_user cf rr username email password now" "users d' = users d @ [u]"
    "refreshTokens d' = refreshTokens d" "\<forall>x \<in> set (users d). \<not> user_conflict u x"
  using assms by (auto simp: register_def Let_def insert_row_Inr_iff split: option.splits sum.splits)

lemma new_user_simps [simp]:
  "u_id (new_user cf rr username email password now) = rr_id rr"
  "u_username (new_user cf rr username email password now) = username"
  "u_email (new_user cf rr username email password now) = email"
  "u_isActive (new_user cf rr username email password now)"
  "u_srpSalt (new_user cf rr username email password now) = randomHex (rr_srpSalt rr)"
  "u_srpVerifier (new_user cf rr username email password now) =
     bigintToHex (computeVerifier (client_x (cf_sha cf) password (randomHex (rr_srpSalt rr))))"
  by (simp_all add: new_user_def Let_def client_x_def)

lemma verifier_back: "BigInt_0x (bigintToHex (computeVerifier (client_x sha password salt))) = computeVerifier (client_x sha password salt)"
proof -
  have "0 \<le> client_x sha password salt" by (simp add: client_x_def)
  from modPow_N_range[OF this] show ?thesis by (intro BigInt_bigintToHex) (simp add: computeVerifier_def)
qed

lemma fresh_user_found:
  assumes "\<forall>x \<in> set us. \<not> user_conflict u x"
  shows "first_row (filter (\<lambda>x. u_username x = u_username u) (us @ [u])) = Some u"
    "first_row (filter (\<lambda>x. u_id x = u_id u) (us @ [u])) = Some u"
proof -
  have "filter (\<lambda>x. u_username x = u_username u) us = []" "filter (\<lambda>x. u_id x = u_id u) us = []"
    unfolding filter_empty_conv using assms by (metis user_conflict_def)+
  then show "first_row (filter (\<lambda>x. u_username x = u_username u) (us @ [u])) = Some u"
    "first_row (filter (\<lambda>x. u_id x = u_id u) (us @ [u])) = Some u" by simp_all
qed

lemma loginStart_Up:
  assumes "w_link w = Up" "login_credentials cf secret username (w_db w) = (salt, v, uid)"
    "generateServerEphemeral (cf_sha cf) random v = (B, b)"
  shows "loginStart cf secret random rerr now username w =
    (Inr \<lparr>ls_username = username, ls_srpSalt = salt, ls_B = bigintToHex B\<rparr>,
     w\<lparr>w_redis := (w_redis w)\<lparr>r_json := put_ex now SRP_STATE_TTL_SECONDS (srp_key username)
        (Stored (StoredSrpState \<lparr>st_b = b, st_B = B, st_userId = uid\<rparr>)) (r_json (w_redis w))\<rparr>\<rparr>)"
  using assms by (simp add: loginStart_def Let_def srpState_set_def)

lemma finish_login_Inr:
  assumes "issueTokens cf ttl random rowId (u_id user) now (w_db w) = (Inr tokens, d1)"
  shows "\<exists>w3. finish_login cf ttl random rowId auditId ok now ip user M2 w =
      (Inr \<lparr>lr_id = u_id user, lr_username = u_username user, lr_email = u_email user, lr_tokens = tokens,
            lr_keys = user, lr_M2 = M2\<rparr>, w3) \<and> refreshTokens (w_db w3) = refreshTokens d1 \<and>
      (w_link w = Up \<longrightarrow> isOnline now (u_id user) w3)"
  using assms
  by (simp add: finish_login_def Let_def isOnline_def setOnline_def with_redis_def redis_ttl_defs split: link.splits)

section \<open>Properties\<close>

text \<open>
  C10: Whoever registers can log in. After a successful registration, starting a login and answering it
  within two minutes with the registered password is accepted, for all random choices of both sides:
  the answer carries the user's stored key material and the server proof the client expects, the new
  refresh token is stored for that user with its seven-day lifetime, and the user is online.
\<close>

theorem registered_user_can_log_in:
  assumes sha: "sha_ok (cf_sha cf)" and up: "w_link w = Up" and rid: "rr_id rr \<noteq> []"
    and reg: "register cf rr auditId ok username email password t (w_db w) = (Inr u, d1)"
    and time: "t1 < t0 + 120000"
    and fresh: "\<forall>r \<in> set (refreshTokens (w_db w)). rt_id r \<noteq> rowId \<and> rt_tokenHash r \<noteq> hashRefreshToken (cf_sha cf) (randomHex trandom)"
  shows "case loginStart cf secret random rerr t0 username (w\<lparr>w_db := d1\<rparr>) of
      (Inl e, w2) \<Rightarrow> False
    | (Inr ls, w2) \<Rightarrow>
        (case clientProof (cf_sha cf) crandom password (ls_srpSalt ls) (ls_B ls) of (A, M1) \<Rightarrow>
           (case loginFinish cf ttl trandom rowId auditId' ok' rerr t1 username (bigint_text A) M1 ip w2 of
              (Inl e, w3) \<Rightarrow> False
            | (Inr r, w3) \<Rightarrow>
                lr_id r = u_id u \<and> lr_keys r = u \<and> tk_refreshToken (lr_tokens r) = randomHex trandom \<and>
                lr_M2 r = to_hex (cf_sha cf (bigintToBuffer A @ from_hex M1 @
                  snd (client_key (cf_sha cf) (bufferToBigInt crandom)
                        (client_x (cf_sha cf) password (ls_srpSalt ls)) (BigInt_0x (ls_B ls))))) \<and>
                (\<exists>row \<in> set (refreshTokens (w_db w3)). rt_userId row = u_id u \<and> rt_expiresAt row = t1 + REFRESH_TOKEN_TTL_MS \<and>
                   rt_tokenHash row = hashRefreshToken (cf_sha cf) (randomHex trandom)) \<and>
                isOnline t1 (u_id u) w3))"
proof -
  let ?sha = "cf_sha cf" and ?salt = "randomHex (rr_srpSalt rr)"
  let ?v = "computeVerifier (client_x ?sha password ?salt)"
  note r = register_Inr[OF reg]
  obtain B b where B: "generateServerEphemeral ?sha random ?v = (B, b)" by fastforce
  obtain A M1 where A: "clientProof ?sha crandom password ?salt (bigintToHex B) = (A, M1)" by fastforce
  have x: "0 \<le> client_x ?sha password ?salt" by (simp add: client_x_def)
  have "0 \<le> ?v" using modPow_N_range[OF x] by (simp add: computeVerifier_def)
  note Bb = generateServerEphemeral_range[OF this B]
  have found: "first_row (filter (\<lambda>x. u_username x = username) (users d1)) = Some u"
    "first_row (filter (\<lambda>x. u_id x = rr_id rr) (users d1)) = Some u"
    using fresh_user_found[OF r(4)] r(1,2) by simp_all
  have cred: "login_credentials cf secret username (w_db (w\<lparr>w_db := d1\<rparr>)) = (?salt, ?v, Some (rr_id rr))"
    using found(1) r(1) by (simp add: login_credentials_def verifier_back)
  have up1: "w_link (w\<lparr>w_db := d1\<rparr>) = Up" using up by simp
  let ?state = "\<lparr>st_b = b, st_B = B, st_userId = Some (rr_id rr)\<rparr>"
  let ?w2 = "w\<lparr>w_db := d1, w_redis := (w_redis w)\<lparr>r_json := put_ex t0 SRP_STATE_TTL_SECONDS (srp_key username)
        (Stored (StoredSrpState ?state)) (r_json (w_redis w))\<rparr>\<rparr>"
  have start: "loginStart cf secret random rerr t0 username (w\<lparr>w_db := d1\<rparr>) =
      (Inr \<lparr>ls_username = username, ls_srpSalt = ?salt, ls_B = bigintToHex B\<rparr>, ?w2)"
    using loginStart_Up[OF up1 cred B, of rerr t0] by simp
  have live: "live t1 (r_json (w_redis ?w2)) (srp_key username) = Some (Stored (StoredSrpState ?state))"
    using time by (simp add: live_put_ex_later SRP_STATE_TTL_SECONDS_def)
  have st: "parse_state (Stored (StoredSrpState ?state)) = Some ?state" using Bb(1,3) by (intro parse_state_stored) simp_all
  obtain w3 where c: "srpState_consume rerr t1 username ?w2 = (Inr (Some ?state), w3)"
      and w3: "w_db w3 = d1" "w_link w3 = Up"
    using up live st by (simp add: srpState_consume_def)
  have user: "login_user ?state username d1 = Some u" using found(2) rid r(1) by (simp add: login_user_def)
  note hon = honest_client_accepted(1)[OF sha refl B A, of username] honest_client_accepted(2)[OF sha refl B A]
  have fresh1: "\<forall>t \<in> set (refreshTokens (w_db w3)). rt_id t \<noteq> rowId \<and> rt_tokenHash t \<noteq> hashRefreshToken ?sha (randomHex trandom)"
    using fresh r(3) w3(1) by simp
  obtain tokens d2 where tok: "issueTokens cf ttl trandom rowId (u_id u) t1 (w_db w3) = (Inr tokens, d2)"
    using issueTokens_fresh[OF fresh1] by blast
  define M2 where "M2 = to_hex (?sha (bigintToBuffer A @ from_hex M1 @ snd (client_key ?sha (bufferToBigInt crandom) (client_x ?sha password ?salt) B)))"
  obtain w4 where fin: "finish_login cf ttl trandom rowId auditId' ok' t1 ip u M2 w3 =
      (Inr \<lparr>lr_id = u_id u, lr_username = u_username u, lr_email = u_email u, lr_tokens = tokens, lr_keys = u, lr_M2 = M2\<rparr>, w4)"
      and w4: "refreshTokens (w_db w4) = refreshTokens d2" "isOnline t1 (u_id u) w4"
    using finish_login_Inr[OF tok] w3(2) by blast
  have "loginFinish cf ttl trandom rowId auditId' ok' rerr t1 username (bigint_text A) M1 ip ?w2 =
      (Inr \<lparr>lr_id = u_id u, lr_username = u_username u, lr_email = u_email u, lr_tokens = tokens, lr_keys = u, lr_M2 = M2\<rparr>, w4)"
    unfolding loginFinish_def c using hon user w3(1) r(1) fin by (simp add: Let_def verifier_back M2_def)
  then show ?thesis unfolding start using A w4 issueTokens_Inr[OF tok] BigInt_bigintToHex[OF Bb(3)]
    by (simp add: M2_def)
qed

definition sample_cf :: crypto_fns where
  "sample_cf = \<lparr>cf_sha = (\<lambda>m. replicate 32 (length m mod 256)), cf_hmac = (\<lambda>s m. replicate 32 (length m mod 256)),
     cf_argon2 = (\<lambda>p salt. replicate 32 0), cf_gcm = (\<lambda>k iv p. (p, replicate 16 0)),
     cf_sign = (\<lambda>u ttl now. u @ show_int (now + 1000 * ttl))\<rparr>"

definition sample_rr :: RegisterRandom where
  "sample_rr = \<lparr>rr_id = ''u1'', rr_srpSalt = [1, 2, 3], rr_keySalt = [4], rr_keySaltSign = [5], rr_x25519 = ([6], [7]),
     rr_ed25519 = ([8], [9]), rr_iv = [10], rr_ivSign = [11]\<rparr>"

lemma sample_sha_ok: "sha_ok (cf_sha sample_cf)"
  by (simp add: sample_cf_def sha_ok_def is_bytes_def list_all_iff)

lemma sample_register:
  "\<exists>d1. register sample_cf sample_rr ''a1'' True ''alice'' ''a@b.c'' ''secret'' 0 (w_db empty_world) =
     (Inr (new_user sample_cf sample_rr ''alice'' ''a@b.c'' ''secret'' 0), d1)"
  by (simp add: register_def Let_def insert_row_def)

theorem registered_user_can_log_in_witness:
  "\<exists>d1 ls w2 A M1 r w3. register sample_cf sample_rr ''a1'' True ''alice'' ''a@b.c'' ''secret'' 0 empty_db =
        (Inr (new_user sample_cf sample_rr ''alice'' ''a@b.c'' ''secret'' 0), d1) \<and>
     loginStart sample_cf ''key'' [12, 13] JNull 1000 ''alice'' (empty_world\<lparr>w_db := d1\<rparr>) = (Inr ls, w2) \<and>
     clientProof (cf_sha sample_cf) [14, 15] ''secret'' (ls_srpSalt ls) (ls_B ls) = (A, M1) \<and>
     loginFinish sample_cf 900 [16] ''t1'' ''a2'' True JNull 5000 ''alice'' (bigint_text A) M1 None w2 = (Inr r, w3) \<and>
     lr_id r = ''u1''"
proof -
  obtain d1 where d1: "register sample_cf sample_rr ''a1'' True ''alice'' ''a@b.c'' ''secret'' 0 (w_db empty_world) =
     (Inr (new_user sample_cf sample_rr ''alice'' ''a@b.c'' ''secret'' 0), d1)" using sample_register by blast
  have h: "w_link empty_world = Up" "rr_id sample_rr \<noteq> []" "(5000::int) < 1000 + 120000"
    "\<forall>r \<in> set (refreshTokens (w_db empty_world)). rt_id r \<noteq> ''t1'' \<and>
      rt_tokenHash r \<noteq> hashRefreshToken (cf_sha sample_cf) (randomHex [16])" by (simp_all add: sample_rr_def)
  note t = registered_user_can_log_in[OF sample_sha_ok h(1,2) d1 h(3,4), where
      secret = "''key''" and random = "[12, 13]" and rerr = JNull and crandom = "[14, 15]" and ttl = 900 and
      auditId' = "''a2''" and ok' = True and ip = None]
  have id: "rr_id sample_rr = ''u1''" by (simp add: sample_rr_def)
  obtain x w2 where s: "loginStart sample_cf ''key'' [12, 13] JNull 1000 ''alice'' (empty_world\<lparr>w_db := d1\<rparr>) = (x, w2)" by fastforce
  then obtain ls where ls: "x = Inr ls" using t by (cases x) simp_all
  obtain A M1 where c: "clientProof (cf_sha sample_cf) [14, 15] ''secret'' (ls_srpSalt ls) (ls_B ls) = (A, M1)" by fastforce
  obtain y w3 where f: "loginFinish sample_cf 900 [16] ''t1'' ''a2'' True JNull 5000 ''alice'' (bigint_text A) M1 None w2 = (y, w3)" by fastforce
  then obtain r where r: "y = Inr r" using t s ls c by (cases y) simp_all
  have "lr_id r = ''u1''" using t s ls c f r id by simp
  then show ?thesis using d1 s ls c f r by fastforce
qed

text \<open>
  C19: No login without a fresh proof. When \<open>loginFinish\<close> succeeds, a login state of this user name was
  live, it was started for an active user of that name, and the client's proof was valid for the stored
  verifier and the stored ephemeral key. Whatever the outcome of the call, the state is used up: another
  attempt, with any values, is told that the login session expired.
\<close>

theorem login_state_used_once:
  assumes "w_link w = Up"
    and "loginFinish cf ttl random rowId auditId ok rerr now username A_hex M1 ip w = (res, w')"
  shows "(\<forall>r. res = Inr r \<longrightarrow> (\<exists>raw state A user. live now (r_json (w_redis w)) (srp_key username) = Some raw \<and>
        parse_state raw = Some state \<and> parseClientEphemeral A_hex = Some A \<and>
        user \<in> set (users (w_db w)) \<and> u_isActive user \<and> u_username user = username \<and>
        st_userId state = Some (u_id user) \<and> lr_id r = u_id user \<and>
        pr_valid (verifyClientProof (cf_sha cf) A M1 (st_b state) (st_B state) (BigInt_0x (u_srpVerifier user)) (u_srpSalt user) username))) \<and>
    fst (loginFinish cf ttl' random' rowId' auditId' ok' rerr' now' username A_hex' M1' ip' w') =
      Inl (UnauthorizedException ''Login session expired. Please try again.'')"
proof (intro conjI allI impI)
  fix r assume "res = Inr r"
  with assms(2) have "loginFinish cf ttl random rowId auditId ok rerr now username A_hex M1 ip w = (Inr r, w')" by simp
  then obtain raw state A user where *: "live now (r_json (w_redis w)) (srp_key username) = Some raw"
    "parse_state raw = Some state" "parseClientEphemeral A_hex = Some A" "login_user state username (w_db w) = Some user"
    "pr_valid (verifyClientProof (cf_sha cf) A M1 (st_b state) (st_B state) (BigInt_0x (u_srpVerifier user)) (u_srpSalt user) username)"
    "lr_id r = u_id user" by (rule loginFinish_Inr)
  with login_user_Some[OF *(4)] show "\<exists>raw state A user. live now (r_json (w_redis w)) (srp_key username) = Some raw \<and>
        parse_state raw = Some state \<and> parseClientEphemeral A_hex = Some A \<and>
        user \<in> set (users (w_db w)) \<and> u_isActive user \<and> u_username user = username \<and>
        st_userId state = Some (u_id user) \<and> lr_id r = u_id user \<and>
        pr_valid (verifyClientProof (cf_sha cf) A M1 (st_b state) (st_B state) (BigInt_0x (u_srpVerifier user)) (u_srpSalt user) username)"
    by blast
next
  have "r_json (w_redis w') = del_key (srp_key username) (r_json (w_redis w))" "w_link w' = Up"
    using loginFinish_consumes[OF assms(1), of cf ttl random rowId auditId ok rerr now username A_hex M1 ip] assms(2) by simp_all
  then show "fst (loginFinish cf ttl' random' rowId' auditId' ok' rerr' now' username A_hex' M1' ip' w') =
      Inl (UnauthorizedException ''Login session expired. Please try again.'')" by (intro loginFinish_no_state) simp_all
qed

theorem login_state_used_once_witness:
  "fst (loginFinish sample_cf 900 [16] ''t2'' ''a3'' True JNull 6000 ''alice'' ''5'' ''ab'' None
     (snd (loginFinish sample_cf 900 [16] ''t1'' ''a2'' True JNull 5000 ''alice'' ''5'' ''ab'' None empty_world))) =
   Inl (UnauthorizedException ''Login session expired. Please try again.'')"
  using login_state_used_once[of empty_world sample_cf 900 "[16]" "''t1''" "''a2''" True JNull 5000 "''alice''" "''5''" "''ab''" None
      "fst (loginFinish sample_cf 900 [16] ''t1'' ''a2'' True JNull 5000 ''alice'' ''5'' ''ab'' None empty_world)"
      "snd (loginFinish sample_cf 900 [16] ''t1'' ''a2'' True JNull 5000 ''alice'' ''5'' ''ab'' None empty_world)"]
  by simp

lemma refresh_lookup:
  assumes "keys_unique refresh_token_conflict (refreshTokens d)" "row \<in> set (refreshTokens d)" "rt_tokenHash row = h"
  shows "first_row (filter (\<lambda>t. rt_tokenHash t = h) (refreshTokens d)) = Some row"
proof -
  have "filter (\<lambda>t. rt_tokenHash t = h) (refreshTokens d) = [row]"
    using assms by (intro refreshTokens_tab.unique_filter) (auto simp: refresh_token_conflict_def)
  then show ?thesis by simp
qed

lemma user_lookup:
  assumes "keys_unique user_conflict (users d)" "user \<in> set (users d)"
  shows "first_row (filter (\<lambda>u. u_id u = u_id user) (users d)) = Some user"
proof -
  have "filter (\<lambda>u. u_id u = u_id user) (users d) = [user]"
    using assms by (intro users_tab.unique_filter) (auto simp: user_conflict_def)
  then show ?thesis by simp
qed

lemma refresh_unknown:
  assumes "\<forall>t \<in> set (refreshTokens d). rt_tokenHash t \<noteq> hashRefreshToken (cf_sha cf) token"
  shows "fst (auth_refreshTokens cf ttl random rowId token now d) = Inl (UnauthorizedException INVALID_REFRESH)"
proof -
  have "first_row (filter (\<lambda>t. rt_tokenHash t = hashRefreshToken (cf_sha cf) token) (refreshTokens d)) = None"
    unfolding first_row_filter_None using assms by blast
  then show ?thesis by (simp add: auth_refreshTokens_def)
qed

lemma refresh_cases:
  assumes "auth_refreshTokens cf ttl random rowId token now d = (res, d')"
  shows "(\<exists>tk. res = Inr tk) \<and> (\<exists>row user d1. first_row (filter (\<lambda>t. rt_tokenHash t = hashRefreshToken (cf_sha cf) token) (refreshTokens d)) = Some row \<and>
        now \<le> rt_expiresAt row \<and> first_row (filter (\<lambda>u. u_id u = rt_userId row) (users d)) = Some user \<and> u_isActive user \<and>
        d1 = d\<lparr>refreshTokens := filter (\<lambda>t. rt_tokenHash t \<noteq> hashRefreshToken (cf_sha cf) token) (refreshTokens d)\<rparr> \<and>
        issueTokens cf ttl random rowId (rt_userId row) now d1 = (res, d')) \<or>
     (\<exists>e. res = Inl e) \<and> (\<forall>t \<in> set (refreshTokens d'). t \<in> set (refreshTokens d) \<and> rt_tokenHash t \<noteq> hashRefreshToken (cf_sha cf) token)"
proof -
  let ?h = "hashRefreshToken (cf_sha cf) token"
  let ?d1 = "d\<lparr>refreshTokens := filter (\<lambda>t. rt_tokenHash t \<noteq> ?h) (refreshTokens d)\<rparr>"
  show ?thesis
  proof (cases "\<exists>row user. first_row (filter (\<lambda>t. rt_tokenHash t = ?h) (refreshTokens d)) = Some row \<and> \<not> rt_expiresAt row < now \<and>
      first_row (filter (\<lambda>u. u_id u = rt_userId row) (users d)) = Some user \<and> u_isActive user")
    case False
    then have "(\<exists>e. res = Inl e) \<and> set (refreshTokens d') \<subseteq> set (refreshTokens ?d1)"
      using assms by (auto simp: auth_refreshTokens_def Let_def split: option.splits if_splits)
    then show ?thesis by auto
  next
    case True
    then obtain row user where r: "first_row (filter (\<lambda>t. rt_tokenHash t = ?h) (refreshTokens d)) = Some row" "\<not> rt_expiresAt row < now"
      "first_row (filter (\<lambda>u. u_id u = rt_userId row) (users d)) = Some user" "u_isActive user" by blast
    then have i: "issueTokens cf ttl random rowId (rt_userId row) now ?d1 = (res, d')"
      using assms by (simp add: auth_refreshTokens_def Let_def)
    show ?thesis
    proof (cases res)
      case (Inl e)
      from issueTokens_Inl(1)[OF i[unfolded Inl]] show ?thesis using Inl by auto
    next
      case (Inr tk)
      have "now \<le> rt_expiresAt row" using r(2) by simp
      then show ?thesis using r i Inr by blast
    qed
  qed
qed

text \<open>
  C18: A refresh token is redeemed at most once. When \<open>refreshTokens\<close> issues new tokens, the presented
  token was stored, unexpired, and belongs to an active user, and the new token is stored for that user;
  presenting the old one again, to whatever state the first call left, is refused. Conversely an
  unexpired stored token of an active user is accepted.
\<close>

theorem refresh_token_redeemed_once:
  assumes keys: "keys_unique refresh_token_conflict (refreshTokens d)" "keys_unique user_conflict (users d)"
    and call: "auth_refreshTokens cf ttl random rowId token now d = (res, d')"
    and new: "hashRefreshToken (cf_sha cf) (randomHex random) \<noteq> hashRefreshToken (cf_sha cf) token"
  shows "(\<forall>tk. res = Inr tk \<longrightarrow> (\<exists>row \<in> set (refreshTokens d). \<exists>user \<in> set (users d).
        rt_tokenHash row = hashRefreshToken (cf_sha cf) token \<and> now \<le> rt_expiresAt row \<and>
        u_id user = rt_userId row \<and> u_isActive user \<and>
        (\<exists>fresh \<in> set (refreshTokens d'). rt_userId fresh = u_id user \<and> rt_expiresAt fresh = now + REFRESH_TOKEN_TTL_MS \<and>
           rt_tokenHash fresh = hashRefreshToken (cf_sha cf) (tk_refreshToken tk)))) \<and>
    fst (auth_refreshTokens cf ttl' random' rowId' token now' d') = Inl (UnauthorizedException INVALID_REFRESH) \<and>
    (\<forall>row \<in> set (refreshTokens d). \<forall>user \<in> set (users d). rt_tokenHash row = hashRefreshToken (cf_sha cf) token \<longrightarrow>
       now \<le> rt_expiresAt row \<longrightarrow> u_id user = rt_userId row \<longrightarrow> u_isActive user \<longrightarrow>
       (\<forall>t \<in> set (refreshTokens d). rt_id t \<noteq> rowId \<and> rt_tokenHash t \<noteq> hashRefreshToken (cf_sha cf) (randomHex random)) \<longrightarrow>
       (\<exists>tk. res = Inr tk))"
proof (intro conjI)
  let ?h = "hashRefreshToken (cf_sha cf) token"
  show "\<forall>tk. res = Inr tk \<longrightarrow> (\<exists>row \<in> set (refreshTokens d). \<exists>user \<in> set (users d).
        rt_tokenHash row = ?h \<and> now \<le> rt_expiresAt row \<and> u_id user = rt_userId row \<and> u_isActive user \<and>
        (\<exists>fresh \<in> set (refreshTokens d'). rt_userId fresh = u_id user \<and> rt_expiresAt fresh = now + REFRESH_TOKEN_TTL_MS \<and>
           rt_tokenHash fresh = hashRefreshToken (cf_sha cf) (tk_refreshToken tk)))"
  proof (intro allI impI)
    fix tk assume tk: "res = Inr tk"
    then obtain row user d1 where r: "first_row (filter (\<lambda>t. rt_tokenHash t = ?h) (refreshTokens d)) = Some row"
        "now \<le> rt_expiresAt row" "first_row (filter (\<lambda>u. u_id u = rt_userId row) (users d)) = Some user" "u_isActive user"
        "issueTokens cf ttl random rowId (rt_userId row) now d1 = (Inr tk, d')"
      using refresh_cases[OF call] by blast
    have row: "row \<in> set (refreshTokens d) \<and> rt_tokenHash row = ?h" and user: "user \<in> set (users d) \<and> u_id user = rt_userId row"
      using first_row_filterD[OF r(1)] first_row_filterD[OF r(3)] by simp_all
    have "\<exists>fresh \<in> set (refreshTokens d'). rt_userId fresh = u_id user \<and> rt_expiresAt fresh = now + REFRESH_TOKEN_TTL_MS \<and>
           rt_tokenHash fresh = hashRefreshToken (cf_sha cf) (tk_refreshToken tk)"
      using issueTokens_Inr[OF r(5)] user by simp
    then show "\<exists>row \<in> set (refreshTokens d). \<exists>user \<in> set (users d).
        rt_tokenHash row = ?h \<and> now \<le> rt_expiresAt row \<and> u_id user = rt_userId row \<and> u_isActive user \<and>
        (\<exists>fresh \<in> set (refreshTokens d'). rt_userId fresh = u_id user \<and> rt_expiresAt fresh = now + REFRESH_TOKEN_TTL_MS \<and>
           rt_tokenHash fresh = hashRefreshToken (cf_sha cf) (tk_refreshToken tk))" using row user r(2,4) by blast
  qed
  have "rt_tokenHash t \<noteq> ?h" if t: "t \<in> set (refreshTokens d')" for t
    using refresh_cases[OF call]
  proof (elim disjE conjE exE)
    fix tk row user d1 assume "res = Inr tk" and d1: "d1 = d\<lparr>refreshTokens := filter (\<lambda>t. rt_tokenHash t \<noteq> ?h) (refreshTokens d)\<rparr>"
      and i: "issueTokens cf ttl random rowId (rt_userId row) now d1 = (res, d')"
    then show ?thesis using t new issueTokens_Inr(2)[OF i[unfolded \<open>res = Inr tk\<close>]] by auto
  qed (use t in blast)
  then show "fst (auth_refreshTokens cf ttl' random' rowId' token now' d') = Inl (UnauthorizedException INVALID_REFRESH)"
    by (intro refresh_unknown) blast
  show "\<forall>row \<in> set (refreshTokens d). \<forall>user \<in> set (users d). rt_tokenHash row = ?h \<longrightarrow>
       now \<le> rt_expiresAt row \<longrightarrow> u_id user = rt_userId row \<longrightarrow> u_isActive user \<longrightarrow>
       (\<forall>t \<in> set (refreshTokens d). rt_id t \<noteq> rowId \<and> rt_tokenHash t \<noteq> hashRefreshToken (cf_sha cf) (randomHex random)) \<longrightarrow>
       (\<exists>tk. res = Inr tk)"
  proof (intro ballI impI)
    fix row user assume a: "row \<in> set (refreshTokens d)" "user \<in> set (users d)" "rt_tokenHash row = ?h" "now \<le> rt_expiresAt row"
      "u_id user = rt_userId row" "u_isActive user"
      "\<forall>t \<in> set (refreshTokens d). rt_id t \<noteq> rowId \<and> rt_tokenHash t \<noteq> hashRefreshToken (cf_sha cf) (randomHex random)"
    note look = refresh_lookup[OF keys(1) a(1,3)] user_lookup[OF keys(2) a(2), unfolded a(5)]
    have "\<exists>tk d'. issueTokens cf ttl random rowId (rt_userId row) now (d\<lparr>refreshTokens := filter (\<lambda>t. rt_tokenHash t \<noteq> ?h) (refreshTokens d)\<rparr>) = (Inr tk, d')"
      using a(7) by (intro issueTokens_fresh) simp
    then show "\<exists>tk. res = Inr tk" using call look a(4,6) by (auto simp: auth_refreshTokens_def Let_def)
  qed
qed

definition sample_token_db :: db where
  "sample_token_db = empty_db\<lparr>
     users := [new_user sample_cf sample_rr ''alice'' ''a@b.c'' ''secret'' 0],
     refreshTokens := [\<lparr>rt_id = ''r1'', rt_tokenHash = hashRefreshToken (cf_sha sample_cf) ''old'',
        rt_expiresAt = 1000, rt_createdAt = 0, rt_userId = ''u1''\<rparr>]\<rparr>"

lemma sample_token_db_keys:
  "keys_unique refresh_token_conflict (refreshTokens sample_token_db)"
  "keys_unique user_conflict (users sample_token_db)"
  by (simp_all add: sample_token_db_def keys_unique_def)

lemma sample_hashes:
  "hashRefreshToken (cf_sha sample_cf) (randomHex [16, 17]) \<noteq> hashRefreshToken (cf_sha sample_cf) ''old''"
proof
  have sha: "is_bytes (cf_sha sample_cf m)" for m using sample_sha_ok by (simp add: sha_ok_def)
  have len: "length (utf8 ''old'') = 3" "length (utf8 (randomHex [16, 17])) = 4"
    by (simp_all add: utf8_def randomHex_def to_hex_def hex_digit_def Let_def)
  assume "hashRefreshToken (cf_sha sample_cf) (randomHex [16, 17]) = hashRefreshToken (cf_sha sample_cf) ''old''"
  then have "cf_sha sample_cf (utf8 (randomHex [16, 17])) = cf_sha sample_cf (utf8 ''old'')"
    unfolding hashRefreshToken_def by (metis from_hex_to_hex sha)
  then have "hd (replicate 32 (4::nat)) = hd (replicate 32 3)" by (simp only: sample_cf_def crypto_fns.simps len) simp
  then show False by simp
qed

theorem refresh_token_redeemed_once_witness:
  "(\<exists>tk d'. auth_refreshTokens sample_cf 900 [16, 17] ''r2'' ''old'' 500 sample_token_db = (Inr tk, d') \<and>
      fst (auth_refreshTokens sample_cf 900 [18] ''r3'' ''old'' 501 d') = Inl (UnauthorizedException INVALID_REFRESH))"
proof -
  obtain res d' where c: "auth_refreshTokens sample_cf 900 [16, 17] ''r2'' ''old'' 500 sample_token_db = (res, d')" by fastforce
  note t = refresh_token_redeemed_once[OF sample_token_db_keys c sample_hashes, of 900 "[18]" "''r3''" 501]
  let ?row = "\<lparr>rt_id = ''r1'', rt_tokenHash = hashRefreshToken (cf_sha sample_cf) ''old'', rt_expiresAt = 1000, rt_createdAt = 0, rt_userId = ''u1''\<rparr>"
  have in_db: "refreshTokens sample_token_db = [?row]" "users sample_token_db = [new_user sample_cf sample_rr ''alice'' ''a@b.c'' ''secret'' 0]"
    by (simp_all add: sample_token_db_def)
  have id: "rr_id sample_rr = ''u1''" by (simp add: sample_rr_def)
  have "\<exists>tk. res = Inr tk" using conjunct2[OF conjunct2[OF t]] not_sym[OF sample_hashes] unfolding in_db by (simp add: id)
  then obtain tk where "res = Inr tk" ..
  then show ?thesis using c conjunct1[OF conjunct2[OF t]] by (intro exI[of _ tk] exI[of _ d']) simp
qed

text \<open>
  Logging out revokes every refresh token of the user and nobody else's: whichever token of theirs is
  presented afterwards is refused. The user is marked offline in the table and, while Redis answers, in
  the presence key.
\<close>

theorem logout_revokes_all_tokens:
  assumes "keys_unique refresh_token_conflict (refreshTokens (w_db w))"
  shows "filter (\<lambda>t. rt_userId t \<noteq> u) (refreshTokens (w_db (logout auditId ok now u w))) =
           filter (\<lambda>t. rt_userId t \<noteq> u) (refreshTokens (w_db w)) \<and>
    (\<forall>t \<in> set (refreshTokens (w_db (logout auditId ok now u w))). rt_userId t \<noteq> u) \<and>
    (\<forall>row \<in> set (refreshTokens (w_db w)). rt_userId row = u \<longrightarrow> rt_tokenHash row = hashRefreshToken (cf_sha cf) token \<longrightarrow>
       fst (auth_refreshTokens cf ttl random rowId token now' (w_db (logout auditId ok now u w))) =
         Inl (UnauthorizedException INVALID_REFRESH)) \<and>
    (\<forall>x \<in> set (users (w_db (logout auditId ok now u w))). u_id x = u \<longrightarrow> u_status x = ''OFFLINE'') \<and>
    (w_link w = Up \<longrightarrow> \<not> isOnline now' u (logout auditId ok now u w))"
proof (intro conjI)
  let ?w = "logout auditId ok now u w"
  have rt: "refreshTokens (w_db ?w) = filter (\<lambda>t. rt_userId t \<noteq> u) (refreshTokens (w_db w))"
    and us: "users (w_db ?w) = update_where (\<lambda>x. u_id x = u) (\<lambda>x. x\<lparr>u_status := ''OFFLINE''\<rparr>) (users (w_db w))"
    by (simp_all add: logout_def Let_def)
  show "filter (\<lambda>t. rt_userId t \<noteq> u) (refreshTokens (w_db ?w)) = filter (\<lambda>t. rt_userId t \<noteq> u) (refreshTokens (w_db w))"
    "\<forall>t \<in> set (refreshTokens (w_db ?w)). rt_userId t \<noteq> u" by (simp_all add: rt)
  show "\<forall>row \<in> set (refreshTokens (w_db w)). rt_userId row = u \<longrightarrow> rt_tokenHash row = hashRefreshToken (cf_sha cf) token \<longrightarrow>
       fst (auth_refreshTokens cf ttl random rowId token now' (w_db ?w)) = Inl (UnauthorizedException INVALID_REFRESH)"
  proof (intro ballI impI)
    fix row assume r: "row \<in> set (refreshTokens (w_db w))" "rt_userId row = u" "rt_tokenHash row = hashRefreshToken (cf_sha cf) token"
    have "t = row" if "t \<in> set (refreshTokens (w_db w))" "rt_tokenHash t = hashRefreshToken (cf_sha cf) token" for t
      using that r by (intro refreshTokens_tab.unique_eq[OF assms]) (auto simp: refresh_token_conflict_def)
    then show "fst (auth_refreshTokens cf ttl random rowId token now' (w_db ?w)) = Inl (UnauthorizedException INVALID_REFRESH)"
      using r(2) by (intro refresh_unknown) (auto simp: rt)
  qed
  show "\<forall>x \<in> set (users (w_db ?w)). u_id x = u \<longrightarrow> u_status x = ''OFFLINE''"
  proof (intro ballI impI)
    fix x assume x: "x \<in> set (users (w_db ?w))" "u_id x = u"
    from x(1) obtain y where "x = (if u_id y = u then y\<lparr>u_status := ''OFFLINE''\<rparr> else y)"
      unfolding us set_update_where by (elim imageE)
    then show "u_status x = ''OFFLINE''" using x(2) by (cases "u_id y = u") simp_all
  qed
  show "w_link w = Up \<longrightarrow> \<not> isOnline now' u ?w"
    by (simp add: logout_def Let_def isOnline_def setOffline_def with_redis_def)
qed

theorem logout_revokes_all_tokens_witness:
  "fst (auth_refreshTokens sample_cf 900 [18] ''r3'' ''old'' 501
     (w_db (logout ''a9'' True 400 ''u1'' (empty_world\<lparr>w_db := sample_token_db\<rparr>)))) = Inl (UnauthorizedException INVALID_REFRESH)"
proof -
  have k: "keys_unique refresh_token_conflict (refreshTokens (w_db (empty_world\<lparr>w_db := sample_token_db\<rparr>)))"
    using sample_token_db_keys(1) by simp
  note t = conjunct1[OF conjunct2[OF conjunct2[OF logout_revokes_all_tokens[OF k, of "''u1''" "''a9''" True 400 sample_cf "''old''" 900 "[18]" "''r3''" 501]]]]
  have "hd (refreshTokens sample_token_db) \<in> set (refreshTokens (w_db (empty_world\<lparr>w_db := sample_token_db\<rparr>)))"
    "rt_userId (hd (refreshTokens sample_token_db)) = ''u1''"
    "rt_tokenHash (hd (refreshTokens sample_token_db)) = hashRefreshToken (cf_sha sample_cf) ''old''" by (simp_all add: sample_token_db_def)
  with t show ?thesis by blast
qed

text \<open>One round of a login while Redis answers: what is returned and what the second step finds.\<close>

lemma login_round:
  assumes "w_link w = Up" "login_credentials cf secret name (w_db w) = (salt, v, uid)" "0 \<le> v" "t1 < t0 + 120000" "uid \<noteq> Some []"
  obtains B w2 w3 where
    "loginStart cf secret random rerr t0 name w = (Inr \<lparr>ls_username = name, ls_srpSalt = salt, ls_B = bigintToHex B\<rparr>, w2)"
    "B = fst (generateServerEphemeral (cf_sha cf) random v)" "0 \<le> B" "B < srp_N"
    "srpState_consume rerr t1 name w2 = (Inr (Some \<lparr>st_b = bufferToBigInt random, st_B = B, st_userId = uid\<rparr>), w3)"
    "w_db w3 = w_db w" "w_link w3 = Up"
proof -
  obtain B b where B: "generateServerEphemeral (cf_sha cf) random v = (B, b)" by fastforce
  note Bb = generateServerEphemeral_range[OF assms(3) B]
  note start = loginStart_Up[OF assms(1,2) B, of rerr t0]
  let ?state = "\<lparr>st_b = bufferToBigInt random, st_B = B, st_userId = uid\<rparr>"
  let ?w2 = "snd (loginStart cf secret random rerr t0 name w)"
  have st: "parse_state (Stored (StoredSrpState ?state)) = Some ?state"
    using Bb(1,3) assms(5) by (intro parse_state_stored) simp_all
  have "live t1 (r_json (w_redis ?w2)) (srp_key name) = Some (Stored (StoredSrpState ?state))"
    using assms(4) start Bb(1) by (simp add: live_put_ex_later SRP_STATE_TTL_SECONDS_def)
  moreover have w2: "w_link ?w2 = Up" "w_db ?w2 = w_db w" using start assms(1) by simp_all
  ultimately have c: "fst (srpState_consume rerr t1 name ?w2) = Inr (Some ?state)"
    using st by (simp add: srpState_consume_Up(1))
  let ?w3 = "snd (srpState_consume rerr t1 name ?w2)"
  have c': "srpState_consume rerr t1 name ?w2 = (Inr (Some ?state), ?w3)" by (rule prod_eqI) (simp_all only: c fst_conv snd_conv)
  have w3: "w_db ?w3 = w_db w" "w_link ?w3 = Up"
    using srpState_consume_Up(3,4)[OF w2(1), of rerr t1 name] w2(2) by (simp_all only:)
  have s': "loginStart cf secret random rerr t0 name w = (Inr \<lparr>ls_username = name, ls_srpSalt = salt, ls_B = bigintToHex B\<rparr>, ?w2)"
    using start by simp
  have "B = fst (generateServerEphemeral (cf_sha cf) random v)" using B by simp
  then show thesis by (rule that[OF s' _ Bb(3,4) c' w3])
qed

lemma no_active_credentials:
  assumes "\<forall>u \<in> set (users d). u_username u = name \<longrightarrow> \<not> u_isActive u"
  shows "login_credentials cf secret name d =
    (fst (decoyCredentials (cf_hmac cf) name secret), snd (decoyCredentials (cf_hmac cf) name secret), None)"
proof (cases "first_row (filter (\<lambda>u. u_username u = name) (users d))")
  case None
  then show ?thesis by (simp add: login_credentials_def split_beta)
next
  case (Some u)
  then show ?thesis using assms first_row_filterD[OF Some] by (simp add: login_credentials_def split_beta)
qed

lemma decoy_shape:
  assumes "\<And>k m. length (cf_hmac cf k m) = 32 \<and> is_bytes (cf_hmac cf k m)"
  shows "length (fst (decoyCredentials (cf_hmac cf) name secret)) = 32"
    "list_all is_hex (fst (decoyCredentials (cf_hmac cf) name secret))"
    "0 \<le> snd (decoyCredentials (cf_hmac cf) name secret)"
proof -
  have b: "is_bytes (take 16 (cf_hmac cf k m))" for k m
    using assms[of k m] by (auto simp: is_bytes_def list_all_iff dest: in_set_takeD)
  then show "length (fst (decoyCredentials (cf_hmac cf) name secret)) = 32"
    "list_all is_hex (fst (decoyCredentials (cf_hmac cf) name secret))"
    using assms by (simp_all add: decoyCredentials_def Let_def to_hex_hex)
  show "0 \<le> snd (decoyCredentials (cf_hmac cf) name secret)"
    by (simp add: decoyCredentials_def Let_def computeVerifier_def modPow_N_range)
qed

lemma registered_credentials:
  assumes "register cf rr auditId ok name email password t d = (Inr u, d1)"
  shows "login_credentials cf secret name d1 = (u_srpSalt u, BigInt_0x (u_srpVerifier u), Some (rr_id rr))"
    "0 \<le> BigInt_0x (u_srpVerifier u)" "u_srpSalt u = to_hex (rr_srpSalt rr)"
    "rr_id rr \<noteq> [] \<Longrightarrow> login_user \<lparr>st_b = b, st_B = B, st_userId = Some (rr_id rr)\<rparr> name d1 = Some u"
proof -
  note r = register_Inr[OF assms]
  have found: "first_row (filter (\<lambda>x. u_username x = name) (users d1)) = Some u"
    "first_row (filter (\<lambda>x. u_id x = rr_id rr) (users d1)) = Some u"
    using fresh_user_found[OF r(4)] r(1,2) by simp_all
  then show "login_credentials cf secret name d1 = (u_srpSalt u, BigInt_0x (u_srpVerifier u), Some (rr_id rr))"
    using r(1) by (simp add: login_credentials_def)
  show "0 \<le> BigInt_0x (u_srpVerifier u)" "u_srpSalt u = to_hex (rr_srpSalt rr)"
    by (simp_all add: r(1) BigInt_0x_def randomHex_def)
  show "rr_id rr \<noteq> [] \<Longrightarrow> login_user \<lparr>st_b = b, st_B = B, st_userId = Some (rr_id rr)\<rparr> name d1 = Some u"
    using found(2) r(1) by (simp add: login_user_def)
qed

text \<open>
  C34: The login of a user name without an active user looks like that of a registered user. Both first
  steps succeed with an answer of the same shape: the given name, a salt of 32 hexadecimal digits and
  the text of a group element. The salt of the unknown name is the same whenever it is asked, in every
  database without such an active user. The second step of the unknown name is refused with one error,
  whatever the client sends and without a change of the tables; the second step of the registered user
  succeeds exactly for a valid proof of the password and is otherwise refused with that same error; the
  login state is used up in both cases. HMAC is any function with 32-byte results, and the salt of a
  registration is made of as many random bytes as the service asks for.
\<close>

theorem unknown_user_looks_known:
  assumes unknown: "\<forall>u \<in> set (users (w_db w)). u_username u = ghost \<longrightarrow> \<not> u_isActive u"
    and unknown': "\<forall>u \<in> set (users (w_db w')). u_username u = ghost \<longrightarrow> \<not> u_isActive u"
    and known: "register cf rr auditId ok username email password t d = (Inr u, w_db k)" "rr_id rr \<noteq> []"
    and salt: "length (rr_srpSalt rr) = SRP_SALT_BYTES" "is_bytes (rr_srpSalt rr)"
    and up: "w_link w = Up" "w_link w' = Up" "w_link k = Up"
    and hmac: "\<And>k m. length (cf_hmac cf k m) = 32 \<and> is_bytes (cf_hmac cf k m)"
    and time: "t1 < t0 + 120000"
    and fresh: "\<forall>r \<in> set (refreshTokens d). rt_id r \<noteq> rowId \<and> rt_tokenHash r \<noteq> hashRefreshToken (cf_sha cf) (randomHex trandom)"
  shows "\<exists>ls w2 B ls' k2 B'. loginStart cf secret random rerr t0 ghost w = (Inr ls, w2) \<and>
    loginStart cf secret random' rerr t0 username k = (Inr ls', k2) \<and>
    fst (loginStart cf secret random rerr t0 ghost w') = Inr ls \<and>
    ls_srpSalt ls = fst (decoyCredentials (cf_hmac cf) ghost secret) \<and>
    ls_username ls = ghost \<and> ls_username ls' = username \<and>
    length (ls_srpSalt ls) = 32 \<and> list_all is_hex (ls_srpSalt ls) \<and>
    length (ls_srpSalt ls') = 32 \<and> list_all is_hex (ls_srpSalt ls') \<and>
    ls_B ls = bigintToHex B \<and> 0 \<le> B \<and> B < srp_N \<and> ls_B ls' = bigintToHex B' \<and> 0 \<le> B' \<and> B' < srp_N \<and>
    fst (loginFinish cf ttl trandom rowId auditId' ok' rerr t1 ghost A M1 ip w2) = Inl (UnauthorizedException INVALID_CREDENTIALS) \<and>
    w_db (snd (loginFinish cf ttl trandom rowId auditId' ok' rerr t1 ghost A M1 ip w2)) = w_db w \<and>
    (if \<exists>a. parseClientEphemeral A = Some a \<and>
          pr_valid (verifyClientProof (cf_sha cf) a M1 (bufferToBigInt random') B' (BigInt_0x (u_srpVerifier u)) (u_srpSalt u) username)
     then \<exists>r. fst (loginFinish cf ttl trandom rowId auditId' ok' rerr t1 username A M1 ip k2) = Inr r
     else fst (loginFinish cf ttl trandom rowId auditId' ok' rerr t1 username A M1 ip k2) = Inl (UnauthorizedException INVALID_CREDENTIALS)) \<and>
    r_json (w_redis (snd (loginFinish cf ttl trandom rowId auditId' ok' rerr t1 ghost A M1 ip w2))) (srp_key ghost) = None \<and>
    r_json (w_redis (snd (loginFinish cf ttl trandom rowId auditId' ok' rerr t1 username A M1 ip k2))) (srp_key username) = None"
proof -
  note cred = no_active_credentials[OF unknown] no_active_credentials[OF unknown'] and dec = decoy_shape[OF hmac]
  note kc = registered_credentials[OF known(1)]
  have none: "None \<noteq> Some []" and some: "Some (rr_id rr) \<noteq> Some []" using known(2) by simp_all
  obtain B w2 w3 where g: "loginStart cf secret random rerr t0 ghost w =
      (Inr \<lparr>ls_username = ghost, ls_srpSalt = fst (decoyCredentials (cf_hmac cf) ghost secret), ls_B = bigintToHex B\<rparr>, w2)"
    "B = fst (generateServerEphemeral (cf_sha cf) random (snd (decoyCredentials (cf_hmac cf) ghost secret)))" "0 \<le> B" "B < srp_N"
    "srpState_consume rerr t1 ghost w2 = (Inr (Some \<lparr>st_b = bufferToBigInt random, st_B = B, st_userId = None\<rparr>), w3)" "w_db w3 = w_db w"
    by (rule login_round[OF up(1) cred(1) dec(3) time none])
  obtain x1 x2 x3 where g': "loginStart cf secret random rerr t0 ghost w' =
      (Inr \<lparr>ls_username = ghost, ls_srpSalt = fst (decoyCredentials (cf_hmac cf) ghost secret), ls_B = bigintToHex x1\<rparr>, x2)"
    "x1 = fst (generateServerEphemeral (cf_sha cf) random (snd (decoyCredentials (cf_hmac cf) ghost secret)))"
    by (rule login_round[OF up(2) cred(2) dec(3) time none])
  obtain B' k2 k3 where n: "loginStart cf secret random' rerr t0 username k =
      (Inr \<lparr>ls_username = username, ls_srpSalt = u_srpSalt u, ls_B = bigintToHex B'\<rparr>, k2)" "0 \<le> B'" "B' < srp_N"
    "srpState_consume rerr t1 username k2 = (Inr (Some \<lparr>st_b = bufferToBigInt random', st_B = B', st_userId = Some (rr_id rr)\<rparr>), k3)"
    "w_db k3 = w_db k"
    by (rule login_round[OF up(3) kc(1,2) time some])
  have "loginFinish cf ttl trandom rowId auditId' ok' rerr t1 ghost A M1 ip w2 = (Inl (UnauthorizedException INVALID_CREDENTIALS), w3)"
    unfolding loginFinish_def g(5) by (simp add: login_user_def split: option.splits)
  note ghost_end = this
  have user: "login_user \<lparr>st_b = bufferToBigInt random', st_B = B', st_userId = Some (rr_id rr)\<rparr> username (w_db k3) = Some u"
    using kc(4) known(2) n(5) by simp
  have name: "u_username u = username" using register_Inr(1)[OF known(1)] by simp
  have "\<forall>r \<in> set (refreshTokens (w_db k3)). rt_id r \<noteq> rowId \<and> rt_tokenHash r \<noteq> hashRefreshToken (cf_sha cf) (randomHex trandom)"
    using fresh register_Inr(3)[OF known(1)] n(5) by simp
  then obtain tokens d2 where tok: "issueTokens cf ttl trandom rowId (u_id u) t1 (w_db k3) = (Inr tokens, d2)"
    using issueTokens_fresh by blast
  have fin: "\<exists>r. fst (finish_login cf ttl trandom rowId auditId' ok' t1 ip u M2 k3) = Inr r" for M2
    using finish_login_Inr[OF tok, of auditId' ok' ip M2] by auto
  have known_end: "if \<exists>a. parseClientEphemeral A = Some a \<and>
          pr_valid (verifyClientProof (cf_sha cf) a M1 (bufferToBigInt random') B' (BigInt_0x (u_srpVerifier u)) (u_srpSalt u) username)
     then \<exists>r. fst (loginFinish cf ttl trandom rowId auditId' ok' rerr t1 username A M1 ip k2) = Inr r
     else fst (loginFinish cf ttl trandom rowId auditId' ok' rerr t1 username A M1 ip k2) = Inl (UnauthorizedException INVALID_CREDENTIALS)"
    using fin user name by (cases "parseClientEphemeral A") (simp_all add: loginFinish_def n(4) Let_def)
  have links: "w_link w2 = Up" "w_link k2 = Up" using g(5) n(4) by (auto simp: srpState_consume_def split: link.splits)
  have used: "r_json (w_redis (snd (loginFinish cf ttl trandom rowId auditId' ok' rerr t1 ghost A M1 ip w2))) (srp_key ghost) = None"
    "r_json (w_redis (snd (loginFinish cf ttl trandom rowId auditId' ok' rerr t1 username A M1 ip k2))) (srp_key username) = None"
    using loginFinish_consumes(1)[OF links(1)] loginFinish_consumes(1)[OF links(2)] by (simp_all add: del_key_def)
  have shape: "length (u_srpSalt u) = 32" "list_all is_hex (u_srpSalt u)"
    using kc(3) salt to_hex_hex[OF salt(2)] by (simp_all add: SRP_SALT_BYTES_def)
  have again: "fst (loginStart cf secret random rerr t0 ghost w') =
      Inr \<lparr>ls_username = ghost, ls_srpSalt = fst (decoyCredentials (cf_hmac cf) ghost secret), ls_B = bigintToHex B\<rparr>"
    using g' g(2) by simp
  show ?thesis
    by (intro exI conjI, rule g(1), rule n(1), rule again)
      (simp_all only: LoginStart.simps dec shape g(6) ghost_end fst_conv snd_conv used[unfolded ghost_end snd_conv],
        (rule g(3,4) n(2,3) known_end)+)
qed

theorem unknown_user_looks_known_witness:
  "\<exists>ls w2 d1 ls' k2. register sample_cf (sample_rr\<lparr>rr_srpSalt := replicate 16 7\<rparr>) ''a1'' True ''alice'' ''a@b.c'' ''secret'' 0 empty_db =
      (Inr (new_user sample_cf (sample_rr\<lparr>rr_srpSalt := replicate 16 7\<rparr>) ''alice'' ''a@b.c'' ''secret'' 0), d1) \<and>
    loginStart sample_cf ''key'' [12, 13] JNull 1000 ''nobody'' empty_world = (Inr ls, w2) \<and>
    loginStart sample_cf ''key'' [14, 15] JNull 1000 ''alice'' (empty_world\<lparr>w_db := d1\<rparr>) = (Inr ls', k2) \<and>
    length (ls_srpSalt ls) = length (ls_srpSalt ls') \<and>
    fst (loginFinish sample_cf 900 [16] ''t1'' ''a2'' True JNull 5000 ''nobody'' ''0'' ''ab'' None w2) =
      fst (loginFinish sample_cf 900 [16] ''t1'' ''a2'' True JNull 5000 ''alice'' ''0'' ''ab'' None k2)"
proof -
  let ?rr = "sample_rr\<lparr>rr_srpSalt := replicate 16 7\<rparr>"
  let ?u = "new_user sample_cf ?rr ''alice'' ''a@b.c'' ''secret'' 0"
  obtain d1 where d1: "register sample_cf ?rr ''a1'' True ''alice'' ''a@b.c'' ''secret'' 0 empty_db = (Inr ?u, d1)"
    by (simp add: register_def Let_def insert_row_def)
  then have reg: "register sample_cf ?rr ''a1'' True ''alice'' ''a@b.c'' ''secret'' 0 empty_db = (Inr ?u, w_db (empty_world\<lparr>w_db := d1\<rparr>))"
    by simp
  have h: "\<forall>u \<in> set (users (w_db empty_world)). u_username u = ''nobody'' \<longrightarrow> \<not> u_isActive u"
    "rr_id ?rr \<noteq> []" "length (rr_srpSalt ?rr) = SRP_SALT_BYTES" "is_bytes (rr_srpSalt ?rr)"
    "w_link empty_world = Up" "w_link (empty_world\<lparr>w_db := d1\<rparr>) = Up" "(5000::int) < 1000 + 120000"
    "\<And>k m. length (cf_hmac sample_cf k m) = 32 \<and> is_bytes (cf_hmac sample_cf k m)"
    "\<forall>r \<in> set (refreshTokens empty_db). rt_id r \<noteq> ''t1'' \<and> rt_tokenHash r \<noteq> hashRefreshToken (cf_sha sample_cf) (randomHex [16])"
    by (simp_all add: sample_cf_def sample_rr_def is_bytes_def list_all_iff SRP_SALT_BYTES_def)
  have "parse_hex ''0'' = 0" by (simp add: parse_hex_def hex_val_def)
  then have "parseClientEphemeral ''0'' = None" by (simp add: parseClientEphemeral_def BigInt_0x_def js_rem_def)
  then show ?thesis
    using d1 unknown_user_looks_known[OF h(1,1) reg h(2-5,5,6,8,7,9), where secret = "''key''" and random = "[12, 13]" and
      random' = "[14, 15]" and rerr = JNull and ttl = 900 and auditId' = "''a2''" and ok' = True and A = "''0''" and
      ?M1.0 = "''ab''" and ip = None]
    by fastforce
qed

end
