(* ===== verification/Users_Audit.thy ===== *)
theory Users_Audit
  imports Auth_Service
begin

text \<open>
  \<open>modules/users/users.service.ts\<close> and \<open>modules/audit/audit.service.ts\<close>: public profiles, changing the
  username, searching users, and reading the audit log. \<open>LIKE\<close> is the pattern language of SQL with the default escape
  character; \<open>ILIKE\<close> compares in lower case.
\<close>

section \<open>Users\<close>

record public_user =
  pu_id :: uid
  pu_username :: string
  pu_status :: string
  pu_keyVersion :: int
  pu_createdAt :: time

definition publicUserColumns :: "user_row \<Rightarrow> public_user" where
  "publicUserColumns u = \<lparr>pu_id = u_id u, pu_username = u_username u, pu_status = u_status u, pu_keyVersion = u_keyVersion u,
     pu_createdAt = u_createdAt u\<rparr>"

definition escapeLike :: "string \<Rightarrow> string" where
  "escapeLike input = concat (map (\<lambda>ch. if ch \<in> {CHR 0x5C, CHR ''%'', CHR ''_''} then [CHR 0x5C, ch] else [ch]) input)"

fun like_match :: "string \<Rightarrow> string \<Rightarrow> bool" where
  "like_match [] s = (s = [])"
| "like_match (p # ps) s =
     (if p = CHR ''%'' then like_match ps s \<or> (case s of [] \<Rightarrow> False | c # cs \<Rightarrow> like_match (p # ps) cs)
      else if p = CHR ''_'' then (case s of [] \<Rightarrow> False | c # cs \<Rightarrow> like_match ps cs)
      else if p = CHR 0x5C then (case ps of [] \<Rightarrow> False | q # qs \<Rightarrow> (case s of [] \<Rightarrow> False | c # cs \<Rightarrow> c = q \<and> like_match qs cs))
      else (case s of [] \<Rightarrow> False | c # cs \<Rightarrow> c = p \<and> like_match ps cs))"

definition ilike :: "string \<Rightarrow> string \<Rightarrow> bool" where
  "ilike s pat = like_match (to_lower pat) (to_lower s)"

definition findPublicById :: "uid \<Rightarrow> db \<Rightarrow> thrown + public_user \<times> time option" where
  "findPublicById i d =
     (case first_row (filter (\<lambda>u. u_id u = i \<and> u_isActive u) (users d)) of
        None \<Rightarrow> Inl (NotFoundException ''User not found'')
      | Some u \<Rightarrow> Inr (publicUserColumns u, u_lastLoginAt u))"

text \<open>The two statements of \<open>updateProfile\<close>; the unique index on the name decides a race between them.\<close>

definition username_taken :: "uid \<Rightarrow> string \<Rightarrow> db \<Rightarrow> bool" where
  "username_taken userId username d = list_ex (\<lambda>u. u_username u = username \<and> u_id u \<noteq> userId) (users d)"

definition update_username :: "uid \<Rightarrow> string \<Rightarrow> time \<Rightarrow> db \<Rightarrow> thrown + user_row \<times> db" where
  "update_username userId username now d =
     (case first_row (filter (\<lambda>u. u_id u = userId) (users d)) of
        None \<Rightarrow> Inl (NotFoundException ''User not found'')
      | Some u \<Rightarrow>
          if username_taken userId username d then Inl (pg_error ''23505'')
          else Inr (u\<lparr>u_username := username, u_updatedAt := now\<rparr>,
                    d\<lparr>users := update_where (\<lambda>u. u_id u = userId) (\<lambda>u. u\<lparr>u_username := username, u_updatedAt := now\<rparr>) (users d)\<rparr>))"

definition updateProfile :: "uid \<Rightarrow> string \<Rightarrow> time \<Rightarrow> db \<Rightarrow> thrown + user_row \<times> db" where
  "updateProfile userId username now d =
     (if username_taken userId username d then Inl (ConflictException ''Username already taken'')
      else update_username userId username now d)"

definition search :: "string \<Rightarrow> uid \<Rightarrow> nat \<Rightarrow> db \<Rightarrow> public_user list" where
  "search query currentUserId limit d =
     map publicUserColumns (take limit (sort_key u_username
       (filter (\<lambda>u. ilike (u_username u) (''%'' @ escapeLike query @ ''%'') \<and> u_id u \<noteq> currentUserId \<and> u_isActive u) (users d))))"

section \<open>The audit log\<close>

record log_params =
  lp_userId :: "uid option"
  lp_action :: "string option"
  lp_from :: "time option"
  lp_to :: "time option"
  lp_limit :: "nat option"
  lp_offset :: "nat option"

text \<open>An empty text counts as no filter.\<close>

definition getLogs :: "log_params \<Rightarrow> db \<Rightarrow> audit_row list" where
  "getLogs p d =
     (let given = (\<lambda>x. case x of Some s \<Rightarrow> s \<noteq> [] | None \<Rightarrow> False);
          rows = filter (\<lambda>r. (given (lp_userId p) \<longrightarrow> au_userId r = lp_userId p) \<and>
                            (given (lp_action p) \<longrightarrow> Some (au_action r) = lp_action p) \<and>
                            (case lp_from p of Some t \<Rightarrow> t \<le> au_createdAt r | None \<Rightarrow> True) \<and>
                            (case lp_to p of Some t \<Rightarrow> au_createdAt r \<le> t | None \<Rightarrow> True)) (auditLog d)
      in take (case lp_limit p of None \<Rightarrow> 100 | Some n \<Rightarrow> n)
           (drop (case lp_offset p of None \<Rightarrow> 0 | Some n \<Rightarrow> n) (rev (sort_key au_createdAt rows))))"

definition SECURITY_ACTIONS :: "string list" where
  "SECURITY_ACTIONS = [''LOGIN_FAILED'', ''LOGIN'', ''REGISTER'', ''KEY_ROTATE'', ''PASSWORD_CHANGE'', ''LOGOUT'']"

definition getSecurityEvents :: "uid \<Rightarrow> db \<Rightarrow> audit_row list" where
  "getSecurityEvents userId d =
     take 50 (rev (sort_key au_createdAt (filter (\<lambda>r. au_userId r = Some userId \<and> au_action r \<in> set SECURITY_ACTIONS) (auditLog d))))"

definition audit_getLogs :: "uid \<Rightarrow> log_params \<Rightarrow> db \<Rightarrow> audit_row list" where
  "audit_getLogs userId query d = getLogs (query\<lparr>lp_userId := Some userId\<rparr>) d"

section \<open>Searching\<close>

fun has_sub :: "string \<Rightarrow> string \<Rightarrow> bool" where
  "has_sub p [] = (p = [])"
| "has_sub p (c # cs) = (take (length p) (c # cs) = p \<or> has_sub p cs)"

lemma to_lower_append [simp]: "to_lower (a @ b) = to_lower a @ to_lower b"
  by (simp add: to_lower_def)

lemma lower_char_code:
  "(of_char (lower_char c) :: nat) =
     (if 65 \<le> (of_char c :: nat) \<and> (of_char c :: nat) \<le> 90 \<or> 192 \<le> (of_char c :: nat) \<and> (of_char c :: nat) \<le> 222 \<and> (of_char c :: nat) \<noteq> 215
      then of_char c + 32 else of_char c)"
  by (simp add: lower_char_def Let_def)

lemma lower_char_special: "lower_char c \<in> {CHR 0x5C, CHR ''%'', CHR ''_''} \<longleftrightarrow> c \<in> {CHR 0x5C, CHR ''%'', CHR ''_''}"
proof -
  have e: "x = y \<longleftrightarrow> (of_char x :: nat) = of_char y" for x y :: char by simp
  show ?thesis unfolding insert_iff empty_iff e[of _ "CHR 0x5C"] e[of _ "CHR ''%''"] e[of _ "CHR ''_''"] lower_char_code by auto
qed

lemma escapeLike_Cons: "escapeLike (c # q) = (if c \<in> {CHR 0x5C, CHR ''%'', CHR ''_''} then [CHR 0x5C, c] else [c]) @ escapeLike q"
  by (simp add: escapeLike_def)

lemma to_lower_escape: "to_lower (escapeLike q) = escapeLike (to_lower q)"
proof (induction q)
  case (Cons c q)
  have "lower_char (CHR 0x5C) = CHR 0x5C" by (simp add: lower_char_def)
  then have "to_lower (escapeLike (c # q)) = (if c \<in> {CHR 0x5C, CHR ''%'', CHR ''_''} then [CHR 0x5C, lower_char c] else [lower_char c]) @ escapeLike (to_lower q)"
    using Cons unfolding escapeLike_Cons to_lower_append by (simp add: to_lower_def)
  also have "\<dots> = escapeLike (lower_char c # to_lower q)" unfolding escapeLike_Cons lower_char_special ..
  finally show ?case by (simp add: to_lower_def)
qed (simp add: escapeLike_def to_lower_def)

lemma like_percent: "like_match (CHR ''%'' # p) s \<longleftrightarrow> (\<exists>k \<le> length s. like_match p (drop k s))"
proof (induction s)
  case (Cons c s)
  have "(\<exists>k \<le> length (c # s). like_match p (drop k (c # s))) \<longleftrightarrow> like_match p (c # s) \<or> (\<exists>k \<le> length s. like_match p (drop k s))"
    by (metis Suc_le_mono drop0 drop_Suc_Cons le0 length_Cons not0_implies_Suc)
  then show ?case using Cons by simp
qed simp

lemma like_escaped: "like_match (escapeLike q @ p) s \<longleftrightarrow> take (length q) s = q \<and> like_match p (drop (length q) s)"
proof (induction q arbitrary: s)
  case (Cons c q)
  show ?case
  proof (cases s)
    case (Cons d t)
    then show ?thesis using Cons.IH[of t] unfolding escapeLike_Cons by auto
  qed (simp add: escapeLike_Cons)
qed (simp add: escapeLike_def)

lemma has_sub_iff: "has_sub p s \<longleftrightarrow> (\<exists>k \<le> length s. take (length p) (drop k s) = p)"
proof (induction s)
  case (Cons c s)
  have "(\<exists>k \<le> length (c # s). take (length p) (drop k (c # s)) = p) \<longleftrightarrow>
      take (length p) (c # s) = p \<or> (\<exists>k \<le> length s. take (length p) (drop k s) = p)"
    by (metis Suc_le_mono drop0 drop_Suc_Cons le0 length_Cons not0_implies_Suc)
  then show ?case using Cons by simp
qed auto

lemma ilike_escaped: "ilike s (''%'' @ escapeLike q @ ''%'') \<longleftrightarrow> has_sub (to_lower q) (to_lower s)"
proof -
  have "lower_char (CHR ''%'') = CHR ''%''" by (simp add: lower_char_def)
  then have pat: "to_lower (''%'' @ escapeLike q @ ''%'') = CHR ''%'' # escapeLike (to_lower q) @ ''%''"
    unfolding to_lower_append to_lower_escape by (simp add: to_lower_def)
  have all: "like_match ''%'' t" for t by (induction t) auto
  have "like_match (CHR ''%'' # escapeLike (to_lower q) @ ''%'') (to_lower s) \<longleftrightarrow> (\<exists>k \<le> length (to_lower s). like_match (escapeLike (to_lower q) @ ''%'') (drop k (to_lower s)))"
    by (rule like_percent)
  then show ?thesis unfolding ilike_def pat has_sub_iff by (simp only: like_escaped all simp_thms)
qed

text \<open>
  A search finds exactly the active users, other than the caller, whose username contains the query as typed, in
  upper or lower case: the characters that are wildcards of \<open>LIKE\<close> stand for themselves. The answer is sorted by username,
  at most \<open>limit\<close> long, and its columns hold neither the email nor a key.
\<close>

theorem search_is_literal:
  "search q me n d = map publicUserColumns (take n (sort_key u_username
     (filter (\<lambda>u. has_sub (to_lower q) (to_lower (u_username u)) \<and> u_id u \<noteq> me \<and> u_isActive u) (users d)))) \<and>
   sorted (map pu_username (search q me n d)) \<and> length (search q me n d) \<le> n"
proof -
  let ?l = "sort_key u_username (filter (\<lambda>u. has_sub (to_lower q) (to_lower (u_username u)) \<and> u_id u \<noteq> me \<and> u_isActive u) (users d))"
  have s: "search q me n d = map publicUserColumns (take n ?l)" by (simp add: search_def ilike_escaped[simplified])
  have "map pu_username (search q me n d) = take n (map u_username ?l)" by (simp add: s publicUserColumns_def take_map comp_def)
  moreover have "sorted (map u_username ?l)" by simp
  ultimately show ?thesis using s by (simp add: sorted_wrt_take)
qed

section \<open>Usernames\<close>

lemma update_username_unique:
  assumes "keys_unique user_conflict (users d)" "update_username userId username now d = Inr (u, d')"
  shows "keys_unique user_conflict (users d')"
proof -
  let ?f = "\<lambda>u. u\<lparr>u_username := username, u_updatedAt := now\<rparr>"
  have nt: "\<not> username_taken userId username d" and d': "users d' = update_where (\<lambda>u. u_id u = userId) ?f (users d)"
    using assms(2) by (auto simp: update_username_def split: option.splits if_splits)
  have "sorted_wrt (\<lambda>a b. \<not> user_conflict a b) (users d)" using assms(1) by (simp add: keys_unique_def)
  then have "sorted_wrt (\<lambda>a b. \<not> user_conflict (if u_id a = userId then ?f a else a) (if u_id b = userId then ?f b else b)) (users d)"
  proof (rule sorted_wrt_mono_rel[rotated])
    fix a b assume m: "a \<in> set (users d)" "b \<in> set (users d)" and c: "\<not> user_conflict a b"
    have "u_username x \<noteq> username" if "x \<in> set (users d)" "u_id x \<noteq> userId" for x using nt that by (auto simp: username_taken_def list_ex_iff)
    then show "\<not> user_conflict (if u_id a = userId then ?f a else a) (if u_id b = userId then ?f b else b)"
      using c m by (auto simp: user_conflict_def)
  qed
  then show ?thesis by (simp add: d' keys_unique_def update_where_def sorted_wrt_map)
qed

text \<open>
  Two users never share a username. Changing it succeeds exactly when the caller exists and nobody else
  has the name; then it changes the caller's row only, and the table keeps its keys unique. A second user who takes the name
  between the check and the update loses by the unique index, and the tables are unchanged.
\<close>

theorem usernames_stay_unique:
  assumes "keys_unique user_conflict (users d)"
  shows "((\<exists>u d'. updateProfile i name now d = Inr (u, d')) \<longleftrightarrow> \<not> username_taken i name d \<and> i \<in> u_id ` set (users d)) \<and>
    (\<forall>u d'. updateProfile i name now d = Inr (u, d') \<longrightarrow> keys_unique user_conflict (users d') \<and> u_username u = name \<and>
       u \<in> set (users d') \<and> filter (\<lambda>x. u_id x \<noteq> i) (users d') = filter (\<lambda>x. u_id x \<noteq> i) (users d) \<and> d'\<lparr>users := users d\<rparr> = d) \<and>
    (username_taken i name d \<and> i \<in> u_id ` set (users d) \<longrightarrow> update_username i name now d = Inl (pg_error ''23505''))"
proof (intro conjI allI impI)
  have ex: "first_row (filter (\<lambda>u. u_id u = i) (users d)) = None \<longleftrightarrow> i \<notin> u_id ` set (users d)" by (auto simp: filter_empty_conv)
  show "(\<exists>u d'. updateProfile i name now d = Inr (u, d')) \<longleftrightarrow> \<not> username_taken i name d \<and> i \<in> u_id ` set (users d)"
    using ex by (auto simp: updateProfile_def update_username_def split: option.splits)
  show "update_username i name now d = Inl (pg_error ''23505'')" if "username_taken i name d \<and> i \<in> u_id ` set (users d)"
    using that ex by (auto simp: update_username_def split: option.splits)
  fix u d' assume up: "updateProfile i name now d = Inr (u, d')"
  then have u: "update_username i name now d = Inr (u, d')" by (simp add: updateProfile_def split: if_splits)
  then show "keys_unique user_conflict (users d')" by (rule update_username_unique[OF assms])
  let ?f = "\<lambda>u. u\<lparr>u_username := name, u_updatedAt := now\<rparr>"
  obtain v where v: "first_row (filter (\<lambda>u. u_id u = i) (users d)) = Some v" "u = ?f v" "d' = d\<lparr>users := update_where (\<lambda>u. u_id u = i) ?f (users d)\<rparr>"
    using u by (auto simp: update_username_def split: option.splits if_splits)
  show "u_username u = name" "d'\<lparr>users := users d\<rparr> = d" by (simp_all add: v)
  have "v \<in> set (users d)" "u_id v = i" using first_row_filterD[OF v(1)] by simp_all
  then show "u \<in> set (users d')" by (auto simp: v set_update_where intro!: image_eqI[of _ _ v])
  have "filter (\<lambda>x. u_id x \<noteq> i) (update_where (\<lambda>u. u_id u = i) ?f xs) = filter (\<lambda>x. u_id x \<noteq> i) xs" for xs
    by (induction xs) auto
  then show "filter (\<lambda>x. u_id x \<noteq> i) (users d') = filter (\<lambda>x. u_id x \<noteq> i) (users d)" by (simp add: v)
qed

theorem usernames_stay_unique_witness:
  "updateProfile ''u1'' ''bob'' 9 sample_db = Inr (sample_user\<lparr>u_username := ''bob'', u_updatedAt := 9\<rparr>, sample_db\<lparr>users := [sample_user\<lparr>u_username := ''bob'', u_updatedAt := 9\<rparr>]\<rparr>) \<and>
   keys_unique user_conflict [sample_user\<lparr>u_username := ''bob'', u_updatedAt := 9\<rparr>]"
proof -
  have "keys_unique user_conflict (users sample_db)" by (simp add: keys_unique_def sample_db_def)
  moreover have "updateProfile ''u1'' ''bob'' 9 sample_db = Inr (sample_user\<lparr>u_username := ''bob'', u_updatedAt := 9\<rparr>, sample_db\<lparr>users := [sample_user\<lparr>u_username := ''bob'', u_updatedAt := 9\<rparr>]\<rparr>)"
    by (simp add: updateProfile_def update_username_def username_taken_def sample_db_def sample_user_def)
  ultimately show ?thesis using usernames_stay_unique[of sample_db "''u1''" "''bob''" 9] by simp
qed

section \<open>Audit\<close>

lemma sort_key_snoc_max:
  assumes "\<forall>x \<in> set xs. f x \<le> f y"
  shows "sort_key f (xs @ [y]) = sort_key f xs @ [y]"
proof (rule properties_for_sort_key)
  show "mset (sort_key f xs @ [y]) = mset (xs @ [y])" by simp
  show "filter (\<lambda>x. f k = f x) (sort_key f xs @ [y]) = filter (\<lambda>x. f k = f x) (xs @ [y])" for k
    using sort_key_stable[of f "f k" xs] by (simp add: eq_commute)
  show "sorted (map f (sort_key f xs @ [y]))" using assms by (auto simp: sorted_append)
qed

text \<open>
  The audit views show a user their own events, newest first. Whatever the query asks for, the log
  endpoint returns rows of the caller only, within the time range and the limit; and an event
  that signing up, logging in or out, failing to, or rotating keys has just recorded heads the list of security events.
\<close>

theorem audit_views:
  assumes "u \<noteq> []" "\<forall>r \<in> set (auditLog d). au_createdAt r \<le> now" "action \<in> {''REGISTER'', ''LOGIN'', ''LOGIN_FAILED'', ''LOGOUT'', ''KEY_ROTATE''}"
  shows "(\<forall>r \<in> set (audit_getLogs u q d). r \<in> set (auditLog d) \<and> au_userId r = Some u \<and>
      (\<forall>t. lp_from q = Some t \<longrightarrow> t \<le> au_createdAt r) \<and> (\<forall>t. lp_to q = Some t \<longrightarrow> au_createdAt r \<le> t)) \<and>
    sorted_wrt (\<ge>) (map au_createdAt (audit_getLogs u q d)) \<and>
    length (audit_getLogs u q d) \<le> (case lp_limit q of None \<Rightarrow> 100 | Some n \<Rightarrow> n) \<and>
    first_row (getSecurityEvents u (auth_audit i True action u details ip now d)) = Some (new_audit i action details ip (Some u) now) \<and>
    (\<forall>r \<in> set (getSecurityEvents u d). au_userId r = Some u)"
proof -
  let ?n = "case lp_limit q of None \<Rightarrow> 100 | Some n \<Rightarrow> n" and ?o = "case lp_offset q of None \<Rightarrow> 0 | Some n \<Rightarrow> n"
  define P :: "audit_row \<Rightarrow> bool" where "P = (\<lambda>r. au_userId r = Some u \<and> ((case lp_action q of Some s \<Rightarrow> s \<noteq> [] | None \<Rightarrow> False) \<longrightarrow> Some (au_action r) = lp_action q) \<and>
    (case lp_from q of Some t \<Rightarrow> t \<le> au_createdAt r | None \<Rightarrow> True) \<and> (case lp_to q of Some t \<Rightarrow> au_createdAt r \<le> t | None \<Rightarrow> True))"
  have logs: "audit_getLogs u q d = take ?n (drop ?o (rev (sort_key au_createdAt (filter P (auditLog d)))))"
    using assms(1) by (simp add: audit_getLogs_def getLogs_def Let_def P_def)
  have P: "au_userId r = Some u \<and> (\<forall>t. lp_from q = Some t \<longrightarrow> t \<le> au_createdAt r) \<and> (\<forall>t. lp_to q = Some t \<longrightarrow> au_createdAt r \<le> t)" if "P r" for r
    using that by (auto simp: P_def)
  have sub: "r \<in> set (auditLog d) \<and> P r" if "r \<in> set (audit_getLogs u q d)" for r
    using that unfolding logs by (auto dest!: in_set_takeD in_set_dropD)
  have "sorted_wrt (\<ge>) (map au_createdAt (rev (sort_key au_createdAt (filter P (auditLog d)))))"
    unfolding rev_map[symmetric] sorted_wrt_rev by simp
  then have srt: "sorted_wrt (\<ge>) (map au_createdAt (audit_getLogs u q d))"
    unfolding logs take_map[symmetric] drop_map[symmetric] by (intro sorted_wrt_take sorted_wrt_drop)
  let ?new = "new_audit i action details ip (Some u) now" and ?sec = "\<lambda>r. au_userId r = Some u \<and> au_action r \<in> set SECURITY_ACTIONS"
  have "filter ?sec (auditLog d @ [?new]) = filter ?sec (auditLog d) @ [?new]" using assms(3) by (auto simp: new_audit_def SECURITY_ACTIONS_def)
  moreover have "sort_key au_createdAt (filter ?sec (auditLog d) @ [?new]) = sort_key au_createdAt (filter ?sec (auditLog d)) @ [?new]"
    using assms(2) by (intro sort_key_snoc_max) (simp add: new_audit_def)
  ultimately have new: "first_row (getSecurityEvents u (auth_audit i True action u details ip now d)) = Some ?new"
    by (simp add: getSecurityEvents_def auth_audit_def)
  have "\<forall>r \<in> set (getSecurityEvents u d). au_userId r = Some u" by (auto simp: getSecurityEvents_def dest!: in_set_takeD)
  moreover have "length (audit_getLogs u q d) \<le> ?n" by (simp add: logs)
  ultimately show ?thesis using sub P srt new by blast
qed

theorem audit_views_witness:
  "first_row (getSecurityEvents ''u1'' (auth_audit ''a1'' True ''LOGIN'' ''u1'' None None 7 empty_db)) = Some (new_audit ''a1'' ''LOGIN'' None None (Some ''u1'') 7)"
  using audit_views[of "''u1''" empty_db 7 "''LOGIN''"] by simp

end
