(* ===== verification/Dto.thy ===== *)
theory Dto
  imports Socket_Gateway Users_Audit
begin

text \<open>
  The payload classes of \<open>modules/*/dto\<close>: for each class its properties with their decorators, in order, and the
  \<open>@Transform\<close> closures. class-validator and class-transformer are the argument \<open>run\<close> of a locale: it is given whether
  properties without a decorator are forbidden (option \<open>forbidNonWhitelisted\<close>, set for REST and not for the socket), the
  rules of a class and a body, and returns the errors it reports and the instance it builds; what the code relies on is
  that an instance without errors satisfies the documented meaning of its decorators and holds the transformed values, and
  what the documentation says of properties no rule names. \<open>email\<close> and
  \<open>isoDate\<close> are the validators of addresses and ISO dates. \<open>@Type(() => Number)\<close> leaves the value to \<open>run\<close>.
\<close>

section \<open>Decorators\<close>

datatype decorator =
    IsString | IsInt | IsArray | IsObject | IsUUID | IsEmail | IsDateString | IsNotEmpty
  | MinLength nat | MaxLength nat | IsMin int | IsMax int | ArrayMinSize nat | ArrayMaxSize nat
  | IsEnum "string list" | Matches "string \<Rightarrow> bool" | EachUUID | ValidateNested "rule list"
and rule = Rule (ru_name: string) (ru_optional: bool) (ru_transform: "(json \<Rightarrow> json) option") (ru_checks: "decorator list")

text \<open>What a decorator documents of a value that passes it, and a rule of a property.\<close>

definition on_str :: "(string \<Rightarrow> bool) \<Rightarrow> json \<Rightarrow> bool" where
  "on_str p v = (case v of JStr s \<Rightarrow> p s | _ \<Rightarrow> False)"

definition on_num :: "(int \<Rightarrow> bool) \<Rightarrow> json \<Rightarrow> bool" where
  "on_num p v = (case v of JNum n \<Rightarrow> p n | _ \<Rightarrow> False)"

definition on_arr :: "(json list \<Rightarrow> bool) \<Rightarrow> json \<Rightarrow> bool" where
  "on_arr p v = (case v of JArr xs \<Rightarrow> p xs | _ \<Rightarrow> False)"

fun holds :: "(string \<Rightarrow> bool) \<Rightarrow> (string \<Rightarrow> bool) \<Rightarrow> decorator \<Rightarrow> json \<Rightarrow> bool"
  and rule_ok :: "(string \<Rightarrow> bool) \<Rightarrow> (string \<Rightarrow> bool) \<Rightarrow> rule \<Rightarrow> json option \<Rightarrow> bool" where
  "holds email isoDate IsString v = on_str (\<lambda>s. True) v"
| "holds email isoDate IsInt v = on_num (\<lambda>n. True) v"
| "holds email isoDate IsArray v = on_arr (\<lambda>xs. True) v"
| "holds email isoDate IsObject v = is_object v"
| "holds email isoDate IsUUID v = on_str is_uuid v"
| "holds email isoDate IsEmail v = on_str email v"
| "holds email isoDate IsDateString v = on_str isoDate v"
| "holds email isoDate IsNotEmpty v = (v \<noteq> JStr [] \<and> v \<noteq> JNull)"
| "holds email isoDate (MinLength n) v = on_str (\<lambda>s. n \<le> length s) v"
| "holds email isoDate (MaxLength n) v = on_str (\<lambda>s. length s \<le> n) v"
| "holds email isoDate (IsMin n) v = on_num (\<lambda>k. n \<le> k) v"
| "holds email isoDate (IsMax n) v = on_num (\<lambda>k. k \<le> n) v"
| "holds email isoDate (ArrayMinSize n) v = on_arr (\<lambda>xs. n \<le> length xs) v"
| "holds email isoDate (ArrayMaxSize n) v = on_arr (\<lambda>xs. length xs \<le> n) v"
| "holds email isoDate (IsEnum es) v = on_str (\<lambda>s. s \<in> set es) v"
| "holds email isoDate (Matches p) v = on_str p v"
| "holds email isoDate EachUUID v = on_arr (list_all (on_str is_uuid)) v"
| "holds email isoDate (ValidateNested rules) v =
     on_arr (\<lambda>xs. \<forall>x \<in> set xs. is_object x \<and> (\<forall>r \<in> set rules. rule_ok email isoDate r (jfield (ru_name r) x))) v"
| "rule_ok email isoDate (Rule name optional transform checks) v =
     (optional \<and> (v = None \<or> v = Some JNull) \<or>
      (case v of None \<Rightarrow> False | Some x \<Rightarrow> \<forall>c \<in> set checks. holds email isoDate c x))"

section \<open>Transforms and patterns\<close>

definition trim :: "json \<Rightarrow> json" where
  "trim v = (case v of JStr s \<Rightarrow> JStr (js_trim s) | _ \<Rightarrow> v)"

definition trim_lower :: "json \<Rightarrow> json" where
  "trim_lower v = (case v of JStr s \<Rightarrow> JStr (to_lower (js_trim s)) | _ \<Rightarrow> v)"

definition comma_parts :: "json \<Rightarrow> json list" where
  "comma_parts v = (case v of JStr s \<Rightarrow> map JStr (split_on CHR '','' s) | _ \<Rightarrow> [v])"

definition userIds_transform :: "json \<Rightarrow> json" where
  "userIds_transform v =
     (let raw = (case v of JArr xs \<Rightarrow> xs | _ \<Rightarrow> [v]);
          ids = filter (\<lambda>x. x \<noteq> JStr []) (map trim (concat (map comma_parts raw)))
      in JArr (js_uniq ids))"

definition ids_transform :: "json \<Rightarrow> json" where
  "ids_transform v =
     (let parts = (case v of JArr xs \<Rightarrow> xs | JStr s \<Rightarrow> map JStr (split_on CHR '','' s) | _ \<Rightarrow> [])
      in JArr (filter (\<lambda>x. x \<noteq> JStr []) (map trim parts)))"

definition word_char :: "char \<Rightarrow> bool" where
  "word_char c = (let n = (of_char c :: nat) in 48 \<le> n \<and> n \<le> 57 \<or> 65 \<le> n \<and> n \<le> 90 \<or> 97 \<le> n \<and> n \<le> 122 \<or> n = 95)"

definition b64_char :: "char \<Rightarrow> bool" where
  "b64_char c = (let n = (of_char c :: nat) in
     48 \<le> n \<and> n \<le> 57 \<or> 65 \<le> n \<and> n \<le> 90 \<or> 97 \<le> n \<and> n \<le> 122 \<or> n = 43 \<or> n = 47)"

definition USERNAME_PATTERN :: "string \<Rightarrow> bool" where
  "USERNAME_PATTERN s \<longleftrightarrow> s \<noteq> [] \<and> list_all word_char s"

definition hex_pattern :: "nat \<Rightarrow> nat \<Rightarrow> string \<Rightarrow> bool" where
  "hex_pattern lo hi s \<longleftrightarrow> lo \<le> length s \<and> length s \<le> hi \<and> list_all is_hex s"

definition PUBLIC_KEY_RE :: "string \<Rightarrow> bool" where
  "PUBLIC_KEY_RE s \<longleftrightarrow> length s = 44 \<and> list_all b64_char (take 43 s) \<and> s ! 43 = CHR ''=''"

text \<open>A run of base64 characters of bounded length and at most two signs of padding.\<close>

definition b64_padded :: "nat \<Rightarrow> nat option \<Rightarrow> string \<Rightarrow> bool" where
  "b64_padded lo hi s =
     (let core = takeWhile b64_char s; pad = dropWhile b64_char s
      in lo \<le> length core \<and> (case hi of None \<Rightarrow> True | Some h \<Rightarrow> length core \<le> h) \<and> pad \<in> {[], ''='', ''==''})"

definition SEALED_KEY_RE :: "string \<Rightarrow> bool" where
  "SEALED_KEY_RE s = (case split_on CHR '':'' s of [a, b, c] \<Rightarrow> list_all (b64_padded 1 None) [a, b, c] | _ \<Rightarrow> False)"

definition SALT_RE :: "string \<Rightarrow> bool" where
  "SALT_RE s = b64_padded 16 (Some 128) s"

definition action_pattern :: "string \<Rightarrow> bool" where
  "action_pattern s \<longleftrightarrow> s \<noteq> [] \<and> list_all (\<lambda>c. c = CHR ''_'' \<or> (65 \<le> (of_char c :: nat) \<and> (of_char c :: nat) \<le> 90)) s"

definition room_pattern :: "string \<Rightarrow> bool" where
  "room_pattern s =
     (let rest = (if take 3 s = ''dm-'' then Some (drop 3 s) else if take 6 s = ''group-'' then Some (drop 6 s) else None)
      in case rest of None \<Rightarrow> False
         | Some t \<Rightarrow> 36 \<le> length t \<and> length t \<le> 73 \<and> list_all (\<lambda>c. is_hex c \<or> c = CHR ''-'') t)"

section \<open>The classes\<close>

definition username_rule :: rule where
  "username_rule = Rule ''username'' False (Some trim) [IsString, MinLength 3, MaxLength 32, Matches USERNAME_PATTERN]"

definition RegisterDto :: "rule list" where
  "RegisterDto = [username_rule, Rule ''email'' False (Some trim_lower) [IsEmail, MaxLength 255],
     Rule ''password'' False None [IsString, MinLength 8, MaxLength 128]]"

definition LoginStartDto :: "rule list" where
  "LoginStartDto = [username_rule]"

definition LoginFinishDto :: "rule list" where
  "LoginFinishDto = [username_rule, Rule ''A'' False None [IsString, Matches (hex_pattern 1 1024)],
     Rule ''M1'' False None [IsString, Matches (hex_pattern 64 64)]]"

definition RefreshDto :: "rule list" where
  "RefreshDto = [Rule ''refreshToken'' False None [IsString, Matches (hex_pattern 64 64)]]"

definition UpdateProfileDto :: "rule list" where
  "UpdateProfileDto = [username_rule]"

definition SearchUsersQueryDto :: "rule list" where
  "SearchUsersQueryDto = [Rule ''q'' False (Some trim) [IsString, MinLength 1, MaxLength 64],
     Rule ''limit'' True None [IsInt, IsMin 1, IsMax 25]]"

definition OnlineUsersQueryDto :: "rule list" where
  "OnlineUsersQueryDto = [Rule ''ids'' True (Some ids_transform) [IsArray, ArrayMaxSize 200, EachUUID]]"

definition SendMessageDto :: "rule list" where
  "SendMessageDto = [Rule ''channelId'' False None [IsUUID], Rule ''encryptedContent'' False None [IsString, IsNotEmpty],
     Rule ''contentIv'' False None [IsString, IsNotEmpty, MaxLength 32], Rule ''contentTag'' False None [IsString, IsNotEmpty, MaxLength 32],
     Rule ''signature'' False None [IsString, MaxLength 256], Rule ''sequenceNumber'' False None [IsInt, IsMin 0],
     Rule ''senderKeyEpoch'' False None [IsInt, IsMin 0], Rule ''messageType'' True None [IsEnum MESSAGE_TYPES],
     Rule ''metadata'' True None [IsObject]]"

definition GetMessagesQueryDto :: "rule list" where
  "GetMessagesQueryDto = [Rule ''limit'' True None [IsInt, IsMin 1, IsMax 100], Rule ''cursor'' True None [IsInt, IsMin 0],
     Rule ''mode'' True None [IsEnum [''latest'', ''before'', ''since'']]]"

definition GetMessagesSocket_rules :: "rule list" where
  "GetMessagesSocket_rules = GetMessagesQueryDto @ [Rule ''channelId'' False None [IsUUID]]"

definition CreateChannel_rules :: "rule list" where
  "CreateChannel_rules = [Rule ''type'' False None [IsEnum [''DIRECT'', ''GROUP'']],
     Rule ''name'' True (Some trim) [IsString, MaxLength 64],
     Rule ''participantIds'' False None [IsArray, ArrayMinSize 1, ArrayMaxSize MAX_CHANNEL_PARTICIPANTS, EachUUID]]"

definition AddMemberDto :: "rule list" where
  "AddMemberDto = [Rule ''userId'' False None [IsUUID], Rule ''role'' True None [IsEnum [''MEMBER'', ''ADMIN'']]]"

definition MarkReadDto :: "rule list" where
  "MarkReadDto = [Rule ''channelId'' False None [IsUUID], Rule ''lastReadMessageId'' False None [IsUUID]]"

definition MarkReadSocket_rules :: "rule list" where
  "MarkReadSocket_rules = [Rule ''channelId'' False None [IsUUID], Rule ''messageId'' False None [IsUUID]]"

definition ChannelIdDto :: "rule list" where
  "ChannelIdDto = [Rule ''channelId'' False None [IsUUID]]"

definition Reaction_rules :: "rule list" where
  "Reaction_rules = [Rule ''channelId'' False None [IsUUID], Rule ''messageId'' False None [IsUUID],
     Rule ''emoji'' False None [IsString, MinLength 1, MaxLength 16]]"

definition RotateKeysDto :: "rule list" where
  "RotateKeysDto = [Rule ''newPublicKey'' False None [IsString, Matches PUBLIC_KEY_RE],
     Rule ''newEncryptedPrivateKey'' False None [IsString, Matches SEALED_KEY_RE], Rule ''newKeySalt'' False None [IsString, Matches SALT_RE],
     Rule ''newPublicKeySign'' False None [IsString, Matches PUBLIC_KEY_RE],
     Rule ''newEncryptedPrivateKeySign'' False None [IsString, Matches SEALED_KEY_RE],
     Rule ''newKeySaltSign'' False None [IsString, Matches SALT_RE], Rule ''newKeyVersion'' False None [IsInt, IsMin 2, IsMax 1000000]]"

definition SenderKeyItemDto :: "rule list" where
  "SenderKeyItemDto = [Rule ''receiverId'' False None [IsUUID], Rule ''encryptedKey'' False None [IsString, MinLength 1, MaxLength 4096],
     Rule ''keySignature'' False None [IsString, MinLength 1, MaxLength 1024]]"

definition UploadSenderKeyDto :: "rule list" where
  "UploadSenderKeyDto = [Rule ''groupId'' False None [IsUUID], Rule ''epoch'' False None [IsInt, IsMin 0],
     Rule ''items'' False None [IsArray, ArrayMinSize 1, ArrayMaxSize 500, ValidateNested SenderKeyItemDto]]"

definition PublicKeysQueryDto :: "rule list" where
  "PublicKeysQueryDto = [Rule ''userIds'' False (Some userIds_transform) [IsArray, ArrayMinSize 1, ArrayMaxSize 100, EachUUID]]"

definition SenderKeysQueryDto :: "rule list" where
  "SenderKeysQueryDto = [Rule ''epoch'' True None [IsInt, IsMin 0]]"

definition AuditLogsQueryDto :: "rule list" where
  "AuditLogsQueryDto = [Rule ''action'' True None [MaxLength 64, Matches action_pattern], Rule ''from'' True None [IsDateString],
     Rule ''to'' True None [IsDateString], Rule ''limit'' True None [IsInt, IsMin 1, IsMax 100], Rule ''offset'' True None [IsInt, IsMin 0, IsMax 10000]]"

definition CallHistoryQueryDto :: "rule list" where
  "CallHistoryQueryDto = [Rule ''page'' True None [IsInt, IsMin 1, IsMax 1000], Rule ''limit'' True None [IsInt, IsMin 1, IsMax 50]]"

definition CallHistoryWithUserQueryDto :: "rule list" where
  "CallHistoryWithUserQueryDto = [Rule ''limit'' True None [IsInt, IsMin 1, IsMax 50]]"

definition PresenceBulkDto :: "rule list" where
  "PresenceBulkDto = [Rule ''userIds'' True None [IsArray, ArrayMaxSize 500, EachUUID]]"

definition LivekitTokenDto :: "rule list" where
  "LivekitTokenDto = [Rule ''roomName'' False None [IsString, Matches room_pattern], Rule ''participantName'' True None [IsString, MaxLength 64]]"

section \<open>The validation library\<close>

text \<open>The option \<open>whitelist: true\<close>: properties without a decorator are taken out.\<close>

definition whitelist :: "rule list \<Rightarrow> json \<Rightarrow> json" where
  "whitelist rules j = (case j of JObj kvs \<Rightarrow> JObj (filter (\<lambda>(k, v). k \<in> set (map ru_name rules)) kvs) | _ \<Rightarrow> j)"

lemma map_of_filter_key: "map_of (filter (\<lambda>(k, v). P k) kvs) n = (if P n then map_of kvs n else None)"
  by (induction kvs) auto

lemma whitelist_field:
  "jfield n (whitelist rules j) = (if n \<in> set (map ru_name rules) then jfield n j else None)"
  by (cases j) (simp_all add: whitelist_def map_of_filter_key del: set_map)

lemma whitelist_object [simp]: "is_object (whitelist rules j) = is_object j"
  by (cases j) (simp_all add: whitelist_def is_object_def)

locale class_validator =
  fixes run :: "bool \<Rightarrow> rule list \<Rightarrow> json \<Rightarrow> ValidationError list \<times> json" and email isoDate :: "string \<Rightarrow> bool"
  assumes accepted: "run forbid rules body = ([], dto) \<Longrightarrow> r \<in> set rules \<Longrightarrow> rule_ok email isoDate r (jfield (ru_name r) dto)"
    and transformed: "run forbid rules body = ([], dto) \<Longrightarrow> r \<in> set rules \<Longrightarrow> distinct (map ru_name rules) \<Longrightarrow> ru_transform r = Some f \<Longrightarrow>
      jfield (ru_name r) body = Some v \<Longrightarrow> jfield (ru_name r) dto = Some (f v)"
    and stripped: "is_object body \<Longrightarrow> run False rules (whitelist rules body) = run False rules body"
    and allowed: "is_object body \<Longrightarrow> whitelist rules body = body \<Longrightarrow> run True rules body = run False rules body"
    and forbidden: "is_object body \<Longrightarrow> whitelist rules body \<noteq> body \<Longrightarrow> fst (run True rules body) \<noteq> []"
begin

lemma whitelisted_rule:
  "run forbid rules body = ([], dto) \<Longrightarrow> r \<in> set rules \<Longrightarrow> rule_ok email isoDate r (jfield (ru_name r) (whitelist rules dto))"
  by (simp add: whitelist_field accepted)

lemma required_checks:
  assumes "run forbid rules body = ([], dto)" "Rule n False t cs \<in> set rules"
  shows "\<exists>v. jfield n (whitelist rules dto) = Some v \<and> (\<forall>c \<in> set cs. holds email isoDate c v)"
  using whitelisted_rule[OF assms] by (simp split: option.splits)

lemma optional_checks:
  assumes "run forbid rules body = ([], dto)" "Rule n True t cs \<in> set rules" "jfield n (whitelist rules dto) = Some v" "v \<noteq> JNull"
  shows "\<forall>c \<in> set cs. holds email isoDate c v"
  using whitelisted_rule[OF assms(1,2)] assms(3,4) by simp

lemma whitelisted_transform:
  assumes "run forbid rules body = ([], dto)" "r \<in> set rules" "distinct (map ru_name rules)" "ru_transform r = Some f" "jfield (ru_name r) body = Some v"
  shows "jfield (ru_name r) (whitelist rules dto) = Some (f v)"
  using transformed[OF assms] assms(2) by (simp add: whitelist_field)

end

text \<open>A run that does what the decorators document: the properties of the rules, transformed, and one error for each rule not met.\<close>

definition instance_of :: "rule list \<Rightarrow> json \<Rightarrow> json" where
  "instance_of rules body = JObj (List.map_filter (\<lambda>r. map_option (\<lambda>v. (ru_name r,
     case ru_transform r of None \<Rightarrow> v | Some f \<Rightarrow> f v)) (jfield (ru_name r) body)) rules)"

definition unknown_properties :: "rule list \<Rightarrow> json \<Rightarrow> string list" where
  "unknown_properties rules body = (case body of JObj kvs \<Rightarrow> filter (\<lambda>k. k \<notin> set (map ru_name rules)) (map fst kvs) | _ \<Rightarrow> [])"

definition run_rules :: "(string \<Rightarrow> bool) \<Rightarrow> (string \<Rightarrow> bool) \<Rightarrow> bool \<Rightarrow> rule list \<Rightarrow> json \<Rightarrow> ValidationError list \<times> json" where
  "run_rules email isoDate forbid rules body =
     (let dto = instance_of rules body
      in ((if forbid then map (\<lambda>k. VError k (Some [''property '' @ k @ '' should not exist'']) None) (unknown_properties rules body) else []) @
          map (\<lambda>r. VError (ru_name r) (Some [ru_name r @ '' is invalid'']) None)
            (filter (\<lambda>r. \<not> rule_ok email isoDate r (jfield (ru_name r) dto)) rules), dto))"

lemma instance_of_field:
  assumes "distinct (map ru_name rules)" "r \<in> set rules"
  shows "jfield (ru_name r) (instance_of rules body) =
    map_option (\<lambda>v. case ru_transform r of None \<Rightarrow> v | Some f \<Rightarrow> f v) (jfield (ru_name r) body)"
  using assms
proof (induction rules)
  case (Cons q rules)
  show ?case
  proof (cases "r = q")
    case True
    have "ru_name q \<notin> fst ` set (List.map_filter (\<lambda>r. map_option (\<lambda>v. (ru_name r,
        case ru_transform r of None \<Rightarrow> v | Some f \<Rightarrow> f v)) (jfield (ru_name r) body)) rules)"
      using Cons.prems(1) by (force simp: List.map_filter_def)
    then show ?thesis using True
      by (cases "jfield (ru_name q) body") (auto simp: instance_of_def List.map_filter_simps map_of_eq_None_iff[THEN iffD2])
  next
    case False
    then have "ru_name q \<noteq> ru_name r" "r \<in> set rules" using Cons.prems by auto
    then show ?thesis using Cons by (cases "jfield (ru_name q) body") (auto simp: instance_of_def List.map_filter_simps)
  qed
qed simp

lemma map_filter_eq: "(\<And>x. x \<in> set xs \<Longrightarrow> f x = g x) \<Longrightarrow> List.map_filter f xs = List.map_filter g xs"
  by (induction xs) (auto simp: List.map_filter_simps split: option.split)

lemma instance_of_whitelist: "instance_of rules (whitelist rules body) = instance_of rules body"
  unfolding instance_of_def by (rule arg_cong[where f = JObj], rule map_filter_eq) (simp add: whitelist_field)

lemma whitelist_unknown: "is_object body \<Longrightarrow> whitelist rules body = body \<longleftrightarrow> unknown_properties rules body = []"
  by (cases body) (auto simp: whitelist_def unknown_properties_def is_object_def filter_id_conv filter_empty_conv)

interpretation documented: class_validator "run_rules email isoDate" email isoDate
proof
  show "rule_ok email isoDate r (jfield (ru_name r) dto)" if "run_rules email isoDate forbid rules body = ([], dto)" "r \<in> set rules" for forbid rules body dto r
    using that by (auto simp: run_rules_def Let_def filter_empty_conv)
  show "jfield (ru_name r) dto = Some (f v)"
    if "run_rules email isoDate forbid rules body = ([], dto)" "r \<in> set rules" "distinct (map ru_name rules)" "ru_transform r = Some f"
      "jfield (ru_name r) body = Some v" for forbid rules body dto r f v
    using that instance_of_field[OF that(3,2), of body] by (auto simp: run_rules_def Let_def)
  show "run_rules email isoDate False rules (whitelist rules body) = run_rules email isoDate False rules body" for rules body
    by (simp add: run_rules_def instance_of_whitelist)
  show "run_rules email isoDate True rules body = run_rules email isoDate False rules body"
    if "is_object body" "whitelist rules body = body" for rules body
    using that by (simp add: run_rules_def whitelist_unknown)
  show "fst (run_rules email isoDate True rules body) \<noteq> []" if "is_object body" "whitelist rules body \<noteq> body" for rules body
    using that by (simp add: run_rules_def whitelist_unknown Let_def)
qed

section \<open>Base64 formats\<close>

lemma length_b64_groups: "length (b64_groups ws) = 3 * length ws div 4"
  by (induction ws rule: b64_groups.induct) simp_all

lemma b64_char_val: "b64_char c \<Longrightarrow> \<exists>n. b64_val c = Some n" "b64_char c \<Longrightarrow> c \<noteq> CHR ''='' \<and> c \<noteq> CHR '':''"
  by (auto simp: b64_char_def b64_val_def Let_def)

lemma b64_digit_char: "n < 64 \<Longrightarrow> b64_char (b64_digit n)"
  by (auto simp: b64_digit_def b64_char_def Let_def)

lemma length_b64_decode:
  assumes "list_all b64_char core" "pad \<in> {[], ''='', ''==''}"
  shows "length (b64_decode (core @ pad)) = 3 * length core div 4"
proof -
  have "\<forall>c \<in> set core. c \<noteq> CHR ''=''" using assms(1) b64_char_val(2) unfolding list_all_iff by blast
  then have "takeWhile (\<lambda>c. c \<noteq> CHR ''='') (core @ pad) = core @ takeWhile (\<lambda>c. c \<noteq> CHR ''='') pad"
    by (intro takeWhile_append2) blast
  then have "takeWhile (\<lambda>c. c \<noteq> CHR ''='') (core @ pad) = core" using assms(2) by auto
  moreover have "length (List.map_filter b64_val core) = length core"
    using assms(1)
  proof (induction core)
    case (Cons c core)
    then obtain n where "b64_val c = Some n" using b64_char_val(1) by auto
    then show ?case using Cons by (simp add: List.map_filter_simps)
  qed (simp add: List.map_filter_simps)
  ultimately show ?thesis by (simp add: b64_decode_def length_b64_groups)
qed

lemma b64_encode_shape:
  "is_bytes bs \<Longrightarrow> \<exists>core pad. b64_encode bs = core @ pad \<and> list_all b64_char core \<and> pad \<in> {[], ''='', ''==''} \<and>
     length core = (4 * length bs + 2) div 3 \<and> length (core @ pad) = 4 * ((length bs + 2) div 3)"
proof (induction bs rule: b64_encode.induct)
  case (1 a b c r)
  have s: "a < 256" "b < 256" "c < 256" and r: "is_bytes r" using 1(2) by (simp_all add: is_bytes_def)
  from 1(1)[OF r] obtain core pad where cp: "b64_encode r = core @ pad" "list_all b64_char core" "pad \<in> {[], ''='', ''==''}"
      "length core = (4 * length r + 2) div 3" "length (core @ pad) = 4 * ((length r + 2) div 3)" by blast
  let ?core = "[b64_digit (a div 4), b64_digit (a mod 4 * 16 + b div 16), b64_digit (b mod 16 * 4 + c div 64), b64_digit (c mod 64)] @ core"
  have "b64_encode (a # b # c # r) = ?core @ pad" "list_all b64_char ?core" using cp(1,2) s by (auto intro!: b64_digit_char)
  moreover have "length ?core = (4 * length (a # b # c # r) + 2) div 3" using cp(4) by simp
  moreover have "(length (a # b # c # r) + 2) div 3 = (3 + (length r + 2)) div 3" by (rule arg_cong) simp
  then have "(length (a # b # c # r) + 2) div 3 = (length r + 2) div 3 + 1" by (simp only: div_add_self1)
  then have "length (?core @ pad) = 4 * ((length (a # b # c # r) + 2) div 3)" using cp(5) by simp
  ultimately show ?case using cp(3) by blast
next
  case (2 a b)
  have "list_all b64_char [b64_digit (a div 4), b64_digit (a mod 4 * 16 + b div 16), b64_digit (b mod 16 * 4)]"
    using 2 by (auto simp: is_bytes_def intro!: b64_digit_char)
  then show ?case by (intro exI[of _ "[b64_digit (a div 4), b64_digit (a mod 4 * 16 + b div 16), b64_digit (b mod 16 * 4)]"] exI[of _ "''=''"]) simp
next
  case (3 a)
  have "list_all b64_char [b64_digit (a div 4), b64_digit (a mod 4 * 16)]" using 3 by (auto simp: is_bytes_def intro!: b64_digit_char)
  then show ?case by (intro exI[of _ "[b64_digit (a div 4), b64_digit (a mod 4 * 16)]"] exI[of _ "''==''"]) simp
qed simp

section \<open>What an accepted payload looks like\<close>

lemma on_iff:
  "on_str p v \<longleftrightarrow> (\<exists>s. v = JStr s \<and> p s)" "on_num p' v \<longleftrightarrow> (\<exists>n. v = JNum n \<and> p' n)" "on_arr p'' v \<longleftrightarrow> (\<exists>xs. v = JArr xs \<and> p'' xs)"
  by (cases v; simp add: on_str_def on_num_def on_arr_def)+

lemma PUBLIC_KEY_bytes:
  assumes "PUBLIC_KEY_RE s"
  shows "length (b64_decode s) = 32"
proof -
  have "s = take 43 s @ ''=''" using assms take_Suc_conv_app_nth[of 43 s] by (simp add: PUBLIC_KEY_RE_def)
  then show ?thesis using assms length_b64_decode[of "take 43 s" "''=''"] by (simp add: PUBLIC_KEY_RE_def)
qed

lemma SALT_length: "SALT_RE s \<Longrightarrow> 16 \<le> length s \<and> length s \<le> 130"
proof -
  assume s: "SALT_RE s"
  have "length s = length (takeWhile b64_char s) + length (dropWhile b64_char s)"
    by (metis length_append takeWhile_dropWhile_id)
  moreover have "length (dropWhile b64_char s) \<le> 2" using s by (auto simp: SALT_RE_def b64_padded_def Let_def simp del: dropWhile_eq_Nil_conv)
  ultimately show ?thesis using s by (simp add: SALT_RE_def b64_padded_def Let_def)
qed

section \<open>The keys of a new user\<close>

lemma b64_padded_encode:
  assumes "is_bytes bs" "lo \<le> (4 * length bs + 2) div 3" "\<forall>h \<in> set_option hi. (4 * length bs + 2) div 3 \<le> h"
  shows "b64_padded lo hi (b64_encode bs)"
proof -
  obtain core pad where cp: "b64_encode bs = core @ pad" "list_all b64_char core" "pad \<in> {[], ''='', ''==''}"
      "length core = (4 * length bs + 2) div 3" using b64_encode_shape[OF assms(1)] by blast
  have "\<not> b64_char CHR ''=''" by (simp add: b64_char_def)
  then have "takeWhile b64_char pad = []" "dropWhile b64_char pad = pad" using cp(3) by auto
  then have "takeWhile b64_char (core @ pad) = core" "dropWhile b64_char (core @ pad) = pad"
    using cp(2) by (simp_all add: takeWhile_append2 dropWhile_append2 list_all_iff)
  then show ?thesis using cp(1,3,4) assms(2,3) unfolding b64_padded_def Let_def by (auto split: option.split)
qed

lemma PUBLIC_KEY_encode:
  assumes "is_bytes bs" "length bs = 32"
  shows "PUBLIC_KEY_RE (b64_encode bs)"
proof -
  obtain core pad where cp: "b64_encode bs = core @ pad" "list_all b64_char core" "pad \<in> {[], ''='', ''==''}"
      "length core = 43" "length (core @ pad) = 44" using b64_encode_shape[OF assms(1)] assms(2) by auto
  then have "pad = ''=''" by auto
  then show ?thesis using cp(1,2,4) by (simp add: PUBLIC_KEY_RE_def nth_append)
qed

lemma SALT_encode: "is_bytes bs \<Longrightarrow> length bs = 32 \<Longrightarrow> SALT_RE (b64_encode bs)"
  using b64_padded_encode[of bs 16 "Some 128"] by (simp add: SALT_RE_def)

lemma SEALED_KEY_seal:
  assumes "gcm_ok gcm ungcm" "is_bytes iv" "iv \<noteq> []" "is_bytes privateKey" "privateKey \<noteq> []"
  shows "SEALED_KEY_RE (sealPrivateKey gcm iv privateKey kek)"
proof -
  obtain ct tag where g: "gcm kek iv privateKey = (ct, tag)" by fastforce
  then have b: "is_bytes tag" "is_bytes ct" "length tag = 16" "length ct = length privateKey"
    using assms(1,4) unfolding gcm_ok_def by (metis fst_conv snd_conv)+
  have part: "b64_padded 1 None (b64_encode bs)" if "is_bytes bs" "bs \<noteq> []" for bs
  proof (rule b64_padded_encode[OF that(1)])
    show "1 \<le> (4 * length bs + 2) div 3" using that(2) by (cases bs) simp_all
  qed simp
  have "tag \<noteq> []" "ct \<noteq> []" using b(3,4) assms(5) by auto
  then show ?thesis unfolding SEALED_KEY_RE_def split_sealed[where gcm = gcm, OF assms(2) b(1,2) g] using part b(1,2) assms(2,3) by simp
qed

lemma last_bytes_ok: "is_bytes der \<Longrightarrow> n \<le> length der \<Longrightarrow> is_bytes (last_bytes n der) \<and> length (last_bytes n der) = n"
  by (auto simp: last_bytes_def is_bytes_def list_all_iff dest: in_set_dropD)

text \<open>
  C39: The keys registration makes are the keys rotation accepts. The public keys of a new user have the form of a
  base64 key of 32 bytes and hold the bytes of the generated key; the salts match the salt format and the sealed private
  keys the sealed format, and each sealed key opens to the generated private key under the key derived from the password and the
  stored salt, so the client that knows the password recovers both private keys from the row.
\<close>

theorem registered_keys_well_formed:
  assumes gcm: "gcm_ok (cf_gcm cf) ungcm"
    and der: "list_all (\<lambda>der. is_bytes der \<and> 32 \<le> length der)
      [fst (rr_x25519 rr), snd (rr_x25519 rr), fst (rr_ed25519 rr), snd (rr_ed25519 rr)]"
    and salt: "list_all (\<lambda>salt. is_bytes salt \<and> length salt = 32) [rr_keySalt rr, rr_keySaltSign rr]"
    and iv: "list_all (\<lambda>iv. is_bytes iv \<and> length iv = 12) [rr_iv rr, rr_ivSign rr]"
    and u: "u = new_user cf rr username email password now"
  shows "(list_all PUBLIC_KEY_RE [u_publicKey u, u_publicKeySign u] \<and> list_all SALT_RE [u_keySalt u, u_keySaltSign u] \<and>
     list_all SEALED_KEY_RE [u_encryptedPrivateKey u, u_encryptedPrivateKeySign u]) \<and>
    b64_decode (u_publicKey u) = fst (generateX25519KeyPair (rr_x25519 rr)) \<and>
    b64_decode (u_publicKeySign u) = fst (generateEd25519KeyPair (rr_ed25519 rr)) \<and>
    unsealPrivateKey ungcm (u_encryptedPrivateKey u) (deriveKEK cf password (b64_decode (u_keySalt u))) =
      Some (snd (generateX25519KeyPair (rr_x25519 rr))) \<and>
    unsealPrivateKey ungcm (u_encryptedPrivateKeySign u) (deriveKEK cf password (b64_decode (u_keySaltSign u))) =
      Some (snd (generateEd25519KeyPair (rr_ed25519 rr)))"
proof -
  note parts = PUBLIC_KEY_encode SALT_encode SEALED_KEY_seal[OF gcm] unseal_seal[OF gcm] b64_decode_encode
    generateX25519KeyPair_def generateEd25519KeyPair_def
  have key: "is_bytes (last_bytes 32 d) \<and> length (last_bytes 32 d) = 32 \<and> last_bytes 32 d \<noteq> []"
    if "d \<in> {fst (rr_x25519 rr), snd (rr_x25519 rr), fst (rr_ed25519 rr), snd (rr_ed25519 rr)}" for d
  proof -
    have "is_bytes d" "32 \<le> length d" using that der by auto
    then show ?thesis using last_bytes_ok[of d 32] by (cases "last_bytes 32 d") simp_all
  qed
  have "rr_iv rr \<noteq> []" "rr_ivSign rr \<noteq> []" using iv by auto
  then show ?thesis using salt iv key
    by (simp add: u new_user_def Let_def parts)
qed

definition sample_random :: RegisterRandom where
  "sample_random = \<lparr>rr_id = ''u1'', rr_srpSalt = [1, 2, 3], rr_keySalt = replicate 32 4, rr_keySaltSign = replicate 32 5,
     rr_x25519 = (replicate 44 6, replicate 48 7), rr_ed25519 = (replicate 44 8, replicate 48 9), rr_iv = replicate 12 10, rr_ivSign = replicate 12 11\<rparr>"

theorem registered_keys_well_formed_witness:
  "(let u = new_user sample_cf sample_random ''alice'' ''a@b.c'' ''secret'' 0
    in PUBLIC_KEY_RE (u_publicKey u) \<and> SALT_RE (u_keySalt u) \<and> SEALED_KEY_RE (u_encryptedPrivateKey u) \<and>
       unsealPrivateKey (\<lambda>kek iv tag ct. Some ct) (u_encryptedPrivateKey u) (deriveKEK sample_cf ''secret'' (b64_decode (u_keySalt u))) =
         Some (replicate 32 7))"
proof -
  have "is_bytes (replicate n k) \<longleftrightarrow> n = 0 \<or> k < 256" for n k by (induction n) (auto simp: is_bytes_def)
  then have h: "gcm_ok (cf_gcm sample_cf) (\<lambda>kek iv tag ct. Some ct)"
    "list_all (\<lambda>der. is_bytes der \<and> 32 \<le> length der)
      [fst (rr_x25519 sample_random), snd (rr_x25519 sample_random), fst (rr_ed25519 sample_random), snd (rr_ed25519 sample_random)]"
    "list_all (\<lambda>salt. is_bytes salt \<and> length salt = 32) [rr_keySalt sample_random, rr_keySaltSign sample_random]"
    "list_all (\<lambda>iv. is_bytes iv \<and> length iv = 12) [rr_iv sample_random, rr_ivSign sample_random]"
    by (simp_all add: gcm_ok_def sample_cf_def sample_random_def)
  have "snd (generateX25519KeyPair (rr_x25519 sample_random)) = replicate 32 7"
    by (simp add: generateX25519KeyPair_def last_bytes_def sample_random_def)
  then show ?thesis
    using registered_keys_well_formed[OF h refl, of "''alice''" "''a@b.c''" "''secret''" 0] by (simp add: Let_def)
qed

end
