(* ===== verification/Database_Invariant.thy ===== *)
theory Database_Invariant
  imports Socket_Gateway Users_Audit
begin

text \<open>
  What holds of the tables at any time: unique keys, references that resolve, gap-free sequence numbers, previews that
  name the newest visible message, the invariant of channels, one reaction per user and message. Every handler that
  writes to the database keeps it.
\<close>

section \<open>References between tables\<close>

text \<open>
  The foreign keys of \<open>database/schema.ts\<close>. No handler looks them up: PostgreSQL does, and would throw. That
  they hold in every reachable state means that the checks of the handlers suffice for it never to throw.
\<close>

abbreviation user_ids :: "db \<Rightarrow> uid set" where "user_ids d \<equiv> u_id ` set (users d)"
abbreviation channel_ids :: "db \<Rightarrow> cid set" where "channel_ids d \<equiv> ch_id ` set (channels d)"
abbreviation message_ids :: "db \<Rightarrow> mid set" where "message_ids d \<equiv> ms_id ` set (messages d)"
abbreviation log_ids :: "db \<Rightarrow> string set" where "log_ids d \<equiv> cl_id ` set (callLogs d)"

definition refs_ok :: "db \<Rightarrow> bool" where
  "refs_ok d \<longleftrightarrow>
     (\<forall>m \<in> set (memberships d). mb_userId m \<in> user_ids d \<and> mb_channelId m \<in> channel_ids d) \<and>
     (\<forall>m \<in> set (messages d). ms_senderId m \<in> user_ids d \<and> ms_channelId m \<in> channel_ids d) \<and>
     (\<forall>r \<in> set (reactions d). re_userId r \<in> user_ids d \<and> re_messageId r \<in> message_ids d) \<and>
     (\<forall>r \<in> set (messageReads d). mr_userId r \<in> user_ids d \<and> mr_messageId r \<in> message_ids d) \<and>
     (\<forall>k \<in> set (senderKeys d). sk_ownerId k \<in> user_ids d \<and> sk_receiverId k \<in> user_ids d) \<and>
     (\<forall>t \<in> set (refreshTokens d). rt_userId t \<in> user_ids d) \<and>
     (\<forall>a \<in> set (auditLog d). set_option (au_userId a) \<subseteq> user_ids d) \<and>
     (\<forall>l \<in> set (callLogs d). set_option (cl_callerId l) \<union> set_option (cl_calleeId l) \<subseteq> user_ids d \<and>
        set_option (cl_channelId l) \<subseteq> channel_ids d) \<and>
     (\<forall>p \<in> set (callParticipants d). cp_userId p \<in> user_ids d \<and> cp_callLogId p \<in> log_ids d)"

definition db_inv :: "db \<Rightarrow> bool" where
  "db_inv d \<longleftrightarrow> db_keys_ok d \<and> refs_ok d \<and> sequences_ok d \<and> preview_ok d \<and> channels_ok d \<and> one_reaction_each d"

lemma db_inv_empty: "db_inv empty_db"
  by (simp add: db_inv_def db_keys_ok_def refs_ok_def sequences_ok_def preview_ok_def channels_ok_def one_reaction_each_def
      channel_messages_def admins_in_def direct_unique_def direct_between_def is_direct_def members_have_channel_def sizes_ok_def
      member_rows_def keys_unique_def)

text \<open>The part of the invariant that only the chat tables matter for.\<close>

lemma db_inv_side:
  assumes "db_inv d" "channels d' = channels d" "memberships d' = memberships d" "messages d' = messages d" "reactions d' = reactions d"
    and "db_keys_ok d'" "refs_ok d'"
  shows "db_inv d'"
proof -
  have "sequences_ok d' = sequences_ok d" "preview_ok d' = preview_ok d" "one_reaction_each d' = one_reaction_each d"
    by (simp_all add: sequences_ok_def channel_messages_def preview_ok_def newest_visible_def one_reaction_each_def assms(2-5))
  moreover have "channels_ok d' = channels_ok d"
    by (simp add: channels_ok_def direct_unique_def direct_between_def is_direct_def in_channel_def
        members_have_channel_def sizes_ok_def member_rows_def assms(2-5))
  ultimately show ?thesis using assms(1,6,7) by (simp add: db_inv_def)
qed

lemma ids_update_where:
  assumes "\<And>r. g (f r) = g r"
  shows "g ` set (update_where P f rows) = g ` set rows"
  by (induction rows) (simp_all add: assms)

lemma ball_update_where:
  assumes "\<And>r. Q (f r) = Q r"
  shows "(\<forall>r \<in> set (update_where P f rows). Q r) = (\<forall>r \<in> set rows. Q r)"
  by (induction rows) (simp_all add: assms)

lemmas inv_defs = db_inv_def db_keys_ok_def refs_ok_def

section \<open>Accounts, keys and audit\<close>

lemma inv_audit:
  assumes "db_inv d" "u \<in> user_ids d"
  shows "db_inv (auth_audit i ok a u det ip now d)"
  by (rule db_inv_side[OF assms(1)]) (use assms in \<open>simp_all add: auth_audit_def new_audit_def inv_defs\<close>)

lemma inv_register:
  assumes "db_inv d"
  shows "db_inv (snd (register cf rr auditId ok name email pw now d))"
proof (cases "fst (register cf rr auditId ok name email pw now d)")
  case (Inl e)
  then show ?thesis using assms by (auto simp: register_def Let_def split: option.splits sum.splits)
next
  case (Inr u)
  then obtain rows where r: "insert_row user_conflict u (users d) = Inr rows" 
    "snd (register cf rr auditId ok name email pw now d) = auth_audit auditId ok ''REGISTER'' (u_id u) None None now (d\<lparr>users := rows\<rparr>)"
    by (auto simp: register_def Let_def split: option.splits sum.splits)
  have rows: "rows = users d @ [u]" "keys_unique user_conflict rows"
    using r(1) users_tab.unique_insert[OF _ r(1)] assms by (simp_all add: insert_row_Inr_iff inv_defs)
  have "db_inv (d\<lparr>users := rows\<rparr>)"
    by (rule db_inv_side[OF assms]) (use assms rows in \<open>auto simp: inv_defs\<close>)
  then show ?thesis unfolding r(2) by (rule inv_audit) (simp add: rows(1))
qed

text \<open>An update of a user's row that keeps its keys.\<close>

lemma inv_update_user:
  assumes "db_inv d" "\<And>x. u_id (f x) = u_id x" "\<And>x. u_username (f x) = u_username x" "\<And>x. u_email (f x) = u_email x"
  shows "db_inv (d\<lparr>users := update_where P f (users d)\<rparr>)"
proof (rule db_inv_side[OF assms(1)])
  have "keys_unique user_conflict (update_where P f (users d))"
    by (rule users_tab.unique_update) (use assms in \<open>simp_all add: inv_defs user_conflict_def\<close>)
  then show "db_keys_ok (d\<lparr>users := update_where P f (users d)\<rparr>)" using assms(1) by (simp add: inv_defs)
  show "refs_ok (d\<lparr>users := update_where P f (users d)\<rparr>)" using assms(1) by (simp add: inv_defs ids_update_where[of u_id, OF assms(2)])
qed simp_all

lemma inv_filter_tokens: "db_inv d \<Longrightarrow> db_inv (d\<lparr>refreshTokens := filter P (refreshTokens d)\<rparr>)"
  by (rule db_inv_side[of d]) (simp_all add: inv_defs refreshTokens_tab.unique_delete)

lemma inv_issueTokens:
  assumes "db_inv d" "u \<in> user_ids d"
  shows "db_inv (snd (issueTokens cf ttl random rowId u now d))"
proof -
  let ?P = "\<lambda>t. \<not> (rt_userId t = u \<and> rt_expiresAt t < now)"
  let ?d = "d\<lparr>refreshTokens := filter ?P (refreshTokens d)\<rparr>"
  have inv: "db_inv ?d" by (rule inv_filter_tokens[OF assms(1)])
  have "db_inv (d\<lparr>refreshTokens := rows\<rparr>)"
    if ins: "insert_row refresh_token_conflict row (filter ?P (refreshTokens d)) = Inr rows" and u: "rt_userId row = u" for rows row
  proof (rule db_inv_side[OF inv])
    have "keys_unique refresh_token_conflict rows"
      by (rule refreshTokens_tab.unique_insert[OF _ ins]) (use inv in \<open>simp add: inv_defs\<close>)
    then show "db_keys_ok (d\<lparr>refreshTokens := rows\<rparr>)" using assms(1) by (simp add: inv_defs)
    have "rows = filter ?P (refreshTokens d) @ [row]" using ins by (simp add: insert_row_Inr_iff)
    then show "refs_ok (d\<lparr>refreshTokens := rows\<rparr>)" using assms u by (simp add: inv_defs)
  qed simp_all
  then show ?thesis using inv by (auto simp: issueTokens_def Let_def split: sum.splits)
qed

lemma inv_refreshTokens:
  assumes "db_inv d"
  shows "db_inv (snd (auth_refreshTokens cf ttl random rowId token now d))"
proof -
  let ?hit = "\<lambda>t. rt_tokenHash t = hashRefreshToken (cf_sha cf) token"
  let ?d = "d\<lparr>refreshTokens := filter (\<lambda>t. \<not> ?hit t) (refreshTokens d)\<rparr>"
  have inv: "db_inv ?d" by (rule inv_filter_tokens[OF assms])
  show ?thesis
  proof (cases "first_row (filter ?hit (refreshTokens d))")
    case (Some r)
    have "rt_userId r \<in> user_ids ?d"
      using first_row_filterD[OF Some] assms by (auto simp: inv_defs)
    then show ?thesis using inv inv_issueTokens[OF inv] inv_filter_tokens[OF inv] Some
      by (auto simp: auth_refreshTokens_def Let_def split: option.splits)
  qed (use inv in \<open>simp add: auth_refreshTokens_def Let_def\<close>)
qed

lemma inv_loginFinish:
  assumes "db_inv (w_db w)"
  shows "db_inv (w_db (snd (loginFinish cf ttl random rowId auditId ok rerr now name A M1 ip w)))"
proof -
  obtain r w1 where c: "srpState_consume rerr now name w = (r, w1)" by fastforce
  have db: "w_db w1 = w_db w" using c by (auto simp: srpState_consume_def split: link.splits)
  have user: "u_id user \<in> user_ids (w_db w)" if "login_user state name (w_db w) = Some user" for state user
    using that by (auto simp: login_user_def split: option.splits if_splits dest!: first_row_filterD)
  have finish: "db_inv (w_db (snd (finish_login cf ttl random rowId auditId ok now ip user M2 w1)))"
    if "login_user state name (w_db w) = Some user" for state user M2
  proof -
    obtain t d1 where t: "issueTokens cf ttl random rowId (u_id user) now (w_db w) = (t, d1)" by fastforce
    have d1: "db_inv d1" "users d1 = users (w_db w)"
      using inv_issueTokens[OF assms user[OF that], of cf ttl random rowId now] t by (auto simp: issueTokens_def Let_def split: sum.splits)
    have d2: "db_inv (d1\<lparr>users := update_where (\<lambda>u. u_id u = u_id user) (login_row now) (users d1)\<rparr>)"
      by (rule inv_update_user[OF d1(1)]) (simp_all add: login_row_def)
    have "u_id user \<in> user_ids (d1\<lparr>users := update_where (\<lambda>u. u_id u = u_id user) (login_row now) (users d1)\<rparr>)"
      using user[OF that] ids_update_where[of u_id "login_row now"] d1(2) by (simp add: login_row_def)
    then show ?thesis using d1(1) inv_audit[OF d2] t db by (simp add: finish_login_def Let_def split: sum.splits)
  qed
  show ?thesis using assms c db finish user inv_audit[OF assms]
    by (auto simp: loginFinish_def Let_def split: sum.splits option.splits)
qed

lemma inv_logout:
  assumes "db_inv (w_db w)" "u \<in> user_ids (w_db w)"
  shows "db_inv (w_db (logout auditId ok now u w))"
proof -
  let ?d = "auth_audit auditId ok ''LOGOUT'' u None None now (w_db w)"
  let ?f = "\<lambda>u. u\<lparr>u_status := ''OFFLINE''\<rparr>"
  have "db_inv (?d\<lparr>users := update_where (\<lambda>x. u_id x = u) ?f (users ?d)\<rparr>)"
    by (rule inv_update_user[OF inv_audit[OF assms]]) simp_all
  from inv_filter_tokens[OF this] show ?thesis by (simp add: logout_def Let_def)
qed

lemma inv_rotateKeys:
  assumes "db_inv d"
  shows "db_inv (snd (rotateKeys auditId ok u params now d))"
proof (cases "list_ex (\<lambda>x. u_id x = u \<and> u_keyVersion x < rk_keyVersion params) (users d)")
  case True
  let ?d = "d\<lparr>users := update_where (\<lambda>x. u_id x = u \<and> u_keyVersion x < rk_keyVersion params) (rotate_row params now) (users d)\<rparr>"
  have inv: "db_inv ?d" by (rule inv_update_user[OF assms]) (simp_all add: rotate_row_def)
  have "u \<in> user_ids ?d" using True ids_update_where[of u_id "rotate_row params now"] by (auto simp: rotate_row_def list_ex_iff)
  from inv_audit[OF inv this, of auditId ok "''KEY_ROTATE''" "Some (JObj [(''newKeyVersion'', JNum (rk_keyVersion params))])" None now]
  show ?thesis using True by (simp add: rotateKeys_def Let_def auth_audit_def split: if_splits)
next
  case False
  then show ?thesis using assms by (simp add: rotateKeys_def Let_def split: option.split)
qed

lemma members_are_users:
  assumes "refs_ok d"
  shows "is_channel_member u c d \<Longrightarrow> u \<in> user_ids d \<and> c \<in> channel_ids d" "u \<in> set (active_members c d) \<Longrightarrow> u \<in> user_ids d"
  using assms by (auto simp: refs_ok_def is_channel_member_def active_members_def list_ex_iff)

lemma inv_uploadSenderKeys:
  assumes "db_inv d"
  shows "db_inv (snd (uploadSenderKeys keyId owner g epoch items now d))"
proof (cases "fst (uploadSenderKeys keyId owner g epoch items now d)")
  case (Inl e)
  then show ?thesis using assms by (auto simp: uploadSenderKeys_def Let_def split: if_splits sum.splits)
next
  case (Inr u)
  let ?new = "map (\<lambda>(k, item). new_sender_key (keyId k) owner g epoch item now) (enumerate 0 items)"
  let ?rest = "filter (\<lambda>k. \<not> (sk_groupId k = g \<and> sk_epoch k = epoch \<and> sk_ownerId k = owner)) (senderKeys d)"
  from Inr obtain rows where r: "insert_rows sender_key_conflict ?new ?rest = Inr rows"
    "snd (uploadSenderKeys keyId owner g epoch items now d) = d\<lparr>senderKeys := rows\<rparr>"
    "owner \<in> set (active_members g d)" "\<forall>i \<in> set items. sx_receiverId i \<in> set (active_members g d)"
    by (auto simp: uploadSenderKeys_def Let_def list_ex_iff split: if_splits sum.splits)
  have refs: "refs_ok d" using assms by (simp add: db_inv_def)
  have rows: "rows = ?rest @ ?new" using insert_rows_Inr[OF r(1)] .
  have "keys_unique sender_key_conflict rows"
    by (rule senderKeys_tab.unique_inserts[OF _ r(1)]) (use assms in \<open>simp add: inv_defs senderKeys_tab.unique_delete\<close>)
  moreover have "sx_receiverId (items ! a) \<in> user_ids d" if "a < length items" for a
    using r(4) nth_mem[OF that] members_are_users(2)[OF refs] by blast
  with refs r(3) members_are_users(2)[OF refs] have "\<forall>k \<in> set rows. sk_ownerId k \<in> user_ids d \<and> sk_receiverId k \<in> user_ids d"
    unfolding rows by (auto simp: new_sender_key_def refs_ok_def in_set_enumerate_eq)
  ultimately have "db_keys_ok (d\<lparr>senderKeys := rows\<rparr>)" "refs_ok (d\<lparr>senderKeys := rows\<rparr>)"
    using assms by (simp_all add: inv_defs)
  then show ?thesis unfolding r(2) by (intro db_inv_side[OF assms]) simp_all
qed

lemma inv_updateProfile:
  assumes "db_inv d" "updateProfile u name now d = Inr (r, d')"
  shows "db_inv d'"
proof -
  have up: "update_username u name now d = Inr (r, d')" using assms(2) by (auto simp: updateProfile_def split: if_splits)
  have d': "d' = d\<lparr>users := update_where (\<lambda>x. u_id x = u) (\<lambda>x. x\<lparr>u_username := name, u_updatedAt := now\<rparr>) (users d)\<rparr>"
    using up by (auto simp: update_username_def split: option.splits if_splits)
  have "keys_unique user_conflict (users d')" using update_username_unique[OF _ up] assms(1) by (simp add: inv_defs)
  then have "db_keys_ok d'" using assms(1) by (simp add: inv_defs d')
  moreover have "refs_ok d'" using assms(1) by (simp add: inv_defs d' ids_update_where)
  ultimately show ?thesis by (intro db_inv_side[OF assms(1)]) (simp_all add: d')
qed

section \<open>Calls\<close>

lemma list_ex_eq_image: "list_ex (\<lambda>x. g x = v) xs \<longleftrightarrow> v \<in> g ` set xs"
  by (auto simp: list_ex_iff)

lemma to_lower_mem: "user_exists (map_option to_lower i) d \<longleftrightarrow> set_option (map_option to_lower i) \<subseteq> user_ids d"
  "channel_exists (map_option to_lower c) d \<longleftrightarrow> set_option (map_option to_lower c) \<subseteq> channel_ids d"
  by (cases i; force simp: user_exists_def list_ex_iff) (cases c; force simp: channel_exists_def list_ex_iff)

lemma inv_insert_log:
  assumes "db_inv d" "insert_call_log l d = Inr d'"
    and "cl_callerId l = map_option to_lower a" "cl_calleeId l = map_option to_lower b" "cl_channelId l = map_option to_lower c"
  shows "db_inv d'"
proof -
  obtain rows where r: "insert_row call_log_conflict l (callLogs d) = Inr rows" "d' = d\<lparr>callLogs := rows\<rparr>"
    and e: "user_exists (cl_callerId l) d" "user_exists (cl_calleeId l) d" "channel_exists (cl_channelId l) d"
    using assms(2) by (auto simp: insert_call_log_def bindE_Inr_iff split: if_splits)
  have "keys_unique call_log_conflict rows" using callLogs_tab.unique_insert[OF _ r(1)] assms(1) by (simp add: inv_defs)
  then have "db_keys_ok d'" using assms(1) by (simp add: inv_defs r(2))
  moreover have "rows = callLogs d @ [l]" using r(1) by (simp add: insert_row_Inr_iff)
  then have "refs_ok d'" using assms(1) e[unfolded assms(3-5) to_lower_mem]
    by (auto simp: inv_defs r(2) assms(3-5))
  ultimately show ?thesis by (intro db_inv_side[OF assms(1)]) (simp_all add: r(2))
qed

lemma inv_update_log:
  assumes "db_inv d" "\<And>l. cl_id (f l) = cl_id l" "\<And>l. cl_callerId (f l) = cl_callerId l" "\<And>l. cl_calleeId (f l) = cl_calleeId l"
    "\<And>l. cl_channelId (f l) = cl_channelId l"
  shows "db_inv (d\<lparr>callLogs := update_where P f (callLogs d)\<rparr>)"
proof (rule db_inv_side[OF assms(1)])
  have "keys_unique call_log_conflict (update_where P f (callLogs d))"
    by (rule callLogs_tab.unique_update) (use assms in \<open>simp_all add: inv_defs call_log_conflict_def\<close>)
  then show "db_keys_ok (d\<lparr>callLogs := update_where P f (callLogs d)\<rparr>)" using assms(1) by (simp add: inv_defs)
  show "refs_ok (d\<lparr>callLogs := update_where P f (callLogs d)\<rparr>)"
    using assms(1) by (simp add: inv_defs ids_update_where[of cl_id, OF assms(2)] ball_update_where assms(3-5))
qed simp_all

lemma inv_insert_participant:
  assumes "db_inv d" "cp_userId p \<in> user_ids d" "cp_callLogId p \<in> log_ids d"
  shows "db_inv (d\<lparr>callParticipants := insert_or_nothing call_participant_conflict p (callParticipants d)\<rparr>)"
proof (rule db_inv_side[OF assms(1)])
  show "db_keys_ok (d\<lparr>callParticipants := insert_or_nothing call_participant_conflict p (callParticipants d)\<rparr>)"
    using assms(1) by (simp add: inv_defs callParticipants_tab.unique_insert_or_nothing)
  show "refs_ok (d\<lparr>callParticipants := insert_or_nothing call_participant_conflict p (callParticipants d)\<rparr>)"
    using assms by (simp add: inv_defs insert_or_nothing_def)
qed simp_all

lemma inv_update_participant:
  assumes "db_inv d" "\<And>p. cp_id (f p) = cp_id p" "\<And>p. cp_callLogId (f p) = cp_callLogId p" "\<And>p. cp_userId (f p) = cp_userId p"
  shows "db_inv (d\<lparr>callParticipants := update_where P f (callParticipants d)\<rparr>)"
proof (rule db_inv_side[OF assms(1)])
  have "keys_unique call_participant_conflict (update_where P f (callParticipants d))"
    by (rule callParticipants_tab.unique_update) (use assms in \<open>simp_all add: inv_defs call_participant_conflict_def\<close>)
  then show "db_keys_ok (d\<lparr>callParticipants := update_where P f (callParticipants d)\<rparr>)" using assms(1) by (simp add: inv_defs)
  show "refs_ok (d\<lparr>callParticipants := update_where P f (callParticipants d)\<rparr>)"
    using assms(1) by (simp add: inv_defs ball_update_where assms(3,4))
qed simp_all

lemma inv_createCallLog: "db_inv d \<Longrightarrow> db_inv (snd (createCallLog logId ty a b room c now d))"
  by (auto simp: createCallLog_def split: sum.split intro: inv_insert_log[of d _ _ "Some a" b c])

lemma inv_set_status: "db_inv d \<Longrightarrow> db_inv (set_log_status st l d)"
  unfolding set_log_status_def by (rule inv_update_log) simp_all

lemma inv_endCallLog:
  assumes "db_inv d"
  shows "db_inv (snd (endCallLog rowId logId a b started now d))"
proof -
  let ?d = "d\<lparr>callLogs := update_where (\<lambda>l. cl_id l = logId)
    (\<lambda>l. l\<lparr>cl_endedAt := Some now, cl_duration := Some (floor_seconds (now - started)), cl_status := ''completed''\<rparr>) (callLogs d)\<rparr>"
  have inv: "db_inv ?d" by (rule inv_update_log[OF assms]) simp_all
  show ?thesis
  proof (cases "user_exists (Some a) ?d \<and> user_exists (Some b) ?d \<and> list_ex (\<lambda>l. cl_id l = logId) (callLogs ?d)")
    case True
    then have ids: "to_lower a \<in> user_ids ?d" "to_lower b \<in> user_ids ?d" "logId \<in> log_ids ?d"
      by (simp_all add: user_exists_def list_ex_eq_image)
    let ?p = "\<lambda>k. call_participant (rowId k) logId started now (getUsernames [a, b] d)"
    have p: "cp_userId (?p k u) = to_lower u" "cp_callLogId (?p k u) = logId" for k u by (simp_all add: call_participant_def)
    have "db_inv (?d\<lparr>callParticipants := insert_or_nothing call_participant_conflict (?p 0 a) (callParticipants ?d)\<rparr>)" (is "db_inv ?e")
      by (rule inv_insert_participant[OF inv]) (use ids in \<open>simp_all only: p\<close>)
    then have "db_inv (?e\<lparr>callParticipants := insert_or_nothing call_participant_conflict (?p 1 b) (callParticipants ?e)\<rparr>)"
      by (rule inv_insert_participant) (use ids in \<open>simp_all add: p\<close>)
    then show ?thesis using True by (simp add: endCallLog_def Let_def)
  next
    case False
    then show ?thesis using inv by (simp add: endCallLog_def Let_def del: de_Morgan_conj)
  qed
qed

lemma inv_handleWebhook:
  assumes "db_inv d"
  shows "db_inv (snd (handleWebhook lk verify ok newId raw hdr now d))"
proof -
  have ins: "db_inv d'" if "db_inv d0" "insert_call_log l d0 = Inr d'" "cl_callerId l = None" "cl_calleeId l = None" "cl_channelId l = None" for d0 d' l
    using inv_insert_log[OF that(1,2), of None None None] that(3-5) by simp
  have started: "db_inv (snd (handleRoomStarted ok newId room now d))" for room
    using assms ins[OF assms] by (auto simp: handleRoomStarted_def livekit_log_def split: option.split sum.split)
  have fin: "db_inv (d\<lparr>callLogs := update_where (open_log room) (finish_log now) (callLogs d)\<rparr>)" for room
    by (rule inv_update_log[OF assms]) (simp_all add: finish_log_def)
  have finished: "db_inv (handleRoomFinished ok newId room now d)" for room
    using assms fin ins[OF fin] by (auto simp: handleRoomFinished_def Let_def livekit_log_def split: sum.split)
  have latest: "logId \<in> log_ids d" if "latestLogId room d = Some logId" for room logId
    using that by (auto simp: latestLogId_def newest_log_def dest!: first_row_in)
  have upd: "db_inv (d\<lparr>callParticipants := update_where P (\<lambda>p. p\<lparr>cp_joinedAt := t, cp_leftAt := None, cp_duration := None\<rparr>) (callParticipants d)\<rparr>)"
      "db_inv (d\<lparr>callParticipants := update_where P (\<lambda>p. p\<lparr>cp_leftAt := Some now, cp_duration := Some x\<rparr>) (callParticipants d)\<rparr>)" for P t x
    by (rule inv_update_participant[OF assms], simp_all)+
  have ins_p: "db_inv (d\<lparr>callParticipants := insert_or_nothing call_participant_conflict p
      (update_where P (\<lambda>p. p\<lparr>cp_joinedAt := t, cp_leftAt := None, cp_duration := None\<rparr>) (callParticipants d))\<rparr>)"
    if "cp_userId p \<in> user_ids d" "cp_callLogId p \<in> log_ids d" for p P t
    using inv_insert_participant[OF upd(1), of p P t] that by simp
  have joined: "db_inv (handleParticipantJoined ok newId room identity name now d)" for room identity name
    using assms upd(1) latest
    by (simp add: handleParticipantJoined_def Let_def user_exists_def list_ex_eq_image ins_p split: option.split)
  have left: "db_inv (handleParticipantLeft ok room identity now d)" for room identity
    using assms upd(2) by (auto simp: handleParticipantLeft_def split: option.split)
  show ?thesis using assms started finished joined left by (auto simp: handleWebhook_def Let_def split: option.split)
qed

lemma cleanup_db [simp]: "w_db (snd (cleanupCall c now w)) = w_db w" "w_db (acceptCall call now w) = w_db w"
  by (simp_all add: cleanupCall_def acceptCall_def Let_def split: link.split)

lemma inv_known_log: "db_inv (w_db w) \<Longrightarrow> db_inv (w_db (snd (known_log logId call now w)))"
  by (simp add: known_log_def inv_createCallLog split: option.split)

lemma inv_finishConnectedCall: "db_inv (w_db w) \<Longrightarrow> db_inv (w_db (snd (finishConnectedCall logId rowId call now w)))"
  using inv_known_log[of w logId call now]
  by (simp add: finishConnectedCall_def split_beta inv_endCallLog split: sum.split)

lemma createCall_db [simp]: "w_db (snd (createCall rerr callId a b l now w)) = w_db w"
  by (simp add: createCall_def Let_def split: link.split)

lemma inv_ring: "db_inv (w_db w) \<Longrightarrow> db_inv (w_db (snd (ring rerr callId logId usr t ch now w)))"
  by (simp add: ring_def split_beta inv_createCallLog split: sum.split)

lemma invite_checks_db [simp]: "w_db (snd (invite_checks user data now w)) = w_db w"
  by (rule invite_checks_frame) (rule surjective_pairing)

lemma inv_handleInvite:
  assumes "db_inv (w_db w)"
  shows "db_inv (w_db (snd (handleInvite rerr callId logId user data now w)))"
  using assms by (simp add: handleInvite_def invite_commit_def split_beta inv_ring split: sum.split)

lemma inv_handleAccept: "db_inv (w_db w) \<Longrightarrow> db_inv (w_db (snd (handleAccept user data now w)))"
  by (simp add: handleAccept_def Let_def updateCallLogAccepted_def inv_set_status split: option.split)

lemma inv_handleReject:
  assumes "db_inv (w_db w)"
  shows "db_inv (w_db (snd (handleReject logId user data now w)))"
  using assms by (simp add: handleReject_def Let_def split_beta updateCallLogRejected_def inv_set_status inv_known_log
      split: option.split sum.split)

lemma inv_handleHangup:
  assumes "db_inv (w_db w)"
  shows "db_inv (w_db (snd (handleHangup logId rowId user data now w)))"
  using assms by (simp add: handleHangup_def Let_def split_beta end_if_connected_def inv_finishConnectedCall
      split: option.split sum.split)

lemma cleanupUserCall_db [simp]: "w_db (snd (cleanupUserCall rerr u now w)) = w_db w"
  by (simp add: cleanupUserCall_def split_beta Let_def split: link.split option.split)

lemma inv_handleDisconnect:
  assumes "db_inv (w_db w)"
  shows "db_inv (w_db (handleDisconnect rerr logId rowId user clientId remaining now w))"
  using assms by (simp add: handleDisconnect_def Let_def split_beta inv_finishConnectedCall split: option.split sum.split)


lemma group_invites_db [simp]: "w_db (fold (group_invite lk ok room usr names) us w) = w_db w"
proof (induction us arbitrary: w)
  case (Cons u us)
  have "w_db (group_invite lk ok room usr names u w) = w_db w" by (simp add: group_invite_def split: option.split)
  then show ?case by (simp add: Cons.IH)
qed simp

lemma createRoom_db [simp]: "w_db (createRoom lk room n w) = w_db w"
  by (simp add: createRoom_def)

lemma inv_handleInitiate:
  assumes "db_inv (w_db w)"
  shows "db_inv (w_db (snd (handleInitiate lk ok rerr callId logId user data now w)))"
proof -
  have "db_inv (w_db (snd (initiateLiveKitGroupCall lk ok logId usr c ts now w1)))" if "w_db w1 = w_db w" for usr c ts w1
    using assms that by (simp add: initiateLiveKitGroupCall_def Let_def split_beta inv_createCallLog split: sum.split)
  moreover have "db_inv (w_db (snd (initiate_dm rerr callId logId usr c ts now w1)))" if "w_db w1 = w_db w" for usr c ts w1
    using assms that by (simp add: initiate_dm_def Let_def split_beta inv_ring split: list.split sum.split)
  ultimately show ?thesis using assms by (simp add: handleInitiate_def Let_def split_beta split: option.split)
qed

lemma livekit_incoming_db [simp]: "w_db (livekit_incoming lk room usr t w) = w_db w"
  by (simp add: livekit_incoming_def split: option.split)

lemma inv_handleLiveKitFallback:
  assumes "db_inv (w_db w)"
  shows "db_inv (w_db (snd (handleLiveKitFallback lk logId user data now w)))"
  using assms by (simp add: handleLiveKitFallback_def Let_def split_beta inv_createCallLog split: option.split list.split sum.split)

section \<open>Channels and messages\<close>

text \<open>Updates of read marks, previews and flags do not concern the invariant of channels.\<close>

lemma map_eq_bex: "map g xs = map g ys \<Longrightarrow> (\<exists>x \<in> set xs. P (g x)) = (\<exists>y \<in> set ys. P (g y))"
  by (metis (mono_tags, lifting) image_iff list.set_map)

lemma map_eq_keys:
  assumes "map g xs = map g ys" "\<And>a b. conflict a b = C (g a) (g b)"
  shows "keys_unique conflict xs = keys_unique conflict ys"
proof -
  have "keys_unique conflict zs = sorted_wrt (\<lambda>a b. \<not> C a b) (map g zs)" for zs
    by (simp add: keys_unique_def sorted_wrt_map assms(2))
  then show ?thesis by (simp add: assms(1))
qed

definition member_core :: "membership_row \<Rightarrow> string \<times> uid \<times> cid \<times> string" where
  "member_core m = (mb_id m, mb_userId m, mb_channelId m, mb_role m)"

definition channel_core :: "channel_row \<Rightarrow> cid \<times> string" where
  "channel_core c = (ch_id c, ch_type c)"

lemma channels_ok_core:
  assumes "channels_ok d" "map member_core (memberships d') = map member_core (memberships d)"
    and "map channel_core (channels d') = map channel_core (channels d)"
  shows "channels_ok d'"
proof -
  have ids: "map mb_channelId (memberships d') = map mb_channelId (memberships d)" "map ch_id (channels d') = map ch_id (channels d)"
    using arg_cong[OF assms(2), of "map (fst \<circ> snd \<circ> snd)"] arg_cong[OF assms(3), of "map fst"]
    by (simp_all add: member_core_def channel_core_def comp_def)
  have rows: "member_rows c d' = member_rows c d" for c
    using arg_cong[OF assms(2), of "\<lambda>xs. map (fst \<circ> snd) (filter (\<lambda>x. fst (snd (snd x)) = c) xs)"]
    by (simp add: member_rows_def member_core_def comp_def filter_map)
  have "admins_in (memberships d') = admins_in (memberships d)"
  proof -
    have "admins_in ms = (\<forall>m \<in> set (map member_core ms). \<exists>a \<in> set (map member_core ms).
        fst (snd (snd a)) = fst (snd (snd m)) \<and> snd (snd (snd a)) = ''ADMIN'')" for ms
      by (simp add: admins_in_def member_core_def)
    then show ?thesis by (simp only: assms(2))
  qed
  moreover have "is_direct c d' = is_direct c d" for c
    using map_eq_bex[OF assms(3), of "\<lambda>x. x = (c, ''DIRECT'')"] by (simp add: is_direct_def channel_core_def)
  then have "direct_unique d' = direct_unique d" by (simp add: direct_unique_def direct_between_def in_channel_def rows)
  moreover have "members_have_channel d' = members_have_channel d"
    unfolding members_have_channel_def by (metis ids set_map)
  moreover have "sizes_ok d' = sizes_ok d" by (simp add: sizes_ok_def rows)
  moreover have "keys_unique channel_conflict (channels d') = keys_unique channel_conflict (channels d)"
    by (rule map_eq_keys[OF assms(3), of _ "\<lambda>a b. fst a = fst b"]) (simp add: channel_conflict_def channel_core_def)
  moreover have "keys_unique membership_conflict (memberships d') = keys_unique membership_conflict (memberships d)"
    by (rule map_eq_keys[OF assms(2), of _ "\<lambda>a b. fst a = fst b \<or> fst (snd a) = fst (snd b) \<and> fst (snd (snd a)) = fst (snd (snd b))"])
      (simp add: membership_conflict_def member_core_def)
  ultimately show ?thesis using assms(1) by (simp add: channels_ok_def)
qed

lemma update_where_core:
  assumes "\<And>m. mb_id (f m) = mb_id m" "\<And>m. mb_userId (f m) = mb_userId m" "\<And>m. mb_channelId (f m) = mb_channelId m" "\<And>m. mb_role (f m) = mb_role m"
  shows "map member_core (update_where P f rows) = map member_core rows"
  by (rule update_where_map) (simp add: member_core_def assms)

lemma update_channel_core:
  assumes "\<And>c. ch_id (f c) = ch_id c" "\<And>c. ch_type (f c) = ch_type c"
  shows "map channel_core (update_where P f rows) = map channel_core rows"
  by (rule update_where_map) (simp add: channel_core_def assms)

lemma inv_insert_message:
  assumes inv: "db_inv d" and tx: "insert_message_tx i input now d = Inr (row, d')"
    and refs: "si_userId input \<in> user_ids d" "si_channelId input \<in> channel_ids d"
  shows "db_inv d'"
proof -
  have row: "row = new_message i input (nextSequence (si_channelId input) d) now"
    and d': "d' = d\<lparr>messages := messages d @ [row],
          channels := update_where (\<lambda>c. ch_id c = si_channelId input)
            (\<lambda>c. c\<lparr>ch_lastMessageId := Some i, ch_lastMessageAt := Some now, ch_updatedAt := now\<rparr>) (channels d),
          memberships := update_where (\<lambda>m. mb_userId m = si_userId input \<and> mb_channelId m = si_channelId input)
            (\<lambda>m. m\<lparr>mb_lastReadMessageId := Some i, mb_lastReadAt := Some now\<rparr>) (memberships d)\<rparr>"
    using tx by (simp_all add: insert_message_tx_Inr)
  have ch: "channels_ok d'"
    by (rule channels_ok_core[of d]) (use inv in \<open>simp_all add: d' db_inv_def update_where_core update_channel_core\<close>)
  have "keys_unique message_conflict (messages d')"
  proof -
    obtain rows where "insert_row message_conflict row (messages d) = Inr rows" "messages d' = rows"
      using tx by (auto simp: insert_message_tx_def Let_def bindE_Inr_iff)
    then show ?thesis using messages_tab.unique_insert inv by (auto simp: inv_defs)
  qed
  then have "db_keys_ok d'" using inv ch by (simp add: inv_defs channels_ok_def d')
  moreover have "refs_ok d'"
    using inv refs row by (simp add: inv_defs d' ball_update_where ids_update_where)
  moreover have "one_reaction_each d'" using inv by (simp add: db_inv_def one_reaction_each_def d')
  ultimately show ?thesis
    using ch inv sequences_ok_insert[OF _ tx] preview_ok_insert[OF _ tx] by (simp add: db_inv_def)
qed

lemma inv_send:
  assumes "db_inv (w_db w)"
  shows "db_inv (w_db (snd (send verify fault gen fetch q input x now w)))"
proof (rule handler_cases[where w = w])
  fix p w'
  assume "send verify fault gen fetch q input x now w = (Inr p, w')"
  then obtain u c row d i where s: "send_member (si_userId input) (si_channelId input) (w_db w) = Some (u, c)"
    "insert_message_tx (gen i) input now (w_db w) = Inr (row, d)" "w' = dispatchNewMessage fetch q p x now (w\<lparr>w_db := d\<rparr>)"
    by (rule send_Inr) (rule that)
  have "db_inv d" by (rule inv_insert_message[OF assms s(2)]) (use send_member_Some[OF s(1)] in \<open>auto intro: rev_image_eqI\<close>)
  then show "db_inv (w_db w')" by (simp add: s(3))
qed (use send_Inl assms in auto)

lemma inv_deleteMessage:
  assumes "db_inv (w_db w)"
  shows "db_inv (w_db (snd (deleteMessage u i now w)))"
proof (cases "first_row (filter (\<lambda>m. ms_id m = i) (messages (w_db w)))")
  case (Some msg)
  let ?d = "w_db w" and ?d' = "delete_message_tx i (ms_channelId msg) now (w_db w)"
  have msg: "msg \<in> set (messages ?d)" "ms_id msg = i" using first_row_filterD[OF Some] by simp_all
  have other: "users ?d' = users ?d" "memberships ?d' = memberships ?d" "senderKeys ?d' = senderKeys ?d" "messageReads ?d' = messageReads ?d"
      "refreshTokens ?d' = refreshTokens ?d" "auditLog ?d' = auditLog ?d" "callLogs ?d' = callLogs ?d" "callParticipants ?d' = callParticipants ?d"
    by (simp_all add: delete_message_tx_def Let_def split: option.split)
  have core: "map channel_core (channels ?d') = map channel_core (channels ?d)"
    by (simp add: delete_message_tx_def Let_def update_channel_core split: option.split)
  have ids: "channel_ids ?d' = channel_ids ?d"
    by (simp add: delete_message_tx_def Let_def ids_update_where split: option.split)
  have ch: "channels_ok ?d'" by (rule channels_ok_core[of ?d]) (use assms core other in \<open>simp_all add: db_inv_def\<close>)
  have "keys_unique message_conflict (messages ?d')"
    unfolding delete_message_tx_simps by (rule messages_tab.unique_update) (use assms in \<open>simp_all add: inv_defs message_conflict_def\<close>)
  moreover have "keys_unique reaction_conflict (reactions ?d')"
    unfolding delete_message_tx_simps by (rule reactions_tab.unique_delete) (use assms in \<open>simp add: inv_defs\<close>)
  ultimately have "db_keys_ok ?d'" using assms ch other by (simp add: inv_defs channels_ok_def)
  moreover have "refs_ok ?d'"
    using assms by (simp add: inv_defs other ids delete_message_tx_simps ball_update_where ids_update_where)
  moreover have "one_reaction_each ?d'" by (rule one_reaction_sub[of ?d]) (use assms in \<open>auto simp: db_inv_def delete_message_tx_simps\<close>)
  moreover have "preview_ok ?d'"
    by (rule preview_ok_delete[OF _ _ _ msg(1) refl msg(2)]) (use assms keys_unique_ids in \<open>auto simp: inv_defs\<close>)
  ultimately have "db_inv ?d'" using assms ch by (simp add: db_inv_def sequences_ok_delete)
  then show ?thesis using assms Some by (simp add: deleteMessage_def Let_def)
qed (use assms in \<open>simp add: deleteMessage_def\<close>)

lemma preview_ok_channels:
  assumes "preview_ok d" "messages d' = messages d" "\<And>ch'. ch' \<in> set (channels d') \<Longrightarrow>
      (\<exists>ch \<in> set (channels d). ch_id ch' = ch_id ch \<and> ch_lastMessageId ch' = ch_lastMessageId ch) \<or>
      ch_lastMessageId ch' = None \<and> (\<forall>m \<in> set (messages d). ms_channelId m \<noteq> ch_id ch')"
  shows "preview_ok d'"
proof -
  have "newest_visible c d' = newest_visible c d" for c by (simp add: newest_visible_def assms(2))
  moreover have "newest_visible c d = None" if "\<forall>m \<in> set (messages d). ms_channelId m \<noteq> c" for c
    using that by (simp add: newest_visible_def filter_False)
  ultimately show ?thesis using assms(1,3) unfolding preview_ok_def by fastforce
qed

text \<open>A change of channels and memberships that leaves the messages alone.\<close>

lemma db_inv_channels:
  assumes "db_inv d" "channels_ok d'" "preview_ok d'" "refs_ok d'" "d' = d\<lparr>channels := channels d', memberships := memberships d'\<rparr>"
  shows "db_inv d'"
proof -
  have t: "messages d' = messages d" "reactions d' = reactions d" "users d' = users d" "senderKeys d' = senderKeys d"
    "messageReads d' = messageReads d" "refreshTokens d' = refreshTokens d" "callLogs d' = callLogs d" "callParticipants d' = callParticipants d"
    by (subst assms(5), simp)+
  have "db_keys_ok d'" using assms(1,2) by (simp add: inv_defs channels_ok_def t)
  moreover have "sequences_ok d' = sequences_ok d" "one_reaction_each d' = one_reaction_each d"
    by (simp_all add: sequences_ok_def channel_messages_def one_reaction_each_def t)
  ultimately show ?thesis using assms(1-4) by (simp add: db_inv_def)
qed

lemma create_checks_users:
  assumes "create_checks u ps ty d = Inr others" "keys_unique user_conflict (users d)"
  shows "set others \<subseteq> user_ids d"
proof -
  let ?hit = "filter (\<lambda>x. u_id x \<in> set others \<and> u_isActive x) (users d)"
  have len: "length ?hit = length others" and "distinct others"
    using assms(1) create_checks_Inr(3)[OF assms(1)] by (auto simp: create_checks_def Let_def bindE_Inr_iff split: if_splits)
  have "keys_unique user_conflict us \<Longrightarrow> distinct (map u_id us)" for us
    by (induction us) (auto simp: keys_unique_def user_conflict_def)
  with assms(2) have "card (u_id ` set ?hit) = length others"
    using len by (metis (no_types, lifting) card_distinct distinct_card distinct_map_filter length_map list.set_map)
  moreover have "u_id ` set ?hit \<subseteq> set others" by auto
  ultimately have "u_id ` set ?hit = set others" using \<open>distinct others\<close> by (metis List.finite_set card_subset_eq distinct_card)
  then show ?thesis by auto
qed

lemma inv_create:
  assumes "db_inv (w_db w)" "u \<in> user_ids (w_db w)"
  shows "db_inv (w_db (snd (create newId memberId u ps ty name now w)))"
proof (rule handler_cases[where w = w])
  fix r w'
  assume c: "create newId memberId u ps ty name now w = (Inr r, w')"
  have ch: "channels_ok (w_db w')" using channels_ok_create[OF _ c] assms(1) by (simp add: db_inv_def)
  from c show "db_inv (w_db w')"
  proof (rule create_Inr)
    fix others
    assume chk: "create_checks u ps ty (w_db w) = Inr others"
      and ins: "(if ty = ''DIRECT'' then createDirect newId memberId u (hd others) now (w_db w)
        else insertChannel newId memberId u others ''GROUP'' (if name = Some [] then None else name) now (w_db w)) = Inr (r, w_db w')"
    have o: "set others \<subseteq> user_ids (w_db w)" by (rule create_checks_users[OF chk]) (use assms(1) in \<open>simp add: inv_defs\<close>)
    show ?thesis
    proof (cases "w_db w' = w_db w")
      case False
      with ins create_checks_Inr(5)[OF chk] obtain us ty' name' where
        i: "insertChannel newId memberId u us ty' name' now (w_db w) = Inr (r, w_db w')" and us: "set us \<subseteq> user_ids (w_db w)"
        using o by (cases others) (auto split: if_splits dest!: createDirect_Inr)
      note r = insertChannel_Inr[OF i]
      have new: "\<forall>m \<in> set (initial_members memberId u us newId now). mb_channelId m = newId \<and> mb_userId m \<in> user_ids (w_db w)"
        using initial_members_set(1,2)[of memberId u us newId now] us assms(2) by (metis (no_types, lifting) image_eqI list.set_map set_ConsD subsetD)
      have "refs_ok (w_db w')" using assms(1) new unfolding r(2) by (auto simp: inv_defs new_channel_def)
      moreover have "preview_ok (w_db w')"
        by (rule preview_ok_channels[of "w_db w"]) (use assms(1) r(3) in \<open>auto simp: r(2) inv_defs new_channel_def\<close>)
      moreover have "w_db w' = (w_db w)\<lparr>channels := channels (w_db w'), memberships := memberships (w_db w')\<rparr>" by (simp add: r(2))
      ultimately show ?thesis using db_inv_channels[OF assms(1) ch] by blast
    qed (use assms in simp)
  qed
qed (use create_Inl assms in auto)

lemma preview_ok_touch:
  assumes "preview_ok d" "messages d' = messages d" "channels d' = update_where P f (channels d)"
    "\<And>c. ch_id (f c) = ch_id c" "\<And>c. ch_lastMessageId (f c) = ch_lastMessageId c"
  shows "preview_ok d'"
  by (rule preview_ok_channels[of d]) (use assms in \<open>auto simp: update_where_def\<close>)

lemma preview_ok_touch_channel:
  "preview_ok d \<Longrightarrow> messages d' = messages d \<Longrightarrow> channels d' = touch_channel c now (channels d) \<Longrightarrow> preview_ok d'"
  unfolding touch_channel_def by (erule (2) preview_ok_touch) simp_all

lemma inv_addMember:
  assumes "db_inv (w_db w)"
  shows "db_inv (w_db (snd (addMember i c req u role now w)))"
proof (rule handler_cases[where w = w])
  fix r w'
  assume "addMember i c req u role now w = (Inr r, w')"
  then have add: "add_member_db i c req u role now (w_db w) = Inr (w_db w')" by (rule addMember_Inr)
  have u: "u \<in> user_ids (w_db w)" using add by (auto simp: add_member_db_def list_ex_iff bindE_Inr_iff split: if_splits option.splits)
  have ch: "channels_ok (w_db w')" using channels_ok_add[OF _ add] assms by (simp add: db_inv_def)
  from add show "db_inv (w_db w')"
  proof (rule add_member_db_Inr)
    fix channel
    assume c: "channel \<in> set (channels (w_db w))" "ch_id channel = c"
      and d': "w_db w' = (w_db w)\<lparr>memberships := memberships (w_db w) @ [new_membership i u c (case role of None \<Rightarrow> ''MEMBER'' | Some r \<Rightarrow> r) now],
       channels := touch_channel c now (channels (w_db w))\<rparr>"
    have "preview_ok (w_db w')"
      by (rule preview_ok_touch_channel[of "w_db w"]) (use assms in \<open>simp_all add: db_inv_def d'\<close>)
    moreover have "c \<in> channel_ids (w_db w)" using c by blast
    with u assms have "refs_ok (w_db w')" by (simp add: inv_defs d' touch_channel_def ids_update_where new_membership_def)
    moreover have "w_db w' = (w_db w)\<lparr>channels := channels (w_db w'), memberships := memberships (w_db w')\<rparr>" by (simp add: d')
    ultimately show ?thesis using db_inv_channels[OF assms ch] by blast
  qed
qed (use addMember_Inl assms in auto)

lemma inv_removeMember:
  assumes "db_inv (w_db w)"
  shows "db_inv (w_db (snd (removeMember c req u now w)))"
proof (rule handler_cases[where w = w])
  fix r w'
  assume "removeMember c req u now w = (Inr r, w')"
  then have rem: "remove_member_tx (to_lower c) (to_lower u) now (w_db w) = Inr (r, w_db w')" by (rule removeMember_Inr)
  have ch: "channels_ok (w_db w')" using channels_ok_remove[OF _ rem] assms by (simp add: db_inv_def)
  from rem show "db_inv (w_db w')"
  proof (rule remove_member_tx_Inr)
    fix removed
    assume d': "w_db w' = (w_db w)\<lparr>memberships := promote (promoted_member (to_lower c) removed (members_without (to_lower c) (to_lower u) (w_db w))) (members_without (to_lower c) (to_lower u) (w_db w)),
       channels := touch_channel (to_lower c) now (channels (w_db w))\<rparr>"
    have "preview_ok (w_db w')"
      by (rule preview_ok_touch_channel[of "w_db w"]) (use assms in \<open>simp_all add: db_inv_def d'\<close>)
    moreover have "(\<forall>m \<in> set (promote p ms). mb_userId m \<in> A \<and> mb_channelId m \<in> B) = (\<forall>m \<in> set ms. mb_userId m \<in> A \<and> mb_channelId m \<in> B)" for p ms A B
      by (simp add: promote_def ball_update_where split: option.split)
    then have "refs_ok (w_db w')"
      using assms by (simp add: inv_defs d' touch_channel_def ids_update_where members_without_def)
    moreover have "w_db w' = (w_db w)\<lparr>channels := channels (w_db w'), memberships := memberships (w_db w')\<rparr>" by (simp add: d')
    ultimately show ?thesis using db_inv_channels[OF assms ch] by blast
  qed
qed (use removeMember_Inl assms in auto)

lemma inv_update_channel:
  assumes "db_inv d" "\<And>c. ch_id (f c) = ch_id c" "\<And>c. ch_type (f c) = ch_type c" "\<And>c. ch_lastMessageId (f c) = ch_lastMessageId c"
  shows "db_inv (d\<lparr>channels := update_where P f (channels d)\<rparr>)"
proof (rule db_inv_channels[OF assms(1)])
  show "channels_ok (d\<lparr>channels := update_where P f (channels d)\<rparr>)"
    by (rule channels_ok_core[of d]) (use assms in \<open>simp_all add: db_inv_def update_channel_core\<close>)
  show "preview_ok (d\<lparr>channels := update_where P f (channels d)\<rparr>)"
    by (rule preview_ok_touch[of d _ P f]) (use assms in \<open>simp_all add: db_inv_def\<close>)
  show "refs_ok (d\<lparr>channels := update_where P f (channels d)\<rparr>)"
    using assms(1) by (simp add: inv_defs ids_update_where assms(2))
qed simp

lemma inv_archive: "db_inv (w_db w) \<Longrightarrow> db_inv (w_db (snd (archive c u now w)))"
  by (simp add: archive_def Let_def inv_update_channel split: option.split)

lemma inv_mark_read_update:
  assumes "db_inv d"
  shows "db_inv (snd (mark_read_update mi i s now d))"
proof -
  let ?f = "\<lambda>m. m\<lparr>mb_lastReadMessageId := Some i, mb_lastReadAt := Some now\<rparr>"
  have "db_inv (d\<lparr>memberships := update_where P ?f (memberships d)\<rparr>)" for P
  proof (rule db_inv_channels[OF assms])
    show "channels_ok (d\<lparr>memberships := update_where P ?f (memberships d)\<rparr>)"
      by (rule channels_ok_core[of d]) (use assms in \<open>simp_all add: db_inv_def update_where_core\<close>)
    show "preview_ok (d\<lparr>memberships := update_where P ?f (memberships d)\<rparr>)"
      by (rule preview_ok_channels[of d]) (use assms in \<open>auto simp: db_inv_def\<close>)
    show "refs_ok (d\<lparr>memberships := update_where P ?f (memberships d)\<rparr>)"
      using assms by (simp add: inv_defs ball_update_where)
  qed simp
  then show ?thesis by (simp add: mark_read_update_def Let_def)
qed

lemma inv_insert_read:
  assumes "db_inv d" "u \<in> user_ids d" "i \<in> message_ids d"
  shows "db_inv (d\<lparr>messageReads := insert_or_nothing message_read_conflict (new_message_read k i u now) (messageReads d)\<rparr>)"
proof (rule db_inv_side[OF assms(1)])
  let ?d = "d\<lparr>messageReads := insert_or_nothing message_read_conflict (new_message_read k i u now) (messageReads d)\<rparr>"
  show "db_keys_ok ?d" using assms(1) by (simp add: inv_defs messageReads_tab.unique_insert_or_nothing)
  show "refs_ok ?d" using assms by (simp add: inv_defs insert_or_nothing_def new_message_read_def)
qed simp_all

lemma inv_markRead:
  assumes "db_inv (w_db w)"
  shows "db_inv (w_db (snd (markRead readId u c i now w)))"
proof -
  let ?d = "w_db w"
  have upd: "users (snd (mark_read_update mi i s now ?d)) = users ?d" "messages (snd (mark_read_update mi i s now ?d)) = messages ?d" for mi s
    by (simp_all add: mark_read_update_def Let_def)
  have ids: "u \<in> user_ids ?d \<and> i \<in> message_ids ?d" if "mark_read_select u c i ?d = Some (mi, Some s, x)" for mi s x
  proof -
    from that have "is_channel_member u c ?d" "i \<in> message_ids ?d"
      by (auto simp: mark_read_select_def is_channel_member_def list_ex_iff dest!: first_row_filterD)
    then show ?thesis using members_are_users(1)[of ?d u c] assms by (simp add: db_inv_def)
  qed
  show ?thesis
  proof (cases "mark_read_select u c i ?d")
    case (Some sel)
    obtain mi s x where sel: "sel = (mi, s, x)" by (cases sel)
    show ?thesis
    proof (cases s)
      case (Some t)
      have "db_inv ((snd (mark_read_update mi i t now ?d))\<lparr>messageReads := insert_or_nothing message_read_conflict (new_message_read readId i u now)
          (messageReads (snd (mark_read_update mi i t now ?d)))\<rparr>)"
        by (rule inv_insert_read[OF inv_mark_read_update[OF assms]])
          (use ids[of mi t x] \<open>mark_read_select u c i ?d = Some sel\<close> sel Some upd in simp_all)
      then show ?thesis using assms inv_mark_read_update[OF assms, of mi i t now] \<open>mark_read_select u c i ?d = Some sel\<close> sel Some
        by (simp add: markRead_def Let_def split_beta)
    qed (use assms \<open>mark_read_select u c i ?d = Some sel\<close> sel in \<open>simp add: markRead_def\<close>)
  qed (use assms in \<open>simp add: markRead_def\<close>)
qed

section \<open>Reactions\<close>

lemma db_inv_reactions:
  assumes "db_inv d" "d' = d\<lparr>reactions := reactions d'\<rparr>" "keys_unique reaction_conflict (reactions d')" "one_reaction_each d'"
    and "\<forall>r \<in> set (reactions d'). re_userId r \<in> user_ids d \<and> re_messageId r \<in> message_ids d"
  shows "db_inv d'"
proof -
  have t: "messages d' = messages d" "channels d' = channels d" "memberships d' = memberships d" "users d' = users d" "senderKeys d' = senderKeys d"
    "messageReads d' = messageReads d" "refreshTokens d' = refreshTokens d" "auditLog d' = auditLog d" "callLogs d' = callLogs d"
    "callParticipants d' = callParticipants d"
    by (subst assms(2), simp)+
  have "db_keys_ok d'" "refs_ok d'" using assms(1,3,5) by (simp_all add: inv_defs t)
  moreover have "sequences_ok d' = sequences_ok d" "preview_ok d' = preview_ok d"
    by (simp_all add: sequences_ok_def channel_messages_def preview_ok_def newest_visible_def t)
  moreover have "channels_ok d'" by (rule channels_ok_core[of d]) (use assms(1) in \<open>simp_all add: db_inv_def t\<close>)
  ultimately show ?thesis using assms(1,4) by (simp add: db_inv_def)
qed

lemma reaction_tx_unique:
  assumes "keys_unique reaction_conflict (reactions d)" "reaction_tx i u m e now d = Inr (action, replaced, d')"
  shows "keys_unique reaction_conflict (reactions d')"
proof -
  have "keys_unique reaction_conflict (filter (\<lambda>r. \<not> (my_reaction m u r \<and> re_emoji r \<noteq> e)) (reactions d))"
    by (rule reactions_tab.unique_delete[OF assms(1)])
  then show ?thesis
    using assms(2) by (auto simp: reaction_tx_def Let_def bindE_Inr_iff split: if_splits dest: reactions_tab.unique_insert)
qed

lemma inv_addReaction:
  assumes "db_inv (w_db w)"
  shows "db_inv (w_db (snd (addReaction i a c m e now w)))"
proof (rule handler_cases[where w = w])
  fix r w'
  assume r: "addReaction i a c m e now w = (Inr r, w')"
  obtain action replaced where ar: "r = (action, replaced)" by (cases r)
  note add = addReaction_Inr[OF r[unfolded ar]]
  have ids: "ac_id a \<in> user_ids (w_db w)" "m \<in> message_ids (w_db w)"
    using members_are_users(1)[OF _ add(3)] add(2) assms by (auto simp: db_inv_def)
  have "keys_unique reaction_conflict (reactions (w_db w'))" using reaction_tx_unique[OF _ add(1)] assms by (simp add: inv_defs)
  moreover have "\<forall>r \<in> set (reactions (w_db w')). re_userId r \<in> user_ids (w_db w) \<and> re_messageId r \<in> message_ids (w_db w)"
  proof (cases action)
    case Added
    then show ?thesis using assms ids by (auto simp: inv_defs reaction_tx_rows(8)[OF add(1)] new_reaction_def)
  next
    case AlreadyExists
    then show ?thesis using assms reaction_tx_rows(7)[OF add(1)] by (auto simp: inv_defs)
  qed
  moreover have "one_reaction_each (w_db w')" using one_reaction_tx[OF _ add(1)] assms by (simp add: db_inv_def)
  ultimately show "db_inv (w_db w')" using db_inv_reactions[OF assms reaction_tx_rows(6)[OF add(1)]] by blast
qed (use addReaction_Inl assms in auto)

lemma inv_removeReaction:
  assumes "db_inv (w_db w)"
  shows "db_inv (w_db (snd (removeReaction a c m e w)))"
proof -
  have "db_inv ((w_db w)\<lparr>reactions := filter P (reactions (w_db w))\<rparr>)" for P
  proof (rule db_inv_reactions[OF assms])
    show "one_reaction_each ((w_db w)\<lparr>reactions := filter P (reactions (w_db w))\<rparr>)"
      by (rule one_reaction_sub[of "w_db w"]) (use assms in \<open>auto simp: db_inv_def\<close>)
  qed (use assms in \<open>simp_all add: inv_defs reactions_tab.unique_delete\<close>)
  then show ?thesis using assms by (simp add: removeReaction_def Let_def split: sum.split)
qed

end
