(* ===== verification/Server.thy ===== *)
theory Server
  imports Database_Invariant
begin

text \<open>
  The server as a state machine. A step is one handler run to its end, for any client and with any arguments, or
  an activity that leaves the tables alone; the machine interprets a locale of invariants, so that what each handler keeps
  holds in every state the server can reach. A second machine, over the time and the world, does the same for the
  calls kept in Redis.
\<close>

section \<open>Invariants of state machines\<close>

locale state_machine =
  fixes step :: "'s \<Rightarrow> 's \<Rightarrow> bool" and inv :: "'s \<Rightarrow> bool"
  assumes step_inv: "step s s' \<Longrightarrow> inv s \<Longrightarrow> inv s'"
begin

lemma run_inv: "step\<^sup>*\<^sup>* s s' \<Longrightarrow> inv s \<Longrightarrow> inv s'"
  by (induction rule: rtranclp_induct) (auto dest: step_inv)

end

section \<open>The steps of the server\<close>

text \<open>
  The rules name every operation that writes to a table, REST and socket alike; \<open>quiet\<close> stands for all others, which
  read the tables and write to Redis, rooms, queues and sockets only. The caller of \<open>create\<close> and \<open>logout\<close> has passed the guard,
  which found its row.
\<close>

inductive server_step :: "world \<Rightarrow> world \<Rightarrow> bool" where
  step_register: "server_step w (w\<lparr>w_db := snd (register cf rr auditId ok username email password now (w_db w))\<rparr>)"
| step_login: "server_step w (snd (loginFinish cf ttl random rowId auditId ok rerr now username A_hex M1 ip w))"
| step_refresh: "server_step w (w\<lparr>w_db := snd (auth_refreshTokens cf ttl random rowId token now (w_db w))\<rparr>)"
| step_logout: "u \<in> user_ids (w_db w) \<Longrightarrow> server_step w (logout auditId ok now u w)"
| step_profile: "updateProfile u name now (w_db w) = Inr (r, d) \<Longrightarrow> server_step w (w\<lparr>w_db := d\<rparr>)"
| step_rotate: "server_step w (w\<lparr>w_db := snd (rotateKeys auditId ok u params now (w_db w))\<rparr>)"
| step_senderKeys: "server_step w (w\<lparr>w_db := snd (uploadSenderKeys keyId u g epoch items now (w_db w))\<rparr>)"
| step_create: "u \<in> user_ids (w_db w) \<Longrightarrow> server_step w (snd (create newId memberId u participantIds type name now w))"
| step_addMember: "server_step w (snd (addMember memberId c u v role now w))"
| step_removeMember: "server_step w (snd (removeMember c u v now w))"
| step_archive: "server_step w (snd (archive c u now w))"
| step_markRead: "server_step w (snd (markRead readId u c m now w))"
| step_send: "server_step w (snd (send verify fault gen fetch queue_up input exceptSocket now w))"
| step_delete: "server_step w (snd (deleteMessage u m now w))"
| step_react: "server_step w (snd (addReaction newId actor c m emoji now w))"
| step_unreact: "server_step w (snd (removeReaction actor c m emoji w))"
| step_webhook: "server_step w (w\<lparr>w_db := snd (handleWebhook lk receive ok newId raw hdr now (w_db w))\<rparr>)"
| step_invite: "server_step w (snd (handleInvite rerr callId logId user data now w))"
| step_accept: "server_step w (snd (handleAccept user data now w))"
| step_reject: "server_step w (snd (handleReject logId user data now w))"
| step_hangup: "server_step w (snd (handleHangup logId rowIds user data now w))"
| step_initiate: "server_step w (snd (handleInitiate lk ok rerr callId logId user data now w))"
| step_fallback: "server_step w (snd (handleLiveKitFallback lk logId user data now w))"
| step_callGone: "server_step w (handleDisconnect rerr logId rowIds user clientId remaining now w)"
| quiet: "w_db w' = w_db w \<Longrightarrow> server_step w w'"

lemmas handler_invs =
  inv_register inv_loginFinish inv_refreshTokens inv_logout inv_updateProfile inv_rotateKeys inv_uploadSenderKeys inv_create
  inv_addMember inv_removeMember inv_archive inv_markRead inv_send inv_deleteMessage inv_addReaction inv_removeReaction
  inv_handleWebhook inv_handleInvite inv_handleAccept inv_handleReject inv_handleHangup inv_handleInitiate
  inv_handleLiveKitFallback inv_handleDisconnect

interpretation server: state_machine server_step "\<lambda>w. db_inv (w_db w)"
proof
  show "db_inv (w_db w')" if "server_step w w'" "db_inv (w_db w)" for w w'
    using that by (induction rule: server_step.induct) (simp_all add: handler_invs)
qed

inductive_cases server_stepE: "server_step w w'"

section \<open>Events of the socket gateways\<close>

text \<open>The DB a handler leaves behind decides whether it is quiet; the ones that write are runs ending in the service's step.\<close>

lemma quiet_run: "w_db w' = w_db w \<Longrightarrow> server_step\<^sup>*\<^sup>* w w'"
  by (rule r_into_rtranclp) (rule quiet)

lemma quiet_then: "w_db w1 = w_db w \<Longrightarrow> server_step w1 w' \<Longrightarrow> server_step\<^sup>*\<^sup>* w w'"
  by (blast intro: quiet converse_rtranclp_into_rtranclp r_into_rtranclp)

lemma socket_try_snd [simp]: "snd (socket_try rw) = snd rw"
  by (simp add: socket_try_def split: prod.split sum.split)

lemma limit_db [simp]: "w_db (snd (limit k c m now w)) = w_db w"
  by (simp add: limit_def split_beta checkRateLimit_frame)

lemma bindW_run:
  assumes "w_db (snd rw) = w_db w" "\<And>x w1. server_step\<^sup>*\<^sup>* w1 (snd (f x w1))"
  shows "server_step\<^sup>*\<^sup>* w (snd (bindW rw f))"
proof (cases rw)
  case (Pair r w1)
  then show ?thesis using assms quiet_run[of w1 w] by (cases r) (auto intro: rtranclp_trans)
qed

lemma requireMember_db [simp]: "w_db (snd (requireMember now c u w)) = w_db w"
  by (simp add: requireMember_def split_beta)

lemma bindW_db: "w_db (snd rw) = w_db w \<Longrightarrow> (\<And>x w1. w_db (snd (f x w1)) = w_db w1) \<Longrightarrow> w_db (snd (bindW rw f)) = w_db w"
  by (cases rw; cases "fst rw") auto

lemma typing_checks_db [simp]: "w_db (snd (typing_checks valid u data now w)) = w_db w"
  unfolding typing_checks_def by (intro bindW_db) simp_all

lemma join_checks_db [simp]: "w_db (snd (join_checks valid u data now w)) = w_db w"
  unfolding join_checks_def by (intro bindW_db) simp_all

lemma typing_db [simp]:
  "w_db (emitTyping e u c w) = w_db w" "w_db (stopTyping now u c w) = w_db w"
  by (simp_all add: emitTyping_def stopTyping_def)

lemma beat_db [simp]: "w_db (snd (snd (beat now c w))) = w_db w"
  by (simp add: beat_def split: option.split)

lemma clearTypingFor_db [simp]: "w_db (gw_world (clearTypingFor now c g)) = w_db (gw_world g)"
proof -
  have "w_db (fold (\<lambda>(key, t) w. case so_user c of None \<Rightarrow> w | Some u \<Rightarrow> stopTyping now u (f key) w) ts w) = w_db w" for ts f w
    by (induction ts arbitrary: w) (auto split: option.split)
  then show ?thesis by (simp add: clearTypingFor_def Let_def)
qed

lemma sockets_db [simp]:
  "w_db (gw_world (snd (pushPresence pd now u fs c g))) = w_db (gw_world g)"
  "gw_world (startHeartbeat i g) = gw_world g" "gw_world (stopHeartbeat i g) = gw_world g"
  by (simp_all add: pushPresence_def Let_def upd_world_def startHeartbeat_def stopHeartbeat_def)

lemma finish_connection_db [simp]: "w_db (gw_world (snd (finish_connection env a b now u c g))) = w_db (gw_world g)"
  by (simp add: finish_connection_def Let_def split_beta)

lemma connection_db [simp]: "w_db (gw_world (snd (handleConnection env hs a b now c g))) = w_db (gw_world g)"
  by (simp add: handleConnection_def Let_def split_beta checkRateLimit_frame split: sum.split)

lemma disconnect_db [simp]: "w_db (gw_world (socket_handleDisconnect pd now c g)) = w_db (gw_world g)"
  by (simp add: socket_handleDisconnect_def Let_def split_beta split: option.split)

lemma typing_events_db [simp]:
  "w_db (gw_world (snd (handleTypingStart valid i u data now g))) = w_db (gw_world g)"
  "w_db (gw_world (snd (handleTypingStop valid i u data now g))) = w_db (gw_world g)"
  "w_db (gw_world (typing_timeout now key g)) = w_db (gw_world g)"
  by (simp_all add: handleTypingStart_def handleTypingStop_def typing_timeout_def split_beta split: sum.split option.split)

lemma room_events_db [simp]:
  "w_db (snd (snd (handleJoinChannel valid u data now c w))) = w_db w"
  "w_db (snd (snd (handleLeaveChannel valid u data now c w))) = w_db w"
  "w_db (snd (snd (handleHeartbeat now c w))) = w_db w"
  "w_db (gw_world (snd (heartbeat_tick now c g))) = w_db (gw_world g)"
  by (simp_all add: handleJoinChannel_def handleLeaveChannel_def handleHeartbeat_def heartbeat_tick_def split_beta split: sum.split bool.split)

lemma getMessages_db [simp]: "w_db (snd (getMessages c u n cur m now w)) = w_db w"
proof -
  have "w_db (snd (getCachedPage now c k w)) = w_db w" for k by (simp add: getCachedPage_def Let_def)
  then show ?thesis by (simp add: getMessages_def Let_def split_beta split: option.split sum.split)
qed

lemma chat_reads_db [simp]:
  "w_db (snd (handleGetMessages valid u data now w)) = w_db w" "w_db (snd (handleGetPending u now w)) = w_db w"
  unfolding handleGetMessages_def handleGetPending_def
  by (simp_all add: bindW_db split_beta deliverPendingMessages_def)

lemma chat_writes_run:
  "server_step\<^sup>*\<^sup>* w (snd (handleSendMessage valid1 verify fault gen fetch q i u data now w))"
  "server_step\<^sup>*\<^sup>* w (snd (handleMarkRead valid2 readId u data now w))"
  "server_step\<^sup>*\<^sup>* w (snd (handleReactionAdd valid3 newId usr data now w))"
  "server_step\<^sup>*\<^sup>* w (snd (handleReactionRemove valid3 usr data now w))"
proof -
  note run = r_into_rtranclp[of server_step, OF step_send] r_into_rtranclp[of server_step, OF step_markRead]
    r_into_rtranclp[of server_step, OF step_react] r_into_rtranclp[of server_step, OF step_unreact]
  show "server_step\<^sup>*\<^sup>* w (snd (handleSendMessage valid1 verify fault gen fetch q i u data now w))"
    unfolding handleSendMessage_def socket_try_snd by (intro bindW_run; simp add: bindW_run run)
  show "server_step\<^sup>*\<^sup>* w (snd (handleMarkRead valid2 readId u data now w))"
    unfolding handleMarkRead_def socket_try_snd by (intro bindW_run run) simp_all
  show "server_step\<^sup>*\<^sup>* w (snd (handleReactionAdd valid3 newId usr data now w))"
    unfolding handleReactionAdd_def socket_try_snd by (intro bindW_run run) simp_all
  show "server_step\<^sup>*\<^sup>* w (snd (handleReactionRemove valid3 usr data now w))"
    unfolding handleReactionRemove_def socket_try_snd by (intro bindW_run run) simp_all
qed

lemma create_event_run:
  "su_id u \<in> user_ids (w_db w) \<Longrightarrow> server_step\<^sup>*\<^sup>* w (snd (snd (handleCreateOrJoin valid newId memberId u data now c w)))"
  using r_into_rtranclp[of server_step, OF step_create, of "su_id u" w newId memberId]
  by (simp add: handleCreateOrJoin_def split_beta Let_def split: sum.split)

section \<open>Calls as a state machine\<close>

text \<open>
  The state is the time and the world; handlers run one after the other, time passes between them. Call ids are fresh
  (random uuids), user ids are not empty. \<open>elsewhere\<close> is any activity that leaves the keys of calls alone.
\<close>

definition call_keys_same :: "rstate \<Rightarrow> rstate \<Rightarrow> bool" where
  "call_keys_same r r' \<longleftrightarrow> (\<forall>c. r_hashes r' (roomKey c) = r_hashes r (roomKey c)) \<and>
     (\<forall>u. r_strings r' (userCallKey u) = r_strings r (userCallKey u))"

inductive call_step :: "time \<times> world \<Rightarrow> time \<times> world \<Rightarrow> bool" where
  call_invite: "r_hashes (w_redis w) (roomKey callId) = None \<Longrightarrow> callId \<noteq> [] \<Longrightarrow> \<forall>usr \<in> set_option user. su_id usr \<noteq> [] \<Longrightarrow>
    call_step (now, w) (now, snd (handleInvite rerr callId logId user data now w))"
| call_initiate: "r_hashes (w_redis w) (roomKey callId) = None \<Longrightarrow> callId \<noteq> [] \<Longrightarrow> \<forall>usr \<in> set_option user. su_id usr \<noteq> [] \<Longrightarrow>
    call_step (now, w) (now, snd (handleInitiate lk ok rerr callId logId user data now w))"
| call_fallback: "call_step (now, w) (now, snd (handleLiveKitFallback lk logId user data now w))"
| call_accept: "call_step (now, w) (now, snd (handleAccept user data now w))"
| call_reject: "call_step (now, w) (now, snd (handleReject logId user data now w))"
| call_hangup: "call_step (now, w) (now, snd (handleHangup logId rowIds user data now w))"
| call_gone: "call_step (now, w) (now, handleDisconnect rerr logId rowIds user clientId remaining now w)"
| call_offer: "call_step (now, w) (now, handleOffer user data now w)"
| call_answer: "call_step (now, w) (now, handleAnswer user data now w)"
| call_ice: "call_step (now, w) (now, handleIceCandidate user data now w)"
| call_tick: "now \<le> later \<Longrightarrow> call_step (now, w) (later, w)"
| elsewhere: "call_keys_same (w_redis w) (w_redis w') \<Longrightarrow> call_step (now, w) (now, w')"

lemma calls_ok_same: "call_keys_same r r' \<Longrightarrow> calls_ok now r' = calls_ok now r"
  by (simp add: call_keys_same_def calls_ok_def call_room_ok_def call_user_ok_def)

lemma isOnline_Up: "isOnline now u w \<Longrightarrow> w_link w = Up"
  by (simp add: isOnline_def with_redis_def split: link.splits)

lemma ring_ok:
  assumes ok: "calls_ok now (w_redis w)" and "r_hashes (w_redis w) (roomKey callId) = None" "callId \<noteq> []" "w_link w = Up"
    and "su_id usr \<noteq> []" "t \<noteq> []" "t \<noteq> su_id usr" "getActiveCall now (su_id usr) w = None" "getActiveCall now t w = None"
  shows "calls_ok now (w_redis (snd (ring rerr callId logId usr t ch now w)))"
proof -
  obtain x w1 where r: "ring rerr callId logId usr t ch now w = (x, w1)" by fastforce
  show ?thesis
  proof (cases x)
    case (Inl e)
    then show ?thesis using ring_Inl[of rerr callId logId usr t ch now w e w1] r ok by simp
  next
    case (Inr call)
    have "calls_ok now (create_keys callId (su_id usr) t (Some logId) now (w_redis w))"
      using assms by (intro calls_ok_create[OF ok]) (simp_all add: getActiveCall_def)
    then show ?thesis using ring_Inr(1)[of rerr callId logId usr t ch now w call w1] r Inr assms(4) by simp
  qed
qed

lemma isUuidList_mem:
  assumes "isUuidList x n = Some ts" "t \<in> set ts"
  shows "t \<noteq> []"
proof -
  have "isUuid y = Some z \<Longrightarrow> is_uuid z" for y z by (cases y rule: isUuid.cases) (auto split: if_splits)
  then have "is_uuid t" using assms by (cases "(x, n)" rule: isUuidList.cases) (fastforce simp: list_all_iff split: if_splits)+
  then show ?thesis using is_uuid_length[of t] by auto
qed

lemma group_invites_redis [simp]: "w_redis (fold (group_invite lk ok room usr names) us w) = w_redis w"
proof (induction us arbitrary: w)
  case (Cons u us)
  have "w_redis (group_invite lk ok room usr names u w) = w_redis w" by (simp add: group_invite_def split: option.split)
  then show ?case by (simp add: Cons.IH)
qed simp

lemma group_call_redis [simp]: "w_redis (snd (initiateLiveKitGroupCall lk ok logId usr c ts now w)) = w_redis w"
  by (simp add: initiateLiveKitGroupCall_def Let_def split_beta createRoom_def split: sum.split)

lemma handleInitiate_ok:
  assumes ok: "calls_ok now (w_redis w)" and fresh: "r_hashes (w_redis w) (roomKey callId) = None" "callId \<noteq> []"
    and uid: "\<forall>usr \<in> set_option user. su_id usr \<noteq> []"
  shows "calls_ok now (w_redis (snd (handleInitiate lk dok rerr callId logId user data now w)))"
proof -
  have dm: "calls_ok now (w_redis (snd (initiate_dm rerr callId logId usr ch ts now w1)))"
    if "calls_ok now (w_redis w1)" "r_hashes (w_redis w1) (roomKey callId) = None" "su_id usr \<noteq> []" "getActiveCall now (su_id usr) w1 = None"
      "\<forall>t \<in> set ts. t \<noteq> []" for usr ch ts w1
  proof (cases ts)
    case (Cons t rest)
    then show ?thesis using that ring_ok[OF that(1,2) fresh(2) _ that(3), of t] isOnline_Up[of now t w1]
      by (simp add: initiate_dm_def Let_def split_beta split: sum.split)
  qed (use that in \<open>simp add: initiate_dm_def\<close>)
  show ?thesis using assms dm isUuidList_mem
    by (auto simp: handleInitiate_def Let_def split_beta split: option.split)
qed

lemma handleLiveKitFallback_redis:
  "calls_ok t (w_redis (snd (handleLiveKitFallback lk logId user data now w))) = calls_ok t (w_redis w)"
proof -
  have "w_redis (livekit_incoming lk room usr u w) = w_redis w" for room usr u w
    by (simp add: livekit_incoming_def split: option.split)
  then show ?thesis by (simp add: handleLiveKitFallback_def Let_def split_beta createRoom_def split: option.split list.split sum.split)
qed

interpretation calls: state_machine call_step "\<lambda>(now, w). calls_ok now (w_redis w)"
proof
  fix s s'
  assume "call_step s s'" and "case s of (now, w) \<Rightarrow> calls_ok now (w_redis w)"
  then show "case s' of (now, w) \<Rightarrow> calls_ok now (w_redis w)"
    by (induction rule: call_step.induct)
      (simp_all add: handleInvite_ok handleInitiate_ok handleLiveKitFallback_redis handleAccept_ok handleReject_ok handleHangup_ok
        handleDisconnect_ok signals_ok calls_ok_later calls_ok_same)
qed

text \<open>Presence is kept in strings too, under keys of its own.\<close>

lemma presence_elsewhere:
  "call_step (now, w) (now, setOnline t u w)" "call_step (now, w) (now, setOffline u w)"
  by (rule elsewhere, simp add: call_keys_same_def setOnline_def setOffline_def with_redis_def put_ex_def del_key_def userCallKey_def
      RedisKeys_presence_def split: link.split)+

end
