(* ===== verification/Config.thy ===== *)
theory Config
  imports Zevra_World
begin

text \<open>
  \<open>common/config/env.ts\<close>, \<open>redis/redis.service.ts\<close> and \<open>health.controller.ts\<close>: checking the environment at start-up and reading
  the settings from it, the life of the Redis connection, and the readiness report. The environment is a function
  from names to optional texts; the URL parser, the Redis client library and the answers of the dependencies are arguments.
\<close>

section \<open>Environment\<close>

type_synonym process_env = "string \<Rightarrow> string option"

definition DEFAULT_DEV_ORIGINS :: "string list" where
  "DEFAULT_DEV_ORIGINS = [''http://localhost:3001'', ''http://localhost:8081'', ''http://localhost:19006'']"

definition isProduction :: "process_env \<Rightarrow> bool" where
  "isProduction env = (env ''NODE_ENV'' = Some ''production'')"

definition strip_slashes :: "string \<Rightarrow> string" where
  "strip_slashes s = rev (dropWhile (\<lambda>c. c = CHR ''/'') (rev s))"

definition parseOrigins :: "string option \<Rightarrow> string list" where
  "parseOrigins raw =
     (case raw of
        None \<Rightarrow> []
      | Some s \<Rightarrow> if s = [] then [] else filter (\<lambda>x. x \<noteq> []) (map (\<lambda>x. strip_slashes (js_trim x)) (split_on (CHR '','') s)))"

definition blank :: "string option \<Rightarrow> bool" where
  "blank v = (case v of None \<Rightarrow> True | Some s \<Rightarrow> js_trim s = [])"

text \<open>\<open>/^(\d+)([smhd]?)$/\<close>: the digits and the unit, seconds when it is missing.\<close>

definition ttl_match :: "string \<Rightarrow> (string \<times> char) option" where
  "ttl_match s =
     (let ds = takeWhile is_digit s; rest = dropWhile is_digit s in
      if ds = [] then None
      else case rest of [] \<Rightarrow> Some (ds, CHR ''s'')
           | [u] \<Rightarrow> if u \<in> set ''smhd'' then Some (ds, u) else None
           | _ \<Rightarrow> None)"

definition env_problems :: "process_env \<Rightarrow> string list" where
  "env_problems env =
     (if blank (env ''DATABASE_URL'') then [''DATABASE_URL is required''] else []) @
     (case env ''JWT_SECRET'' of
        Some s \<Rightarrow> if length s < 32 then [''JWT_SECRET is required and must be at least 32 characters''] else []
      | None \<Rightarrow> [''JWT_SECRET is required and must be at least 32 characters'']) @
     (if blank (env ''REDIS_URL'') then [''REDIS_URL is required''] else []) @
     (case env ''PORT'' of
        Some p \<Rightarrow> if p \<noteq> [] \<and> \<not> list_all is_digit p then [''PORT must be a number''] else []
      | None \<Rightarrow> []) @
     (case env ''JWT_ACCESS_TTL'' of
        Some t \<Rightarrow> if t \<noteq> [] \<and> ttl_match t = None then [''JWT_ACCESS_TTL must be seconds or a duration like 15m, 1h''] else []
      | None \<Rightarrow> []) @
     (if ''*'' \<in> set (parseOrigins (env ''CORS_ORIGIN''))
      then [''CORS_ORIGIN must list explicit origins; \"*\" is not allowed with credentials''] else [])"

definition validateEnv :: "process_env \<Rightarrow> string + unit" where
  "validateEnv env =
     (let problems = env_problems env; sep = CHR 0x0A # '' - ''
      in if problems \<noteq> [] then Inl (''Invalid environment configuration:'' @ concat (map (\<lambda>p. sep @ p) problems)) else Inr ())"

definition getCorsOrigins :: "process_env \<Rightarrow> string list" where
  "getCorsOrigins env =
     (let origins = filter (\<lambda>x. x \<noteq> ''*'') (parseOrigins (env ''CORS_ORIGIN'')) in
      if origins \<noteq> [] then origins else if isProduction env then [] else DEFAULT_DEV_ORIGINS)"

fun has_text :: "string \<Rightarrow> string \<Rightarrow> bool" where
  "has_text p [] = (p = [])"
| "has_text p (c # cs) = (take (length p) (c # cs) = p \<or> has_text p cs)"

definition wants_sslmode :: "string \<Rightarrow> bool" where
  "wants_sslmode url =
     list_ex (\<lambda>p. has_text p (to_lower url))
       [c # ''sslmode='' @ m. c \<leftarrow> ''?&'', m \<leftarrow> [''require'', ''verify-ca'', ''verify-full'', ''prefer'']]"

text \<open>\<^const>\<open>None\<close> is \<open>false\<close>, otherwise \<open>rejectUnauthorized\<close>.\<close>

definition getDbSslConfig :: "process_env \<Rightarrow> bool option" where
  "getDbSslConfig env =
     (let url = (case env ''DATABASE_URL'' of None \<Rightarrow> [] | Some u \<Rightarrow> u) in
      if \<not> (env ''DB_SSL'' = Some ''true'' \<or> wants_sslmode url) then None
      else Some (case env ''DB_SSL_REJECT_UNAUTHORIZED'' of
                   None \<Rightarrow> isProduction env
                 | Some r \<Rightarrow> if r = [] then isProduction env else r = ''true''))"

text \<open>\<open>without_params keys url\<close> is the URL without these query parameters, \<^const>\<open>None\<close> when it does not parse.\<close>

definition getDbConnectionOptions :: "(string list \<Rightarrow> string \<Rightarrow> string option) \<Rightarrow> process_env \<Rightarrow> string option \<times> bool option" where
  "getDbConnectionOptions without_params env =
     (let ssl = getDbSslConfig env; raw = env ''DATABASE_URL'' in
      case raw of
        None \<Rightarrow> (raw, ssl)
      | Some url \<Rightarrow>
          if url = [] \<or> ssl = None then (raw, ssl)
          else (case without_params [''sslmode'', ''ssl'', ''sslcert'', ''sslkey'', ''sslrootcert'', ''uselibpqcompat''] url of
                  None \<Rightarrow> (raw, ssl)
                | Some url' \<Rightarrow> (Some url', ssl)))"

definition read_decimal :: "string \<Rightarrow> int" where
  "read_decimal ds = int (foldl (\<lambda>a c. 10 * a + (of_char c - 48)) 0 ds)"

definition getAccessTokenTtl :: "process_env \<Rightarrow> int" where
  "getAccessTokenTtl env =
     (case env ''JWT_ACCESS_TTL'' of
        None \<Rightarrow> 15 * 60
      | Some raw \<Rightarrow>
          if raw = [] then 15 * 60
          else (case ttl_match (js_trim raw) of
                  None \<Rightarrow> 15 * 60
                | Some (ds, u) \<Rightarrow>
                    read_decimal ds * (if u = CHR ''d'' then 86400 else if u = CHR ''h'' then 3600 else if u = CHR ''m'' then 60 else 1)))"

section \<open>The Redis connection\<close>

text \<open>
  A client of the library, by its number: it is open once connecting has begun and ready while it can take commands. The
  service holds the shared client, the dedicated ones and whether the present outage has been logged.
\<close>

record redis_service =
  rs_client :: "nat option"
  rs_extra :: "nat list"
  rs_errorLogged :: bool
  rs_log :: "string list"

definition rs_write :: "string \<Rightarrow> redis_service \<Rightarrow> redis_service" where
  "rs_write line s = s\<lparr>rs_log := rs_log s @ [line]\<rparr>"

text \<open>\<open>connect\<close> when no other call is connecting: \<open>c\<close> is the client it creates, \<open>ok\<close> whether the first connection succeeds in time.\<close>

definition connect :: "string option \<Rightarrow> nat \<Rightarrow> bool \<Rightarrow> redis_service \<Rightarrow> nat option \<times> redis_service" where
  "connect url c ok s =
     (case rs_client s of
        Some old \<Rightarrow> (Some old, s)
      | None \<Rightarrow>
          if url = None \<or> url = Some [] then (None, rs_write ''REDIS_URL not set'' s)
          else (Some c, rs_write (if ok then ''Redis connected'' else ''Redis initial connection failed'') (s\<lparr>rs_client := Some c\<rparr>)))"

definition getClient :: "(nat \<Rightarrow> bool) \<Rightarrow> redis_service \<Rightarrow> nat option" where
  "getClient isReady s = (case rs_client s of None \<Rightarrow> None | Some c \<Rightarrow> if isReady c then Some c else None)"

definition createDedicatedClient :: "(nat \<Rightarrow> bool) \<Rightarrow> nat \<Rightarrow> bool \<Rightarrow> redis_service \<Rightarrow> nat option \<times> redis_service" where
  "createDedicatedClient isReady c ok s =
     (case getClient isReady s of
        None \<Rightarrow> (None, s)
      | Some base \<Rightarrow>
          if ok then (Some c, s\<lparr>rs_extra := (if c \<in> set (rs_extra s) then rs_extra s else rs_extra s @ [c])\<rparr>)
          else (None, rs_write ''client failed to connect'' s))"

definition ping :: "(nat \<Rightarrow> bool) \<Rightarrow> (nat \<Rightarrow> string option) \<Rightarrow> redis_service \<Rightarrow> bool" where
  "ping isReady answer s = (case getClient isReady s of None \<Rightarrow> False | Some c \<Rightarrow> answer c = Some ''PONG'')"

text \<open>\<open>quit\<close>: the clients it closes, and the service afterwards.\<close>

definition quit :: "redis_service \<Rightarrow> nat list \<times> redis_service" where
  "quit s = (rs_extra s @ (case rs_client s of None \<Rightarrow> [] | Some c \<Rightarrow> [c]), s\<lparr>rs_extra := [], rs_client := None\<rparr>)"

datatype client_event = ClientError | ClientReady

definition on_client_event :: "client_event \<Rightarrow> redis_service \<Rightarrow> redis_service" where
  "on_client_event e s =
     (case e of
        ClientError \<Rightarrow> if rs_errorLogged s then s else (rs_write ''Redis error'' s)\<lparr>rs_errorLogged := True\<rparr>
      | ClientReady \<Rightarrow> (if rs_errorLogged s then rs_write ''Redis ready'' s else s)\<lparr>rs_errorLogged := False\<rparr>)"

section \<open>Readiness\<close>

record ready_report =
  rp_status :: string
  rp_db :: string
  rp_redis :: string

text \<open>A check that rejects or takes longer than two seconds counts as failed: the arguments are the checks' outcomes.\<close>

definition ready :: "bool \<Rightarrow> bool \<Rightarrow> int \<times> ready_report" where
  "ready db redis =
     (let ok = db \<and> redis
      in (if ok then 200 else 503,
          \<lparr>rp_status = (if ok then ''ok'' else ''error''), rp_db = (if db then ''up'' else ''down''), rp_redis = (if redis then ''up'' else ''down'')\<rparr>))"

section \<open>Properties\<close>

lemma parseOrigins_elem:
  assumes "x \<in> set (parseOrigins raw)"
  shows "x \<noteq> []" "last x \<noteq> CHR ''/''"
proof -
  show ne: "x \<noteq> []" using assms by (auto simp: parseOrigins_def split: option.splits if_splits)
  obtain y where y: "x = strip_slashes y" using assms by (auto simp: parseOrigins_def split: option.splits if_splits)
  have "dropWhile (\<lambda>c. c = CHR ''/'') (rev y) \<noteq> []" using ne y by (auto simp: strip_slashes_def)
  then have "hd (dropWhile (\<lambda>c. c = CHR ''/'') (rev y)) \<noteq> CHR ''/''" by (rule hd_dropWhile)
  then show "last x \<noteq> CHR ''/''" by (simp add: y strip_slashes_def last_rev)
qed

lemma is_digit_not_ws: "is_digit c \<Longrightarrow> \<not> is_ws c"
  by (auto simp: is_digit_def is_ws_def Let_def)

lemma js_trim_id:
  assumes "s \<noteq> []" "\<not> is_ws (hd s)" "\<not> is_ws (last s)"
  shows "js_trim s = s"
proof -
  have "dropWhile is_ws s = s" using assms(1,2) by (cases s) auto
  moreover have "dropWhile is_ws (rev s) = rev s" using assms(1,3) by (cases s rule: rev_cases) auto
  ultimately show ?thesis by (simp add: js_trim_def)
qed

text \<open>What the pattern of a lifetime admits, it admits without surrounding space.\<close>

lemma ttl_match_trim:
  assumes "ttl_match s = Some (ds, u)"
  shows "js_trim s = s" "list_all is_digit ds" "ds \<noteq> []" "u \<in> set ''smhd''" "s = ds @ [u] \<or> s = ds \<and> u = CHR ''s''"
proof -
  have ds: "ds = takeWhile is_digit s" "ds \<noteq> []" using assms by (auto simp: ttl_match_def Let_def split: if_splits list.splits)
  then show "list_all is_digit ds" "ds \<noteq> []" by (auto simp: list_all_iff dest: set_takeWhileD)
  have r: "dropWhile is_digit s = [] \<and> u = CHR ''s'' \<or> dropWhile is_digit s = [u] \<and> u \<in> set ''smhd''"
    using assms by (auto simp: ttl_match_def Let_def split: if_splits list.splits)
  then show u: "u \<in> set ''smhd''" by auto
  have s: "s = ds @ dropWhile is_digit s" using ds(1) by simp
  from r s show "s = ds @ [u] \<or> s = ds \<and> u = CHR ''s''" by (metis append_Nil2)
  have "is_digit (hd s)" using ds by (cases s) (auto split: if_splits)
  moreover have "\<not> is_ws u" using u by (auto simp: is_ws_def)
  moreover have "is_digit (last ds)" using ds by (metis last_in_set set_takeWhileD)
  ultimately have "\<not> is_ws (hd s)" "\<not> is_ws (last s)" using r s is_digit_not_ws ds(2) by (metis append_Nil2 last_snoc)+
  then show "js_trim s = s" using ds s by (intro js_trim_id) auto
qed

text \<open>
  C40: A server that starts has usable settings. When \<open>validateEnv\<close> accepts the environment, the signing secret has at
  least 32 characters, no allowed origin is the wildcard or ends in a slash, and a lifetime that is set is used as
  written, its digits times its unit, never silently replaced by the default; origins are never the wildcard even in an
  environment that was not checked.
\<close>

theorem accepted_env_is_safe:
  assumes "validateEnv env = Inr ()"
  shows "(\<exists>s. env ''JWT_SECRET'' = Some s \<and> 32 \<le> length s) \<and> \<not> blank (env ''DATABASE_URL'') \<and> \<not> blank (env ''REDIS_URL'') \<and>
    (\<forall>x \<in> set (getCorsOrigins env). x \<noteq> ''*'' \<and> x \<noteq> [] \<and> last x \<noteq> CHR ''/'') \<and> ''*'' \<notin> set (getCorsOrigins env') \<and>
    (\<forall>raw. env ''JWT_ACCESS_TTL'' = Some raw \<and> raw \<noteq> [] \<longrightarrow>
      (\<exists>ds u. list_all is_digit ds \<and> ds \<noteq> [] \<and> u \<in> set ''smhd'' \<and> (raw = ds @ [u] \<or> raw = ds \<and> u = CHR ''s'') \<and>
        getAccessTokenTtl env = read_decimal ds * (if u = CHR ''d'' then 86400 else if u = CHR ''h'' then 3600 else if u = CHR ''m'' then 60 else 1)))"
proof -
  have none: "env_problems env = []" using assms by (simp add: validateEnv_def Let_def split: if_splits)
  have "''*'' \<notin> set (getCorsOrigins e)" for e by (auto simp: getCorsOrigins_def DEFAULT_DEV_ORIGINS_def Let_def)
  moreover have "x \<noteq> [] \<and> last x \<noteq> CHR ''/''" if "x \<in> set (getCorsOrigins env)" for x
    using that parseOrigins_elem[of x "env ''CORS_ORIGIN''"] by (auto simp: getCorsOrigins_def DEFAULT_DEV_ORIGINS_def Let_def split: if_splits)
  moreover have "\<exists>s. env ''JWT_SECRET'' = Some s \<and> 32 \<le> length s" "\<not> blank (env ''DATABASE_URL'')" "\<not> blank (env ''REDIS_URL'')"
    using none by (auto simp: env_problems_def split: option.splits if_splits)
  moreover have "\<exists>ds u. list_all is_digit ds \<and> ds \<noteq> [] \<and> u \<in> set ''smhd'' \<and> (raw = ds @ [u] \<or> raw = ds \<and> u = CHR ''s'') \<and>
        getAccessTokenTtl env = read_decimal ds * (if u = CHR ''d'' then 86400 else if u = CHR ''h'' then 3600 else if u = CHR ''m'' then 60 else 1)"
    if raw: "env ''JWT_ACCESS_TTL'' = Some raw" "raw \<noteq> []" for raw
  proof -
    have "ttl_match raw \<noteq> None" using none raw by (auto simp: env_problems_def split: if_splits)
    then obtain ds u where m: "ttl_match raw = Some (ds, u)" by auto
    note t = ttl_match_trim[OF m]
    have "getAccessTokenTtl env = read_decimal ds * (if u = CHR ''d'' then 86400 else if u = CHR ''h'' then 3600 else if u = CHR ''m'' then 60 else 1)"
      using raw m t(1) by (simp add: getAccessTokenTtl_def)
    then show ?thesis using t(2-5) by blast
  qed
  ultimately show ?thesis by blast
qed

definition sample_process_env :: process_env where
  "sample_process_env = [''DATABASE_URL'' \<mapsto> ''postgres://db/zevra'', ''REDIS_URL'' \<mapsto> ''redis://cache'',
     ''JWT_SECRET'' \<mapsto> ''0123456789abcdef0123456789abcdef'', ''JWT_ACCESS_TTL'' \<mapsto> ''15m'', ''CORS_ORIGIN'' \<mapsto> ''https://a.example/, https://b.example'']"

theorem accepted_env_is_safe_witness:
  "validateEnv sample_process_env = Inr () \<and> ''*'' \<notin> set (getCorsOrigins sample_process_env)"
proof -
  have "validateEnv sample_process_env = Inr ()"
    by (simp add: validateEnv_def env_problems_def sample_process_env_def blank_def js_trim_def is_ws_def ttl_match_def is_digit_def
        parseOrigins_def strip_slashes_def Let_def)
  from this accepted_env_is_safe[OF this, of sample_process_env] show ?thesis by blast
qed

section \<open>One line per outage\<close>

fun outages :: "bool \<Rightarrow> client_event list \<Rightarrow> nat" where
  "outages down [] = 0"
| "outages down (ClientError # es) = (if down then outages True es else Suc (outages True es))"
| "outages down (ClientReady # es) = outages False es"

text \<open>
  The Redis service logs every outage once: however many errors the client reports before it is ready again, the log has as many
  error lines as there were outages. And the shared client is handed out only while it is ready: after \<open>quit\<close> nobody gets a client, every
  client that was open is closed once, and while a client exists \<open>connect\<close> creates no second one.
\<close>

theorem redis_outages_logged_once:
  "length (filter (\<lambda>l. l = ''Redis error'') (rs_log (fold on_client_event es s))) =
     length (filter (\<lambda>l. l = ''Redis error'') (rs_log s)) + outages (rs_errorLogged s) es \<and>
   rs_client (fold on_client_event es s) = rs_client s \<and>
   getClient isReady (snd (quit s)) = None \<and> fst (quit (snd (quit s))) = [] \<and>
   (\<forall>c. getClient isReady s = Some c \<longrightarrow> isReady c \<and> c \<in> set (fst (quit s)) \<and> connect url c' ok s = (Some c, s))"
proof (intro conjI)
  show "length (filter (\<lambda>l. l = ''Redis error'') (rs_log (fold on_client_event es s))) =
     length (filter (\<lambda>l. l = ''Redis error'') (rs_log s)) + outages (rs_errorLogged s) es"
  proof (induction es arbitrary: s)
    case (Cons e es)
    then show ?case by (cases e) (simp_all add: on_client_event_def rs_write_def)
  qed simp
  show "rs_client (fold on_client_event es s) = rs_client s"
    by (induction es arbitrary: s) (simp_all add: on_client_event_def rs_write_def split: client_event.split)
qed (auto simp: getClient_def quit_def connect_def split: option.splits if_splits)

theorem redis_outages_logged_once_witness:
  "rs_log (fold on_client_event [ClientError, ClientError, ClientReady, ClientError] \<lparr>rs_client = Some 1, rs_extra = [], rs_errorLogged = False, rs_log = []\<rparr>)
     = [''Redis error'', ''Redis ready'', ''Redis error''] \<and>
   getClient (\<lambda>_. True) (snd (quit \<lparr>rs_client = Some 1, rs_extra = [], rs_errorLogged = False, rs_log = []\<rparr>)) = None"
  using redis_outages_logged_once[of "[]" "\<lparr>rs_client = Some 1, rs_extra = [], rs_errorLogged = False, rs_log = []\<rparr>" "\<lambda>_. True"]
  by (simp add: on_client_event_def rs_write_def)

end
