(* ===== verification/Uploads.thy ===== *)
theory Uploads
  imports Srp
begin

text \<open>
  \<open>modules/uploads\<close>: the type of an upload from its leading bytes (\<open>file-type.ts\<close>), the endpoint
  (\<open>uploads.controller.ts\<close>) and the two ways to store a file (\<open>uploads.service.ts\<close>). Cloudinary is an
  argument: what it answers to an upload with given options, and the URL it makes for a thumbnail.
\<close>

section \<open>File types\<close>

datatype AllowedMime = Jpeg | Png | Gif | Webp | Pdf | Msword | Docx | Plain

definition IMAGE_MIMES :: "AllowedMime list" where
  "IMAGE_MIMES = [Jpeg, Png, Gif, Webp]"

definition DOCX :: string where
  "DOCX = ''application/vnd.openxmlformats-officedocument.wordprocessingml.document''"

definition startsWith :: "bytes \<Rightarrow> nat list \<Rightarrow> nat \<Rightarrow> bool" where
  "startsWith buf bs offset =
     (if length buf < offset + length bs then False else list_all (\<lambda>i. buf ! (offset + i) = bs ! i) [0..<length bs])"

text \<open>
  The fatal UTF-8 decoder: how many continuation bytes are due and the range of the next one. At
  the end of the input a sequence that is not finished is an error unless the decoder is streaming.
\<close>

fun utf8_decode :: "bool \<Rightarrow> nat \<Rightarrow> nat \<Rightarrow> nat \<Rightarrow> bytes \<Rightarrow> bool" where
  "utf8_decode stream 0 lo hi [] = True"
| "utf8_decode stream (Suc n) lo hi [] = stream"
| "utf8_decode stream 0 lo hi (b # bs) =
     (if b \<le> 127 then utf8_decode stream 0 128 191 bs
      else if 194 \<le> b \<and> b \<le> 223 then utf8_decode stream 1 128 191 bs
      else if b = 224 then utf8_decode stream 2 160 191 bs
      else if b = 237 then utf8_decode stream 2 128 159 bs
      else if 225 \<le> b \<and> b \<le> 239 then utf8_decode stream 2 128 191 bs
      else if b = 240 then utf8_decode stream 3 144 191 bs
      else if 241 \<le> b \<and> b \<le> 243 then utf8_decode stream 3 128 191 bs
      else if b = 244 then utf8_decode stream 3 128 143 bs
      else False)"
| "utf8_decode stream (Suc n) lo hi (b # bs) = (lo \<le> b \<and> b \<le> hi \<and> utf8_decode stream n 128 191 bs)"

definition SAMPLE_BYTES :: nat where "SAMPLE_BYTES = 64 * 1024"

definition isProbablyUtf8Text :: "bytes \<Rightarrow> bool" where
  "isProbablyUtf8Text buf =
     (let sample = take SAMPLE_BYTES buf in
      if list_ex (\<lambda>b. b = 0) sample then False
      else utf8_decode (length buf > length sample) 0 128 191 sample)"

definition declared_mime :: "string \<Rightarrow> string" where
  "declared_mime declaredMime = js_trim (hd (split_on (CHR '';'') (to_lower declaredMime)))"

definition detectAllowedMime :: "bytes \<Rightarrow> string \<Rightarrow> AllowedMime option" where
  "detectAllowedMime buf declaredMime =
     (if startsWith buf [255, 216, 255] 0 then Some Jpeg
      else if startsWith buf [137, 80, 78, 71, 13, 10, 26, 10] 0 then Some Png
      else if startsWith buf [71, 73, 70, 56] 0 \<and> length buf > 5 \<and> (buf ! 4 = 55 \<or> buf ! 4 = 57) \<and> buf ! 5 = 97 then Some Gif
      else if startsWith buf [82, 73, 70, 70] 0 \<and> startsWith buf [87, 69, 66, 80] 8 then Some Webp
      else if startsWith buf [37, 80, 68, 70, 45] 0 then Some Pdf
      else (let declared = declared_mime declaredMime in
        if startsWith buf [208, 207, 17, 224, 161, 177, 26, 225] 0
        then (if declared = ''application/msword'' then Some Msword else None)
        else if startsWith buf [80, 75, 3, 4] 0 then (if declared = DOCX then Some Docx else None)
        else if declared = ''text/plain'' \<and> length buf > 0 \<and> isProbablyUtf8Text buf then Some Plain
        else None))"

section \<open>Storing\<close>

record IncomingFile =
  if_buffer :: bytes
  if_mimetype :: string
  if_size :: nat

record cloud_response =
  cr_secure_url :: string
  cr_public_id :: string
  cr_format :: string
  cr_resource_type :: string
  cr_bytes :: int
  cr_width :: "int option"
  cr_height :: "int option"

record UploadResult =
  ur_url :: string
  ur_publicId :: string
  ur_format :: string
  ur_resourceType :: string
  ur_bytes :: int
  ur_width :: "int option"
  ur_height :: "int option"
  ur_thumbnailUrl :: "string option"

record upload_options =
  uo_folder :: string
  uo_resource_type :: string
  uo_optimised :: bool

record cloudinary =
  cd_configured :: bool
  cd_upload :: "upload_options \<Rightarrow> bytes \<Rightarrow> cloud_response option"
  cd_thumbnail :: "string \<Rightarrow> string"

definition DEFAULT_FOLDER :: string where "DEFAULT_FOLDER = ''zevra/uploads''"

definition upload :: "cloudinary \<Rightarrow> bytes \<Rightarrow> upload_options \<Rightarrow> thrown + cloud_response" where
  "upload cl buffer options =
     (if \<not> cd_configured cl then Inl (ServiceUnavailableException ''File uploads are not available'')
      else case cd_upload cl options buffer of
             None \<Rightarrow> Inl (ServiceUnavailableException ''Upload failed, please try again'')
           | Some result \<Rightarrow> Inr result)"

definition upload_result :: "cloud_response \<Rightarrow> UploadResult" where
  "upload_result r = \<lparr>ur_url = cr_secure_url r, ur_publicId = cr_public_id r, ur_format = cr_format r, ur_resourceType = cr_resource_type r,
     ur_bytes = cr_bytes r, ur_width = None, ur_height = None, ur_thumbnailUrl = None\<rparr>"

definition uploadImage :: "cloudinary \<Rightarrow> bytes \<Rightarrow> string \<Rightarrow> thrown + UploadResult" where
  "uploadImage cl buffer folder =
     bindE (upload cl buffer \<lparr>uo_folder = folder, uo_resource_type = ''image'', uo_optimised = True\<rparr>) (\<lambda>r.
       Inr ((upload_result r)\<lparr>ur_width := cr_width r, ur_height := cr_height r, ur_thumbnailUrl := Some (cd_thumbnail cl (cr_public_id r))\<rparr>))"

definition service_uploadFile :: "cloudinary \<Rightarrow> bytes \<Rightarrow> string \<Rightarrow> thrown + UploadResult" where
  "service_uploadFile cl buffer folder =
     bindE (upload cl buffer \<lparr>uo_folder = folder, uo_resource_type = ''raw'', uo_optimised = False\<rparr>) (\<lambda>r. Inr (upload_result r))"

definition unsupported_type :: thrown where
  "unsupported_type = BadRequestException
     ''Unsupported file type. Allowed: images (JPEG, PNG, GIF, WebP) and documents (PDF, DOC, DOCX, TXT)''"

definition uploadFile :: "cloudinary \<Rightarrow> IncomingFile option \<Rightarrow> thrown + UploadResult" where
  "uploadFile cl file =
     (case file of
        None \<Rightarrow> Inl (BadRequestException ''No file provided'')
      | Some f \<Rightarrow>
          if if_size f = 0 then Inl (BadRequestException ''No file provided'')
          else (case detectAllowedMime (if_buffer f) (if_mimetype f) of
                  None \<Rightarrow> Inl unsupported_type
                | Some mime \<Rightarrow>
                    if mime \<in> set IMAGE_MIMES then uploadImage cl (if_buffer f) DEFAULT_FOLDER
                    else service_uploadFile cl (if_buffer f) DEFAULT_FOLDER))"

section \<open>Lemmas\<close>

lemma startsWith_take:
  assumes "bs \<noteq> []"
  shows "startsWith buf bs off \<longleftrightarrow> take (length bs) (drop off buf) = bs"
proof
  assume s: "startsWith buf bs off"
  then have l: "off + length bs \<le> length buf" by (simp add: startsWith_def split: if_splits)
  show "take (length bs) (drop off buf) = bs"
    using s l by (intro nth_equalityI) (auto simp: startsWith_def list_all_iff split: if_splits)
next
  assume t: "take (length bs) (drop off buf) = bs"
  have "length bs \<le> length buf - off" using arg_cong[OF t, of length] by simp
  moreover have "0 < length bs" using assms by simp
  ultimately have l: "off + length bs \<le> length buf" by linarith
  have "buf ! (off + i) = bs ! i" if "i < length bs" for i
    using that l arg_cong[OF t, of "\<lambda>xs. xs ! i"] by simp
  then show "startsWith buf bs off" using l by (simp add: startsWith_def list_all_iff)
qed

text \<open>The bytes each type with a signature begins with.\<close>

fun signature :: "AllowedMime \<Rightarrow> bytes \<Rightarrow> bool" where
  "signature Jpeg b = (take 3 b = [255, 216, 255])"
| "signature Png b = (take 8 b = [137, 80, 78, 71, 13, 10, 26, 10])"
| "signature Gif b = (take 4 b = [71, 73, 70, 56] \<and> length b > 5 \<and> (b ! 4 = 55 \<or> b ! 4 = 57) \<and> b ! 5 = 97)"
| "signature Webp b = (take 4 b = [82, 73, 70, 70] \<and> take 4 (drop 8 b) = [87, 69, 66, 80])"
| "signature Pdf b = (take 5 b = [37, 80, 68, 70, 45])"
| "signature Msword b = (take 8 b = [208, 207, 17, 224, 161, 177, 26, 225])"
| "signature Docx b = (take 4 b = [80, 75, 3, 4])"
| "signature Plain b = False"

lemma signature_first: "signature m b \<Longrightarrow> \<exists>c cs. b = c # cs \<and> m = (if c = 255 then Jpeg else if c = 137 then Png else if c = 71 then Gif
    else if c = 82 then Webp else if c = 37 then Pdf else if c = 208 then Msword else if c = 80 then Docx else Plain)"
  by (cases m; cases b) auto

lemma signature_unique:
  assumes "signature m b" "signature n b"
  shows "m = n"
proof -
  obtain c cs where c: "b = c # cs" using signature_first[OF assms(1)] by blast
  then show ?thesis using signature_first[OF assms(1)] signature_first[OF assms(2)] by (elim exE conjE) simp
qed

lemma startsWith_signature:
  "startsWith buf [255, 216, 255] 0 = signature Jpeg buf" "startsWith buf [137, 80, 78, 71, 13, 10, 26, 10] 0 = signature Png buf"
  "(startsWith buf [71, 73, 70, 56] 0 \<and> length buf > 5 \<and> (buf ! 4 = 55 \<or> buf ! 4 = 57) \<and> buf ! 5 = 97) = signature Gif buf"
  "(startsWith buf [82, 73, 70, 70] 0 \<and> startsWith buf [87, 69, 66, 80] 8) = signature Webp buf"
  "startsWith buf [37, 80, 68, 70, 45] 0 = signature Pdf buf" "startsWith buf [208, 207, 17, 224, 161, 177, 26, 225] 0 = signature Msword buf"
  "startsWith buf [80, 75, 3, 4] 0 = signature Docx buf"
  by (simp_all add: startsWith_take numeral_eq_Suc)

lemma detect_signature:
  "detectAllowedMime buf m =
     (if signature Jpeg buf then Some Jpeg else if signature Png buf then Some Png else if signature Gif buf then Some Gif
      else if signature Webp buf then Some Webp else if signature Pdf buf then Some Pdf
      else if signature Msword buf then (if declared_mime m = ''application/msword'' then Some Msword else None)
      else if signature Docx buf then (if declared_mime m = DOCX then Some Docx else None)
      else if declared_mime m = ''text/plain'' \<and> length buf > 0 \<and> isProbablyUtf8Text buf then Some Plain else None)"
  unfolding detectAllowedMime_def startsWith_signature Let_def ..

text \<open>Cutting a text anywhere leaves what the streaming decoder accepts.\<close>

lemma utf8_decode_prefix: "utf8_decode False n lo hi bs \<Longrightarrow> utf8_decode True n lo hi (take k bs)"
proof (induction "False" n lo hi bs arbitrary: k rule: utf8_decode.induct)
  case (3 lo hi b bs)
  then show ?case by (cases k) (auto split: if_splits)
next
  case (4 n lo hi b bs)
  then show ?case by (cases k) auto
qed simp_all

lemma utf8_decode_utf8: "utf8_decode False 0 lo hi (utf8 s)"
proof (induction s arbitrary: lo hi)
  case (Cons c s)
  have c: "(of_char c :: nat) < 256" by simp
  show ?case
  proof (cases "(of_char c :: nat) < 128")
    case True
    then show ?thesis using Cons by (simp add: utf8_def Let_def)
  next
    case False
    have "of_char c div 64 < (4 :: nat)" "2 \<le> of_char c div (64 :: nat)" using c False by (simp_all add: less_mult_imp_div_less div_le_mono[of 128 _ 64, simplified])
    then have b: "194 \<le> 192 + of_char c div (64 :: nat)" "192 + of_char c div 64 \<le> (223 :: nat)" by simp_all
    have "of_char c mod 64 < (64 :: nat)" by simp
    then have "128 + of_char c mod 64 \<le> (191 :: nat)" by simp
    then show ?thesis using Cons False b by (simp add: utf8_def Let_def)
  qed
qed (simp add: utf8_def)

text \<open>
  C36: The type of an upload is decided by its bytes. No content carries two signatures, so the order of the tests
  does not matter: content with the signature of an image or a PDF is that type whatever the client declares; the
  containers of Word are accepted only as what they are declared; content without a
  signature is at most plain text, and only if it is declared so and is UTF-8 without a zero byte; everything else is refused.
  Text is never refused for its length: any UTF-8 text without zero bytes that is declared plain text and does not
  begin with a signature is accepted, also when the sample ends inside a character.
\<close>

theorem upload_type_from_bytes:
  "(\<forall>t u. signature t buf \<and> signature u buf \<longrightarrow> t = u) \<and>
   (\<forall>t \<in> {Jpeg, Png, Gif, Webp, Pdf}. detectAllowedMime buf m = Some t \<longleftrightarrow> signature t buf) \<and>
   (detectAllowedMime buf m = Some Msword \<longleftrightarrow> signature Msword buf \<and> declared_mime m = ''application/msword'') \<and>
   (detectAllowedMime buf m = Some Docx \<longleftrightarrow> signature Docx buf \<and> declared_mime m = DOCX) \<and>
   (detectAllowedMime buf m = Some Plain \<longleftrightarrow>
      (\<forall>t. \<not> signature t buf) \<and> declared_mime m = ''text/plain'' \<and> buf \<noteq> [] \<and> isProbablyUtf8Text buf) \<and>
   (0 \<notin> set (utf8 s) \<and> s \<noteq> [] \<and> (\<forall>t. \<not> signature t (utf8 s)) \<and> declared_mime m = ''text/plain'' \<longrightarrow>
      detectAllowedMime (utf8 s) m = Some Plain)"
proof -
  note un = signature_unique[of _ buf]
  have all: "(\<forall>t. \<not> signature t b) \<longleftrightarrow> \<not> signature Jpeg b \<and> \<not> signature Png b \<and> \<not> signature Gif b \<and> \<not> signature Webp b \<and> \<not> signature Pdf b \<and>
      \<not> signature Msword b \<and> \<not> signature Docx b" for b by (metis AllowedMime.exhaust signature.simps(8))
  have uni: "\<forall>t u. signature t buf \<and> signature u buf \<longrightarrow> t = u" using un by blast
  have ne: "utf8 s \<noteq> []" if "s \<noteq> []" using that by (cases s) (auto simp: utf8_def Let_def)
  have "isProbablyUtf8Text (utf8 s)" if "0 \<notin> set (utf8 s)"
  proof -
    have "0 \<notin> set (take SAMPLE_BYTES (utf8 s))" using that by (meson in_set_takeD)
    moreover have "utf8_decode True 0 128 191 (take SAMPLE_BYTES (utf8 s))" by (rule utf8_decode_prefix[OF utf8_decode_utf8])
    moreover have "utf8_decode False 0 128 191 (utf8 s)" by (rule utf8_decode_utf8)
    ultimately show ?thesis
      by (cases "length (utf8 s) \<le> SAMPLE_BYTES") (auto simp: isProbablyUtf8Text_def Let_def list_ex_iff min_def)
  qed
  then show ?thesis using uni ne unfolding detect_signature all by (auto simp del: signature.simps dest: un)
qed

theorem upload_type_from_bytes_witness:
  "detectAllowedMime [255, 216, 255, 0] ''text/plain'' = Some Jpeg \<and> detectAllowedMime (utf8 ''hi'') ''text/plain'' = Some Plain"
proof -
  have "utf8 ''hi'' = [104, 105]" by (simp add: utf8_def)
  then have "\<not> signature t (utf8 ''hi'')" for t using signature_first[of t "[104, 105]"] by (cases t) auto
  moreover have "declared_mime ''text/plain'' = ''text/plain''" by (simp add: declared_mime_def to_lower_def lower_char_def js_trim_def is_ws_def)
  moreover have "0 \<notin> set (utf8 ''hi'')" by (simp add: utf8_def)
  ultimately show ?thesis
    using upload_type_from_bytes[of "[255, 216, 255, 0]" "''text/plain''" "''hi''"] by simp
qed

text \<open>
  Nothing but an allowed file is stored. The endpoint hands a file to Cloudinary only when its type was recognised, images
  as images with a thumbnail and everything else as raw data; a missing, empty or unsupported file is a 400 and an
  unavailable Cloudinary a 503, and a stored file is described by what Cloudinary answered for exactly its bytes.
\<close>

theorem upload_endpoint:
  "(\<exists>r. uploadFile cl (Some f) = Inr r) \<longleftrightarrow>
     if_size f \<noteq> 0 \<and> cd_configured cl \<and>
     (\<exists>mime resp. detectAllowedMime (if_buffer f) (if_mimetype f) = Some mime \<and>
        cd_upload cl (if mime \<in> {Jpeg, Png, Gif, Webp} then \<lparr>uo_folder = DEFAULT_FOLDER, uo_resource_type = ''image'', uo_optimised = True\<rparr>
                      else \<lparr>uo_folder = DEFAULT_FOLDER, uo_resource_type = ''raw'', uo_optimised = False\<rparr>) (if_buffer f) = Some resp)"
  by (auto simp: uploadFile_def uploadImage_def service_uploadFile_def upload_def IMAGE_MIMES_def bindE_Inr_iff unsupported_type_def
      split: option.splits if_splits)

end
