(* ===== verification/Bootstrap.thy ===== *)
theory Bootstrap
  imports Config Uploads
begin

text \<open>
  Starting and stopping: \<open>main.ts\<close> (the environment check, the proxy setting, the port, fatal errors), the timed checks of
  \<open>health.controller.ts\<close>, and the connection of the job queue in \<open>shared/queues/bull-redis.provider.ts\<close>. The framework's \<open>close\<close>
  and the drivers are arguments: when a promise settles, and how.
\<close>

section \<open>Promises against the clock\<close>

text \<open>A promise is the milliseconds it takes to settle and its outcome, or nothing when it never settles.\<close>

type_synonym 'a promise = "(int \<times> (string + 'a)) option"

definition withTimeout :: "int \<Rightarrow> 'a promise \<Rightarrow> string + 'a" where
  "withTimeout ms p = (case p of Some (t, r) \<Rightarrow> if t < ms then r else Inl ''timeout'' | None \<Rightarrow> Inl ''timeout'')"

definition CHECK_TIMEOUT_MS :: int where "CHECK_TIMEOUT_MS = 2000"

definition checkDb :: "unit promise \<Rightarrow> bool" where
  "checkDb query = (case withTimeout CHECK_TIMEOUT_MS query of Inr _ \<Rightarrow> True | Inl _ \<Rightarrow> False)"

definition checkRedis :: "bool promise \<Rightarrow> bool" where
  "checkRedis pong = (case withTimeout CHECK_TIMEOUT_MS pong of Inr b \<Rightarrow> b | Inl _ \<Rightarrow> False)"

section \<open>Bootstrap\<close>

datatype proxy_setting = Unset | Hops int | Trusted | Proxies string

definition trust_proxy :: "string option \<Rightarrow> proxy_setting" where
  "trust_proxy v = (case v of None \<Rightarrow> Unset
     | Some s \<Rightarrow> if s = [] then Unset else if list_all is_digit s then Hops (read_decimal s)
                else if s = ''true'' then Trusted else Proxies s)"

record app_config =
  ap_proxy :: proxy_setting
  ap_origins :: "string list"
  ap_port :: int

record server_process =
  pc_env :: process_env
  pc_shuttingDown :: bool
  pc_closes :: nat
  pc_exit :: "(time \<times> int) option"
  pc_log :: "string list"
  pc_app :: "app_config option"

definition say :: "string \<Rightarrow> server_process \<Rightarrow> server_process" where
  "say line p = p\<lparr>pc_log := pc_log p @ [line]\<rparr>"

text \<open>
  The server listens with the settings of the environment, or the process leaves with code 1. \<open>created\<close> and \<open>listening\<close> are the outcomes of
  \<open>NestFactory.create\<close> and \<open>listen\<close>, \<open>number\<close> is \<open>Number\<close> on texts (nothing for NaN).
\<close>

definition listen_port :: "(string \<Rightarrow> int option) \<Rightarrow> process_env \<Rightarrow> int" where
  "listen_port number env = (case Option.bind (env ''PORT'') number of Some n \<Rightarrow> if n = 0 then 3000 else n | None \<Rightarrow> 3000)"

definition bootstrap :: "(string \<Rightarrow> int option) \<Rightarrow> string + unit \<Rightarrow> (app_config \<Rightarrow> string + unit) \<Rightarrow> time \<Rightarrow> server_process \<Rightarrow> server_process" where
  "bootstrap number created listening now p =
     (let env = pc_env p;
          config = \<lparr>ap_proxy = trust_proxy (env ''TRUST_PROXY''), ap_origins = getCorsOrigins env, ap_port = listen_port number env\<rparr>
      in case bindE (validateEnv env) (\<lambda>_. bindE created (\<lambda>_. listening config)) of
           Inl e \<Rightarrow> (say (''Failed to start '' @ e) p)\<lparr>pc_exit := Some (now, 1)\<rparr>
         | Inr _ \<Rightarrow> (say (''Listening on port '' @ show_int (ap_port config)) p)\<lparr>pc_app := Some config\<rparr>)"

definition SHUTDOWN_TIMEOUT_MS :: int where "SHUTDOWN_TIMEOUT_MS = 10000"

definition shutdownAfterFatal :: "string \<Rightarrow> unit promise \<Rightarrow> time \<Rightarrow> server_process \<Rightarrow> server_process" where
  "shutdownAfterFatal reason close now p =
     (let p1 = say reason p
      in if pc_shuttingDown p then p1
         else (let p2 = p1\<lparr>pc_shuttingDown := True, pc_closes := Suc (pc_closes p1)\<rparr>
               in case close of
                    Some (t, r) \<Rightarrow>
                      if t < SHUTDOWN_TIMEOUT_MS
                      then (case r of Inl e \<Rightarrow> say (''Error during shutdown: '' @ e) p2 | Inr _ \<Rightarrow> p2)\<lparr>pc_exit := Some (now + t, 1)\<rparr>
                      else p2\<lparr>pc_exit := Some (now + SHUTDOWN_TIMEOUT_MS, 1)\<rparr>
                  | None \<Rightarrow> p2\<lparr>pc_exit := Some (now + SHUTDOWN_TIMEOUT_MS, 1)\<rparr>))"

definition on_unhandledRejection :: "string \<Rightarrow> server_process \<Rightarrow> server_process" where
  "on_unhandledRejection reason = say (''Unhandled promise rejection '' @ reason)"

definition on_uncaughtException :: "string \<Rightarrow> unit promise \<Rightarrow> time \<Rightarrow> server_process \<Rightarrow> server_process" where
  "on_uncaughtException err = shutdownAfterFatal (''Uncaught exception '' @ err)"

section \<open>The queue's connection\<close>

definition CONNECT_WAIT_MS :: int where "CONNECT_WAIT_MS = 10000"

text \<open>The milliseconds the start of the server waits for the queue's connection, and the lines it logs meanwhile.\<close>

definition createBullRedisClient :: "unit promise \<Rightarrow> int \<times> string list" where
  "createBullRedisClient connecting =
     (case connecting of
        Some (t, r) \<Rightarrow> if t < CONNECT_WAIT_MS then (t, case r of Inl e \<Rightarrow> [''BullMQ Redis connect failed: '' @ e] | Inr _ \<Rightarrow> []) else (CONNECT_WAIT_MS, [])
      | None \<Rightarrow> (CONNECT_WAIT_MS, []))"

definition on_bull_event :: "client_event \<Rightarrow> bool \<times> string list \<Rightarrow> bool \<times> string list" where
  "on_bull_event ev s = (case s of (errorLogged, lines) \<Rightarrow>
     (case ev of
        ClientError \<Rightarrow> if errorLogged then (errorLogged, lines) else (True, lines @ [''BullMQ Redis error''])
      | ClientReady \<Rightarrow> (False, lines)))"

text \<open>
  \<open>onApplicationShutdown\<close> of the same file: what is asked of the client, and whether it is open afterwards; \<open>quits\<close> says whether its \<open>quit\<close> succeeds.
\<close>

definition onApplicationShutdown :: "bool \<Rightarrow> bool \<Rightarrow> bool \<times> string list" where
  "onApplicationShutdown isOpen quits =
     (if \<not> isOpen then (False, []) else if quits then (False, [''quit'']) else (False, [''quit'', ''destroy'']))"

text \<open>\<open>onModuleInit\<close> of \<open>uploads.service.ts\<close>: uploads are switched on by three settings.\<close>

definition uploads_onModuleInit :: "process_env \<Rightarrow> cloudinary \<Rightarrow> cloudinary" where
  "uploads_onModuleInit env cl =
     (if list_all (\<lambda>name. env name \<noteq> None \<and> env name \<noteq> Some []) [''CLOUDINARY_CLOUD_NAME'', ''CLOUDINARY_API_KEY'', ''CLOUDINARY_API_SECRET'']
      then cl\<lparr>cd_configured := True\<rparr> else cl)"

text \<open>
  The adapter that connects the nodes needs the shared client and a second one of its own: without both the node serves its own sockets only.
  \<open>fresh\<close> and \<open>connects\<close> are the duplicate the client library makes and whether it connects in time.
\<close>

definition attachRedisAdapter :: "(nat \<Rightarrow> bool) \<Rightarrow> nat \<Rightarrow> bool \<Rightarrow> redis_service \<Rightarrow> (nat \<times> nat) option \<times> redis_service" where
  "attachRedisAdapter isReady fresh connects s =
     (case getClient isReady s of
        None \<Rightarrow> (None, s)
      | Some pubClient \<Rightarrow>
          (case createDedicatedClient isReady fresh connects s of
             (None, s1) \<Rightarrow> (None, s1)
           | (Some subClient, s1) \<Rightarrow> (Some (pubClient, subClient), s1)))"

section \<open>Properties\<close>

text \<open>The adapter never runs on one client only, and what it took is closed on shutdown.\<close>

lemma adapter_clients:
  assumes "attachRedisAdapter isReady fresh connects s = (Some (p, q), s')"
  shows "connects \<and> q = fresh \<and> rs_client s' = Some p \<and> p \<in> set (fst (quit s')) \<and> q \<in> set (fst (quit s'))"
  using assms by (auto simp: attachRedisAdapter_def getClient_def createDedicatedClient_def quit_def rs_write_def Let_def
      split: option.splits if_splits)

text \<open>Without one of the three settings every upload is refused before the service is called.\<close>

lemma uploads_need_settings:
  assumes "env name = None \<or> env name = Some []" "name \<in> {''CLOUDINARY_CLOUD_NAME'', ''CLOUDINARY_API_KEY'', ''CLOUDINARY_API_SECRET''}"
  shows "upload (uploads_onModuleInit env (cl\<lparr>cd_configured := False\<rparr>)) buffer options = Inl (ServiceUnavailableException ''File uploads are not available'')"
  using assms by (auto simp: upload_def uploads_onModuleInit_def)

text \<open>
  Readiness never lies: the report says 200 exactly when the database answered and Redis answered its ping, both in less than two seconds.
\<close>

theorem readiness_is_honest:
  "fst (ready (checkDb q) (checkRedis pong)) = 200 \<longleftrightarrow>
     (\<exists>t. q = Some (t, Inr ()) \<and> t < 2000) \<and> (\<exists>t. pong = Some (t, Inr True) \<and> t < 2000)"
  by (auto simp: ready_def checkDb_def checkRedis_def withTimeout_def CHECK_TIMEOUT_MS_def Let_def
      split: option.splits sum.splits if_splits)

lemma shutdown_again: "pc_shuttingDown p \<Longrightarrow> shutdownAfterFatal reason close now p = say reason p"
  by (simp add: shutdownAfterFatal_def)

lemma say_frame [simp]:
  "pc_shuttingDown (say l p) = pc_shuttingDown p" "pc_closes (say l p) = pc_closes p" "pc_exit (say l p) = pc_exit p"
  "pc_log (say l p) = pc_log p @ [l]"
  by (simp_all add: say_def)

lemma shutdown_first:
  assumes "\<not> pc_shuttingDown p" "p' = shutdownAfterFatal reason close now p" "\<forall>t r. close = Some (t, r) \<longrightarrow> 0 \<le> t"
  shows "pc_shuttingDown p' \<and> pc_closes p' = Suc (pc_closes p) \<and> (\<exists>t. pc_exit p' = Some (t, 1) \<and> now \<le> t \<and> t \<le> now + SHUTDOWN_TIMEOUT_MS)"
  using assms by (auto simp: shutdownAfterFatal_def Let_def SHUTDOWN_TIMEOUT_MS_def split: option.splits sum.splits if_splits)

text \<open>
  A fatal error ends the process, once. Whatever further exceptions follow, the application is closed one time, every exception
  is logged, and the process leaves with code 1 at most ten seconds after the first one, also when closing hangs.
\<close>

theorem fatal_error_exits_once:
  assumes "\<not> pc_shuttingDown p" "\<forall>t r. close = Some (t, r) \<longrightarrow> 0 \<le> t"
    and "p' = fold (\<lambda>(err, c, t). on_uncaughtException err c t) later (on_uncaughtException err close now p)"
  shows "pc_closes p' = Suc (pc_closes p) \<and> (\<exists>t. pc_exit p' = Some (t, 1) \<and> now \<le> t \<and> t \<le> now + 10000) \<and>
    (\<exists>ls. pc_log p' = pc_log (on_uncaughtException err close now p) @ ls \<and> ls = map (\<lambda>(err, c, t). ''Uncaught exception '' @ err) later)"
proof -
  define p1 where "p1 = on_uncaughtException err close now p"
  have first: "pc_shuttingDown p1" "pc_closes p1 = Suc (pc_closes p)" "\<exists>t. pc_exit p1 = Some (t, 1) \<and> now \<le> t \<and> t \<le> now + 10000"
    using shutdown_first[OF assms(1) _ assms(2), of p1 "''Uncaught exception '' @ err" now]
    by (auto simp: p1_def on_uncaughtException_def SHUTDOWN_TIMEOUT_MS_def)
  have "pc_shuttingDown q \<Longrightarrow> q' = fold (\<lambda>(err, c, t). on_uncaughtException err c t) later q \<Longrightarrow>
      pc_closes q' = pc_closes q \<and> pc_exit q' = pc_exit q \<and> pc_log q' = pc_log q @ map (\<lambda>(err, c, t). ''Uncaught exception '' @ err) later" for q q'
  proof (induction later arbitrary: q)
    case (Cons e es)
    obtain err c t where e: "e = (err, c, t)" by (cases e)
    then show ?case using Cons.IH[of "say (''Uncaught exception '' @ err) q"] Cons.prems
      by (simp add: on_uncaughtException_def shutdown_again)
  qed simp
  from this[OF first(1)] show ?thesis using first assms(3) by (simp add: p1_def)
qed

text \<open>
  A server that listens has a checked environment: its secret is long enough and none of its origins is a wildcard, whatever else
  happens during the start; a failed check leaves the process with code 1 and no server.
\<close>

theorem listening_server_has_checked_env:
  "(\<exists>config. pc_app (bootstrap number created listening now (p\<lparr>pc_app := None\<rparr>)) = Some config) \<longleftrightarrow>
     validateEnv (pc_env p) = Inr () \<and> created = Inr () \<and>
     listening \<lparr>ap_proxy = trust_proxy (pc_env p ''TRUST_PROXY''), ap_origins = getCorsOrigins (pc_env p), ap_port = listen_port number (pc_env p)\<rparr> = Inr ()"
  by (auto simp: bootstrap_def say_def Let_def bindE_def split: sum.splits)

end
