(* ===== verification/Rest_Api.thy ===== *)
theory Rest_Api
  imports Dto Server Bootstrap
begin

text \<open>
  The REST controllers: what a request passes before it reaches a service, in the order of NestJS (the global throttler of
  \<open>app-throttler.guard.ts\<close>, the guards of the route, the pipes of its parameters, the handler), and one definition for each route of
  \<open>auth.controller.ts\<close>, \<open>users.controller.ts\<close>, \<open>messages.controller.ts\<close>, \<open>channels.controller.ts\<close>, \<open>reactions.controller.ts\<close>,
  \<open>keys.controller.ts\<close>, \<open>audit.controller.ts\<close>, \<open>calls-history.controller.ts\<close>, \<open>livekit.controller.ts\<close>, \<open>uploads.controller.ts\<close> and
  \<open>health.controller.ts\<close>. The framework and its libraries are fields of the environment.
\<close>

section \<open>Requests and their environment\<close>

record http_request =
  hq_authorization :: "string option"
  hq_ip :: "string option"
  hq_body :: json
  hq_query :: json
  hq_param :: "string \<Rightarrow> string"
  hq_rawBody :: "string option"
  hq_file :: "IncomingFile option"

text \<open>
  \<open>en_bearer\<close> takes the token out of the header (passport-jwt), \<open>en_verify\<close> checks it and gives its \<open>sub\<close> (jsonwebtoken),
  \<open>en_queryFails\<close> tells whether the guard's query for a user id fails, \<open>en_run\<close> is the validation of a payload class (its first
  argument the option \<open>forbidNonWhitelisted\<close>), \<open>en_isUUID\<close> the test of \<open>ParseUUIDPipe\<close>, \<open>en_date\<close> the date of an ISO text,
  \<open>en_ids\<close> the row ids made while the request runs, \<open>en_dbPing\<close> and \<open>en_redisPing\<close> what the two pings of the readiness check do. The others are the arguments of the services.
\<close>

record rest_env =
  en_apiLimit :: int
  en_bearer :: "string \<Rightarrow> string option"
  en_verify :: "string \<Rightarrow> time \<Rightarrow> json option option"
  en_queryFails :: "string \<Rightarrow> string option"
  en_run :: "bool \<Rightarrow> rule list \<Rightarrow> json \<Rightarrow> ValidationError list \<times> json"
  en_isUUID :: "string \<Rightarrow> bool"
  en_hashKey :: "string \<Rightarrow> string"
  en_date :: "string \<Rightarrow> time"
  en_ids :: "nat \<Rightarrow> string"
  en_cf :: crypto_fns
  en_ttl :: int
  en_secret :: string
  en_random :: bytes
  en_register :: RegisterRandom
  en_auditOk :: bool
  en_rerr :: json
  en_signed :: "string \<Rightarrow> string \<Rightarrow> string \<Rightarrow> bool"
  en_fault :: "nat \<Rightarrow> thrown option"
  en_fetch :: "string \<Rightarrow> uid option list option"
  en_queueUp :: bool
  en_lk :: livekit_sdk
  en_webhook :: "string \<Rightarrow> string \<Rightarrow> WebhookEvent option"
  en_dbOk :: bool
  en_cloud :: cloudinary
  en_dbPing :: "unit promise"
  en_redisPing :: "bool promise"

section \<open>Guards and pipes\<close>

text \<open>The throttler of \<open>app.module.ts\<close>: 60 seconds, one counter per user or address over all routes.\<close>

definition app_throttler :: "rest_env \<Rightarrow> http_request \<Rightarrow> time \<Rightarrow> world \<Rightarrow> (thrown + unit) \<times> world" where
  "app_throttler env req now w =
     (let subject = (\<lambda>token. map_option (\<lambda>sub. case sub of Some (JStr s) \<Rightarrow> Some s | _ \<Rightarrow> None) (en_verify env token now));
          tracker = getTracker subject (hq_authorization req) (hq_ip req);
          (record, w1) = storage_increment (generateKey tracker ''default'') 60000 (en_apiLimit env) ''default'' now w
      in (if ts_isBlocked record then Inl (HttpEx 429 (JStr ''ThrottlerException: Too Many Requests'') ''ThrottlerException: Too Many Requests'')
          else Inr (), w1))"

definition route_limit :: "rest_env \<Rightarrow> RouteRateLimit \<Rightarrow> string option \<Rightarrow> http_request \<Rightarrow> time \<Rightarrow> world \<Rightarrow> (thrown + unit) \<times> world" where
  "route_limit env options userId req now w =
     (case guard_canActivate (en_hashKey env) (Some options) True
             \<lparr>gq_userId = userId, gq_ip = hq_ip req, gq_username = jfield ''username'' (hq_body req)\<rparr> now w of
        (Inl (retryAfter, e), w1) \<Rightarrow> (Inl e, w1)
      | (Inr _, w1) \<Rightarrow> (Inr (), w1))"

definition jwt_guard :: "rest_env \<Rightarrow> http_request \<Rightarrow> time \<Rightarrow> db \<Rightarrow> thrown + AuthenticatedUser" where
  "jwt_guard env req now d =
     (case Option.bind (Option.bind (hq_authorization req) (en_bearer env)) (\<lambda>token. en_verify env token now) of
        None \<Rightarrow> Inl (UnauthorizedException ''Unauthorized'')
      | Some sub \<Rightarrow>
          (case validate (en_queryFails env) sub d of
             Inl e \<Rightarrow> Inl e
           | Inr None \<Rightarrow> Inl (UnauthorizedException ''Unauthorized'')
           | Inr (Some user) \<Rightarrow> Inr user))"

text \<open>
  The validation with \<open>whitelist: true\<close>, which both transports set; REST sets \<open>forbidNonWhitelisted\<close> as well, so that a
  property without a decorator is an error there and is left out on the socket.
\<close>

definition validateSync :: "rest_env \<Rightarrow> bool \<Rightarrow> rule list \<Rightarrow> json \<Rightarrow> ValidationError list \<times> json" where
  "validateSync env forbidNonWhitelisted rules payload = map_prod id (whitelist rules) (en_run env forbidNonWhitelisted rules payload)"

definition class_pipe :: "rest_env \<Rightarrow> rule list \<Rightarrow> json \<Rightarrow> thrown + json" where
  "class_pipe env rules payload =
     (case validateSync env True rules payload of (errors, dto) \<Rightarrow> if errors = [] then Inr dto else Inl (validation_exception errors))"

definition uuid_pipe :: "rest_env \<Rightarrow> string \<Rightarrow> thrown + string" where
  "uuid_pipe env s = (if en_isUUID env s then Inr s else Inl (BadRequestException ''Validation failed (uuid is expected)''))"

text \<open>The request up to its handler: for anyone, under a limit of its own, or for an active user.\<close>

definition anyone :: "rest_env \<Rightarrow> http_request \<Rightarrow> time \<Rightarrow> world \<Rightarrow> (world \<Rightarrow> (thrown + 'a) \<times> world) \<Rightarrow> (thrown + 'a) \<times> world" where
  "anyone env req now w h = bindW (app_throttler env req now w) (\<lambda>_. h)"

definition limited :: "rest_env \<Rightarrow> RouteRateLimit \<Rightarrow> rule list \<Rightarrow> http_request \<Rightarrow> time \<Rightarrow> world \<Rightarrow>
    (json \<Rightarrow> world \<Rightarrow> (thrown + 'a) \<times> world) \<Rightarrow> (thrown + 'a) \<times> world" where
  "limited env options rules req now w h =
     anyone env req now w (\<lambda>w1. bindW (route_limit env options None req now w1) (\<lambda>_ w2. bindW (class_pipe env rules (hq_body req), w2) h))"

definition as_user :: "rest_env \<Rightarrow> http_request \<Rightarrow> time \<Rightarrow> world \<Rightarrow> (AuthenticatedUser \<Rightarrow> world \<Rightarrow> (thrown + 'a) \<times> world) \<Rightarrow>
    (thrown + 'a) \<times> world" where
  "as_user env req now w h = anyone env req now w (\<lambda>w1. bindW (jwt_guard env req now (w_db w1), w1) h)"

text \<open>A service that works on the tables alone, and one that only reads them.\<close>

definition on_db :: "(db \<Rightarrow> (thrown + 'a) \<times> db) \<Rightarrow> world \<Rightarrow> (thrown + 'a) \<times> world" where
  "on_db f w = (case f (w_db w) of (r, d) \<Rightarrow> (r, w\<lparr>w_db := d\<rparr>))"

definition read_db :: "(db \<Rightarrow> thrown + 'a) \<Rightarrow> world \<Rightarrow> (thrown + 'a) \<times> world" where
  "read_db f w = (f (w_db w), w)"

text \<open>Reading the properties of an instance; an optional one may be absent or null.\<close>

definition str :: "string \<Rightarrow> json \<Rightarrow> string" where
  "str n dto = (case jfield n dto of Some (JStr s) \<Rightarrow> s | _ \<Rightarrow> [])"

definition str_opt :: "string \<Rightarrow> json \<Rightarrow> string option" where
  "str_opt n dto = (case jfield n dto of Some (JStr s) \<Rightarrow> Some s | _ \<Rightarrow> None)"

definition num_opt :: "string \<Rightarrow> json \<Rightarrow> int option" where
  "num_opt n dto = (case jfield n dto of Some (JNum k) \<Rightarrow> Some k | _ \<Rightarrow> None)"

definition num_or :: "string \<Rightarrow> int \<Rightarrow> json \<Rightarrow> int" where
  "num_or n k dto = (case num_opt n dto of Some i \<Rightarrow> i | None \<Rightarrow> k)"

definition arr :: "string \<Rightarrow> json \<Rightarrow> json list" where
  "arr n dto = (case jfield n dto of Some (JArr xs) \<Rightarrow> xs | _ \<Rightarrow> [])"

definition strs :: "string \<Rightarrow> json \<Rightarrow> string list" where
  "strs n dto = List.map_filter (\<lambda>v. case v of JStr s \<Rightarrow> Some s | _ \<Rightarrow> None) (arr n dto)"

section \<open>Auth\<close>

definition MINUTE :: int where "MINUTE = 60000"

definition auth_limit :: "string \<Rightarrow> int \<Rightarrow> bool \<Rightarrow> RouteRateLimit" where
  "auth_limit scope n byUsername =
     \<lparr>rr_scope = scope, rr_limit = n, rr_windowMs = MINUTE, rr_byUsername = byUsername, rr_byUser = False\<rparr>"

definition AuthController_register :: "rest_env \<Rightarrow> http_request \<Rightarrow> time \<Rightarrow> world \<Rightarrow> (thrown + user_row) \<times> world" where
  "AuthController_register env req now w =
     limited env (auth_limit ''register'' 5 False) RegisterDto req now w (\<lambda>body. on_db
       (register (en_cf env) (en_register env) (en_ids env 0) (en_auditOk env) (str ''username'' body) (str ''email'' body)
          (str ''password'' body) now))"

definition AuthController_loginStart :: "rest_env \<Rightarrow> http_request \<Rightarrow> time \<Rightarrow> world \<Rightarrow> (thrown + LoginStart) \<times> world" where
  "AuthController_loginStart env req now w =
     limited env (auth_limit ''login-start'' 10 True) LoginStartDto req now w (\<lambda>body.
       loginStart (en_cf env) (en_secret env) (en_random env) (en_rerr env) now (str ''username'' body))"

definition AuthController_loginFinish :: "rest_env \<Rightarrow> http_request \<Rightarrow> time \<Rightarrow> world \<Rightarrow> (thrown + LoginResult) \<times> world" where
  "AuthController_loginFinish env req now w =
     limited env (auth_limit ''login-finish'' 10 True) LoginFinishDto req now w (\<lambda>body.
       loginFinish (en_cf env) (en_ttl env) (en_random env) (en_ids env 0) (en_ids env 1) (en_auditOk env) (en_rerr env) now
         (str ''username'' body) (str ''A'' body) (str ''M1'' body) (hq_ip req))"

definition AuthController_getMe :: "rest_env \<Rightarrow> http_request \<Rightarrow> time \<Rightarrow> world \<Rightarrow> (thrown + user_row) \<times> world" where
  "AuthController_getMe env req now w =
     as_user env req now w (\<lambda>user. read_db (getProfile (jw_id user)))"

definition AuthController_logout :: "rest_env \<Rightarrow> http_request \<Rightarrow> time \<Rightarrow> world \<Rightarrow> (thrown + unit) \<times> world" where
  "AuthController_logout env req now w =
     as_user env req now w (\<lambda>user w1. (Inr (), logout (en_ids env 0) (en_auditOk env) now (jw_id user) w1))"

definition AuthController_refresh :: "rest_env \<Rightarrow> http_request \<Rightarrow> time \<Rightarrow> world \<Rightarrow> (thrown + Tokens) \<times> world" where
  "AuthController_refresh env req now w =
     limited env (auth_limit ''refresh'' 30 False) RefreshDto req now w (\<lambda>body. on_db
       (auth_refreshTokens (en_cf env) (en_ttl env) (en_random env) (en_ids env 0) (str ''refreshToken'' body) now))"

section \<open>Users\<close>

definition UsersController_updateMe :: "rest_env \<Rightarrow> http_request \<Rightarrow> time \<Rightarrow> world \<Rightarrow> (thrown + user_row) \<times> world" where
  "UsersController_updateMe env req now w =
     as_user env req now w (\<lambda>user w1. bindW (class_pipe env UpdateProfileDto (hq_body req), w1) (\<lambda>body. on_db (\<lambda>d.
       case updateProfile (jw_id user) (str ''username'' body) now d of Inl e \<Rightarrow> (Inl e, d) | Inr (row, d') \<Rightarrow> (Inr row, d'))))"

definition UsersController_search :: "rest_env \<Rightarrow> http_request \<Rightarrow> time \<Rightarrow> world \<Rightarrow> (thrown + public_user list) \<times> world" where
  "UsersController_search env req now w =
     as_user env req now w (\<lambda>user w1. bindW (class_pipe env SearchUsersQueryDto (hq_query req), w1) (\<lambda>query. read_db (\<lambda>d.
       Inr (search (str ''q'' query) (jw_id user) (nat (num_or ''limit'' 20 query)) d))))"

definition UsersController_getOnline :: "rest_env \<Rightarrow> http_request \<Rightarrow> time \<Rightarrow> world \<Rightarrow> (thrown + uid list) \<times> world" where
  "UsersController_getOnline env req now w =
     as_user env req now w (\<lambda>user w1. bindW (class_pipe env OnlineUsersQueryDto (hq_query req), w1) (\<lambda>query w2.
       (Inr (getOnlineUsers now (strs ''ids'' query) w2), w2)))"

definition UsersController_findOne :: "rest_env \<Rightarrow> http_request \<Rightarrow> time \<Rightarrow> world \<Rightarrow> (thrown + (public_user \<times> time option)) \<times> world" where
  "UsersController_findOne env req now w =
     as_user env req now w (\<lambda>user w1. bindW (uuid_pipe env (hq_param req ''id''), w1) (\<lambda>i. read_db (findPublicById i)))"

section \<open>Messages\<close>

text \<open>
  The input of \<open>send\<close>, \<open>{ userId, ...dto }\<close>: a property \<open>userId\<close> of the instance would win over the user of the request; a null message type is not undefined, and no member of \<open>MESSAGE_TYPES\<close>; the sequence number of the payload is not used.
\<close>

definition send_input :: "uid \<Rightarrow> json \<Rightarrow> SendMessageInput" where
  "send_input userId dto = \<lparr>si_userId = (case jfield ''userId'' dto of None \<Rightarrow> userId | Some (JStr s) \<Rightarrow> s | Some _ \<Rightarrow> []),
     si_channelId = str ''channelId'' dto, si_encryptedContent = str_opt ''encryptedContent'' dto,
     si_contentIv = str ''contentIv'' dto, si_contentTag = str ''contentTag'' dto, si_signature = str ''signature'' dto,
     si_senderKeyEpoch = num_or ''senderKeyEpoch'' 0 dto,
     si_messageType = map_option (\<lambda>v. case v of JStr s \<Rightarrow> s | _ \<Rightarrow> []) (jfield ''messageType'' dto),
     si_metadata = jfield ''metadata'' dto\<rparr>"

lemma whitelisted_sender [simp]: "si_userId (send_input userId (whitelist SendMessageDto dto)) = userId"
  by (simp add: send_input_def whitelist_field SendMessageDto_def)

definition page_mode :: "string option \<Rightarrow> MessagePageMode" where
  "page_mode mode = (if mode = Some ''latest'' then Latest else if mode = Some ''since'' then Since else Before)"

definition MessagesController_send :: "rest_env \<Rightarrow> http_request \<Rightarrow> time \<Rightarrow> world \<Rightarrow> (thrown + MessagePayload) \<times> world" where
  "MessagesController_send env req now w =
     as_user env req now w (\<lambda>user w1. bindW (class_pipe env SendMessageDto (hq_body req), w1) (\<lambda>dto.
       send (en_signed env) (en_fault env) (en_ids env) (en_fetch env) (en_queueUp env) (send_input (jw_id user) dto) None now))"

definition MessagesController_getMessages :: "rest_env \<Rightarrow> http_request \<Rightarrow> time \<Rightarrow> world \<Rightarrow> (thrown + MessagePage) \<times> world" where
  "MessagesController_getMessages env req now w =
     as_user env req now w (\<lambda>user w1. bindW (uuid_pipe env (hq_param req ''channelId''), w1) (\<lambda>channelId w2.
       bindW (class_pipe env GetMessagesQueryDto (hq_query req), w2) (\<lambda>query.
         getMessages channelId (jw_id user) (num_or ''limit'' 50 query) (num_opt ''cursor'' query) (page_mode (str_opt ''mode'' query)) now)))"

definition MessagesController_deleteMessage :: "rest_env \<Rightarrow> http_request \<Rightarrow> time \<Rightarrow> world \<Rightarrow> (thrown + cid) \<times> world" where
  "MessagesController_deleteMessage env req now w =
     as_user env req now w (\<lambda>user w1. bindW (uuid_pipe env (hq_param req ''messageId''), w1) (\<lambda>messageId.
       deleteMessage (jw_id user) messageId now))"

section \<open>Channels\<close>

definition ChannelsController_create :: "rest_env \<Rightarrow> http_request \<Rightarrow> time \<Rightarrow> world \<Rightarrow> (thrown + CreateChannelResult) \<times> world" where
  "ChannelsController_create env req now w =
     as_user env req now w (\<lambda>user w1. bindW (class_pipe env CreateChannel_rules (hq_body req), w1) (\<lambda>dto.
       create (en_ids env 0) (\<lambda>k. en_ids env (Suc k)) (jw_id user) (strs ''participantIds'' dto) (str ''type'' dto) (str_opt ''name'' dto) now))"

definition ChannelsController_getInbox :: "rest_env \<Rightarrow> http_request \<Rightarrow> time \<Rightarrow> world \<Rightarrow> (thrown + inbox_entry list) \<times> world" where
  "ChannelsController_getInbox env req now w =
     as_user env req now w (\<lambda>user w1. (Inr (getInbox (jw_id user) now w1), w1))"

definition ChannelsController_markRead :: "rest_env \<Rightarrow> http_request \<Rightarrow> time \<Rightarrow> world \<Rightarrow> (thrown + bool) \<times> world" where
  "ChannelsController_markRead env req now w =
     as_user env req now w (\<lambda>user w1. bindW (class_pipe env MarkReadDto (hq_body req), w1) (\<lambda>dto.
       markRead (en_ids env 0) (jw_id user) (str ''channelId'' dto) (str ''lastReadMessageId'' dto) now))"

definition ChannelsController_getChannel :: "rest_env \<Rightarrow> http_request \<Rightarrow> time \<Rightarrow> world \<Rightarrow> (thrown + (channel_row \<times> string \<times> member_view list)) \<times> world" where
  "ChannelsController_getChannel env req now w =
     as_user env req now w (\<lambda>user w1. bindW (uuid_pipe env (hq_param req ''channelId''), w1) (\<lambda>channelId. read_db (getChannel channelId (jw_id user))))"

definition ChannelsController_addMember :: "rest_env \<Rightarrow> http_request \<Rightarrow> time \<Rightarrow> world \<Rightarrow> (thrown + string) \<times> world" where
  "ChannelsController_addMember env req now w =
     as_user env req now w (\<lambda>user w1. bindW (uuid_pipe env (hq_param req ''channelId''), w1) (\<lambda>channelId w2.
       bindW (class_pipe env AddMemberDto (hq_body req), w2) (\<lambda>dto.
         addMember (en_ids env 0) channelId (jw_id user) (str ''userId'' dto) (str_opt ''role'' dto) now)))"

definition ChannelsController_removeMember :: "rest_env \<Rightarrow> http_request \<Rightarrow> time \<Rightarrow> world \<Rightarrow> (thrown + uid option) \<times> world" where
  "ChannelsController_removeMember env req now w =
     as_user env req now w (\<lambda>user w1. bindW (uuid_pipe env (hq_param req ''channelId''), w1) (\<lambda>channelId w2.
       bindW (uuid_pipe env (hq_param req ''targetUserId''), w2) (\<lambda>targetUserId. removeMember channelId (jw_id user) targetUserId now)))"

definition ChannelsController_archive :: "rest_env \<Rightarrow> http_request \<Rightarrow> time \<Rightarrow> world \<Rightarrow> (thrown + bool) \<times> world" where
  "ChannelsController_archive env req now w =
     as_user env req now w (\<lambda>user w1. bindW (uuid_pipe env (hq_param req ''channelId''), w1) (\<lambda>channelId. archive channelId (jw_id user) now))"

definition ChannelsController_getTypingUsers :: "rest_env \<Rightarrow> http_request \<Rightarrow> time \<Rightarrow> world \<Rightarrow> (thrown + uid list) \<times> world" where
  "ChannelsController_getTypingUsers env req now w =
     as_user env req now w (\<lambda>user w1. bindW (uuid_pipe env (hq_param req ''channelId''), w1) (\<lambda>channelId. channel_getTypingUsers channelId (jw_id user) now))"

definition ChannelsController_getReadReceipts :: "rest_env \<Rightarrow> http_request \<Rightarrow> time \<Rightarrow> world \<Rightarrow> (thrown + (uid \<Rightarrow> mid option)) \<times> world" where
  "ChannelsController_getReadReceipts env req now w =
     as_user env req now w (\<lambda>user w1. bindW (uuid_pipe env (hq_param req ''channelId''), w1) (\<lambda>channelId. read_db (getReadReceipts channelId (jw_id user))))"

section \<open>Reactions and keys\<close>

definition actor :: "AuthenticatedUser \<Rightarrow> ReactionActor" where
  "actor user = \<lparr>ac_id = jw_id user, ac_username = jw_username user\<rparr>"

definition ReactionsController_addReaction :: "rest_env \<Rightarrow> http_request \<Rightarrow> time \<Rightarrow> world \<Rightarrow> (thrown + (add_action \<times> string list)) \<times> world" where
  "ReactionsController_addReaction env req now w =
     as_user env req now w (\<lambda>user w1. bindW (class_pipe env Reaction_rules (hq_body req), w1) (\<lambda>dto.
       addReaction (en_ids env 0) (actor user) (str ''channelId'' dto) (str ''messageId'' dto) (str ''emoji'' dto) now))"

definition ReactionsController_removeReaction :: "rest_env \<Rightarrow> http_request \<Rightarrow> time \<Rightarrow> world \<Rightarrow> (thrown + remove_action) \<times> world" where
  "ReactionsController_removeReaction env req now w =
     as_user env req now w (\<lambda>user w1. bindW (class_pipe env Reaction_rules (hq_body req), w1) (\<lambda>dto.
       removeReaction (actor user) (str ''channelId'' dto) (str ''messageId'' dto) (str ''emoji'' dto)))"

definition ReactionsController_getReactions :: "rest_env \<Rightarrow> http_request \<Rightarrow> time \<Rightarrow> world \<Rightarrow> (thrown + reaction_group list) \<times> world" where
  "ReactionsController_getReactions env req now w =
     as_user env req now w (\<lambda>user w1. bindW (uuid_pipe env (str ''messageId'' (hq_query req)), w1) (\<lambda>messageId w2.
       bindW (uuid_pipe env (str ''channelId'' (hq_query req)), w2) (\<lambda>channelId. read_db (getReactions messageId (jw_id user) channelId))))"

definition rotate_params :: "json \<Rightarrow> RotateKeysParams" where
  "rotate_params dto = \<lparr>rk_publicKey = str ''newPublicKey'' dto, rk_encryptedPrivateKey = str ''newEncryptedPrivateKey'' dto,
     rk_keySalt = str ''newKeySalt'' dto, rk_publicKeySign = str ''newPublicKeySign'' dto,
     rk_encryptedPrivateKeySign = str ''newEncryptedPrivateKeySign'' dto, rk_keySaltSign = str ''newKeySaltSign'' dto,
     rk_keyVersion = num_or ''newKeyVersion'' 0 dto\<rparr>"

definition sender_key_item :: "json \<Rightarrow> SenderKeyItem" where
  "sender_key_item item = \<lparr>sx_receiverId = str ''receiverId'' item, sx_encryptedKey = str ''encryptedKey'' item,
     sx_keySignature = str ''keySignature'' item\<rparr>"

definition KeysController_getMyKeys :: "rest_env \<Rightarrow> http_request \<Rightarrow> time \<Rightarrow> world \<Rightarrow> (thrown + user_row) \<times> world" where
  "KeysController_getMyKeys env req now w =
     as_user env req now w (\<lambda>user. read_db (getMyKeys (jw_id user)))"

definition KeysController_rotateKeys :: "rest_env \<Rightarrow> http_request \<Rightarrow> time \<Rightarrow> world \<Rightarrow> (thrown + int) \<times> world" where
  "KeysController_rotateKeys env req now w =
     as_user env req now w (\<lambda>user w1. bindW (class_pipe env RotateKeysDto (hq_body req), w1) (\<lambda>dto. on_db
       (rotateKeys (en_ids env 0) (en_auditOk env) (jw_id user) (rotate_params dto) now)))"

definition KeysController_getPublicKeys :: "rest_env \<Rightarrow> http_request \<Rightarrow> time \<Rightarrow> world \<Rightarrow> (thrown + (uid \<Rightarrow> public_keys option)) \<times> world" where
  "KeysController_getPublicKeys env req now w =
     as_user env req now w (\<lambda>user w1. bindW (class_pipe env PublicKeysQueryDto (hq_query req), w1) (\<lambda>query. read_db (\<lambda>d.
       Inr (getPublicKeys (strs ''userIds'' query) d))))"

definition KeysController_uploadSenderKeys :: "rest_env \<Rightarrow> http_request \<Rightarrow> time \<Rightarrow> world \<Rightarrow> (thrown + unit) \<times> world" where
  "KeysController_uploadSenderKeys env req now w =
     as_user env req now w (\<lambda>user w1. bindW (class_pipe env UploadSenderKeyDto (hq_body req), w1) (\<lambda>dto. on_db
       (uploadSenderKeys (en_ids env) (jw_id user) (str ''groupId'' dto) (num_or ''epoch'' 0 dto)
          (map sender_key_item (arr ''items'' dto)) now)))"

definition KeysController_getSenderKeys :: "rest_env \<Rightarrow> http_request \<Rightarrow> time \<Rightarrow> world \<Rightarrow> (thrown + sender_key_row list) \<times> world" where
  "KeysController_getSenderKeys env req now w =
     as_user env req now w (\<lambda>user w1. bindW (uuid_pipe env (hq_param req ''groupId''), w1) (\<lambda>groupId w2.
       bindW (class_pipe env SenderKeysQueryDto (hq_query req), w2) (\<lambda>query. read_db (\<lambda>d.
         Inr (getSenderKeys groupId (jw_id user) (num_opt ''epoch'' query) d)))))"

section \<open>Audit log, calls and files\<close>

definition log_query :: "rest_env \<Rightarrow> json \<Rightarrow> log_params" where
  "log_query env query =
     (let date = (\<lambda>n. case str_opt n query of Some s \<Rightarrow> if s = [] then None else Some (en_date env s) | None \<Rightarrow> None)
      in \<lparr>lp_userId = None, lp_action = str_opt ''action'' query, lp_from = date ''from'', lp_to = date ''to'',
          lp_limit = Some (nat (num_or ''limit'' 50 query)), lp_offset = Some (nat (num_or ''offset'' 0 query))\<rparr>)"

definition AuditController_getLogs :: "rest_env \<Rightarrow> http_request \<Rightarrow> time \<Rightarrow> world \<Rightarrow> (thrown + audit_row list) \<times> world" where
  "AuditController_getLogs env req now w =
     as_user env req now w (\<lambda>user w1. bindW (class_pipe env AuditLogsQueryDto (hq_query req), w1) (\<lambda>query. read_db (\<lambda>d.
       Inr (audit_getLogs (jw_id user) (log_query env query) d))))"

definition AuditController_getSecurityEvents :: "rest_env \<Rightarrow> http_request \<Rightarrow> time \<Rightarrow> world \<Rightarrow> (thrown + audit_row list) \<times> world" where
  "AuditController_getSecurityEvents env req now w =
     as_user env req now w (\<lambda>user. read_db (\<lambda>d. Inr (getSecurityEvents (jw_id user) d)))"

definition CallsHistoryController_getHistory :: "rest_env \<Rightarrow> http_request \<Rightarrow> time \<Rightarrow> world \<Rightarrow> (thrown + ((call_log_row \<times> call_participant_row list) list \<times> nat \<times> bool)) \<times> world" where
  "CallsHistoryController_getHistory env req now w =
     as_user env req now w (\<lambda>user w1. bindW (class_pipe env CallHistoryQueryDto (hq_query req), w1) (\<lambda>query. read_db (\<lambda>d.
       Inr (getHistory (jw_id user) (nat (num_or ''page'' 1 query)) (nat (num_or ''limit'' 20 query)) d))))"

definition CallsHistoryController_getHistoryWithUser :: "rest_env \<Rightarrow> http_request \<Rightarrow> time \<Rightarrow> world \<Rightarrow> (thrown + (call_log_row \<times> call_participant_row list) list) \<times> world" where
  "CallsHistoryController_getHistoryWithUser env req now w =
     as_user env req now w (\<lambda>user w1. bindW (uuid_pipe env (hq_param req ''userId''), w1) (\<lambda>otherUserId w2.
       bindW (class_pipe env CallHistoryWithUserQueryDto (hq_query req), w2) (\<lambda>query. read_db (\<lambda>d.
         Inr (getCallHistoryWithUser (jw_id user) otherUserId (nat (num_or ''limit'' 20 query)) d)))))"

definition LivekitController_getToken :: "rest_env \<Rightarrow> http_request \<Rightarrow> time \<Rightarrow> world \<Rightarrow> (thrown + (string \<times> string \<times> string)) \<times> world" where
  "LivekitController_getToken env req now w =
     as_user env req now w (\<lambda>user w1. bindW (class_pipe env LivekitTokenDto (hq_body req), w1) (\<lambda>body. read_db
       (getToken (en_lk env) (en_dbOk env) (str ''roomName'' body) (jw_id user) (jw_username user))))"

definition LivekitController_handleWebhook :: "rest_env \<Rightarrow> http_request \<Rightarrow> time \<Rightarrow> world \<Rightarrow> (thrown + unit) \<times> world" where
  "LivekitController_handleWebhook env req now w =
     anyone env req now w (on_db (handleWebhook (en_lk env) (en_webhook env) (en_dbOk env) (en_ids env 0) (hq_rawBody req) (hq_authorization req) now))"

text \<open>The interceptor of the route has left at most one file of at most 10 MB in the request.\<close>

definition UploadsController_uploadFile :: "rest_env \<Rightarrow> http_request \<Rightarrow> time \<Rightarrow> world \<Rightarrow> (thrown + UploadResult) \<times> world" where
  "UploadsController_uploadFile env req now w =
     as_user env req now w (\<lambda>user w1.
       bindW (route_limit env \<lparr>rr_scope = ''upload'', rr_limit = 20, rr_windowMs = 60000, rr_byUsername = False, rr_byUser = True\<rparr>
                (Some (jw_id user)) req now w1) (\<lambda>_ w2. (uploadFile (en_cloud env) (hq_file req), w2)))"

text \<open>\<open>HealthController\<close>: no throttler and no guard; the status of the readiness check is part of its answer.\<close>

definition HealthController_root :: "world \<Rightarrow> (thrown + string) \<times> world" where
  "HealthController_root w = (Inr ''ok'', w)"

definition HealthController_health :: "world \<Rightarrow> (thrown + string) \<times> world" where
  "HealthController_health w = (Inr ''ok'', w)"

definition HealthController_ready :: "rest_env \<Rightarrow> world \<Rightarrow> (thrown + (int \<times> ready_report)) \<times> world" where
  "HealthController_ready env w = (Inr (ready (checkDb (en_dbPing env)) (checkRedis (en_redisPing env))), w)"

definition HealthController_favicon :: "world \<Rightarrow> (thrown + unit) \<times> world" where
  "HealthController_favicon w = (Inr (), w)"

section \<open>The routes\<close>

datatype route =
    R_Auth_register | R_Auth_loginStart | R_Auth_loginFinish | R_Auth_getMe
  | R_Auth_logout | R_Auth_refresh | R_Users_updateMe | R_Users_search
  | R_Users_getOnline | R_Users_findOne | R_Messages_send | R_Messages_getMessages
  | R_Messages_deleteMessage | R_Channels_create | R_Channels_getInbox | R_Channels_markRead
  | R_Channels_getChannel | R_Channels_addMember | R_Channels_removeMember | R_Channels_archive
  | R_Channels_getTypingUsers | R_Channels_getReadReceipts | R_Reactions_addReaction | R_Reactions_removeReaction
  | R_Reactions_getReactions | R_Keys_getMyKeys | R_Keys_rotateKeys | R_Keys_getPublicKeys
  | R_Keys_uploadSenderKeys | R_Keys_getSenderKeys | R_Audit_getLogs | R_Audit_getSecurityEvents
  | R_CallsHistory_getHistory | R_CallsHistory_getHistoryWithUser | R_Livekit_getToken | R_Livekit_handleWebhook
  | R_Uploads_uploadFile | R_Health_root | R_Health_health | R_Health_ready | R_Health_favicon

text \<open>A request by its route: the status of the answer and the world it leaves.\<close>

definition answer :: "(thrown + 'a) \<times> world \<Rightarrow> (thrown + unit) \<times> world" where
  "answer rw = (case fst rw of Inl e \<Rightarrow> Inl e | Inr _ \<Rightarrow> Inr (), snd rw)"

fun rest_handle :: "rest_env \<Rightarrow> route \<Rightarrow> http_request \<Rightarrow> time \<Rightarrow> world \<Rightarrow> (thrown + unit) \<times> world" where
  "rest_handle env R_Auth_register req now w = answer (AuthController_register env req now w)"
| "rest_handle env R_Auth_loginStart req now w = answer (AuthController_loginStart env req now w)"
| "rest_handle env R_Auth_loginFinish req now w = answer (AuthController_loginFinish env req now w)"
| "rest_handle env R_Auth_getMe req now w = answer (AuthController_getMe env req now w)"
| "rest_handle env R_Auth_logout req now w = answer (AuthController_logout env req now w)"
| "rest_handle env R_Auth_refresh req now w = answer (AuthController_refresh env req now w)"
| "rest_handle env R_Users_updateMe req now w = answer (UsersController_updateMe env req now w)"
| "rest_handle env R_Users_search req now w = answer (UsersController_search env req now w)"
| "rest_handle env R_Users_getOnline req now w = answer (UsersController_getOnline env req now w)"
| "rest_handle env R_Users_findOne req now w = answer (UsersController_findOne env req now w)"
| "rest_handle env R_Messages_send req now w = answer (MessagesController_send env req now w)"
| "rest_handle env R_Messages_getMessages req now w = answer (MessagesController_getMessages env req now w)"
| "rest_handle env R_Messages_deleteMessage req now w = answer (MessagesController_deleteMessage env req now w)"
| "rest_handle env R_Channels_create req now w = answer (ChannelsController_create env req now w)"
| "rest_handle env R_Channels_getInbox req now w = answer (ChannelsController_getInbox env req now w)"
| "rest_handle env R_Channels_markRead req now w = answer (ChannelsController_markRead env req now w)"
| "rest_handle env R_Channels_getChannel req now w = answer (ChannelsController_getChannel env req now w)"
| "rest_handle env R_Channels_addMember req now w = answer (ChannelsController_addMember env req now w)"
| "rest_handle env R_Channels_removeMember req now w = answer (ChannelsController_removeMember env req now w)"
| "rest_handle env R_Channels_archive req now w = answer (ChannelsController_archive env req now w)"
| "rest_handle env R_Channels_getTypingUsers req now w = answer (ChannelsController_getTypingUsers env req now w)"
| "rest_handle env R_Channels_getReadReceipts req now w = answer (ChannelsController_getReadReceipts env req now w)"
| "rest_handle env R_Reactions_addReaction req now w = answer (ReactionsController_addReaction env req now w)"
| "rest_handle env R_Reactions_removeReaction req now w = answer (ReactionsController_removeReaction env req now w)"
| "rest_handle env R_Reactions_getReactions req now w = answer (ReactionsController_getReactions env req now w)"
| "rest_handle env R_Keys_getMyKeys req now w = answer (KeysController_getMyKeys env req now w)"
| "rest_handle env R_Keys_rotateKeys req now w = answer (KeysController_rotateKeys env req now w)"
| "rest_handle env R_Keys_getPublicKeys req now w = answer (KeysController_getPublicKeys env req now w)"
| "rest_handle env R_Keys_uploadSenderKeys req now w = answer (KeysController_uploadSenderKeys env req now w)"
| "rest_handle env R_Keys_getSenderKeys req now w = answer (KeysController_getSenderKeys env req now w)"
| "rest_handle env R_Audit_getLogs req now w = answer (AuditController_getLogs env req now w)"
| "rest_handle env R_Audit_getSecurityEvents req now w = answer (AuditController_getSecurityEvents env req now w)"
| "rest_handle env R_CallsHistory_getHistory req now w = answer (CallsHistoryController_getHistory env req now w)"
| "rest_handle env R_CallsHistory_getHistoryWithUser req now w = answer (CallsHistoryController_getHistoryWithUser env req now w)"
| "rest_handle env R_Livekit_getToken req now w = answer (LivekitController_getToken env req now w)"
| "rest_handle env R_Livekit_handleWebhook req now w = answer (LivekitController_handleWebhook env req now w)"
| "rest_handle env R_Uploads_uploadFile req now w = answer (UploadsController_uploadFile env req now w)"
| "rest_handle env R_Health_root req now w = answer (HealthController_root w)"
| "rest_handle env R_Health_health req now w = answer (HealthController_health w)"
| "rest_handle env R_Health_ready req now w = answer (HealthController_ready env w)"
| "rest_handle env R_Health_favicon req now w = answer (HealthController_favicon w)"

definition is_health :: "route \<Rightarrow> bool" where
  "is_health r \<longleftrightarrow> r \<in> {R_Health_root, R_Health_health, R_Health_ready, R_Health_favicon}"

definition is_public :: "route \<Rightarrow> bool" where
  "is_public r \<longleftrightarrow> r \<in> {R_Auth_register, R_Auth_loginStart, R_Auth_loginFinish, R_Auth_refresh, R_Livekit_handleWebhook} \<or> is_health r"

section \<open>What guards and pipes leave alone\<close>

text \<open>Counting a request changes the counters of the given keys and nothing else.\<close>

definition counted :: "string set \<Rightarrow> world \<Rightarrow> world \<Rightarrow> bool" where
  "counted ks w w' \<longleftrightarrow> (\<exists>cs. w' = upd_counters cs w \<and> (\<forall>k. k \<notin> ks \<longrightarrow> cs k = r_counters (w_redis w) k))"

lemma counted_refl: "counted ks w w"
  unfolding counted_def by (rule exI[of _ "r_counters (w_redis w)"]) (simp add: upd_counters_def)

lemma counted_trans:
  assumes "counted ks w w1" "counted ks w1 w2"
  shows "counted ks w w2"
proof -
  obtain c1 c2 where "w1 = upd_counters c1 w" "\<forall>k. k \<notin> ks \<longrightarrow> c1 k = r_counters (w_redis w) k"
    "w2 = upd_counters c2 w1" "\<forall>k. k \<notin> ks \<longrightarrow> c2 k = r_counters (w_redis w1) k" using assms unfolding counted_def by blast
  then show ?thesis unfolding counted_def by (intro exI[of _ c2]) (simp add: upd_counters_def)
qed

lemma counted_mono: "counted ks w w' \<Longrightarrow> ks \<subseteq> ks' \<Longrightarrow> counted ks' w w'"
  unfolding counted_def by blast

lemma counted_same:
  assumes "counted ks w w'"
  shows "w_db w' = w_db w" "w_link w' = w_link w" "k \<notin> ks \<Longrightarrow> r_counters (w_redis w') k = r_counters (w_redis w) k"
  using assms unfolding counted_def by auto

lemma limiter_increment_counted: "counted {key} w (snd (limiter_increment key win now w))"
proof (cases "w_link w")
  case Up
  let ?s = "fixed_window_script now (max 1 win) key (r_counters (w_redis w))"
  have "snd ?s k = r_counters (w_redis w) k" if "k \<noteq> key" for k
    using that by (simp add: fixed_window_script_def put_keep_def Let_def split: option.split)
  then show ?thesis using Up by (auto simp: limiter_increment_def counted_def split_beta Let_def intro!: exI[of _ "snd ?s"])
qed (simp_all add: limiter_increment_def counted_refl)

abbreviation throttle_keys :: "string set" where
  "throttle_keys \<equiv> range (\<lambda>k. RATE_LIMIT_PREFIX @ '':http-default:'' @ k)"

lemma app_throttler_counted: "counted throttle_keys w (snd (app_throttler env req now w))"
  unfolding app_throttler_def storage_increment_def Let_def split_beta
  by (auto intro!: counted_mono[OF limiter_increment_counted])

definition route_keys :: "rest_env \<Rightarrow> RouteRateLimit \<Rightarrow> string option \<Rightarrow> http_request \<Rightarrow> string set" where
  "route_keys env options userId req = (\<lambda>k. RATE_LIMIT_PREFIX @ '':'' @ rr_scope options @ '':'' @ k) `
     set (guard_keys (en_hashKey env) options \<lparr>gq_userId = userId, gq_ip = hq_ip req, gq_username = jfield ''username'' (hq_body req)\<rparr>)"

lemma guard_loop_counted:
  "counted ((\<lambda>k. RATE_LIMIT_PREFIX @ '':'' @ rr_scope options @ '':'' @ k) ` set keys) w (snd (guard_loop options now keys w))"
proof (induction keys arbitrary: w)
  case (Cons key keys)
  let ?f = "\<lambda>k. RATE_LIMIT_PREFIX @ '':'' @ rr_scope options @ '':'' @ k"
  obtain r w1 where h: "limiter_hit (rr_scope options) key (rr_limit options) (rr_windowMs options) now w = (r, w1)" by fastforce
  have "counted {?f key} w (snd (limiter_hit (rr_scope options) key (rr_limit options) (rr_windowMs options) now w))"
    using limiter_increment_counted by (simp add: limiter_hit_def split_beta Let_def)
  then have 1: "counted (?f ` set (key # keys)) w w1" using h by (auto intro: counted_mono)
  have 2: "counted (?f ` set (key # keys)) w1 (snd (guard_loop options now keys w1))" by (rule counted_mono[OF Cons.IH]) auto
  show ?case using h 1 counted_trans[OF 1 2] by simp
qed (simp add: counted_refl)

lemma route_limit_counted: "counted (route_keys env options userId req) w (snd (route_limit env options userId req now w))"
  using guard_loop_counted[of options _ w now]
  by (auto simp: route_limit_def guard_canActivate_def route_keys_def split: prod.split sum.split)
    (metis snd_conv)+

lemmas guarded_routes =
  AuthController_getMe_def AuthController_logout_def UsersController_updateMe_def
  UsersController_search_def UsersController_getOnline_def UsersController_findOne_def
  MessagesController_send_def MessagesController_getMessages_def MessagesController_deleteMessage_def
  ChannelsController_create_def ChannelsController_getInbox_def ChannelsController_markRead_def
  ChannelsController_getChannel_def ChannelsController_addMember_def ChannelsController_removeMember_def
  ChannelsController_archive_def ChannelsController_getTypingUsers_def ChannelsController_getReadReceipts_def
  ReactionsController_addReaction_def ReactionsController_removeReaction_def ReactionsController_getReactions_def
  KeysController_getMyKeys_def KeysController_rotateKeys_def KeysController_getPublicKeys_def
  KeysController_uploadSenderKeys_def KeysController_getSenderKeys_def AuditController_getLogs_def
  AuditController_getSecurityEvents_def CallsHistoryController_getHistory_def CallsHistoryController_getHistoryWithUser_def
  LivekitController_getToken_def UploadsController_uploadFile_def

lemmas public_routes =
  AuthController_register_def AuthController_loginStart_def AuthController_loginFinish_def
  AuthController_refresh_def LivekitController_handleWebhook_def

lemmas health_routes =
  HealthController_root_def HealthController_health_def HealthController_ready_def HealthController_favicon_def

section \<open>Who gets in\<close>

text \<open>Turned away: 401, 429, or the error of the guard's own query.\<close>

definition refused :: "rest_env \<Rightarrow> world \<Rightarrow> (thrown + unit) \<times> world \<Rightarrow> bool" where
  "refused env w rw \<longleftrightarrow> (\<exists>e w'. rw = (Inl e, w') \<and> counted throttle_keys w w' \<and>
     (e = UnauthorizedException ''Unauthorized'' \<or> (\<exists>body message. e = HttpEx 429 body message) \<or>
      (\<exists>sub code. en_queryFails env sub = Some code \<and> e = pg_error code)))"

lemma app_throttler_cases:
  obtains (passed) w1 where "app_throttler env req now w = (Inr (), w1)" "counted throttle_keys w w1"
  | (blocked) body message w1 where "app_throttler env req now w = (Inl (HttpEx 429 body message), w1)" "counted throttle_keys w w1"
proof -
  obtain x w1 where x: "app_throttler env req now w = (x, w1)" by fastforce
  then have "x = Inr () \<or> (\<exists>body message. x = Inl (HttpEx 429 body message))"
    unfolding app_throttler_def Let_def split_beta by (auto split: if_splits)
  then show thesis using x app_throttler_counted[of w env req now] passed blocked by auto
qed

lemma jwt_guard_Inl:
  assumes "jwt_guard env req now d = Inl e"
  shows "e = UnauthorizedException ''Unauthorized'' \<or> (\<exists>sub code. en_queryFails env sub = Some code \<and> e = pg_error code)"
  using assms by (auto simp: jwt_guard_def validate_def split: option.splits sum.splits json.splits if_splits)

lemma as_user_refused:
  assumes "jwt_guard env req now (w_db w) = Inl e"
  shows "refused env w (answer (as_user env req now w h))"
proof (cases rule: app_throttler_cases[of env req now w])
  case (passed w1)
  then have "jwt_guard env req now (w_db w1) = Inl e" using assms counted_same(1)[OF passed(2)] by simp
  then show ?thesis using passed jwt_guard_Inl[OF assms] by (auto simp: as_user_def anyone_def answer_def refused_def)
next
  case (blocked body message w1)
  then show ?thesis by (simp add: as_user_def anyone_def answer_def refused_def)
qed

lemma guarded_refused:
  assumes "\<not> is_public r" "jwt_guard env req now (w_db w) = Inl e"
  shows "refused env w (rest_handle env r req now w)"
  using assms by (cases r) (simp_all add: is_public_def is_health_def guarded_routes as_user_refused[OF assms(2)])

lemma jwt_guard_Inr:
  assumes "jwt_guard env req now d = Inr user"
  shows "\<exists>token sub u. Option.bind (hq_authorization req) (en_bearer env) = Some token \<and> en_verify env token now = Some (Some (JStr sub)) \<and>
    u \<in> set (users d) \<and> u_id u = to_lower sub \<and> u_isActive u \<and> jw_id user = u_id u"
proof -
  obtain token sub where t: "Option.bind (hq_authorization req) (en_bearer env) = Some token" "en_verify env token now = Some sub"
    "validate (en_queryFails env) sub d = Inr (Some user)"
    using assms by (auto simp: jwt_guard_def bind_eq_Some_conv split: option.splits sum.splits)
  from t(3) obtain s u where s: "sub = Some (JStr s)" "first_row (filter (\<lambda>u. u_id u = to_lower s) (users d)) = Some u" "u_isActive u"
    "jw_id user = u_id u" by (auto simp: validate_def split: option.splits json.splits if_splits)
  then show ?thesis using t first_row_filterD[OF s(2)] by auto
qed

lemma health_quiet: "is_health r \<Longrightarrow> rest_handle env r req now w = (Inr (), w)"
  by (auto simp: is_health_def health_routes answer_def)

text \<open>
  C21: Only active users get past the guard. A request to any route but registration, login, refresh, the
  LiveKit webhook and the health checks, whose token is missing, does not verify or names no active user, is answered with 401 (with
  429 when the caller is throttled, and with the error of the database when the guard's query of the user fails); the tables, Redis
  except for the throttler's counters, rooms, sockets and queues are as before. A request whose answer is a success was made with a
  token that verified for the id of an active user. The health checks answer anyone and change nothing.
\<close>

theorem rest_requires_active_user:
  "if is_public r then is_health r \<longrightarrow> rest_handle env r req now w = (Inr (), w)
   else
    ((\<forall>token sub. Option.bind (hq_authorization req) (en_bearer env) = Some token \<and> en_verify env token now = Some (Some (JStr sub)) \<longrightarrow>
      (\<forall>u \<in> set (users (w_db w)). u_id u = to_lower sub \<longrightarrow> \<not> u_isActive u)) \<longrightarrow> refused env w (rest_handle env r req now w)) \<and>
    (fst (rest_handle env r req now w) = Inr () \<longrightarrow> (\<exists>token sub u. Option.bind (hq_authorization req) (en_bearer env) = Some token \<and>
      en_verify env token now = Some (Some (JStr sub)) \<and> u \<in> set (users (w_db w)) \<and> u_id u = to_lower sub \<and> u_isActive u))"
proof (cases "is_public r")
  case True
  then show ?thesis using health_quiet by simp
next
  case False
  show ?thesis
  proof (cases "jwt_guard env req now (w_db w)")
    case (Inl e)
    then show ?thesis using False guarded_refused[OF False Inl] by (auto simp: refused_def)
  next
    case (Inr user)
    from jwt_guard_Inr[OF Inr] show ?thesis using False by auto
  qed
qed

section \<open>Requests as steps of the server\<close>

lemma anyone_run:
  assumes "\<And>w1. w_db w1 = w_db w \<Longrightarrow> server_step\<^sup>*\<^sup>* w1 (snd (h w1))"
  shows "server_step\<^sup>*\<^sup>* w (snd (anyone env req now w h))"
proof (cases rule: app_throttler_cases[of env req now w])
  case (passed w1)
  then show ?thesis using assms[of w1] counted_same(1)[OF passed(2)] quiet_run[of w1 w] by (simp add: anyone_def)
next
  case (blocked body message w1)
  then show ?thesis using counted_same(1)[OF blocked(2)] quiet_run[of w1 w] by (simp add: anyone_def)
qed

lemma pure_run: "(\<And>x. m = Inr x \<Longrightarrow> server_step\<^sup>*\<^sup>* w (snd (h x w))) \<Longrightarrow> server_step\<^sup>*\<^sup>* w (snd (bindW (m, w) h))"
  by (cases m) simp_all

lemma limited_run:
  assumes "\<And>x w1. server_step\<^sup>*\<^sup>* w1 (snd (h x w1))"
  shows "server_step\<^sup>*\<^sup>* w (snd (limited env options rules req now w h))"
  unfolding limited_def
  by (intro anyone_run bindW_run pure_run assms counted_same(1)[OF route_limit_counted])

lemma as_user_run:
  assumes "\<And>user w1. w_db w1 = w_db w \<Longrightarrow> jw_id user \<in> user_ids (w_db w) \<Longrightarrow> server_step\<^sup>*\<^sup>* w1 (snd (h user w1))"
  shows "server_step\<^sup>*\<^sup>* w (snd (as_user env req now w h))"
  unfolding as_user_def
proof (intro anyone_run pure_run)
  fix w1 :: world and user
  assume w1: "w_db w1 = w_db w" and "jwt_guard env req now (w_db w1) = Inr user"
  then have "jw_id user \<in> user_ids (w_db w)" using jwt_guard_Inr[of env req now "w_db w1" user] by auto
  then show "server_step\<^sup>*\<^sup>* w1 (snd (h user w1))" by (rule assms[OF w1])
qed

lemma answer_snd [simp]: "snd (answer rw) = snd rw"
  by (simp add: answer_def)

lemma read_db_run: "server_step\<^sup>*\<^sup>* w (snd (read_db f w))"
  by (simp add: read_db_def)

lemma on_db_run: "server_step w (w\<lparr>w_db := snd (f (w_db w))\<rparr>) \<Longrightarrow> server_step\<^sup>*\<^sup>* w (snd (on_db f w))"
  by (simp add: on_db_def split_beta)

lemma loginStart_db [simp]: "w_db (snd (loginStart cf secret random rerr now name w)) = w_db w"
  by (simp add: loginStart_def srpState_set_def Let_def split_beta with_redis_def split: prod.split sum.split link.split)

lemma typing_users_db [simp]: "w_db (snd (channel_getTypingUsers c u now w)) = w_db w"
  by (simp add: channel_getTypingUsers_def split_beta split: sum.split)

lemma updateMe_run:
  "server_step\<^sup>*\<^sup>* w (snd (on_db (\<lambda>d. case updateProfile u name now d of Inl e \<Rightarrow> (Inl e, d) | Inr (row, d') \<Rightarrow> (Inr row, d')) w))"
proof (cases "updateProfile u name now (w_db w)")
  case (Inl e)
  then show ?thesis by (simp add: on_db_def)
next
  case (Inr rd)
  then show ?thesis using step_profile[of u name now w "fst rd" "snd rd"] by (simp add: on_db_def split_beta)
qed

lemma on_db_runs:
  "server_step\<^sup>*\<^sup>* w (snd (on_db (register cf rr auditId ok username email password now) w))"
  "server_step\<^sup>*\<^sup>* w (snd (on_db (auth_refreshTokens cf ttl random rowId token now) w))"
  "server_step\<^sup>*\<^sup>* w (snd (on_db (rotateKeys auditId ok u params now) w))"
  "server_step\<^sup>*\<^sup>* w (snd (on_db (uploadSenderKeys keyId u g epoch items now) w))"
  "server_step\<^sup>*\<^sup>* w (snd (on_db (handleWebhook lk receive ok newId raw hdr now) w))"
  by (rule on_db_run, rule step_register step_refresh step_rotate step_senderKeys step_webhook)+

lemma quiet_services:
  "server_step\<^sup>*\<^sup>* w (snd (loginStart cf secret random rerr now name w))" "server_step\<^sup>*\<^sup>* w (snd (channel_getTypingUsers c u now w))"
  "server_step\<^sup>*\<^sup>* w (snd (getMessages c u n cur m now w))"
  by (simp_all add: quiet_run)

lemmas service_runs =
  on_db_runs updateMe_run quiet_services
  r_into_rtranclp[of server_step, OF step_login] r_into_rtranclp[of server_step, OF step_addMember]
  r_into_rtranclp[of server_step, OF step_removeMember] r_into_rtranclp[of server_step, OF step_archive]
  r_into_rtranclp[of server_step, OF step_markRead] r_into_rtranclp[of server_step, OF step_send]
  r_into_rtranclp[of server_step, OF step_delete] r_into_rtranclp[of server_step, OF step_react]
  r_into_rtranclp[of server_step, OF step_unreact] read_db_run

lemma public_route_run: "is_public r \<Longrightarrow> server_step\<^sup>*\<^sup>* w (snd (rest_handle env r req now w))"
  by (auto simp: is_public_def health_quiet public_routes intro!: limited_run anyone_run service_runs)

lemma guarded_route_run: "\<not> is_public r \<Longrightarrow> server_step\<^sup>*\<^sup>* w (snd (rest_handle env r req now w))"
  by (cases r)
    (auto simp: is_public_def is_health_def guarded_routes
      intro!: as_user_run pure_run service_runs r_into_rtranclp[of server_step, OF step_create]
        r_into_rtranclp[of server_step, OF step_logout] bindW_run counted_same(1)[OF route_limit_counted])

section \<open>Guessing passwords\<close>

lemma loginFinish_frame:
  "r_counters (w_redis (snd (loginFinish cf ttl random rowId auditId ok rerr now name A M1 ip w))) = r_counters (w_redis w)"
  "w_link (snd (loginFinish cf ttl random rowId auditId ok rerr now name A M1 ip w)) = w_link w"
proof -
  have c: "r_counters (w_redis (snd (srpState_consume rerr now name w))) = r_counters (w_redis w)"
    "w_link (snd (srpState_consume rerr now name w)) = w_link w"
    by (simp_all add: srpState_consume_def Let_def split: link.split)
  have f: "r_counters (w_redis (snd (finish_login cf ttl random rowId auditId ok now ip u M2 w1))) = r_counters (w_redis w1)"
    "w_link (snd (finish_login cf ttl random rowId auditId ok now ip u M2 w1)) = w_link w1" for u M2 w1
    by (simp_all add: finish_login_def setOnline_def with_redis_def Let_def split: prod.split sum.split link.split)
  obtain x w1 where x: "srpState_consume rerr now name w = (x, w1)" by fastforce
  then show "r_counters (w_redis (snd (loginFinish cf ttl random rowId auditId ok rerr now name A M1 ip w))) = r_counters (w_redis w)"
    "w_link (snd (loginFinish cf ttl random rowId auditId ok rerr now name A M1 ip w)) = w_link w"
    using c f by (simp_all add: loginFinish_def Let_def split: sum.split option.split)
qed

definition name_key :: "(string \<Rightarrow> string) \<Rightarrow> string \<Rightarrow> string" where
  "name_key hashKey name = ''username:'' @ hashKey (to_lower name)"

abbreviation login_key :: "(string \<Rightarrow> string) \<Rightarrow> string \<Rightarrow> string" where
  "login_key hashKey name \<equiv> RATE_LIMIT_PREFIX @ '':login-finish:'' @ name_key hashKey name"

text \<open>
  Runs in which \<open>n\<close> attempts to log in as \<open>name\<close> got past the limits within a minute from \<open>t0\<close>, between any other activity that
  neither loses Redis nor writes to the counter of that name.
\<close>

inductive guesses :: "(string \<Rightarrow> string) \<Rightarrow> string \<Rightarrow> time \<Rightarrow> world \<Rightarrow> nat \<Rightarrow> world \<Rightarrow> bool" for hashKey name t0 w where
  g_start: "guesses hashKey name t0 w 0 w"
| g_refused: "guesses hashKey name t0 w n w1 \<Longrightarrow> en_hashKey env = hashKey \<Longrightarrow> t0 \<le> now \<Longrightarrow> now < t0 + MINUTE \<Longrightarrow>
    jfield ''username'' (hq_body req) = Some (JStr typed) \<Longrightarrow> typed \<noteq> [] \<Longrightarrow> to_lower (js_trim typed) = to_lower name \<Longrightarrow>
    AuthController_loginFinish env req now w1 = (Inl (HttpEx 429 body message), w2) \<Longrightarrow> guesses hashKey name t0 w n w2"
| g_attempt: "guesses hashKey name t0 w n w1 \<Longrightarrow> en_hashKey env = hashKey \<Longrightarrow> t0 \<le> now \<Longrightarrow> now < t0 + MINUTE \<Longrightarrow>
    jfield ''username'' (hq_body req) = Some (JStr typed) \<Longrightarrow> typed \<noteq> [] \<Longrightarrow> to_lower (js_trim typed) = to_lower name \<Longrightarrow>
    AuthController_loginFinish env req now w1 = (r, w2) \<Longrightarrow> \<forall>body message. r \<noteq> Inl (HttpEx 429 body message) \<Longrightarrow>
    guesses hashKey name t0 w (Suc n) w2"
| g_other: "guesses hashKey name t0 w n w1 \<Longrightarrow> w_link w2 = w_link w1 \<Longrightarrow>
    r_counters (w_redis w2) (login_key hashKey name) = r_counters (w_redis w1) (login_key hashKey name) \<Longrightarrow> guesses hashKey name t0 w n w2"

text \<open>The counter of a window: untouched since \<open>t0\<close>, or open beyond the minute and at least as high as the passes.\<close>

definition window_inv :: "string \<Rightarrow> int \<Rightarrow> time \<Rightarrow> nat \<Rightarrow> world \<Rightarrow> bool" where
  "window_inv key lim t0 n w \<longleftrightarrow> w_link w = Up \<and> int n \<le> lim \<and>
     (n = 0 \<and> live t0 (r_counters (w_redis w)) key = None \<and> (\<forall>v. r_counters (w_redis w) key \<noteq> Some (v, None)) \<or>
      (\<exists>c e. r_counters (w_redis w) key = Some (c, Some e) \<and> t0 + MINUTE \<le> e \<and> 1 \<le> c \<and> int n \<le> c))"

lemma window_inv_same:
  "window_inv key lim t0 n w \<Longrightarrow> w_link w' = w_link w \<Longrightarrow> r_counters (w_redis w') key = r_counters (w_redis w) key \<Longrightarrow> window_inv key lim t0 n w'"
  by (simp add: window_inv_def live_def)

lemma window_inv_hit:
  assumes inv: "window_inv (RATE_LIMIT_PREFIX @ '':'' @ scope @ '':'' @ key) lim t0 n w" and t: "t0 \<le> now" "now < t0 + MINUTE" and "1 \<le> lim"
  shows "window_inv (RATE_LIMIT_PREFIX @ '':'' @ scope @ '':'' @ key) lim t0
    (if lr_allowed (fst (limiter_hit scope key lim MINUTE now w)) then Suc n else n) (snd (limiter_hit scope key lim MINUTE now w))"
proof -
  let ?k = "RATE_LIMIT_PREFIX @ '':'' @ scope @ '':'' @ key" and ?ks = "r_counters (w_redis w)"
  have up: "w_link w = Up" "int n \<le> lim" using inv by (simp_all add: window_inv_def)
  have hit: "limiter_hit scope key lim MINUTE now w = (\<lambda>((c, ttl), ks). (\<lparr>lr_allowed = c \<le> lim, lr_count = c, lr_limit = lim,
      lr_resetMs = max 0 ttl\<rparr>, upd_counters ks w)) (fixed_window_script now MINUTE ?k ?ks)"
    using up by (simp add: limiter_hit_def limiter_increment_def Let_def split_beta MINUTE_def)
  consider (fresh) "n = 0" "live t0 ?ks ?k = None" "\<forall>v. ?ks ?k \<noteq> Some (v, None)"
    | (opened) c e where "?ks ?k = Some (c, Some e)" "t0 + MINUTE \<le> e" "1 \<le> c" "int n \<le> c" using inv by (auto simp: window_inv_def)
  then show ?thesis
  proof cases
    case fresh
    have "fixed_window_script now MINUTE ?k ?ks = ((1, MINUTE), ?ks(?k \<mapsto> (1, Some (now + MINUTE))))"
      using fresh t(1) by (intro script_new) (auto simp: live_def split: if_splits)
    then show ?thesis using hit fresh(1) t(1) assms(4) up by (simp add: window_inv_def MINUTE_def)
  next
    case (opened c e)
    have "fixed_window_script now MINUTE ?k ?ks = ((c + 1, e - now), ?ks(?k \<mapsto> (c + 1, Some e)))"
      using opened t(2) by (intro script_open) auto
    then show ?thesis using hit opened up by (auto simp: window_inv_def)
  qed
qed

lemma window_inv_less: "window_inv key lim t0 (Suc n) w \<Longrightarrow> window_inv key lim t0 n w"
  by (auto simp: window_inv_def)

lemma login_key_other:
  "login_key hashKey name \<notin> throttle_keys" "login_key hashKey name \<noteq> RATE_LIMIT_PREFIX @ '':login-finish:ip:'' @ x"
  by (auto simp: RATE_LIMIT_PREFIX_def name_key_def)

lemma login_route_limit:
  assumes inv: "window_inv (login_key (en_hashKey env) name) 10 t0 n w" and t: "t0 \<le> now" "now < t0 + MINUTE"
    and name: "jfield ''username'' (hq_body req) = Some (JStr typed)" "typed \<noteq> []" "to_lower (js_trim typed) = to_lower name"
  obtains (passed) w1 where "route_limit env (auth_limit ''login-finish'' 10 True) None req now w = (Inr (), w1)"
      "window_inv (login_key (en_hashKey env) name) 10 t0 (Suc n) w1"
  | (refused) body message w1 where "route_limit env (auth_limit ''login-finish'' 10 True) None req now w = (Inl (HttpEx 429 body message), w1)"
      "window_inv (login_key (en_hashKey env) name) 10 t0 n w1"
proof -
  let ?ip = "''ip:'' @ en_hashKey env (case hq_ip req of Some ip \<Rightarrow> ip | None \<Rightarrow> ''unknown'')" and ?name = "name_key (en_hashKey env) name"
  let ?h = "\<lambda>key. limiter_hit ''login-finish'' key 10 MINUTE now"
  have keys: "guard_keys (en_hashKey env) (auth_limit ''login-finish'' 10 True)
      \<lparr>gq_userId = None, gq_ip = hq_ip req, gq_username = jfield ''username'' (hq_body req)\<rparr> = [?ip, ?name]"
    using name by (simp add: guard_keys_def auth_limit_def name_key_def)
  obtain r1 w1 where h1: "?h ?ip w = (r1, w1)" by fastforce
  obtain r2 w2 where h2: "?h ?name w1 = (r2, w2)" by fastforce
  have "counted {RATE_LIMIT_PREFIX @ '':'' @ ''login-finish'' @ '':'' @ ?ip} w (snd (?h ?ip w))"
    using limiter_increment_counted by (simp add: limiter_hit_def split_beta Let_def)
  then have "counted {RATE_LIMIT_PREFIX @ '':'' @ ''login-finish'' @ '':'' @ ?ip} w w1" using h1 by simp
  then have inv1: "window_inv (login_key (en_hashKey env) name) 10 t0 n w1"
    using window_inv_same[OF inv] counted_same(2,3) login_key_other(2) by simp
  then have inv2: "window_inv (login_key (en_hashKey env) name) 10 t0 (if lr_allowed r2 then Suc n else n) w2"
    using window_inv_hit[of "''login-finish''" ?name 10 t0 n w1 now] t h2 by simp
  have eq: "route_limit env (auth_limit ''login-finish'' 10 True) None req now w =
      (if \<not> lr_allowed r1 then (Inl (snd (guard_exception r1)), w1)
       else if \<not> lr_allowed r2 then (Inl (snd (guard_exception r2)), w2) else (Inr (), w2))"
    unfolding route_limit_def guard_canActivate_def keys option.case using h1 h2 by (simp add: auth_limit_def split_beta)
  show thesis using eq inv1 inv2 passed[of w2] refused[of _ _ w1] refused[of _ _ w2] by (auto simp: guard_exception_def split: if_splits)
qed

lemma loginFinish_window:
  assumes inv: "window_inv (login_key (en_hashKey env) name) 10 t0 n w" and t: "t0 \<le> now" "now < t0 + MINUTE"
    and name: "jfield ''username'' (hq_body req) = Some (JStr typed)" "typed \<noteq> []" "to_lower (js_trim typed) = to_lower name"
    and r: "AuthController_loginFinish env req now w = (r, w')"
  shows "window_inv (login_key (en_hashKey env) name) 10 t0 (if \<exists>body message. r = Inl (HttpEx 429 body message) then n else Suc n) w'"
proof (cases rule: app_throttler_cases[of env req now w])
  case (blocked body message w1)
  then have "window_inv (login_key (en_hashKey env) name) 10 t0 n w1"
    using window_inv_same[OF inv counted_same(2)[OF blocked(2)]] counted_same(3)[OF blocked(2)] login_key_other(1) by blast
  then show ?thesis using r blocked by (auto simp: AuthController_loginFinish_def limited_def anyone_def)
next
  case (passed w1)
  note thr = passed(1)
  have inv1: "window_inv (login_key (en_hashKey env) name) 10 t0 n w1"
    using window_inv_same[OF inv counted_same(2)[OF passed(2)]] counted_same(3)[OF passed(2)] login_key_other(1) by blast
  show ?thesis
  proof (rule login_route_limit[OF inv1 t name])
    fix w2
    assume ok: "route_limit env (auth_limit ''login-finish'' 10 True) None req now w1 = (Inr (), w2)"
      "window_inv (login_key (en_hashKey env) name) 10 t0 (Suc n) w2"
    have "w_link w' = w_link w2 \<and> r_counters (w_redis w') = r_counters (w_redis w2)"
    proof (cases "class_pipe env LoginFinishDto (hq_body req)")
      case (Inr body)
      then have "w' = snd (loginFinish (en_cf env) (en_ttl env) (en_random env) (en_ids env 0) (en_ids env 1) (en_auditOk env) (en_rerr env) now
         (str ''username'' body) (str ''A'' body) (str ''M1'' body) (hq_ip req) w2)"
        using r thr ok(1) by (simp add: AuthController_loginFinish_def limited_def anyone_def)
      then show ?thesis by (simp add: loginFinish_frame)
    qed (use r thr ok(1) in \<open>auto simp: AuthController_loginFinish_def limited_def anyone_def\<close>)
    then have "window_inv (login_key (en_hashKey env) name) 10 t0 (Suc n) w'" using window_inv_same[OF ok(2)] by simp
    then show ?thesis using window_inv_less by simp
  next
    fix body message w2
    assume "route_limit env (auth_limit ''login-finish'' 10 True) None req now w1 = (Inl (HttpEx 429 body message), w2)"
      "window_inv (login_key (en_hashKey env) name) 10 t0 n w2"
    then show ?thesis using r thr by (auto simp: AuthController_loginFinish_def limited_def anyone_def)
  qed
qed

text \<open>
  C20: Guessing a password is slow. While Redis is up, at most 10 attempts to log in under one user name, in any spelling of
  its letters and with any surrounding blanks, from any number of addresses and between any other requests, get as far as the
  check of the proof within a minute from a moment at which no window of that name is open; all others are answered with 429.
\<close>

theorem password_guesses_limited:
  assumes "guesses hashKey name t0 w n w'" "w_link w = Up" "live t0 (r_counters (w_redis w)) (login_key hashKey name) = None"
  shows "n \<le> 10"
proof -
  have "\<forall>v. r_counters (w_redis w) (login_key hashKey name) \<noteq> Some (v, None)" using assms(3) by (auto simp: live_def)
  then have start: "window_inv (login_key hashKey name) 10 t0 0 w" using assms(2,3) by (simp add: window_inv_def)
  have "window_inv (login_key hashKey name) 10 t0 n w'" using assms(1)
  proof (induction rule: guesses.induct)
    case (g_refused n w1 env now req typed body message w2)
    then show ?case using loginFinish_window[of env name t0 n w1 now req typed _ w2] by fastforce
  next
    case (g_attempt n w1 env now req typed r w2)
    then show ?case using loginFinish_window[of env name t0 n w1 now req typed r w2] by simp
  next
    case (g_other n w1 w2)
    then show ?case using window_inv_same by blast
  qed (rule start)
  then show ?thesis by (simp add: window_inv_def)
qed

definition sample_env :: rest_env where
  "sample_env = \<lparr>en_apiLimit = 300, en_bearer = (\<lambda>h. Some (drop 7 h)), en_verify = (\<lambda>token now. if token = [] then None else Some (Some (JStr token))),
     en_queryFails = (\<lambda>s. None), en_run = run_rules (\<lambda>e. e \<noteq> []) (\<lambda>d. True), en_isUUID = is_uuid, en_hashKey = (\<lambda>s. s), en_date = (\<lambda>s. 0), en_ids = show_nat,
     en_cf = sample_cf, en_ttl = 900, en_secret = ''key'', en_random = [12, 13], en_register = sample_random, en_auditOk = True, en_rerr = JNull,
     en_signed = (\<lambda>m s k. True), en_fault = (\<lambda>k. None), en_fetch = (\<lambda>c. None), en_queueUp = True, en_lk = sample_sdk,
     en_webhook = (\<lambda>raw h. None), en_dbOk = True, en_cloud = \<lparr>cd_configured = False, cd_upload = (\<lambda>opts b. None), cd_thumbnail = id\<rparr>,
     en_dbPing = Some (1, Inr ()), en_redisPing = Some (1, Inr True)\<rparr>"

definition sample_request :: "string option \<Rightarrow> json \<Rightarrow> http_request" where
  "sample_request authorization body = \<lparr>hq_authorization = authorization, hq_ip = Some ''10.0.0.1'', hq_body = body, hq_query = JObj [],
     hq_param = (\<lambda>n. []), hq_rawBody = None, hq_file = None\<rparr>"

theorem password_guesses_limited_witness:
  "\<exists>n w'. guesses (\<lambda>s. s) ''bob'' 0 empty_world n w' \<and> 1 \<le> n \<and> n \<le> 10"
proof -
  let ?req = "sample_request None (JObj [(''username'', JStr '' Bob''), (''A'', JStr ''ff''), (''M1'', JStr ''00'')])"
  have "jfield ''username'' (hq_body ?req) = Some (JStr '' Bob'')" "en_hashKey sample_env = (\<lambda>s. s)"
    by (simp_all add: sample_request_def sample_env_def)
  moreover have "to_lower (js_trim '' Bob'') = to_lower ''bob''" by code_simp
  moreover obtain r w2 where r: "AuthController_loginFinish sample_env ?req 5 empty_world = (r, w2)" by fastforce
  have "(case fst (AuthController_loginFinish sample_env ?req 5 empty_world) of Inl (HttpEx c body m) \<Rightarrow> c \<noteq> 429 | _ \<Rightarrow> True)" by code_simp
  then have "\<forall>body message. r \<noteq> Inl (HttpEx 429 body message)" using r by auto
  ultimately have g: "guesses (\<lambda>s. s) ''bob'' 0 empty_world (Suc 0) w2"
    using r g_attempt[OF g_start, of sample_env "\<lambda>s. s" 0 5 ?req "'' Bob''" "''bob''" empty_world r w2] by (simp add: MINUTE_def)
  then have "Suc 0 \<le> 10" by (rule password_guesses_limited) (simp_all add: empty_redis_def live_def)
  then show ?thesis using g by auto
qed

theorem rest_requires_active_user_witness:
  "refused sample_env empty_world (rest_handle sample_env R_Auth_logout (sample_request (Some ''Bearer u1'') JNull) 0 empty_world) \<and>
   rest_handle sample_env R_Health_ready (sample_request None JNull) 0 empty_world = (Inr (), empty_world)"
  using rest_requires_active_user[of R_Auth_logout sample_env "sample_request (Some ''Bearer u1'') JNull" 0 empty_world]
    rest_requires_active_user[of R_Health_ready sample_env "sample_request None JNull" 0 empty_world]
  by (simp add: is_public_def is_health_def empty_db_def)

end
