(* ===== verification/Socket_Events.thy ===== *)
theory Socket_Events
  imports Rest_Api
begin

text \<open>
  The socket events as the server receives them: which events the three gateways subscribe to (\<open>chat.gateway.ts\<close>,
  \<open>socket.gateway.ts\<close>, \<open>calls.gateway.ts\<close>), which of them stand behind \<open>SocketAuthGuard\<close>, and the handler each one reaches with the
  validation of its payload class. The counterpart of the REST routes of \<open>Rest_Api\<close>.
\<close>

section \<open>Events and answers\<close>

datatype socket_event =
    E_send_message | E_get_messages | E_mark_read | E_get_unread | E_get_pending
  | E_reaction_add | E_reaction_remove | E_reaction_removed
  | E_presence_bulk | E_create_or_join | E_join_channel | E_leave_channel | E_typing_start | E_typing_stop | E_heartbeat
  | E_call_invite | E_call_accept | E_call_reject | E_call_offer | E_call_answer | E_call_ice_candidate | E_call_hangup
  | E_call_initiate | E_call_livekit_fallback | E_call_livekit_active | E_call_livekit_join_group

text \<open>The acknowledgement of an event; \<open>A_blocked\<close> is an event the guard has stopped.\<close>

datatype event_answer =
    A_blocked
  | A_error SocketErrorAck
  | A_ack ack
  | A_message MessagePayload
  | A_page MessagePage
  | A_read bool
  | A_counts "cid \<Rightarrow> int option"
  | A_pending pending_reply
  | A_reacted "add_action \<times> string list"
  | A_unreacted remove_action
  | A_online "uid list"
  | A_channel "cid \<times> bool"
  | A_success unit

text \<open>
  The libraries of a gateway: those of the connection, those of the services, and the participants LiveKit lists for a room.
\<close>

record socket_env =
  se_gate :: gate_env
  se_rest :: rest_env
  se_participants :: "string \<Rightarrow> string list option"

section \<open>The guard and the payloads\<close>

definition guarded ::
  "socket_env \<Rightarrow> handshake \<Rightarrow> time \<Rightarrow> socket_client \<Rightarrow> gateway \<Rightarrow>
   (SocketAuthUser \<Rightarrow> socket_client \<Rightarrow> gateway \<Rightarrow> event_answer \<times> socket_client \<times> gateway) \<Rightarrow> event_answer \<times> socket_client \<times> gateway" where
  "guarded env hs now c g h =
     (let (ok, c1) = canActivate (se_gate env) hs now (w_db (gw_world g)) c
      in if \<not> ok then (A_blocked, c1, g)
         else (case so_user c1 of None \<Rightarrow> (A_blocked, c1, g) | Some u \<Rightarrow> h u c1 g))"

text \<open>A handler that works on the world and leaves the socket alone, and one that also changes the socket.\<close>

definition in_world :: "('a \<Rightarrow> event_answer) \<Rightarrow> (world \<Rightarrow> 'a reply \<times> world) \<Rightarrow> socket_client \<Rightarrow> gateway \<Rightarrow> event_answer \<times> socket_client \<times> gateway" where
  "in_world conv h c g =
     (let (r, w) = h (gw_world g) in (case r of Inl e \<Rightarrow> A_error e | Inr x \<Rightarrow> conv x, c, g\<lparr>gw_world := w\<rparr>))"

definition with_client ::
  "('a \<Rightarrow> event_answer) \<Rightarrow> (socket_client \<Rightarrow> world \<Rightarrow> 'a reply \<times> socket_client \<times> world) \<Rightarrow> socket_client \<Rightarrow> gateway \<Rightarrow>
   event_answer \<times> socket_client \<times> gateway" where
  "with_client conv h c g =
     (let (r, c1, w) = h c (gw_world g) in (case r of Inl e \<Rightarrow> A_error e | Inr x \<Rightarrow> conv x, c1, g\<lparr>gw_world := w\<rparr>))"

text \<open>The \<open>user\<close> of \<open>CallsGateway\<close>: whoever the socket was authenticated for; no guard has run.\<close>

definition calls_user :: "socket_client \<Rightarrow> SocketUser option" where
  "calls_user c = map_option (\<lambda>u. \<lparr>su_id = su_id u, su_username = su_username u\<rparr>) (so_user c)"

definition call_event :: "(SocketUser option \<Rightarrow> world \<Rightarrow> ack \<times> world) \<Rightarrow> socket_client \<Rightarrow> gateway \<Rightarrow> event_answer \<times> socket_client \<times> gateway" where
  "call_event h c g = (let (a, w) = h (calls_user c) (gw_world g) in (A_ack a, c, g\<lparr>gw_world := w\<rparr>))"

text \<open>\<open>payload\<close> of \<open>calls.gateway.ts\<close>: what is neither an object nor an array reads like an empty object.\<close>

definition payload :: "json \<Rightarrow> json" where
  "payload data = (case data of JObj _ \<Rightarrow> data | JArr _ \<Rightarrow> data | _ \<Rightarrow> JObj [])"

text \<open>
  What \<open>validatePayload\<close> makes of each class: \<open>whitelist: true\<close> without \<open>forbidNonWhitelisted\<close>. The instance of a message
  has no property \<open>userId\<close>, since no rule names one, so spreading it leaves the sender alone.
\<close>

definition valid_message :: "rest_env \<Rightarrow> json \<Rightarrow> ValidationError list \<times> (uid \<Rightarrow> SendMessageInput)" where
  "valid_message env data = map_prod id (\<lambda>dto userId. send_input userId dto) (validateSync env False SendMessageDto data)"

definition valid_page :: "rest_env \<Rightarrow> json \<Rightarrow> ValidationError list \<times> GetMessagesSocketDto" where
  "valid_page env data = map_prod id (\<lambda>dto. \<lparr>gm_channelId = str ''channelId'' dto, gm_limit = num_opt ''limit'' dto,
     gm_cursor = num_opt ''cursor'' dto, gm_mode = map_option (\<lambda>m. page_mode (Some m)) (str_opt ''mode'' dto)\<rparr>)
     (validateSync env False GetMessagesSocket_rules data)"

definition valid_mark :: "rest_env \<Rightarrow> json \<Rightarrow> ValidationError list \<times> MarkReadSocketDto" where
  "valid_mark env data = map_prod id (\<lambda>dto. \<lparr>mrs_channelId = str ''channelId'' dto, mrs_messageId = str ''messageId'' dto\<rparr>)
     (validateSync env False MarkReadSocket_rules data)"

definition valid_reaction :: "rest_env \<Rightarrow> json \<Rightarrow> ValidationError list \<times> ReactionDto" where
  "valid_reaction env data = map_prod id (\<lambda>dto. \<lparr>rd_channelId = str ''channelId'' dto, rd_messageId = str ''messageId'' dto,
     rd_emoji = str ''emoji'' dto\<rparr>) (validateSync env False Reaction_rules data)"

definition valid_presence :: "rest_env \<Rightarrow> json \<Rightarrow> ValidationError list \<times> uid list option" where
  "valid_presence env data = map_prod id (\<lambda>dto. Some (strs ''userIds'' dto)) (validateSync env False PresenceBulkDto data)"

definition valid_channel :: "rest_env \<Rightarrow> json \<Rightarrow> ValidationError list \<times> CreateChannelDto" where
  "valid_channel env data = map_prod id (\<lambda>dto. \<lparr>cd_type = str ''type'' dto, cd_name = str_opt ''name'' dto,
     cd_participantIds = strs ''participantIds'' dto\<rparr>) (validateSync env False CreateChannel_rules data)"

definition valid_channelId :: "rest_env \<Rightarrow> json \<Rightarrow> ValidationError list \<times> cid" where
  "valid_channelId env data = map_prod id (str ''channelId'') (validateSync env False ChannelIdDto data)"

section \<open>From the event to its handler\<close>

text \<open>\<open>ChatGateway\<close>: the guard of the class stands before every event.\<close>

fun chat_event :: "rest_env \<Rightarrow> time \<Rightarrow> socket_event \<Rightarrow> json \<Rightarrow> SocketAuthUser \<Rightarrow> socket_client \<Rightarrow> gateway \<Rightarrow>
    event_answer \<times> socket_client \<times> gateway" where
  "chat_event env now E_send_message data u c g = in_world A_message (handleSendMessage (valid_message env) (en_signed env) (en_fault env)
     (en_ids env) (en_fetch env) (en_queueUp env) (so_id c) (su_id u) data now) c g"
| "chat_event env now E_get_messages data u c g = in_world A_page (handleGetMessages (valid_page env) (su_id u) data now) c g"
| "chat_event env now E_mark_read data u c g = in_world A_read (handleMarkRead (valid_mark env) (en_ids env 0) (su_id u) data now) c g"
| "chat_event env now E_get_unread data u c g = in_world A_counts (\<lambda>w. (handleGetUnread (su_id u) now w, w)) c g"
| "chat_event env now E_get_pending data u c g = in_world A_pending (handleGetPending (su_id u) now) c g"
| "chat_event env now E_reaction_add data u c g = in_world A_reacted (handleReactionAdd (valid_reaction env) (en_ids env 0)
     \<lparr>su_id = su_id u, su_username = su_username u\<rparr> data now) c g"
| "chat_event env now E_reaction_remove data u c g = in_world A_unreacted (handleReactionRemove (valid_reaction env)
     \<lparr>su_id = su_id u, su_username = su_username u\<rparr> data now) c g"
| "chat_event env now E_reaction_removed data u c g = in_world A_unreacted (handleReactionRemoveLegacy (valid_reaction env)
     \<lparr>su_id = su_id u, su_username = su_username u\<rparr> data now) c g"
| "chat_event env now _ data u c g = (A_blocked, c, g)"

text \<open>The guarded events of \<open>SocketGateway\<close>.\<close>

fun room_event :: "rest_env \<Rightarrow> time \<Rightarrow> socket_event \<Rightarrow> json \<Rightarrow> SocketAuthUser \<Rightarrow> socket_client \<Rightarrow> gateway \<Rightarrow>
    event_answer \<times> socket_client \<times> gateway" where
  "room_event env now E_presence_bulk data u c g = in_world A_online (\<lambda>w. (handlePresenceBulk (valid_presence env) u data now w, w)) c g"
| "room_event env now E_create_or_join data u c g = with_client A_channel (handleCreateOrJoin (valid_channel env) (en_ids env 0)
     (\<lambda>k. en_ids env (Suc k)) u data now) c g"
| "room_event env now E_join_channel data u c g = with_client A_success (handleJoinChannel (valid_channelId env) u data now) c g"
| "room_event env now E_leave_channel data u c g = with_client A_success (handleLeaveChannel (valid_channelId env) u data now) c g"
| "room_event env now E_typing_start data u c g =
     (let (r, g1) = handleTypingStart (valid_channelId env) (so_id c) u data now g in (case r of Inl e \<Rightarrow> A_error e | Inr x \<Rightarrow> A_success x, c, g1))"
| "room_event env now E_typing_stop data u c g =
     (let (r, g1) = handleTypingStop (valid_channelId env) (so_id c) u data now g in (case r of Inl e \<Rightarrow> A_error e | Inr x \<Rightarrow> A_success x, c, g1))"
| "room_event env now _ data u c g = (A_blocked, c, g)"

text \<open>The events no guard stands before: the heartbeat and all of \<open>CallsGateway\<close>.\<close>

fun open_event :: "socket_env \<Rightarrow> time \<Rightarrow> socket_event \<Rightarrow> json \<Rightarrow> socket_client \<Rightarrow> gateway \<Rightarrow> event_answer \<times> socket_client \<times> gateway" where
  "open_event env now E_heartbeat data c g = (let (a, c1, w) = handleHeartbeat now c (gw_world g) in (A_ack a, c1, g\<lparr>gw_world := w\<rparr>))"
| "open_event env now E_call_invite data c g = call_event (\<lambda>user. handleInvite (en_rerr (se_rest env)) (en_ids (se_rest env) 0)
     (en_ids (se_rest env) 1) user (payload data) now) c g"
| "open_event env now E_call_accept data c g = call_event (\<lambda>user. handleAccept user (payload data) now) c g"
| "open_event env now E_call_reject data c g = call_event (\<lambda>user. handleReject (en_ids (se_rest env) 0) user (payload data) now) c g"
| "open_event env now E_call_offer data c g = call_event (\<lambda>user w. (NoAck, handleOffer user (payload data) now w)) c g"
| "open_event env now E_call_answer data c g = call_event (\<lambda>user w. (NoAck, handleAnswer user (payload data) now w)) c g"
| "open_event env now E_call_ice_candidate data c g = call_event (\<lambda>user w. (NoAck, handleIceCandidate user (payload data) now w)) c g"
| "open_event env now E_call_hangup data c g = call_event (\<lambda>user. handleHangup (en_ids (se_rest env) 0)
     (\<lambda>k. en_ids (se_rest env) (Suc k)) user (payload data) now) c g"
| "open_event env now E_call_initiate data c g = call_event (\<lambda>user. handleInitiate (en_lk (se_rest env)) (en_dbOk (se_rest env))
     (en_rerr (se_rest env)) (en_ids (se_rest env) 0) (en_ids (se_rest env) 1) user (payload data) now) c g"
| "open_event env now E_call_livekit_fallback data c g = call_event (\<lambda>user. handleLiveKitFallback (en_lk (se_rest env))
     (en_ids (se_rest env) 0) user (payload data) now) c g"
| "open_event env now E_call_livekit_active data c g = call_event (\<lambda>user w. (handleLiveKitActive (en_lk (se_rest env)) (se_participants env)
     (en_dbOk (se_rest env)) user (payload data) w, w)) c g"
| "open_event env now E_call_livekit_join_group data c g = call_event (\<lambda>user w. (handleLiveKitJoinGroup (en_lk (se_rest env))
     (en_dbOk (se_rest env)) user (payload data) w, w)) c g"
| "open_event env now _ data c g = (A_blocked, c, g)"

definition is_chat :: "socket_event \<Rightarrow> bool" where
  "is_chat e \<longleftrightarrow> e \<in> {E_send_message, E_get_messages, E_mark_read, E_get_unread, E_get_pending, E_reaction_add, E_reaction_remove, E_reaction_removed}"

definition is_room :: "socket_event \<Rightarrow> bool" where
  "is_room e \<longleftrightarrow> e \<in> {E_presence_bulk, E_create_or_join, E_join_channel, E_leave_channel, E_typing_start, E_typing_stop}"

definition socket_dispatch ::
  "socket_env \<Rightarrow> handshake \<Rightarrow> time \<Rightarrow> socket_event \<Rightarrow> json \<Rightarrow> socket_client \<Rightarrow> gateway \<Rightarrow> event_answer \<times> socket_client \<times> gateway" where
  "socket_dispatch env hs now e data c g =
     (if is_chat e then guarded env hs now c g (chat_event (se_rest env) now e data)
      else if is_room e then guarded env hs now c g (room_event (se_rest env) now e data)
      else open_event env now e data c g)"

section \<open>Who may act\<close>

lemmas dispatch_defs = socket_dispatch_def guarded_def in_world_def with_client_def call_event_def

lemma canActivate_cases:
  obtains (admitted) u c1 where "canActivate ge hs now d c = (True, c1)" "so_user c1 = Some u" "so_connected c1 = so_connected c" "so_id c1 = so_id c"
      "so_rooms c1 = so_rooms c" "so_sent c1 = so_sent c" "so_user c = None \<or> c1 = c"
  | (stopped) code m where "canActivate ge hs now d c = (False, rejectConnection code m c)"
  by (cases "canActivate ge hs now d c") (auto simp: canActivate_def split: option.splits sum.splits jwt_failure.splits if_splits)

lemma chat_event_client: "fst (snd (chat_event env now e data u c g)) = c"
  by (cases e) (simp_all add: in_world_def split_beta)

lemma room_event_client:
  "so_user (fst (snd (room_event env now e data u c g))) = so_user c" "so_tokenExp (fst (snd (room_event env now e data u c g))) = so_tokenExp c"
  "so_id (fst (snd (room_event env now e data u c g))) = so_id c" "so_connected (fst (snd (room_event env now e data u c g))) = so_connected c"
  "so_sent (fst (snd (room_event env now e data u c g))) = so_sent c"
  by (cases e; simp add: in_world_def with_client_def split_beta handleCreateOrJoin_def handleJoinChannel_def handleLeaveChannel_def Let_def
      split: sum.split prod.split)+

lemma guarded_client:
  assumes "is_chat e \<or> is_room e"
  shows "(let (a, c', g') = socket_dispatch env hs now e data c g; (ok, c1) = canActivate (se_gate env) hs now (w_db (gw_world g)) c
    in if ok then so_user c' = so_user c1 \<and> so_tokenExp c' = so_tokenExp c1 else a = A_blocked \<and> c' = c1 \<and> g' = g)"
proof (cases rule: canActivate_cases[of "se_gate env" hs now "w_db (gw_world g)" c])
  case (admitted u c1)
  then show ?thesis using assms chat_event_client[of "se_rest env" now e data u c1 g] room_event_client[of "se_rest env" now e data u c1 g]
    by (auto simp: socket_dispatch_def guarded_def split: prod.split)
qed (use assms in \<open>auto simp: socket_dispatch_def guarded_def\<close>)

lemma relay_nobody: "relay ev body None data now w = w"
  by (simp add: relay_def relayTarget_def)

lemma open_event_nobody:
  assumes "so_user c = None"
  shows "snd (snd (open_event env now e data c g)) = g"
proof -
  have "calls_user c = None" using assms by (simp add: calls_user_def)
  then show ?thesis using assms
    by (cases e) (simp_all add: call_event_def handleHeartbeat_def handleInvite_def invite_checks_def handleAccept_def handleReject_def handleHangup_def
        handleInitiate_def handleLiveKitFallback_def handleOffer_def handleAnswer_def handleIceCandidate_def relay_nobody split: option.split)
qed

text \<open>
  C24: A socket acts for a user, and no longer than its token lives. If the JWT library accepts only tokens that have
  not expired, then an event of the chat and socket gateways reaches its handler only if the socket speaks for a user whose token is
  alive; otherwise nothing but the socket changes, and the socket is disconnected. Once the token of a connected user has expired this holds at
  every later time, for the heartbeat as well, and a socket without user changes nothing through any event that no guard protects.
\<close>

theorem socket_events_need_a_live_token:
  assumes lib: "\<forall>tok p. ge_verify (se_gate env) tok = Inr p \<longrightarrow> \<not> isTokenExpired (jp_exp p) now"
    and run: "socket_dispatch env hs now e data c g = (a, c', g')"
  shows "(is_chat e \<or> is_room e \<longrightarrow>
      so_user c' \<noteq> None \<and> \<not> isTokenExpired (so_tokenExp c') now \<or> a = A_blocked \<and> g' = g \<and> \<not> so_connected c' \<and> so_user c' = so_user c) \<and>
    (so_user c \<noteq> None \<and> isTokenExpired (so_tokenExp c) now \<and> now \<le> later \<longrightarrow>
      (is_chat e \<or> is_room e \<or> e = E_heartbeat \<longrightarrow>
        snd (snd (socket_dispatch env hs later e data c g)) = g \<and> \<not> so_connected (fst (snd (socket_dispatch env hs later e data c g))))) \<and>
    (so_user c = None \<and> \<not> is_chat e \<and> \<not> is_room e \<longrightarrow> g' = g)"
proof (intro conjI impI)
  assume e: "is_chat e \<or> is_room e"
  have act: "fst (canActivate (se_gate env) hs now (w_db (gw_world g)) c) \<Longrightarrow>
      so_user (snd (canActivate (se_gate env) hs now (w_db (gw_world g)) c)) \<noteq> None \<and>
      \<not> isTokenExpired (so_tokenExp (snd (canActivate (se_gate env) hs now (w_db (gw_world g)) c))) now"
    using lib by (auto simp: canActivate_def split: option.splits sum.splits jwt_failure.splits if_splits)
  show "so_user c' \<noteq> None \<and> \<not> isTokenExpired (so_tokenExp c') now \<or> a = A_blocked \<and> g' = g \<and> \<not> so_connected c' \<and> so_user c' = so_user c"
  proof (cases rule: canActivate_cases[of "se_gate env" hs now "w_db (gw_world g)" c])
    case (admitted u c1)
    then show ?thesis using guarded_client[OF e, of env hs now data c g] run act by simp
  next
    case (stopped code m)
    then show ?thesis using guarded_client[OF e, of env hs now data c g] run by simp
  qed
next
  assume c: "so_user c \<noteq> None \<and> isTokenExpired (so_tokenExp c) now \<and> now \<le> later" and e: "is_chat e \<or> is_room e \<or> e = E_heartbeat"
  have x: "isTokenExpired (so_tokenExp c) later" using c by (auto simp: isTokenExpired_def split: option.splits)
  obtain u where u: "so_user c = Some u" using c by blast
  then have stop: "canActivate (se_gate env) hs later d c = (False, rejectConnection ''TOKEN_EXPIRED'' ''TOKEN_EXPIRED'' c)" for d
    using x by (simp add: canActivate_def)
  have "snd (snd (socket_dispatch env hs later e data c g)) = g \<and> \<not> so_connected (fst (snd (socket_dispatch env hs later e data c g)))"
  proof (cases "e = E_heartbeat")
    case True
    then show ?thesis using u x by (simp add: socket_dispatch_def is_chat_def is_room_def handleHeartbeat_def beat_def)
  qed (use e stop in \<open>auto simp: socket_dispatch_def guarded_def\<close>)
  then show "snd (snd (socket_dispatch env hs later e data c g)) = g" "\<not> so_connected (fst (snd (socket_dispatch env hs later e data c g)))" by simp_all
next
  assume "so_user c = None \<and> \<not> is_chat e \<and> \<not> is_room e"
  then show "g' = g" using run open_event_nobody[of c env now e data g] by (simp add: socket_dispatch_def)
qed

definition sample_socket_env :: socket_env where
  "sample_socket_env = \<lparr>se_gate = Socket_Gateway.sample_env\<lparr>ge_verify := (\<lambda>t. Inl TokenExpiredError)\<rparr>, se_rest = sample_env, se_participants = (\<lambda>r. Some [])\<rparr>"

theorem socket_events_need_a_live_token_witness:
  "\<not> so_connected (fst (snd (socket_dispatch sample_socket_env sample_hs 900000 E_send_message JNull
     (sample_client\<lparr>so_user := Some sample_auth_ann, so_tokenExp := Some 900\<rparr>) sample_gateway)))"
proof -
  let ?c = "sample_client\<lparr>so_user := Some sample_auth_ann, so_tokenExp := Some 900\<rparr>"
  have "\<forall>tok p. ge_verify (se_gate sample_socket_env) tok = Inr p \<longrightarrow> \<not> isTokenExpired (jp_exp p) 900000" by (simp add: sample_socket_env_def)
  moreover have "isTokenExpired (so_tokenExp ?c) 900000" by (simp add: isTokenExpired_def)
  moreover obtain a c' g' where "socket_dispatch sample_socket_env sample_hs 900000 E_send_message JNull ?c sample_gateway = (a, c', g')"
    using prod_cases3 by blast
  ultimately show ?thesis
    using socket_events_need_a_live_token[of sample_socket_env 900000 sample_hs E_send_message JNull ?c sample_gateway a c' g' 900000]
    by (simp add: is_chat_def)
qed

text \<open>
  The events of calls are not guarded: they look at the user of the socket alone, so a socket whose token has expired invites, accepts,
  signals and hangs up as before, until its next heartbeat.
\<close>

theorem call_events_ignore_expiry:
  assumes "\<not> is_chat e" "\<not> is_room e" "e \<noteq> E_heartbeat"
  shows "fst (socket_dispatch env hs now e data (c\<lparr>so_tokenExp := x\<rparr>) g) = fst (socket_dispatch env hs now e data c g) \<and>
    snd (snd (socket_dispatch env hs now e data (c\<lparr>so_tokenExp := x\<rparr>) g)) = snd (snd (socket_dispatch env hs now e data c g)) \<and>
    so_connected (fst (snd (socket_dispatch env hs now e data c g))) = so_connected c"
proof -
  have "calls_user (c\<lparr>so_tokenExp := x\<rparr>) = calls_user c" by (simp add: calls_user_def)
  then show ?thesis using assms by (cases e) (simp_all add: socket_dispatch_def is_chat_def is_room_def call_event_def split_beta)
qed

theorem call_events_ignore_expiry_witness:
  "snd (snd (socket_dispatch sample_socket_env sample_hs 900000 E_call_invite JNull (sample_client\<lparr>so_tokenExp := Some 900\<rparr>) sample_gateway)) =
   snd (snd (socket_dispatch sample_socket_env sample_hs 900000 E_call_invite JNull sample_client sample_gateway))"
  using call_events_ignore_expiry[where e = E_call_invite and c = sample_client and x = "Some 900"]
  by (simp add: is_chat_def is_room_def)

end
