(* ===== verification/Send_Paths.thy ===== *)
theory Send_Paths
  imports Socket_Events
begin

text \<open>
  The ways of a message through the server: REST and socket requests end in the same pipeline, a delivery job may run more
  than once, and which messages carry a checked signature.
\<close>

section \<open>Worlds that agree on the chat\<close>

text \<open>Two worlds that differ in counters and in who is left out of an emit.\<close>

fun to_everyone :: "emit \<Rightarrow> emit" where
  "to_everyone (Emit rooms except event data) = Emit rooms [] event data"
| "to_everyone e = e"

definition same_chat :: "world \<Rightarrow> world \<Rightarrow> bool" where
  "same_chat w w' \<longleftrightarrow> (\<exists>cs os. w' = w\<lparr>w_redis := (w_redis w)\<lparr>r_counters := cs\<rparr>, w_out := os\<rparr> \<and>
     map to_everyone os = map to_everyone (w_out w))"

lemma same_chatI: "w' = w\<lparr>w_redis := (w_redis w)\<lparr>r_counters := cs\<rparr>, w_out := os\<rparr> \<Longrightarrow>
    map to_everyone os = map to_everyone (w_out w) \<Longrightarrow> same_chat w w'"
  unfolding same_chat_def by blast

lemma same_chatE:
  assumes "same_chat w w'"
  obtains cs os where "w' = w\<lparr>w_redis := (w_redis w)\<lparr>r_counters := cs\<rparr>, w_out := os\<rparr>" "map to_everyone os = map to_everyone (w_out w)"
  using assms unfolding same_chat_def by blast

lemma counted_same_chat:
  assumes "counted ks w w1" "counted ks' w w2"
  shows "same_chat w1 w2"
  using assms unfolding counted_def same_chat_def by (force simp: upd_counters_def)

lemma same_chat_fields: "same_chat w w' \<Longrightarrow> w_db w' = w_db w \<and> w_link w' = w_link w \<and> w_server w' = w_server w \<and> w_jobs w' = w_jobs w \<and>
    r_sets (w_redis w') = r_sets (w_redis w)"
  by (auto simp: same_chat_def)

lemma same_chat_update:
  assumes "same_chat w w'"
  shows "same_chat (w\<lparr>w_db := d\<rparr>) (w'\<lparr>w_db := d\<rparr>)" "same_chat (w\<lparr>w_jobs := js\<rparr>) (w'\<lparr>w_jobs := js\<rparr>)"
proof -
  obtain cs os where w': "w' = w\<lparr>w_redis := (w_redis w)\<lparr>r_counters := cs\<rparr>, w_out := os\<rparr>" "map to_everyone os = map to_everyone (w_out w)"
    using assms by (rule same_chatE)
  then show "same_chat (w\<lparr>w_db := d\<rparr>) (w'\<lparr>w_db := d\<rparr>)" "same_chat (w\<lparr>w_jobs := js\<rparr>) (w'\<lparr>w_jobs := js\<rparr>)"
    by (auto intro: same_chatI[where cs = cs and os = os])
qed

lemma same_chat_redis:
  assumes "same_chat w w'" "\<And>cs. snd (f ((w_redis w)\<lparr>r_counters := cs\<rparr>)) = (snd (f (w_redis w)))\<lparr>r_counters := g cs\<rparr>"
  shows "same_chat (snd (with_redis () f w)) (snd (with_redis () f w'))"
  using assms(1)
proof (rule same_chatE)
  fix cs os
  assume w': "w' = w\<lparr>w_redis := (w_redis w)\<lparr>r_counters := cs\<rparr>, w_out := os\<rparr>" "map to_everyone os = map to_everyone (w_out w)"
  show ?thesis
  proof (cases "w_link w")
    case Up
    then show ?thesis using w' assms(2)[of cs]
      by (intro same_chatI[where cs = "g cs" and os = os]) (simp_all add: with_redis_def split_beta)
  qed (use w' assms(1) in \<open>simp_all add: with_redis_def\<close>)
qed

lemma same_chat_emit:
  assumes "same_chat w w'"
  shows "same_chat (emitToChannel c ev data o1 w) (emitToChannel c ev data o2 w')"
  using assms
proof (rule same_chatE)
  fix cs os
  assume w': "w' = w\<lparr>w_redis := (w_redis w)\<lparr>r_counters := cs\<rparr>, w_out := os\<rparr>" "map to_everyone os = map to_everyone (w_out w)"
  then show ?thesis
    by (intro same_chatI[where cs = cs and os = "w_out (emitToChannel c ev data o2 w')"]) (simp_all add: emitToChannel_def send_out_def)
qed

lemma same_chat_members:
  assumes "same_chat w w'"
  shows "fst (getMembers now c w') = fst (getMembers now c w) \<and> same_chat (snd (getMembers now c w)) (snd (getMembers now c w'))"
proof -
  have "cached_members now c w' = cached_members now c w"
    using same_chat_fields[OF assms] by (simp add: cached_members_def with_redis_def split: link.split)
  moreover have "same_chat (setMembers now c us w) (setMembers now c us w')" for us
    unfolding setMembers_def using assms by (auto intro!: same_chat_redis[where g = id])
  ultimately show ?thesis using assms same_chat_fields[OF assms] by (simp add: getMembers_def Let_def)
qed

lemma same_chat_delivery:
  assumes "same_chat w w'"
  shows "same_chat (snd (runMessageDelivery now job w)) (snd (runMessageDelivery now job w'))"
proof -
  have "same_chat (addPendingMessage now us m w) (addPendingMessage now us m w')" for us m
    unfolding addPendingMessage_def using assms by (auto simp: Let_def intro!: same_chat_redis[where g = id])
  moreover have "same_chat (incrementUnreadMany now us c v) (incrementUnreadMany now us c v')" if "same_chat v v'" for us c v v'
    unfolding incrementUnreadMany_def using that
    by (auto intro!: same_chat_redis[where g = "fold (incr_unread now c) us"])
  ultimately show ?thesis by (simp add: runMessageDelivery_def)
qed

lemma same_chat_dispatch:
  assumes "same_chat w w'"
  shows "same_chat (dispatchNewMessage fetch q p e1 now w) (dispatchNewMessage fetch q p e2 now w')"
proof -
  obtain us w1 w1' where m: "getMembers now (pl_channelId p) w = (us, w1)" "getMembers now (pl_channelId p) w' = (us, w1')" "same_chat w1 w1'"
    using same_chat_members[OF assms, of now "pl_channelId p"] by (metis prod.collapse)
  have "getConnectedUserIds fetch (pl_channelId p) w1' = getConnectedUserIds fetch (pl_channelId p) w1"
    using same_chat_fields[OF m(3)] by (simp add: getConnectedUserIds_def)
  moreover have cache: "same_chat (cacheMessage now c j v) (cacheMessage now c j v')" if "same_chat v v'" for c j v v'
    unfolding cacheMessage_def using that by (auto simp: Let_def intro!: same_chat_redis[where g = id])
  ultimately show ?thesis using m same_chat_emit[OF m(3)] same_chat_fields[OF m(3)]
    by (simp add: dispatchNewMessage_def Let_def same_chat_delivery same_chat_update(2))
qed

lemma same_chat_send:
  assumes "same_chat w w'"
  shows "fst (send verify fault gen fetch q input e2 now w') = fst (send verify fault gen fetch q input e1 now w) \<and>
    same_chat (snd (send verify fault gen fetch q input e1 now w)) (snd (send verify fault gen fetch q input e2 now w'))"
  using assms same_chat_fields[OF assms] same_chat_dispatch[OF same_chat_update(1)[OF assms]]
  by (auto simp: send_def Let_def split: sum.split option.split)

section \<open>REST and socket\<close>

lemma too_large_whitelisted [simp]: "content_too_large (whitelist SendMessageDto data) = content_too_large data"
  by (cases data) (simp_all add: content_too_large_def whitelist_field SendMessageDto_def)

lemma valid_message_eq: "valid_message env data = (case en_run env False SendMessageDto data of (errors, raw) \<Rightarrow>
    (errors, \<lambda>userId. send_input userId (whitelist SendMessageDto raw)))"
  by (cases "en_run env False SendMessageDto data") (simp add: valid_message_def validateSync_def)

text \<open>The two requests once neither is limited: what is left are the pipe and the pipeline.\<close>

lemma rest_send_unlimited:
  assumes "app_throttler env req now w = (Inr (), w1)" "jwt_guard env req now (w_db w) = Inr user"
  shows "MessagesController_send env req now w = (case en_run env True SendMessageDto (hq_body req) of (errors, raw) \<Rightarrow>
    if errors = [] then send (en_signed env) (en_fault env) (en_ids env) (en_fetch env) (en_queueUp env)
      (send_input (jw_id user) (whitelist SendMessageDto raw)) None now w1
    else (Inl (validation_exception errors), w1))"
proof -
  have c: "counted throttle_keys w w1" using app_throttler_counted[of w env req now] assms(1) by simp
  have "jwt_guard env req now (w_db w1) = Inr user" unfolding counted_same(1)[OF c] by (fact assms(2))
  then show ?thesis using assms(1) by (cases "en_run env True SendMessageDto (hq_body req)")
    (simp add: MessagesController_send_def as_user_def anyone_def class_pipe_def validateSync_def)
qed

lemma socket_send_unlimited:
  assumes "limit (''send:'' @ u) RL_SEND_MESSAGE ''Too many messages'' now w = (Inr (), w2)" "is_object data" "\<not> content_too_large data"
  shows "handleSendMessage (valid_message env) verify fault gen fetch q clientId u data now w =
    (case en_run env False SendMessageDto data of (errors, raw) \<Rightarrow>
      if errors = [] then socket_try (send verify fault gen fetch q (send_input u (whitelist SendMessageDto raw)) (Some clientId) now w2)
      else (Inl (toSocketError (validate_payload_error errors)), w2))"
  using assms by (cases "en_run env False SendMessageDto data") (simp add: handleSendMessage_def validatePayload_def valid_message_eq)

text \<open>
  C7: \<open>POST /messages\<close> runs the pipeline of the socket event \<open>send-message\<close>. Take a payload that is an object, no larger than the event
  allows, sent by the same user over both transports, neither of which is limited. If it has only properties of the payload class and is
  valid, both answer alike (the message, or the socket form of the same exception), write the same row, the same caches, offline queues and
  jobs, and emit the same events to the same rooms; only counters and the sockets left out of an emit differ. If it is not valid, both refuse it,
  each in the form of its transport and for the same errors, and change nothing but counters. If it has a property no rule names, REST
  refuses it, while the socket answers as it does for the payload without that property.
\<close>

theorem rest_send_is_socket_send:
  assumes lib: "class_validator (en_run env) email isoDate"
    and rest: "app_throttler env req now w = (Inr (), w1)" "jwt_guard env req now (w_db w) = Inr user"
    and event: "limit (''send:'' @ jw_id user) RL_SEND_MESSAGE ''Too many messages'' now w = (Inr (), w2)"
    and payload: "is_object (hq_body req)" "\<not> content_too_large (hq_body req)"
  shows "(let (r, v) = MessagesController_send env req now w;
        socket = (\<lambda>data. handleSendMessage (valid_message env) (en_signed env) (en_fault env) (en_ids env) (en_fetch env) (en_queueUp env)
          clientId (jw_id user) data now w);
        (r', v') = socket (hq_body req);
        errors = fst (en_run env False SendMessageDto (hq_body req))
      in if whitelist SendMessageDto (hq_body req) \<noteq> hq_body req
         then (\<exists>problems. problems \<noteq> [] \<and> r = Inl (validation_exception problems)) \<and> v = w1 \<and>
              (r', v') = socket (whitelist SendMessageDto (hq_body req))
         else if errors \<noteq> []
         then r = Inl (validation_exception errors) \<and> r' = Inl (toSocketError (validate_payload_error errors)) \<and> v = w1 \<and> v' = w2
         else r' = (case r of Inl e \<Rightarrow> Inl (toSocketError e) | Inr message \<Rightarrow> Inr message) \<and> same_chat v v')"
proof -
  let ?body = "hq_body req"
  note R = rest_send_unlimited[OF rest] and S = socket_send_unlimited[OF event]
  have 1: "counted throttle_keys w w1" using app_throttler_counted[of w env req now] rest(1) by simp
  have "counted UNIV w w2"
    using limit_frame[of "''send:'' @ jw_id user" RL_SEND_MESSAGE "''Too many messages''" now w] event
    by (auto simp: counted_def upd_counters_def)
  then have same: "same_chat w1 w2" using counted_same_chat[OF 1] by blast
  obtain errors raw where run: "en_run env False SendMessageDto ?body = (errors, raw)" by fastforce
  show ?thesis
  proof (cases "whitelist SendMessageDto ?body = ?body")
    case False
    obtain problems x where p: "en_run env True SendMessageDto ?body = (problems, x)" "problems \<noteq> []"
      using class_validator.forbidden[OF lib payload(1) False] by (cases "en_run env True SendMessageDto ?body") auto
    have "handleSendMessage (valid_message env) (en_signed env) (en_fault env) (en_ids env) (en_fetch env) (en_queueUp env)
          clientId (jw_id user) (whitelist SendMessageDto ?body) now w =
        handleSendMessage (valid_message env) (en_signed env) (en_fault env) (en_ids env) (en_fetch env) (en_queueUp env)
          clientId (jw_id user) ?body now w"
      using S payload class_validator.stripped[OF lib payload(1), of SendMessageDto] by simp
    moreover have "MessagesController_send env req now w = (Inl (validation_exception problems), w1)" using R p by simp
    ultimately show ?thesis using False p(2) by (auto simp: split_beta)
  next
    case True
    then have run': "en_run env True SendMessageDto ?body = (errors, raw)" using class_validator.allowed[OF lib payload(1) True] run by simp
    show ?thesis
    proof (cases "errors = []")
      case False
      then show ?thesis using True run run' R S[OF payload] by (simp add: Let_def)
    next
      case ok: True
      let ?send = "\<lambda>e. send (en_signed env) (en_fault env) (en_ids env) (en_fetch env) (en_queueUp env)
        (send_input (jw_id user) (whitelist SendMessageDto raw)) e now"
      have "MessagesController_send env req now w = ?send None w1" using R run' ok by simp
      moreover have "handleSendMessage (valid_message env) (en_signed env) (en_fault env) (en_ids env) (en_fetch env) (en_queueUp env)
          clientId (jw_id user) ?body now w = socket_try (?send (Some clientId) w2)" using S[OF payload] run ok by simp
      ultimately show ?thesis
        using True run ok same_chat_send[OF same, of "en_signed env" "en_fault env" "en_ids env" "en_fetch env" "en_queueUp env"
            "send_input (jw_id user) (whitelist SendMessageDto raw)" "Some clientId" now None]
        by (auto simp: socket_try_def split_beta Let_def split: prod.split sum.split)
    qed
  qed
qed

definition post_channel :: cid where
  "post_channel = ''00000000-0000-0000-0000-000000000001''"

definition post_world :: world where
  "post_world = sample_world\<lparr>w_db := sample_db\<lparr>channels := [sample_channel\<lparr>ch_id := post_channel\<rparr>],
     memberships := [(sample_membership ''u1'')\<lparr>mb_channelId := post_channel\<rparr>]\<rparr>\<rparr>"

definition post_body :: "(string \<times> json) list" where
  "post_body = [(''channelId'', JStr post_channel), (''encryptedContent'', JStr ''x''), (''contentIv'', JStr ''iv''),
     (''contentTag'', JStr ''tag''), (''signature'', JStr []), (''sequenceNumber'', JNum 0), (''senderKeyEpoch'', JNum 0)]"

definition sample_post :: "(string \<times> json) list \<Rightarrow> http_request" where
  "sample_post extra = sample_request (Some ''Bearer u1'') (JObj (extra @ post_body))"

abbreviation sample_event :: "(string \<times> json) list \<Rightarrow> MessagePayload reply \<times> world" where
  "sample_event extra \<equiv> handleSendMessage (valid_message sample_env) (en_signed sample_env) (en_fault sample_env) (en_ids sample_env)
     (en_fetch sample_env) (en_queueUp sample_env) ''s1'' ''u1'' (JObj (extra @ post_body)) 5 post_world"

lemma sample_post_ok:
  "fst (app_throttler sample_env (sample_post []) 5 post_world) = Inr ()"
  "fst (app_throttler sample_env (sample_post [(''userId'', JStr ''u2'')]) 5 post_world) = Inr ()"
  "map_sum id jw_id (jwt_guard sample_env (sample_post []) 5 (w_db post_world)) = Inr ''u1''"
  "map_sum id jw_id (jwt_guard sample_env (sample_post [(''userId'', JStr ''u2'')]) 5 (w_db post_world)) = Inr ''u1''"
  "fst (limit (''send:'' @ ''u1'') RL_SEND_MESSAGE ''Too many messages'' 5 post_world) = Inr ()"
  by code_simp+

lemma sample_post_cases:
  assumes "extra = [] \<or> extra = [(''userId'', JStr ''u2'')]"
  obtains w1 user w2 where "app_throttler sample_env (sample_post extra) 5 post_world = (Inr (), w1)"
    "jwt_guard sample_env (sample_post extra) 5 (w_db post_world) = Inr user" "jw_id user = ''u1''"
    "limit (''send:'' @ jw_id user) RL_SEND_MESSAGE ''Too many messages'' 5 post_world = (Inr (), w2)"
    "is_object (hq_body (sample_post extra))" "\<not> content_too_large (hq_body (sample_post extra))"
    "hq_body (sample_post extra) = JObj (extra @ post_body)"
proof -
  have "map_sum id jw_id (jwt_guard sample_env (sample_post extra) 5 (w_db post_world)) = Inr ''u1''"
    "fst (app_throttler sample_env (sample_post extra) 5 post_world) = Inr ()" using assms sample_post_ok by auto
  then obtain user w1 where u: "jwt_guard sample_env (sample_post extra) 5 (w_db post_world) = Inr user" "jw_id user = ''u1''"
    "app_throttler sample_env (sample_post extra) 5 post_world = (Inr (), w1)"
    by (cases "jwt_guard sample_env (sample_post extra) 5 (w_db post_world)") (auto simp: prod_eq_iff)
  obtain w2 where "limit (''send:'' @ ''u1'') RL_SEND_MESSAGE ''Too many messages'' 5 post_world = (Inr (), w2)"
    using sample_post_ok(5) by (metis prod.collapse)
  moreover have "hq_body (sample_post extra) = JObj (extra @ post_body)" by (simp add: sample_post_def sample_request_def)
  moreover have "\<not> content_too_large (JObj (extra @ post_body))"
    using assms by (auto simp: content_too_large_def post_body_def utf8_len_def MAX_ENCRYPTED_CONTENT_BYTES_def)
  ultimately show thesis using that u by (simp add: is_object_def)
qed

theorem rest_send_is_socket_send_witness:
  "(\<exists>m v. MessagesController_send sample_env (sample_post []) 5 post_world = (Inr m, v) \<and> pl_senderId m = ''u1'' \<and>
     fst (sample_event []) = Inr m \<and> same_chat v (snd (sample_event []))) \<and>
   (\<exists>problems. fst (MessagesController_send sample_env (sample_post [(''userId'', JStr ''u2'')]) 5 post_world) = Inl (validation_exception problems)) \<and>
   sample_event [(''userId'', JStr ''u2'')] = sample_event []"
proof -
  have lib: "class_validator (en_run sample_env) (\<lambda>e. e \<noteq> []) (\<lambda>d. True)"
    using documented.class_validator_axioms by (simp add: sample_env_def)
  have known: "whitelist SendMessageDto (JObj post_body) = JObj post_body"
    and extra: "whitelist SendMessageDto (JObj ((''userId'', JStr ''u2'') # post_body)) = JObj post_body"
    by (simp_all add: whitelist_def SendMessageDto_def post_body_def)
  have run: "fst (en_run sample_env False SendMessageDto (JObj post_body)) = []" by code_simp
  have "(case fst (MessagesController_send sample_env (sample_post []) 5 post_world) of Inr m \<Rightarrow> pl_senderId m = ''u1'' | Inl e \<Rightarrow> False)" by code_simp
  then obtain m v where m: "MessagesController_send sample_env (sample_post []) 5 post_world = (Inr m, v)" "pl_senderId m = ''u1''"
    by (cases "MessagesController_send sample_env (sample_post []) 5 post_world") (auto split: sum.splits)
  obtain w1 user w2 where a: "app_throttler sample_env (sample_post []) 5 post_world = (Inr (), w1)"
    "jwt_guard sample_env (sample_post []) 5 (w_db post_world) = Inr user" "jw_id user = ''u1''"
    "limit (''send:'' @ jw_id user) RL_SEND_MESSAGE ''Too many messages'' 5 post_world = (Inr (), w2)"
    "is_object (hq_body (sample_post []))" "\<not> content_too_large (hq_body (sample_post []))"
    "hq_body (sample_post []) = JObj ([] @ post_body)" by (rule sample_post_cases[of "[]"]) simp
  obtain x1 user' x2 where b: "app_throttler sample_env (sample_post [(''userId'', JStr ''u2'')]) 5 post_world = (Inr (), x1)"
    "jwt_guard sample_env (sample_post [(''userId'', JStr ''u2'')]) 5 (w_db post_world) = Inr user'" "jw_id user' = ''u1''"
    "limit (''send:'' @ jw_id user') RL_SEND_MESSAGE ''Too many messages'' 5 post_world = (Inr (), x2)"
    "is_object (hq_body (sample_post [(''userId'', JStr ''u2'')]))" "\<not> content_too_large (hq_body (sample_post [(''userId'', JStr ''u2'')]))"
    "hq_body (sample_post [(''userId'', JStr ''u2'')]) = JObj ([(''userId'', JStr ''u2'')] @ post_body)"
    by (rule sample_post_cases[of "[(''userId'', JStr ''u2'')]"]) simp
  have "fst (sample_event []) = Inr m \<and> same_chat v (snd (sample_event []))"
    using rest_send_is_socket_send[OF lib a(1,2,4-6), of "''s1''"] a(3,7) m(1) known run by (simp add: split_beta Let_def)
  moreover have "\<exists>problems. fst (MessagesController_send sample_env (sample_post [(''userId'', JStr ''u2'')]) 5 post_world) = Inl (validation_exception problems)"
    "sample_event [(''userId'', JStr ''u2'')] = sample_event []"
    using rest_send_is_socket_send[OF lib b(1,2,4-6), of "''s1''"] b(3,7) extra by (auto simp: split_beta Let_def)
  ultimately show ?thesis using m by blast
qed

section \<open>A job that runs twice\<close>

text \<open>
  C15: A delivery job that the queue runs a second time, as BullMQ does with a job whose worker stalled, leaves the offline queue of
  every recipient as the first run did, but counts the message as unread once more.
\<close>

theorem redelivered_job_queues_once:
  assumes "w_link w = Up" "u \<in> set (jb_offlineUserIds job)" "count_list (jb_recipientIds job) u = 1" "0 < pl_createdAt (jb_message job)"
    and times: "t1 \<le> t2" "t2 \<le> now" "now < t1 + 1000 * RedisTtl_pendingSeconds" "now < t1 + 1000 * RedisTtl_unreadSeconds"
    and runs: "w1 = snd (runMessageDelivery t1 job w)" "w2 = snd (runMessageDelivery t2 job w1)"
  shows "pending_queue now u w2 = pending_queue now u w1 \<and> (\<exists>score. (Stored (payload_json (jb_message job)), score) \<in> set (pending_queue now u w2)) \<and>
    getUnreadCount now u (pl_channelId (jb_message job)) w2 = getUnreadCount now u (pl_channelId (jb_message job)) w1 + 1"
proof -
  let ?m = "Stored (payload_json (jb_message job))" and ?s = "pl_createdAt (jb_message job)" and ?c = "pl_channelId (jb_message job)"
  have us: "jb_offlineUserIds job \<noteq> []" "u \<in> set (jb_recipientIds job)" "jb_recipientIds job \<noteq> []"
    using assms(2,3) count_notin[of u "jb_recipientIds job"] by auto
  have run: "w_link (snd (runMessageDelivery t job v)) = Up"
    "r_pending (w_redis (snd (runMessageDelivery t job v))) (RedisKeys_pending u) =
       Some (zAdd ?s ?m (list_at t (r_pending (w_redis v)) (RedisKeys_pending u)), Some (t + 1000 * RedisTtl_pendingSeconds))"
    "r_counters (w_redis (snd (runMessageDelivery t job v))) (RedisKeys_unread u ?c) =
       Some (counter_at t (r_counters (w_redis v)) (RedisKeys_unread u ?c) + 1, Some (t + 1000 * RedisTtl_unreadSeconds))"
    if "w_link v = Up" for t v
    using that us assms(2-4)
    by (simp_all add: runMessageDelivery_def addPendingMessage_def incrementUnreadMany_def with_redis_Up Let_def fold_add_pending fold_incr_unread)
  have up1: "w_link w1 = Up" using run(1)[OF assms(1)] runs(1) by simp
  have r1: "r_pending (w_redis w1) (RedisKeys_pending u) =
       Some (zAdd ?s ?m (list_at t1 (r_pending (w_redis w)) (RedisKeys_pending u)), Some (t1 + 1000 * RedisTtl_pendingSeconds))"
    "r_counters (w_redis w1) (RedisKeys_unread u ?c) =
       Some (counter_at t1 (r_counters (w_redis w)) (RedisKeys_unread u ?c) + 1, Some (t1 + 1000 * RedisTtl_unreadSeconds))"
    using run(2,3)[OF assms(1), of t1] runs(1) by simp_all
  have r2: "r_pending (w_redis w2) (RedisKeys_pending u) =
       Some (zAdd ?s ?m (list_at t1 (r_pending (w_redis w)) (RedisKeys_pending u)), Some (t2 + 1000 * RedisTtl_pendingSeconds))"
    "r_counters (w_redis w2) (RedisKeys_unread u ?c) =
       Some (counter_at t1 (r_counters (w_redis w)) (RedisKeys_unread u ?c) + 2, Some (t2 + 1000 * RedisTtl_unreadSeconds))"
    "w_link w2 = Up"
    using run[OF up1, of t2] runs(2) r1 times by (simp_all add: list_at_def counter_at_def live_def zAdd_idem)
  show ?thesis using r1 r2 up1 times
    by (auto simp: pending_queue_def getUnreadCount_def with_redis_Up list_at_def counter_at_def live_def zAdd_def)
qed

definition sample_job :: MessageDeliveryJob where
  "sample_job = \<lparr>jb_message = sample_payload, jb_recipientIds = [''u1''], jb_offlineUserIds = [''u1'']\<rparr>"

theorem redelivered_job_queues_once_witness:
  "getUnreadCount 20 ''u1'' ''c1'' (snd (runMessageDelivery 11 sample_job (snd (runMessageDelivery 10 sample_job empty_world)))) =
     getUnreadCount 20 ''u1'' ''c1'' (snd (runMessageDelivery 10 sample_job empty_world)) + 1"
  using redelivered_job_queues_once[of empty_world "''u1''" sample_job 10 11 20] by (simp add: sample_job_def sample_payload_def redis_ttl_defs)

section \<open>Signatures\<close>

lemma insert_tx_signature:
  "map_sum id (\<lambda>_. ()) (insert_message_tx i (input\<lparr>si_signature := s\<rparr>) now d) = map_sum id (\<lambda>_. ()) (insert_message_tx i input now d)"
proof -
  have "message_conflict (new_message i (input\<lparr>si_signature := s\<rparr>) n now) = message_conflict (new_message i input n now)" for n
    by (auto simp: message_conflict_def new_message_def fun_eq_iff)
  then show ?thesis by (simp add: insert_message_tx_def insert_row_def Let_def)
qed

lemma insert_attempts_signature:
  "map_sum id (\<lambda>_. ()) (insert_attempts fault gen (input\<lparr>si_signature := s\<rparr>) now n k d) =
   map_sum id (\<lambda>_. ()) (insert_attempts fault gen input now n k d)"
proof (induction n arbitrary: k)
  case (Suc n)
  have "map_sum id (\<lambda>_. ()) (insert_message_tx (gen k) (input\<lparr>si_signature := s\<rparr>) now d) = map_sum id (\<lambda>_. ()) (insert_message_tx (gen k) input now d)"
    by (rule insert_tx_signature)
  then show ?case using Suc[of "Suc k"]
    by (cases "insert_message_tx (gen k) (input\<lparr>si_signature := s\<rparr>) now d"; cases "insert_message_tx (gen k) input now d")
      (simp_all split: option.split)
qed simp

text \<open>
  C8: A signature is checked when there is one. A stored message with a signature, of a sender who has a signing key, verified
  under that key over the channel and the ciphertext; the payload carries the signature unchanged. But the same message without
  its signature is accepted as well, whatever the verifier says: the server checks signatures, it does not require them.
\<close>

theorem signatures_checked_when_given:
  assumes "send verify fault gen fetch q input except now w = (Inr message, w')"
  shows "pl_signature message = si_signature input \<and>
    (\<exists>u \<in> set (users (w_db w)). u_id u = si_userId input \<and> (si_signature input \<noteq> [] \<and> u_publicKeySign u \<noteq> [] \<longrightarrow>
      verify (si_channelId input @ '':'' @ the (si_encryptedContent input)) (si_signature input) (u_publicKeySign u))) \<and>
    (\<exists>unsigned. fst (send (\<lambda>text signature key. False) fault gen fetch q (input\<lparr>si_signature := []\<rparr>) except now w) = Inr unsigned)"
proof -
  obtain u c where m: "send_member (si_userId input) (si_channelId input) (w_db w) = Some (u, c)"
    using assms by (auto simp: send_def split: sum.splits option.splits)
  have u: "u \<in> set (users (w_db w))" "u_id u = si_userId input"
    using first_row_in[OF m[unfolded send_member_def]] by (auto split: if_splits)
  have checks: "assertSendLimits input = Inr ()" "\<not> ch_isArchived c"
    "si_signature input \<noteq> [] \<and> u_publicKeySign u \<noteq> [] \<longrightarrow>
      verify (si_channelId input @ '':'' @ the (si_encryptedContent input)) (si_signature input) (u_publicKeySign u)"
    using assms m by (auto simp: send_def split: sum.splits if_splits)
  obtain row d where ins: "insertWithSequence fault gen input now (w_db w) = Inr (row, d)"
    "message = toMessagePayload row (Some (u_username u))"
    using assms m checks by (auto simp: send_def Let_def split: sum.splits if_splits)
  have "map_sum id (\<lambda>_. ()) (insertWithSequence fault gen (input\<lparr>si_signature := []\<rparr>) now (w_db w)) = Inr ()"
    using ins(1) by (simp add: insertWithSequence_def insert_attempts_signature)
  then obtain rd where "insertWithSequence fault gen (input\<lparr>si_signature := []\<rparr>) now (w_db w) = Inr rd"
    by (cases "insertWithSequence fault gen (input\<lparr>si_signature := []\<rparr>) now (w_db w)") auto
  moreover have "assertSendLimits (input\<lparr>si_signature := []\<rparr>) = assertSendLimits input"
    by (cases input) (simp add: assertSendLimits_def)
  ultimately have "\<exists>unsigned. fst (send (\<lambda>text signature key. False) fault gen fetch q (input\<lparr>si_signature := []\<rparr>) except now w) = Inr unsigned"
    using m checks(1,2) by (cases rd) (simp add: send_def Let_def)
  moreover have "ms_signature row = si_signature input"
    by (rule insertWithSequence_Inr[OF ins(1)]) (auto simp: insert_message_tx_def Let_def bindE_Inr_iff new_message_def)
  ultimately show ?thesis using u checks(3) ins(2) by (auto simp: toMessagePayload_def)
qed

theorem signatures_checked_when_given_witness:
  "\<exists>message w'. send (\<lambda>m s k. True) (\<lambda>k. None) (\<lambda>k. ''m1'') (\<lambda>c. None) True sample_input None 5 sample_world = (Inr message, w') \<and>
     pl_signature message = si_signature sample_input"
proof -
  have "(case fst (send (\<lambda>m s k. True) (\<lambda>k. None) (\<lambda>k. ''m1'') (\<lambda>c. None) True sample_input None 5 sample_world) of Inr p \<Rightarrow> True | Inl e \<Rightarrow> False)"
    by code_simp
  then obtain message w' where "send (\<lambda>m s k. True) (\<lambda>k. None) (\<lambda>k. ''m1'') (\<lambda>c. None) True sample_input None 5 sample_world = (Inr message, w')"
    by (cases "send (\<lambda>m s k. True) (\<lambda>k. None) (\<lambda>k. ''m1'') (\<lambda>c. None) True sample_input None 5 sample_world") (auto split: sum.splits)
  from this signatures_checked_when_given[OF this] show ?thesis by blast
qed

end
