(* ===== verification/Columns.thy ===== *)
theory Columns
  imports Rest_Api
begin

text \<open>
  The columns of bounded length of \<open>database/schema.ts\<close>, and that the REST routes which write client texts keep to them: the
  decorators of the payload classes, the checks of the services and the sizes of the generated values together.
\<close>

section \<open>Bounded columns\<close>

definition user_fits :: "user_row \<Rightarrow> bool" where
  "user_fits u \<longleftrightarrow> length (u_username u) \<le> 32 \<and> length (u_email u) \<le> 255 \<and> length (u_srpSalt u) \<le> 64 \<and>
     length (u_publicKey u) \<le> 64 \<and> length (u_keySalt u) \<le> 64 \<and> length (u_publicKeySign u) \<le> 64 \<and> length (u_keySaltSign u) \<le> 64"

definition channel_fits :: "channel_row \<Rightarrow> bool" where
  "channel_fits c \<longleftrightarrow> (case ch_name c of None \<Rightarrow> True | Some name \<Rightarrow> length name \<le> 64)"

definition message_fits :: "message_row \<Rightarrow> bool" where
  "message_fits m \<longleftrightarrow> length (ms_contentIv m) \<le> 32 \<and> length (ms_contentTag m) \<le> 32"

definition db_fits :: "db \<Rightarrow> bool" where
  "db_fits d \<longleftrightarrow> list_all user_fits (users d) \<and> list_all channel_fits (channels d) \<and> list_all message_fits (messages d)"

text \<open>The sizes \<open>register\<close> asks of the random generator, and the least size of an encoded key.\<close>

definition register_sizes :: "RegisterRandom \<Rightarrow> bool" where
  "register_sizes rr \<longleftrightarrow> length (rr_srpSalt rr) = SRP_SALT_BYTES \<and>
     list_all (\<lambda>salt. is_bytes salt \<and> length salt = 32) [rr_keySalt rr, rr_keySaltSign rr] \<and>
     list_all (\<lambda>der. is_bytes der \<and> 32 \<le> length der) [fst (rr_x25519 rr), fst (rr_ed25519 rr)]"

lemma encode_32:
  assumes "is_bytes bs" "length bs = 32"
  shows "length (b64_encode bs) = 44"
proof -
  obtain core pad where "b64_encode bs = core @ pad" "length (core @ pad) = 4 * ((length bs + 2) div 3)"
    using b64_encode_shape[OF assms(1)] by blast
  then show ?thesis using assms(2) by simp
qed

lemma new_user_fits:
  assumes "register_sizes rr" "length name \<le> 32" "length mail \<le> 255"
  shows "user_fits (new_user cf rr name mail password now)"
proof -
  have "is_bytes (last_bytes 32 der) \<and> length (last_bytes 32 der) = 32" if "der \<in> {fst (rr_x25519 rr), fst (rr_ed25519 rr)}" for der
    using assms(1) that last_bytes_ok[of der 32] by (auto simp: register_sizes_def)
  then show ?thesis
    using assms by (simp add: user_fits_def register_sizes_def SRP_SALT_BYTES_def new_user_def Let_def randomHex_def encode_32
        generateX25519KeyPair_def generateEd25519KeyPair_def)
qed

section \<open>Instances that passed the pipe\<close>

lemma class_pipe_Inr:
  "class_pipe env rules body = Inr dto \<Longrightarrow> \<exists>raw. en_run env True rules body = ([], raw) \<and> dto = whitelist rules raw"
  by (cases "en_run env True rules body") (auto simp: class_pipe_def validateSync_def split: if_splits)

lemma str_required:
  assumes "class_validator (en_run env) email isoDate" "class_pipe env rules body = Inr dto" "Rule n False t cs \<in> set rules"
  shows "MaxLength k \<in> set cs \<Longrightarrow> length (str n dto) \<le> k" "MinLength k \<in> set cs \<Longrightarrow> k \<le> length (str n dto)"
    "Matches p \<in> set cs \<Longrightarrow> p (str n dto)" "IsEmail \<in> set cs \<Longrightarrow> email (str n dto)"
proof -
  obtain raw where raw: "en_run env True rules body = ([], raw)" "dto = whitelist rules raw" using class_pipe_Inr[OF assms(2)] by blast
  obtain v where v: "jfield n dto = Some v" "\<And>c. c \<in> set cs \<Longrightarrow> holds email isoDate c v"
    using class_validator.required_checks[OF assms(1) raw(1) assms(3)] raw(2) by blast
  show "length (str n dto) \<le> k" if "MaxLength k \<in> set cs" using v(2)[OF that] v(1) by (auto simp: on_iff str_def)
  show "k \<le> length (str n dto)" if "MinLength k \<in> set cs" using v(2)[OF that] v(1) by (auto simp: on_iff str_def)
  show "p (str n dto)" if "Matches p \<in> set cs" using v(2)[OF that] v(1) by (auto simp: on_iff str_def)
  show "email (str n dto)" if "IsEmail \<in> set cs" using v(2)[OF that] v(1) by (auto simp: on_iff str_def)
qed

lemma str_opt_bounded:
  assumes "class_validator (en_run env) email isoDate" "class_pipe env rules body = Inr dto" "Rule n True t cs \<in> set rules"
    and "MaxLength k \<in> set cs" "str_opt n dto = Some s"
  shows "length s \<le> k"
proof -
  obtain raw where raw: "en_run env True rules body = ([], raw)" "dto = whitelist rules raw" using class_pipe_Inr[OF assms(2)] by blast
  have v: "jfield n dto = Some (JStr s)" using assms(5) by (auto simp: str_opt_def split: option.splits json.splits)
  show ?thesis using class_validator.optional_checks[OF assms(1) raw(1) assms(3), of "JStr s"] v raw(2) assms(4) by (auto simp: on_iff)
qed

lemma PUBLIC_KEY_length: "PUBLIC_KEY_RE s \<Longrightarrow> length s = 44"
  by (simp add: PUBLIC_KEY_RE_def)

section \<open>The guards keep the tables\<close>

lemma anyone_db:
  assumes "\<And>w1. w_db w1 = w_db w \<Longrightarrow> P (w_db (snd (h w1)))" "P (w_db w)"
  shows "P (w_db (snd (anyone env req now w h)))"
proof (cases rule: app_throttler_cases[of env req now w])
  case (passed w1)
  then show ?thesis using assms(1)[of w1] counted_same(1)[OF passed(2)] by (simp add: anyone_def)
next
  case (blocked body message w1)
  then show ?thesis using assms(2) counted_same(1)[OF blocked(2)] by (simp add: anyone_def)
qed

lemma as_user_piped_db:
  assumes "\<And>user dto w1. w_db w1 = w_db w \<Longrightarrow> class_pipe env rules body = Inr dto \<Longrightarrow> P (w_db (snd (h user dto w1)))" "P (w_db w)"
  shows "P (w_db (snd (as_user env req now w (\<lambda>user w1. bindW (class_pipe env rules body, w1) (h user)))))"
  unfolding as_user_def
proof (rule anyone_db)
  show "P (w_db (snd (bindW (jwt_guard env req now (w_db w1), w1) (\<lambda>user w1. bindW (class_pipe env rules body, w1) (h user)))))"
    if "w_db w1 = w_db w" for w1
    using that assms by (cases "jwt_guard env req now (w_db w1)"; cases "class_pipe env rules body") simp_all
qed (fact assms(2))

lemma limited_db:
  assumes "\<And>dto w1. w_db w1 = w_db w \<Longrightarrow> class_pipe env rules (hq_body req) = Inr dto \<Longrightarrow> P (w_db (snd (h dto w1)))" "P (w_db w)"
  shows "P (w_db (snd (limited env options rules req now w h)))"
  unfolding limited_def
proof (rule anyone_db)
  fix w1 :: world
  assume w1: "w_db w1 = w_db w"
  obtain x w2 where x: "route_limit env options None req now w1 = (x, w2)" by fastforce
  then have "w_db w2 = w_db w" using counted_same(1)[OF route_limit_counted[of env options None req w1 now]] w1 by simp
  then show "P (w_db (snd (bindW (route_limit env options None req now w1) (\<lambda>_ w2. bindW (class_pipe env rules (hq_body req), w2) h))))"
    using assms x by (cases x; cases "class_pipe env rules (hq_body req)") simp_all
qed (fact assms(2))

section \<open>The services that write texts\<close>

lemma db_fits_simps:
  "db_fits (d\<lparr>users := us\<rparr>) \<longleftrightarrow> list_all user_fits us \<and> list_all channel_fits (channels d) \<and> list_all message_fits (messages d)"
  "db_fits (d\<lparr>auditLog := as\<rparr>) = db_fits d"
  by (simp_all add: db_fits_def)

lemma update_where_all: "list_all P rows \<Longrightarrow> (\<And>r. P r \<Longrightarrow> P (f r)) \<Longrightarrow> list_all P (update_where Q f rows)"
  by (induction rows) auto

lemma register_fits:
  assumes "db_fits d" "register_sizes rr" "length name \<le> 32" "length mail \<le> 255"
  shows "db_fits (snd (register cf rr auditId ok name mail password now d))"
  using assms(1) new_user_fits[OF assms(2-4)]
  by (auto simp: register_def Let_def auth_audit_def db_fits_def insert_row_def split: option.splits sum.splits if_splits)

lemma updateProfile_fits:
  assumes "db_fits d" "length name \<le> 32" "updateProfile u name now d = Inr (row, d')"
  shows "db_fits d'"
proof -
  have "d' = d\<lparr>users := update_where (\<lambda>x. u_id x = u) (\<lambda>x. x\<lparr>u_username := name, u_updatedAt := now\<rparr>) (users d)\<rparr>"
    using assms(3) by (auto simp: updateProfile_def update_username_def split: option.splits if_splits)
  then show ?thesis using assms(1,2) by (auto simp: db_fits_simps db_fits_def user_fits_def intro!: update_where_all)
qed

lemma rotateKeys_fits:
  assumes "db_fits d" "\<And>u. user_fits u \<Longrightarrow> user_fits (rotate_row params now u)"
  shows "db_fits (snd (rotateKeys auditId ok i params now d))"
  using assms by (auto simp: rotateKeys_def Let_def db_fits_def intro!: update_where_all split: option.splits)

lemma send_fits:
  assumes "db_fits (w_db w)"
  shows "db_fits (w_db (snd (send verify fault gen fetch q input x now w)))"
proof (cases "fst (send verify fault gen fetch q input x now w)")
  case (Inl e)
  then show ?thesis using send_Inl assms by metis
next
  case (Inr p)
  then obtain w' where s: "send verify fault gen fetch q input x now w = (Inr p, w')" by (metis prod.collapse)
  then obtain u c row d i where lim: "assertSendLimits input = Inr ()" and ins: "insert_message_tx (gen i) input now (w_db w) = Inr (row, d)"
    and w': "w' = dispatchNewMessage fetch q p x now (w\<lparr>w_db := d\<rparr>)"
    by (rule send_Inr)
  have "message_fits row" using lim ins
    by (auto simp: message_fits_def insert_message_tx_Inr new_message_def assertSendLimits_def split: if_splits)
  then have "db_fits d" using assms ins
    by (auto simp: insert_message_tx_Inr db_fits_def channel_fits_def intro!: update_where_all)
  then show ?thesis using s w' by simp
qed

lemma create_fits:
  assumes "db_fits (w_db w)" "\<And>s. name = Some s \<Longrightarrow> length s \<le> 64"
  shows "db_fits (w_db (snd (create newId memberId u ps ty name now w)))"
proof (cases "fst (create newId memberId u ps ty name now w)")
  case (Inl e)
  then show ?thesis using create_Inl assms(1) by metis
next
  case (Inr r)
  then obtain w' where c: "create newId memberId u ps ty name now w = (Inr r, w')" by (metis prod.collapse)
  have grow: "db_fits d'" if "insertChannel newId memberId u others t n now (w_db w) = Inr (r, d')" "\<forall>s. n = Some s \<longrightarrow> length s \<le> 64" for others t n d'
    using insertChannel_Inr(2)[OF that(1)] that(2) assms(1)
    by (auto simp: db_fits_def channel_fits_def new_channel_def split: option.splits)
  from c have "db_fits (w_db w')"
  proof (rule create_Inr)
    fix others
    assume "(if ty = ''DIRECT'' then createDirect newId memberId u (hd others) now (w_db w)
      else insertChannel newId memberId u others ''GROUP'' (if name = Some [] then None else name) now (w_db w)) = Inr (r, w_db w')"
    then show ?thesis using grow createDirect_Inr[of newId memberId u "hd others" now "w_db w" r "w_db w'"] assms
      by (auto split: if_splits)
  qed
  then show ?thesis using c by simp
qed

section \<open>Every text fits its column\<close>

lemma rule_members:
  "Rule ''username'' False (Some trim) [IsString, MinLength 3, MaxLength 32, Matches USERNAME_PATTERN] \<in> set RegisterDto"
  "Rule ''email'' False (Some trim_lower) [IsEmail, MaxLength 255] \<in> set RegisterDto"
  "Rule ''username'' False (Some trim) [IsString, MinLength 3, MaxLength 32, Matches USERNAME_PATTERN] \<in> set UpdateProfileDto"
  "Rule ''name'' True (Some trim) [IsString, MaxLength 64] \<in> set CreateChannel_rules"
  "Rule ''newPublicKey'' False None [IsString, Matches PUBLIC_KEY_RE] \<in> set RotateKeysDto"
  "Rule ''newPublicKeySign'' False None [IsString, Matches PUBLIC_KEY_RE] \<in> set RotateKeysDto"
  by (simp_all add: RegisterDto_def UpdateProfileDto_def username_rule_def CreateChannel_rules_def RotateKeysDto_def)

lemma registered_row:
  assumes lib: "class_validator (en_run env) email isoDate" and r: "AuthController_register env req now w = (Inr u, w')"
  shows "3 \<le> length (u_username u) \<and> list_all word_char (u_username u) \<and> email (u_email u) \<and> u \<in> set (users (w_db w')) \<and>
    (\<forall>sent. jfield ''email'' (hq_body req) = Some (JStr sent) \<longrightarrow> u_email u = to_lower (js_trim sent))"
proof -
  obtain dto d w2 where dto: "class_pipe env RegisterDto (hq_body req) = Inr dto"
    and reg: "register (en_cf env) (en_register env) (en_ids env 0) (en_auditOk env) (str ''username'' dto) (str ''email'' dto)
      (str ''password'' dto) now d = (Inr u, w_db w')"
  proof (cases rule: app_throttler_cases[of env req now w])
    case (passed w1)
    obtain x w2 where x: "route_limit env (auth_limit ''register'' 5 False) None req now w1 = (x, w2)" by fastforce
    show ?thesis using r passed(1) x that[of _ "w_db w2"]
      by (cases x; cases "class_pipe env RegisterDto (hq_body req)")
        (auto simp: AuthController_register_def limited_def anyone_def on_db_def split: prod.splits)
  next
    case (blocked body message w1)
    then show ?thesis using r by (simp add: AuthController_register_def limited_def anyone_def)
  qed
  have u: "u_username u = str ''username'' dto" "u_email u = str ''email'' dto" "u \<in> set (users (w_db w'))"
    using register_Inr(1,2)[OF reg] by simp_all
  obtain raw where raw: "en_run env True RegisterDto (hq_body req) = ([], raw)" "dto = whitelist RegisterDto raw"
    using class_pipe_Inr[OF dto] by blast
  have mail: "str ''email'' dto = to_lower (js_trim sent)" if "jfield ''email'' (hq_body req) = Some (JStr sent)" for sent
  proof -
    have "jfield ''email'' dto = Some (trim_lower (JStr sent))"
      using class_validator.whitelisted_transform[OF lib raw(1) rule_members(2)] that raw(2)
      by (simp add: RegisterDto_def username_rule_def)
    then show ?thesis by (simp add: str_def trim_lower_def)
  qed
  note name = str_required[OF lib dto rule_members(1)] and addr = str_required[OF lib dto rule_members(2)]
  show ?thesis unfolding u(1,2) using name(2,3) addr(4) u(3) mail by (auto simp: USERNAME_PATTERN_def)
qed

text \<open>
  C22: Client texts fit their columns. With any validation library that meets its documentation, a database whose user, channel
  and message rows keep to the bounded columns of the schema still does after a registration, a change of profile, a message or a new channel
  over REST, whatever was sent and however the request ends, and after a key rotation whose salts have at most 64 characters. A
  registered user has a name of 3 to 32 word characters and a valid address, trimmed and in lower case. The salt pattern itself allows 65 characters, which is why the rotation needs the condition.
\<close>

theorem rest_writes_fit_columns:
  assumes lib: "class_validator (en_run env) email isoDate" and sizes: "register_sizes (en_register env)" and fits: "db_fits (w_db w)"
  shows "db_fits (w_db (snd (AuthController_register env req now w))) \<and>
    db_fits (w_db (snd (UsersController_updateMe env req now w))) \<and>
    db_fits (w_db (snd (MessagesController_send env req now w))) \<and>
    db_fits (w_db (snd (ChannelsController_create env req now w))) \<and>
    ((\<forall>dto. class_pipe env RotateKeysDto (hq_body req) = Inr dto \<longrightarrow>
        length (str ''newKeySalt'' dto) \<le> 64 \<and> length (str ''newKeySaltSign'' dto) \<le> 64) \<longrightarrow>
      db_fits (w_db (snd (KeysController_rotateKeys env req now w)))) \<and>
    (\<forall>u w'. AuthController_register env req now w = (Inr u, w') \<longrightarrow>
      3 \<le> length (u_username u) \<and> list_all word_char (u_username u) \<and> email (u_email u) \<and> u \<in> set (users (w_db w')) \<and>
      (\<forall>sent. jfield ''email'' (hq_body req) = Some (JStr sent) \<longrightarrow> u_email u = to_lower (js_trim sent))) \<and>
    (\<exists>salt. SALT_RE salt \<and> length salt = 65)"
proof (intro conjI impI allI)
  show "db_fits (w_db (snd (AuthController_register env req now w)))" unfolding AuthController_register_def
  proof (rule limited_db[where P = db_fits, OF _ fits])
    fix dto and w1 :: world
    assume w1: "w_db w1 = w_db w" and dto: "class_pipe env RegisterDto (hq_body req) = Inr dto"
    show "db_fits (w_db (snd (on_db (register (en_cf env) (en_register env) (en_ids env 0) (en_auditOk env) (str ''username'' dto)
        (str ''email'' dto) (str ''password'' dto) now) w1)))"
      using register_fits[of "w_db w1"] fits w1 sizes str_required(1)[OF lib dto rule_members(1), of 32]
        str_required(1)[OF lib dto rule_members(2), of 255] by (simp add: on_db_def split_beta)
  qed
  show "db_fits (w_db (snd (UsersController_updateMe env req now w)))" unfolding UsersController_updateMe_def
  proof (rule as_user_piped_db[where P = db_fits, OF _ fits])
    fix user dto and w1 :: world
    assume w1: "w_db w1 = w_db w" and dto: "class_pipe env UpdateProfileDto (hq_body req) = Inr dto"
    have "length (str ''username'' dto) \<le> 32" using str_required(1)[OF lib dto rule_members(3), of 32] by simp
    then show "db_fits (w_db (snd (on_db (\<lambda>d. case updateProfile (jw_id user) (str ''username'' dto) now d of
        Inl e \<Rightarrow> (Inl e, d) | Inr (row, d') \<Rightarrow> (Inr row, d')) w1)))"
      using updateProfile_fits fits w1 by (auto simp: on_db_def split: sum.split prod.split)
  qed
  show "db_fits (w_db (snd (MessagesController_send env req now w)))" unfolding MessagesController_send_def
    by (rule as_user_piped_db[where P = db_fits, OF _ fits]) (simp add: send_fits fits)
  show "db_fits (w_db (snd (ChannelsController_create env req now w)))" unfolding ChannelsController_create_def
  proof (rule as_user_piped_db[where P = db_fits, OF _ fits])
    fix user dto and w1 :: world
    assume w1: "w_db w1 = w_db w" and dto: "class_pipe env CreateChannel_rules (hq_body req) = Inr dto"
    show "db_fits (w_db (snd (create (en_ids env 0) (\<lambda>k. en_ids env (Suc k)) (jw_id user) (strs ''participantIds'' dto) (str ''type'' dto)
        (str_opt ''name'' dto) now w1)))"
      by (rule create_fits) (use fits w1 str_opt_bounded[OF lib dto rule_members(4), of 64] in simp_all)
  qed
  show "db_fits (w_db (snd (KeysController_rotateKeys env req now w)))"
    if salts: "\<forall>dto. class_pipe env RotateKeysDto (hq_body req) = Inr dto \<longrightarrow>
        length (str ''newKeySalt'' dto) \<le> 64 \<and> length (str ''newKeySaltSign'' dto) \<le> 64"
    unfolding KeysController_rotateKeys_def
  proof (rule as_user_piped_db[where P = db_fits, OF _ fits])
    fix user dto and w1 :: world
    assume w1: "w_db w1 = w_db w" and dto: "class_pipe env RotateKeysDto (hq_body req) = Inr dto"
    have "user_fits (rotate_row (rotate_params dto) now u)" if "user_fits u" for u
      using that salts dto PUBLIC_KEY_length[of "str ''newPublicKey'' dto"] PUBLIC_KEY_length[of "str ''newPublicKeySign'' dto"]
        str_required(3)[OF lib dto rule_members(5)] str_required(3)[OF lib dto rule_members(6)]
      by (auto simp: user_fits_def rotate_row_def rotate_params_def)
    then show "db_fits (w_db (snd (on_db (rotateKeys (en_ids env 0) (en_auditOk env) (jw_id user) (rotate_params dto) now) w1)))"
      using rotateKeys_fits[of "w_db w1" "rotate_params dto" now] fits w1 by (simp add: on_db_def split_beta)
  qed
  show "\<exists>salt. SALT_RE salt \<and> length salt = 65"
    by (rule exI[of _ "replicate 65 CHR ''A''"]) (simp add: SALT_RE_def b64_padded_def Let_def b64_char_def)
qed (use registered_row[OF lib] in blast)+

definition sample_body :: json where
  "sample_body = JObj [(''username'', JStr '' alice ''), (''email'', JStr ''Alice@X.org''), (''password'', JStr ''long secret'')]"

definition column_env :: rest_env where
  "column_env = sample_env\<lparr>en_register := sample_random\<lparr>rr_srpSalt := replicate 16 7\<rparr>\<rparr>"

theorem rest_writes_fit_columns_witness:
  "\<exists>u w'. AuthController_register column_env (sample_request None sample_body) 5 empty_world = (Inr u, w') \<and>
     u_email u = ''alice@x.org'' \<and> db_fits (w_db w')"
proof -
  let ?req = "sample_request None sample_body" and ?dto = "whitelist RegisterDto (instance_of RegisterDto sample_body)"
  have "fst (app_throttler column_env ?req 5 empty_world) = Inr ()" by code_simp
  then obtain w1 where w1: "app_throttler column_env ?req 5 empty_world = (Inr (), w1)" by (metis prod.collapse)
  then have db1: "w_db w1 = empty_db" using counted_same(1)[OF app_throttler_counted[of empty_world column_env ?req 5]] by simp
  have "fst (bindW (app_throttler column_env ?req 5 empty_world) (\<lambda>_. route_limit column_env (auth_limit ''register'' 5 False) None ?req 5)) = Inr ()"
    by code_simp
  then obtain w2 where w2: "route_limit column_env (auth_limit ''register'' 5 False) None ?req 5 w1 = (Inr (), w2)"
    using w1 by (metis bindW_simps(2) prod.collapse)
  then have db2: "w_db w2 = empty_db"
    using counted_same(1)[OF route_limit_counted[of column_env "auth_limit ''register'' 5 False" None ?req w1 5]] db1 by simp
  have "run_rules (\<lambda>e. e \<noteq> []) (\<lambda>d. True) True RegisterDto sample_body = ([], instance_of RegisterDto sample_body)" by code_simp
  then have pipe: "class_pipe column_env RegisterDto (hq_body ?req) = Inr ?dto"
    by (simp add: class_pipe_def validateSync_def column_env_def sample_env_def sample_request_def)
  obtain u w' where r: "AuthController_register column_env ?req 5 empty_world = (Inr u, w')"
    using w1 w2 pipe db2
    by (simp add: AuthController_register_def limited_def anyone_def on_db_def register_def Let_def insert_row_def)
  have lib: "class_validator (en_run column_env) (\<lambda>e. e \<noteq> []) (\<lambda>d. True)"
    using documented.class_validator_axioms by (simp add: column_env_def sample_env_def)
  have bytes: "is_bytes (replicate n k) \<longleftrightarrow> n = 0 \<or> k < 256" for n k by (induction n) (auto simp: is_bytes_def)
  have sizes: "register_sizes (en_register column_env)"
    by (simp add: register_sizes_def column_env_def sample_random_def SRP_SALT_BYTES_def bytes)
  have "db_fits (w_db empty_world)" by (simp add: db_fits_def)
  note t = rest_writes_fit_columns[OF lib sizes this, of "sample_request None sample_body" 5]
  have "to_lower (js_trim ''Alice@X.org'') = ''alice@x.org''" by code_simp
  moreover have "jfield ''email'' (hq_body (sample_request None sample_body)) = Some (JStr ''Alice@X.org'')"
    by (simp add: sample_request_def sample_body_def)
  ultimately have "u_email u = ''alice@x.org''" "db_fits (w_db w')" using t r by auto
  then show ?thesis using r by blast
qed

end
