(* ===== verification/Rooms.thy ===== *)
theory Rooms
  imports Socket_Events
begin

text \<open>
  Who is in the room of a channel. Members enter and leave the rooms through \<open>SocketsJoin\<close> and \<open>SocketsLeave\<close>; what a handler does to
  rooms, to the members of channels and to their cached sets is its room view, and all handlers but three leave the view alone or keep the
  agreement of cache and table.
\<close>

section \<open>The room view of a world\<close>

fun is_packet :: "emit \<Rightarrow> bool" where
  "is_packet (Emit rooms except event data) = True"
| "is_packet _ = False"

definition member_pairs :: "db \<Rightarrow> (uid \<times> cid) list" where
  "member_pairs d = map (\<lambda>m. (mb_userId m, mb_channelId m)) (memberships d)"

text \<open>Members of channels and the users there are.\<close>

definition people :: "db \<Rightarrow> (uid \<times> cid) list \<times> uid list" where
  "people d = (member_pairs d, map u_id (users d))"

definition room_ops :: "world \<Rightarrow> emit list" where
  "room_ops w = filter (\<lambda>e. \<not> is_packet e) (w_out w)"

definition room_view :: "world \<Rightarrow> link \<times> bool \<times> ((uid \<times> cid) list \<times> uid list) \<times> string list keyspace \<times> emit list" where
  "room_view w = (w_link w, w_server w, people (w_db w), r_sets (w_redis w), room_ops w)"

lemma pairs_rows: "member_pairs d' = member_pairs d \<Longrightarrow> member_rows c d' = member_rows c d"
proof -
  have "member_rows c d = map fst (filter (\<lambda>p. snd p = c) (member_pairs d))" for d
    unfolding member_rows_def member_pairs_def by (simp add: filter_map o_def)
  then show "member_pairs d' = member_pairs d \<Longrightarrow> member_rows c d' = member_rows c d" by simp
qed

lemma people_same: "people d' = people d \<Longrightarrow> member_rows c d' = member_rows c d \<and> member_pairs d' = member_pairs d \<and> user_ids d' = user_ids d"
  using pairs_rows[of d' d] by (simp add: people_def flip: set_map)

lemma people_tables [simp]:
  "map u_id x1 = map u_id (users d) \<Longrightarrow> people (d\<lparr>users := x1\<rparr>) = people d" "people (d\<lparr>channels := x2\<rparr>) = people d"
  "people (d\<lparr>messages := x3\<rparr>) = people d" "people (d\<lparr>reactions := x4\<rparr>) = people d"
  "people (d\<lparr>senderKeys := x5\<rparr>) = people d" "people (d\<lparr>refreshTokens := x6\<rparr>) = people d"
  "people (d\<lparr>auditLog := x7\<rparr>) = people d" "people (d\<lparr>messageReads := x8\<rparr>) = people d"
  "people (d\<lparr>callLogs := x9\<rparr>) = people d" "people (d\<lparr>callParticipants := x10\<rparr>) = people d"
  by (simp_all add: people_def member_pairs_def)

lemma user_ids_update [simp]: "(\<And>u. u_id (f u) = u_id u) \<Longrightarrow> map u_id (update_where P f us) = map u_id us"
  by (induction us) auto

lemma view_db [simp]: "people d = people (w_db w) \<Longrightarrow> room_view (w\<lparr>w_db := d\<rparr>) = room_view w"
  by (simp add: room_view_def room_ops_def)

lemma view_fields [simp]:
  "room_view (w\<lparr>w_jobs := js\<rparr>) = room_view w" "room_view (w\<lparr>w_rooms := rs\<rparr>) = room_view w" "room_view (upd_counters cs w) = room_view w"
  by (simp_all add: room_view_def room_ops_def upd_counters_def)

lemma view_redis [simp]: "r_sets r = r_sets (w_redis w) \<Longrightarrow> room_view (w\<lparr>w_redis := r\<rparr>) = room_view w"
  by (simp add: room_view_def room_ops_def)

lemma view_packet [simp]: "room_view (send_out (Emit rooms except event data) w) = room_view w"
  by (simp add: room_view_def room_ops_def send_out_def)

lemma view_emits [simp]:
  "room_view (snd (emitToUser u ev d w)) = room_view w" "room_view (emitToUsers us ev d w) = room_view w"
  "room_view (emitToChannel c ev d opt w) = room_view w" "room_view (emitToChannelAndUsers c us ev d w) = room_view w"
  by (simp_all add: emitToUser_def emitToUsers_def emitToChannel_def emitToChannelAndUsers_def)

lemma view_with_redis: "(\<And>r. r_sets (snd (f r)) = r_sets r) \<Longrightarrow> room_view (snd (with_redis d f w)) = room_view w"
  by (cases "w_link w") (simp_all add: with_redis_def split_beta)

lemma view_redis_services [simp]:
  "room_view (snd (addSocket now u s w)) = room_view w" "room_view (refreshSocket now u s w) = room_view w"
  "room_view (snd (removeSocket now u s w)) = room_view w" "room_view (setOnline now u w) = room_view w"
  "room_view (setOffline u w) = room_view w" "room_view (addPendingMessage now us m w) = room_view w"
  "room_view (snd (popPendingMessages now u n w)) = room_view w" "room_view (cacheMessage now c j w) = room_view w"
  "room_view (invalidateMessages c w) = room_view w" "room_view (incrementUnreadMany now us c w) = room_view w"
  "room_view (resetUnread u c w) = room_view w" "room_view (setTyping now c u w) = room_view w"
  "room_view (clearTyping now c u w) = room_view w" "room_view (snd (getTypingUsers now c w)) = room_view w"
  by (auto simp: redis_service_defs pop_remove_def Let_def intro!: view_with_redis)

lemma view_limits [simp]:
  "room_view (snd (checkRateLimit k c now w)) = room_view w" "room_view (snd (limit k c m now w)) = room_view w"
  "room_view (snd (call_allowed u s c now w)) = room_view w"
proof -
  show r: "room_view (snd (checkRateLimit k c now w)) = room_view w" for k c by (simp add: checkRateLimit_def split_beta split: link.split)
  show "room_view (snd (limit k c m now w)) = room_view w" "room_view (snd (call_allowed u s c now w)) = room_view w"
    using r by (simp_all add: limit_def call_allowed_def split_beta)
qed

lemma counted_view: "counted ks w w' \<Longrightarrow> room_view w' = room_view w"
  by (auto simp: counted_def)

lemma view_run_db [simp]: "people (snd (f (w_db w))) = people (w_db w) \<Longrightarrow> room_view (snd (run_db f w)) = room_view w"
  by (simp add: run_db_def split_beta)

lemma view_on_db [simp]: "people (snd (f (w_db w))) = people (w_db w) \<Longrightarrow> room_view (snd (on_db f w)) = room_view w"
  by (simp add: on_db_def split_beta)

section \<open>Services that leave the view alone\<close>

lemma pairs_update_where: "(\<And>m. mb_userId (f m) = mb_userId m \<and> mb_channelId (f m) = mb_channelId m) \<Longrightarrow>
    map (\<lambda>m. (mb_userId m, mb_channelId m)) (update_where P f ms) = map (\<lambda>m. (mb_userId m, mb_channelId m)) ms"
  by (induction ms) auto

lemma pairs_insert_call_log: "insert_call_log l d = Inr d' \<Longrightarrow> people d' = people d"
  by (auto simp: insert_call_log_def bindE_Inr_iff split: if_splits)

lemma pairs_webhook [simp]:
  "people (snd (handleRoomStarted ok newId room now d)) = people d" "people (handleRoomFinished ok newId room now d) = people d"
  "people (handleParticipantJoined ok newId room i name now d) = people d" "people (handleParticipantLeft ok room i now d) = people d"
  by (auto simp: handleRoomStarted_def handleRoomFinished_def handleParticipantJoined_def handleParticipantLeft_def Let_def
      dest!: pairs_insert_call_log split: option.split sum.split)

lemma pairs_services [simp]:
  "people (auth_audit i ok a u det ip now d) = people d"
  "people (snd (issueTokens cf ttl random rowId u now d)) = people d"
  "people (snd (auth_refreshTokens cf ttl random rowId token now d)) = people d"
  "people (snd (rotateKeys auditId ok u params now d)) = people d"
  "people (snd (uploadSenderKeys keyId u g epoch items now d)) = people d"
  "people (snd (endCallLog rowIds l i' c'' t now d)) = people d"
proof -
  show au: "people (auth_audit i ok a u det ip now d) = people d" for i ok a u det ip d by (simp add: auth_audit_def)
  show it: "people (snd (issueTokens cf ttl random rowId u now d)) = people d" for u d
    by (simp add: issueTokens_def Let_def split: sum.split)
  show "people (snd (auth_refreshTokens cf ttl random rowId token now d)) = people d"
    by (simp add: auth_refreshTokens_def Let_def it split: option.split)
  show "people (snd (rotateKeys auditId ok u params now d)) = people d"
    by (simp add: rotateKeys_def rotate_row_def Let_def split: option.split)
  show "people (snd (uploadSenderKeys keyId u g epoch items now d)) = people d"
    by (simp add: uploadSenderKeys_def Let_def split: sum.split)
  show "people (snd (endCallLog rowIds l i' c'' t now d)) = people d" by (simp add: endCallLog_def Let_def)
qed

lemma people_register:
  "member_pairs (snd (register cf rr auditId ok username email password now d)) = member_pairs d"
  "user_ids d \<subseteq> user_ids (snd (register cf rr auditId ok username email password now d))"
proof -
  have au: "member_pairs (auth_audit i ok a u det ip now d) = member_pairs d" for i ok a u det ip d by (simp add: auth_audit_def member_pairs_def)
  show "member_pairs (snd (register cf rr auditId ok username email password now d)) = member_pairs d"
    by (simp add: register_def Let_def au member_pairs_def auth_audit_def split: option.split sum.split)
  show "user_ids d \<subseteq> user_ids (snd (register cf rr auditId ok username email password now d))"
    by (auto simp: register_def Let_def insert_row_Inr_iff split: option.split sum.split)
qed

lemma pairs_createCallLog [simp]: "people (snd (createCallLog logId ty i c r ch now d)) = people d"
  by (auto simp: createCallLog_def dest!: pairs_insert_call_log split: sum.split)

lemma pairs_handleWebhook [simp]: "people (snd (handleWebhook lk receive ok newId raw hdr now d)) = people d"
  by (simp add: handleWebhook_def Let_def split: option.split)

lemma pairs_updateProfile: "updateProfile u name now d = Inr (r, d') \<Longrightarrow> people d' = people d"
  by (auto simp: updateProfile_def update_username_def Let_def split: option.splits sum.splits if_splits)

lemma pairs_insert_message: "insert_message_tx i input now d = Inr (row, d') \<Longrightarrow> people d' = people d"
  by (auto simp: insert_message_tx_Inr people_def member_pairs_def pairs_update_where)

lemma pairs_reaction: "reaction_tx i u m e now d = Inr (a, rs, d') \<Longrightarrow> people d' = people d"
  by (auto simp: reaction_tx_def Let_def bindE_Inr_iff split: if_splits)

lemma pairs_delete [simp]: "people (delete_message_tx i c now d) = people d"
  by (simp add: delete_message_tx_def Let_def split: option.split)

lemma pairs_mark_read [simp]: "people (snd (mark_read_update mi i target now d)) = people d"
  by (simp add: mark_read_update_def Let_def people_def member_pairs_def pairs_update_where)

lemma view_srp [simp]:
  "room_view (snd (srpState_set rerr now name st w)) = room_view w" "room_view (snd (srpState_consume rerr now name w)) = room_view w"
  by (simp_all add: srpState_set_def srpState_consume_def Let_def split: link.split)

lemma view_auth [simp]:
  "room_view (snd (loginStart cf secret random rerr now name w)) = room_view w"
  "room_view (logout auditId ok now u w) = room_view w"
proof -
  show "room_view (snd (loginStart cf secret random rerr now name w)) = room_view w"
    using view_srp(1)[of rerr now name] by (fastforce simp: loginStart_def Let_def split_beta split: sum.splits dest: arg_cong[where f = snd])
  show "room_view (logout auditId ok now u w) = room_view w" by (simp add: logout_def Let_def)
qed

lemma view_loginFinish [simp]: "room_view (snd (loginFinish cf ttl random rowId auditId ok rerr now name A M1 ip w)) = room_view w"
proof -
  obtain x w1 where x: "srpState_consume rerr now name w = (x, w1)" by fastforce
  have "room_view (snd (finish_login cf ttl random rowId auditId ok now ip u M2 w1)) = room_view w1" for u M2
    by (simp add: finish_login_def login_row_def Let_def split_beta split: sum.split)
  then show ?thesis using x view_srp(2)[of rerr now name w] by (simp add: loginFinish_def Let_def split: sum.split option.split)
qed

lemma view_markRead [simp]: "room_view (snd (markRead readId u c m now w)) = room_view w"
  by (simp add: markRead_def Let_def split_beta split: option.split prod.split)

lemma view_archive [simp]: "room_view (snd (archive c u now w)) = room_view w"
  by (simp add: archive_def Let_def split: option.split)

lemma view_deleteMessage [simp]: "room_view (snd (deleteMessage u m now w)) = room_view w"
  by (simp add: deleteMessage_def Let_def split: option.split)

lemma view_broadcasts: "room_view (fold (broadcast ev act c m) es w) = room_view w"
  by (induction es arbitrary: w) (simp_all add: broadcast_def)

lemma view_reactions [simp]:
  "room_view (snd (addReaction i act c m e now w)) = room_view w" "room_view (snd (removeReaction act c m e w)) = room_view w"
proof -
  have b: "room_view (broadcast ev act c m e w) = room_view w" for ev e w by (simp add: broadcast_def)
  show "room_view (snd (addReaction i act c m e now w)) = room_view w"
    using pairs_reaction by (fastforce simp: addReaction_def Let_def view_broadcasts b split: sum.split prod.split)
  show "room_view (snd (removeReaction act c m e w)) = room_view w" by (simp add: removeReaction_def Let_def b split: sum.split)
qed

lemma view_messages [simp]:
  "room_view (snd (getMessages c u n cur mode now w)) = room_view w" "room_view (snd (channel_getTypingUsers c u now w)) = room_view w"
  "room_view (snd (runMessageDelivery now job w)) = room_view w"
proof -
  have "room_view (snd (getCachedPage now c (safe_limit n) w)) = room_view w" by (simp add: getCachedPage_def Let_def)
  then show "room_view (snd (getMessages c u n cur mode now w)) = room_view w"
    by (cases "getCachedPage now c (safe_limit n) w") (auto simp: getMessages_def Let_def split: sum.split option.split)
  show "room_view (snd (channel_getTypingUsers c u now w)) = room_view w"
    by (simp add: channel_getTypingUsers_def split_beta split: sum.split)
  show "room_view (snd (runMessageDelivery now job w)) = room_view w" by (simp add: runMessageDelivery_def)
qed

section \<open>Calls\<close>

lemma sets_call_keys [simp]:
  "r_sets (create_keys c i t l now r) = r_sets r" "r_sets (accept_keys call now r) = r_sets r" "r_sets (cleanup_keys c h r) = r_sets r"
  by (simp_all add: create_keys_def accept_keys_def cleanup_keys_def Let_def)

lemma view_call_service [simp]:
  "room_view (snd (createCall rerr callId i t l now w)) = room_view w" "room_view (acceptCall call now w) = room_view w"
  "room_view (snd (cleanupCall callId now w)) = room_view w" "room_view (createRoom lk room n w) = room_view w"
  by (simp_all add: createCall_def acceptCall_def cleanupCall_def createRoom_def with_redis_def Let_def split: link.split)

lemma view_cleanupUserCall [simp]: "room_view (snd (cleanupUserCall rerr u now w)) = room_view w"
  by (simp add: cleanupUserCall_def split_beta split: link.split option.split)

lemma view_call_logs [simp]:
  "room_view (snd (known_log logId call now w)) = room_view w" "room_view (snd (finishConnectedCall logId rowIds call now w)) = room_view w"
  "room_view (snd (end_if_connected logId rowIds call now w)) = room_view w"
proof -
  show k: "room_view (snd (known_log logId call now w)) = room_view w" by (simp add: known_log_def split: option.split)
  show f: "room_view (snd (finishConnectedCall logId rowIds call now w)) = room_view w"
    using k by (cases "known_log logId call now w") (simp add: finishConnectedCall_def split: sum.split)
  show "room_view (snd (end_if_connected logId rowIds call now w)) = room_view w" using f by (simp add: end_if_connected_def)
qed

lemma view_call_logsD:
  "known_log logId call now w = (x, w1) \<Longrightarrow> room_view w1 = room_view w"
  "finishConnectedCall logId rowIds call now w = (y, w1) \<Longrightarrow> room_view w1 = room_view w"
  "end_if_connected logId rowIds call now w = (y, w1) \<Longrightarrow> room_view w1 = room_view w"
  by (metis snd_conv view_call_logs)+

lemma view_ring [simp]: "room_view (snd (ring rerr callId logId usr t ch now w)) = room_view w"
proof -
  obtain x w1 where x: "run_db (createCallLog logId ''WEBRTC'' (su_id usr) (Some t) None ch now) w = (x, w1)" by fastforce
  then have "room_view w1 = room_view w" using view_run_db[of "createCallLog logId ''WEBRTC'' (su_id usr) (Some t) None ch now" w] by simp
  then show ?thesis using x by (simp add: ring_def split: sum.split)
qed

lemma view_invite_commit [simp]: "room_view (snd (invite_commit rerr callId logId usr t now w)) = room_view w"
  using view_ring[of rerr callId logId usr t None now w]
  by (cases "ring rerr callId logId usr t None now w") (simp add: invite_commit_def split: sum.split)

lemma view_handleInvite [simp]: "room_view (snd (handleInvite rerr callId logId user data now w)) = room_view w"
proof -
  obtain x w1 where x: "invite_checks user data now w = (x, w1)" by fastforce
  have "room_view (snd (invite_checks user data now w)) = room_view w" by (simp add: invite_checks_def split_beta Let_def split: option.split)
  then show ?thesis using x by (simp add: handleInvite_def split: sum.split prod.split)
qed

lemma view_handleAccept [simp]: "room_view (snd (handleAccept user data now w)) = room_view w"
  by (simp add: handleAccept_def updateCallLogAccepted_def set_log_status_def Let_def split: option.split)

lemma view_handleReject [simp]: "room_view (snd (handleReject logId user data now w)) = room_view w"
  by (auto simp: handleReject_def Let_def updateCallLogRejected_def set_log_status_def
      dest: view_call_logsD(1) split: option.split prod.split sum.split)

lemma view_handleHangup [simp]: "room_view (snd (handleHangup logId rowIds user data now w)) = room_view w"
  by (auto simp: handleHangup_def Let_def dest: view_call_logsD(3) split: option.split prod.split sum.split)

lemma view_callGone [simp]: "room_view (handleDisconnect rerr logId rowIds user clientId remaining now w) = room_view w"
proof (cases user)
  case (Some usr)
  obtain x w1 where x: "cleanupUserCall rerr (su_id usr) now w = (x, w1)" by fastforce
  then have w1: "room_view w1 = room_view w" using view_cleanupUserCall[of rerr "su_id usr" now w] by simp
  have "room_view (case finishConnectedCall logId rowIds call now w1 of (Inl e, w2) \<Rightarrow> w2 | (Inr u, w2) \<Rightarrow> snd (emitToUser o' ev j w2)) = room_view w"
    for call o' ev j
    using view_call_logs(2)[of logId rowIds call now w1] w1 by (cases "finishConnectedCall logId rowIds call now w1") (simp split: sum.split)
  then show ?thesis using Some x w1 by (simp add: handleDisconnect_def Let_def split: sum.split option.split)
qed (simp add: handleDisconnect_def)

lemma view_relay [simp]: "room_view (relay ev body user data now w) = room_view w"
proof -
  obtain x w1 where x: "relayTarget user (jfield ''callId'' data) now w = (x, w1)" by fastforce
  have "room_view (snd (relayTarget user (jfield ''callId'' data) now w)) = room_view w"
    by (simp add: relayTarget_def split_beta Let_def split: option.split)
  then show ?thesis using x by (simp add: relay_def split: option.split prod.split)
qed

lemma view_signals [simp]:
  "room_view (handleOffer user data now w) = room_view w" "room_view (handleAnswer user data now w) = room_view w"
  "room_view (handleIceCandidate user data now w) = room_view w"
  by (simp_all add: handleOffer_def handleAnswer_def handleIceCandidate_def split: option.split)

lemma view_group_invites [simp]: "room_view (fold (group_invite lk ok room usr names) us w) = room_view w"
proof (induction us arbitrary: w)
  case (Cons u us)
  have "room_view (group_invite lk ok room usr names u w) = room_view w" by (simp add: group_invite_def split: option.split)
  then show ?case by (simp add: Cons.IH)
qed simp

lemma view_logD: "run_db (createCallLog logId ty i c r ch now) w = (x, w1) \<Longrightarrow> room_view w1 = room_view w"
  using view_run_db[of "createCallLog logId ty i c r ch now" w] by simp

lemma view_ringD: "ring rerr callId logId usr t ch now w = (x, w1) \<Longrightarrow> room_view w1 = room_view w"
  by (metis snd_conv view_ring)

lemma view_initiate_parts [simp]:
  "room_view (snd (initiateLiveKitGroupCall lk ok logId usr c ts now w)) = room_view w"
  "room_view (snd (initiate_dm rerr callId logId usr ch ts now w)) = room_view w"
  "room_view (livekit_incoming lk room usr u w) = room_view w"
proof -
  show "room_view (snd (initiateLiveKitGroupCall lk ok logId usr c ts now w)) = room_view w"
    by (auto simp: initiateLiveKitGroupCall_def Let_def dest!: view_logD split: prod.split sum.split)
  show "room_view (snd (initiate_dm rerr callId logId usr ch ts now w)) = room_view w"
    by (auto simp: initiate_dm_def Let_def dest!: view_ringD split: list.split prod.split sum.split)
  show "room_view (livekit_incoming lk room usr u w) = room_view w" by (simp add: livekit_incoming_def split: option.split)
qed

lemma view_initiate [simp]:
  "room_view (snd (handleInitiate lk ok rerr callId logId user data now w)) = room_view w"
  "room_view (snd (handleLiveKitFallback lk logId user data now w)) = room_view w"
proof -
  show "room_view (snd (handleInitiate lk ok rerr callId logId user data now w)) = room_view w"
    by (simp add: handleInitiate_def Let_def split_beta split: option.split)
  show "room_view (snd (handleLiveKitFallback lk logId user data now w)) = room_view w"
    by (auto simp: handleLiveKitFallback_def Let_def dest!: view_logD split: option.split list.split prod.split sum.split)
      (metis snd_conv view_limits(3))+
qed

section \<open>Handlers that read the cached members\<close>

definition calm :: "world \<Rightarrow> world \<Rightarrow> bool" where
  "calm w w' \<longleftrightarrow> w_link w' = w_link w \<and> w_server w' = w_server w \<and> member_pairs (w_db w') = member_pairs (w_db w) \<and>
     user_ids (w_db w) \<subseteq> user_ids (w_db w') \<and> room_ops w' = room_ops w \<and> (members_coherent w \<longrightarrow> members_coherent w')"

lemma view_calm: "room_view w' = room_view w \<Longrightarrow> calm w w'"
  using people_same[of "w_db w'" "w_db w"] by (auto simp: room_view_def calm_def members_coherent_def)

lemma calm_refl [simp]: "calm w w"
  by (simp add: view_calm)

lemma calm_trans: "calm w w1 \<Longrightarrow> calm w1 w2 \<Longrightarrow> calm w w2"
  by (auto simp: calm_def)

lemma calm_view: "calm w w1 \<Longrightarrow> room_view w2 = room_view w1 \<Longrightarrow> calm w w2"
  by (rule calm_trans) (auto intro: view_calm)

lemma view_then_calm: "room_view w1 = room_view w \<Longrightarrow> calm w1 w2 \<Longrightarrow> calm w w2"
  by (rule calm_trans[OF view_calm])

lemma calm_register: "calm w (snd (on_db (register cf rr auditId ok username email password now) w))"
proof -
  let ?d = "snd (register cf rr auditId ok username email password now (w_db w))"
  have "member_rows c ?d = member_rows c (w_db w)" for c by (rule pairs_rows[OF people_register(1)])
  then show ?thesis using people_register(1)[where d = "w_db w"] people_register(2)[where d = "w_db w"]
    by (auto simp: on_db_def split_beta calm_def members_coherent_def room_ops_def)
qed

lemma calm_lookups: "calm w (snd (getMembers now c w))" "calm w (snd (isMember now c u w))"
proof -
  have "room_ops (setMembers now c us w) = room_ops w" for us by (simp add: setMembers_def with_redis_def room_ops_def split: link.split)
  then show g: "calm w (snd (getMembers now c w))" by (simp add: calm_def getMembers_coherent) (simp add: getMembers_def Let_def)
  show "calm w (snd (isMember now c u w))" using g by (simp add: isMember_def Let_def split_beta)
qed

lemma calm_dispatch: "calm w (dispatchNewMessage fetch q p x now w)"
proof -
  obtain us w1 where m: "getMembers now (pl_channelId p) w = (us, w1)" by fastforce
  then have "calm w w1" using calm_lookups(1)[where w = w and now = now and c = "pl_channelId p"] by simp
  then show ?thesis by (rule calm_view) (simp add: dispatchNewMessage_def Let_def m)
qed

lemma calm_send: "calm w (snd (send verify fault gen fetch q input x now w))"
proof (cases "send verify fault gen fetch q input x now w")
  case (Pair r w')
  show ?thesis
  proof (cases r)
    case (Inl e)
    then show ?thesis using Pair by (auto simp: send_def Let_def split: sum.splits option.splits if_splits)
  next
    case (Inr payload)
    then obtain u c row d i where tx: "insert_message_tx (gen i) input now (w_db w) = Inr (row, d)"
        "w' = dispatchNewMessage fetch q payload x now (w\<lparr>w_db := d\<rparr>)"
      using Pair by (auto elim: send_commit)
    show ?thesis using view_then_calm[OF view_db[OF pairs_insert_message[OF tx(1)]] calm_dispatch] Pair tx(2) by simp
  qed
qed

lemma calm_bindW: "calm w (snd rw) \<Longrightarrow> (\<And>x w1. calm w1 (snd (f x w1))) \<Longrightarrow> calm w (snd (bindW rw f))"
  by (cases rw; cases "fst rw") (auto intro: calm_trans)

lemma calm_requireMember: "calm w (snd (requireMember now c u w))"
  using calm_lookups(2)[where w = w and now = now and c = c and u = u] by (simp add: requireMember_def split_beta)

lemma calm_checks: "calm w (snd (typing_checks valid u data now w))" "calm w (snd (join_checks valid u data now w))"
  unfolding typing_checks_def join_checks_def by (intro calm_bindW calm_requireMember; simp add: view_calm)+

section \<open>Members come and go\<close>

text \<open>
  What a change of the world owes the rooms. While Redis is up the cached sets stay in agreement with the table; sockets are joined to
  the room of a channel only by the personal rooms of members; and when a membership is gone, the sockets of that user are told to leave and none is told to
  join.
\<close>

definition rooms_kept :: "world \<Rightarrow> world \<Rightarrow> bool" where
  "rooms_kept w w' \<longleftrightarrow> w_link w' = w_link w \<and> w_server w' = w_server w \<and> user_ids (w_db w) \<subseteq> user_ids (w_db w') \<and>
     (w_link w = Up \<and> w_server w \<and> members_coherent w \<and> channels_ok (w_db w) \<longrightarrow> members_coherent w' \<and>
      (\<exists>ops. room_ops w' = room_ops w @ ops \<and>
        (\<forall>rooms room. SocketsJoin rooms room \<in> set ops \<longrightarrow>
           (\<exists>c. room = channelRoom c \<and> (\<forall>r \<in> set rooms. \<exists>u. r = userRoom u \<and> u \<in> set (member_rows c (w_db w'))))) \<and>
        (\<forall>rooms room. SocketsLeave rooms room \<in> set ops \<longrightarrow> (\<exists>c. room = channelRoom c)) \<and>
        (\<forall>c u. u \<in> set (member_rows c (w_db w)) \<and> u \<notin> set (member_rows c (w_db w')) \<longrightarrow>
           SocketsLeave [userRoom u] (channelRoom c) \<in> set ops \<and> (\<forall>rooms room. SocketsJoin rooms room \<notin> set ops))))"

lemma calm_rooms_kept: "calm w w' \<Longrightarrow> rooms_kept w w'"
  using pairs_rows[of "w_db w'" "w_db w"] unfolding calm_def rooms_kept_def by (auto intro!: exI[of _ "[]"])

lemma calm_then_kept:
  assumes "calm w w1" "rooms_kept w1 w'" "channels_ok (w_db w) \<longrightarrow> channels_ok (w_db w1)"
  shows "rooms_kept w w'"
proof -
  have "member_rows c (w_db w1) = member_rows c (w_db w)" for c using assms(1) pairs_rows[of "w_db w1" "w_db w"] by (simp add: calm_def)
  moreover have "user_ids (w_db w) \<subseteq> user_ids (w_db w1)" "user_ids (w_db w1) \<subseteq> user_ids (w_db w')"
    using assms(1,2) unfolding calm_def rooms_kept_def by (simp_all only: simp_thms)
  then have "user_ids (w_db w) \<subseteq> user_ids (w_db w')" by (rule order_trans)
  ultimately show ?thesis using assms unfolding calm_def rooms_kept_def by simp
qed

lemma room_ops_simps [simp]:
  "room_ops (send_out (Emit rooms except event data) w) = room_ops w" "room_ops (invalidate c w) = room_ops w" "room_ops (resetUnread u c w) = room_ops w"
  "room_ops (setMembers now c us w) = room_ops w" "room_ops (w\<lparr>w_db := d\<rparr>) = room_ops w"
  "w_server w \<Longrightarrow> room_ops (send_out (SocketsJoin rs r) w) = room_ops w @ [SocketsJoin rs r]"
  "w_server w \<Longrightarrow> room_ops (send_out (SocketsLeave rs r) w) = room_ops w @ [SocketsLeave rs r]"
  by (simp_all add: room_ops_def send_out_def invalidate_def resetUnread_def setMembers_def with_redis_def split: link.split)

lemma kept_addMember: "rooms_kept w (snd (addMember i c req v role now w))"
proof (cases "addMember i c req v role now w")
  case (Pair r w')
  show ?thesis
  proof (cases r)
    case (Inl e)
    then show ?thesis using Pair addMember_Inl[of i c req v role now w e] by (simp add: calm_rooms_kept)
  next
    case (Inr x)
    note a = addMember_Inr[OF Pair[unfolded Inr]]
    note rows = add_member_rows(1)[OF a(1)]
    have w': "w' = emitToChannelAndUsers c [v] ''channel:member-added'' (member_json c v)
        (joinUsersToChannel [v] c (invalidate c (w\<lparr>w_db := w_db w'\<rparr>)))"
      using Pair a(1) by (simp add: addMember_def)
    have users: "users (w_db w') = users (w_db w)" using a(1) by (auto elim!: add_member_db_Inr)
    have "members_coherent w'" if "w_link w = Up" "members_coherent w" by (rule members_coherent_change[OF that(2,1) a(3)]) (simp add: rows)
    moreover have "room_ops w' = room_ops w @ [SocketsJoin [userRoom v] (channelRoom c)]" if "w_server w"
      using that by (subst w') (simp add: emitToChannelAndUsers_def joinUsersToChannel_def)
    moreover have "w_server w' = w_server w" by (subst w') simp
    ultimately show ?thesis using Pair a(2) rows users by (auto simp: rooms_kept_def)
  qed
qed

lemma kept_removeMember:
  assumes "to_lower c = c" "to_lower v = v"
  shows "rooms_kept w (snd (removeMember c req v now w))"
proof (cases "removeMember c req v now w")
  case (Pair r w')
  show ?thesis
  proof (cases r)
    case (Inl e)
    then show ?thesis using Pair removeMember_Inl[of c req v now w e] by (simp add: calm_rooms_kept)
  next
    case (Inr x)
    note a = removeMember_Inr[OF Pair[unfolded Inr], unfolded assms]
    note rows = remove_member_rows(1)[OF a(1)]
    have w': "w' = removeUserFromChannel v c (emitToChannelAndUsers c [v] ''channel:member-removed'' (member_json c v)
        (resetUnread v c (invalidate c (w\<lparr>w_db := w_db w'\<rparr>))))"
      using Pair a(1) Inr by (auto simp: removeMember_def assms split: if_splits)
    have users: "users (w_db w') = users (w_db w)" using a(1) by (auto elim!: remove_member_tx_Inr)
    have "members_coherent w'" if "w_link w = Up" "members_coherent w" by (rule members_coherent_change[OF that(2,1) a(3)]) (simp add: rows)
    moreover have "room_ops w' = room_ops w @ [SocketsLeave [userRoom v] (channelRoom c)]" if "w_server w"
      using that by (subst w') (simp add: emitToChannelAndUsers_def removeUserFromChannel_def)
    moreover have "w_server w' = w_server w" by (subst w') simp
    ultimately show ?thesis using Pair a(2) rows users by (auto simp: rooms_kept_def split: if_splits)
  qed
qed

lemma create_rooms:
  assumes "create newId memberId u ps ty name now w = (Inr r, w')"
  obtains us where "u \<in> set us" "set us \<subseteq> set (member_rows (ch_id (cr_channel r)) (w_db w'))" "w_server w' = w_server w" "w_link w' = w_link w"
    "w_server w \<Longrightarrow> room_ops w' = room_ops w @ [SocketsJoin (map userRoom us) (channelRoom (ch_id (cr_channel r)))]"
    "\<And>c. set (member_rows c (w_db w)) \<subseteq> set (member_rows c (w_db w'))" "users (w_db w') = users (w_db w)"
  using assms
proof (rule create_Inr)
  fix others
  assume chk: "create_checks u ps ty (w_db w) = Inr others"
    and ins: "(if ty = ''DIRECT'' then createDirect newId memberId u (hd others) now (w_db w)
      else insertChannel newId memberId u others ''GROUP'' (if name = Some [] then None else name) now (w_db w)) = Inr (r, w_db w')"
    and link: "w_link w' = w_link w"
  let ?i = "ch_id (cr_channel r)"
  have w': "w' = (if cr_created r then emitToUsers (u # others) ''channel:created'' (JObj [(''channel'', channel_json (cr_channel r)),
          (''memberIds'', JArr (map JStr (u # others))), (''createdBy'', JStr u)])
        (joinUsersToChannel (u # others) ?i (setMembers now ?i (u # others) (w\<lparr>w_db := w_db w'\<rparr>)))
      else joinUsersToChannel [u] ?i (w\<lparr>w_db := w_db w'\<rparr>))"
    using assms chk ins by (auto simp: create_def Let_def split: if_splits)
  have server: "w_server w' = w_server w" by (subst w') simp
  have hd: "ty = ''DIRECT'' \<Longrightarrow> [hd others] = others" and ne: "hd others \<noteq> u" "others \<noteq> []"
    using create_checks_Inr(2,4,5)[OF chk] by (cases others; auto)+
  consider (new) ty' n where "insertChannel newId memberId u others ty' n now (w_db w) = Inr (r, w_db w')"
    | (same) c where "existing_direct u (hd others) (w_db w) = Some c" "w_db w' = w_db w" "\<not> cr_created r"
        "cr_channel r = the (first_row (filter (\<lambda>x. ch_id x = c) (channels (w_db w))))"
    using ins hd createDirect_Inr[of newId memberId u "hd others" now "w_db w" r "w_db w'"] by (auto split: if_splits)
  then show thesis
  proof cases
    case new
    have r: "r = \<lparr>cr_channel = new_channel newId ty' n now, cr_created = True\<rparr>" using insertChannel_Inr(1)[OF new] .
    then have i: "?i = newId" "cr_created r" by (simp_all add: new_channel_def)
    have "room_ops w' = room_ops w @ [SocketsJoin (map userRoom (u # others)) (channelRoom ?i)]" if "w_server w"
      using that by (subst w') (simp add: i(2) emitToUsers_def joinUsersToChannel_def)
    then show thesis using that[of "u # others"] server link i(1) insertChannel_members(1)[OF new] insertChannel_Inr(2)[OF new] by auto
  next
    case same
    then have "c \<in> direct_between u (hd others) (w_db w)" using ne existing_direct_iff(2)[of u "hd others"] by blast
    then have c: "is_direct c (w_db w)" "in_channel u c (w_db w)" by (simp_all add: direct_between_def)
    then obtain ch where "first_row (filter (\<lambda>x. ch_id x = c) (channels (w_db w))) = Some ch"
      by (cases "filter (\<lambda>x. ch_id x = c) (channels (w_db w))") (auto simp: is_direct_def filter_empty_conv)
    then have i: "?i = c" using same(4) first_row_filterD by fastforce
    have "room_ops w' = room_ops w @ [SocketsJoin [userRoom u] (channelRoom ?i)]" if "w_server w"
      using that by (subst w') (simp add: same(3) joinUsersToChannel_def)
    then show thesis using that[of "[u]"] server link c(2) same(2) i by (auto simp: in_channel_def)
  qed
qed

lemma kept_create: "rooms_kept w (snd (create newId memberId u ps ty name now w))"
proof (cases "create newId memberId u ps ty name now w")
  case (Pair r w')
  show ?thesis
  proof (cases r)
    case (Inl e)
    then show ?thesis using Pair create_Inl[of newId memberId u ps ty name now w e] by (simp add: calm_rooms_kept)
  next
    case (Inr x)
    show ?thesis
    proof (rule create_rooms[OF Pair[unfolded Inr]])
      fix us
      assume c: "set us \<subseteq> set (member_rows (ch_id (cr_channel x)) (w_db w'))" "w_server w' = w_server w" "w_link w' = w_link w"
        "w_server w \<Longrightarrow> room_ops w' = room_ops w @ [SocketsJoin (map userRoom us) (channelRoom (ch_id (cr_channel x)))]"
        "\<And>c. set (member_rows c (w_db w)) \<subseteq> set (member_rows c (w_db w'))" "users (w_db w') = users (w_db w)"
      have "members_coherent w'" if "members_coherent w" "channels_ok (w_db w)"
        using members_coherent_create[OF that(1) _ Pair[unfolded Inr]] that(2) by (simp add: channels_ok_def)
      then show ?thesis using Pair c by (auto simp: rooms_kept_def)
    qed
  qed
qed

section \<open>Requests\<close>

lemma kept_counted: "counted ks w w1 \<Longrightarrow> rooms_kept w1 w' \<Longrightarrow> rooms_kept w w'"
  using calm_then_kept[of w w1 w'] counted_view[of ks w w1] counted_same(1)[of ks w w1] by (simp add: view_calm)

lemma kept_refl [simp]: "rooms_kept w w"
  by (simp add: calm_rooms_kept)

lemma kept_view: "room_view w' = room_view w \<Longrightarrow> rooms_kept w w'"
  by (simp add: calm_rooms_kept view_calm)

lemma kept_pure: "(\<And>x. m = Inr x \<Longrightarrow> rooms_kept w (snd (h x w))) \<Longrightarrow> rooms_kept w (snd (bindW (m, w) h))"
  by (cases m) simp_all

lemma kept_anyone:
  assumes "\<And>w1. rooms_kept w1 (snd (h w1))"
  shows "rooms_kept w (snd (anyone env req now w h))"
proof (cases rule: app_throttler_cases[of env req now w])
  case (passed w1)
  then show ?thesis using assms[of w1] kept_counted by (simp add: anyone_def)
next
  case (blocked body message w1)
  then show ?thesis using kept_counted[OF blocked(2) kept_refl] by (simp add: anyone_def)
qed

lemma kept_route_limit:
  assumes "\<And>x w1. rooms_kept w1 (snd (h x w1))"
  shows "rooms_kept w (snd (bindW (route_limit env options userId req now w) h))"
proof (cases "route_limit env options userId req now w")
  case (Pair x w1)
  then have c: "counted (route_keys env options userId req) w w1" using route_limit_counted[of env options userId req w now] by simp
  show ?thesis using Pair assms kept_counted[OF c] by (cases x) auto
qed

lemma kept_limited: "(\<And>x w1. rooms_kept w1 (snd (h x w1))) \<Longrightarrow> rooms_kept w (snd (limited env options rules req now w h))"
  unfolding limited_def by (intro kept_anyone kept_route_limit kept_pure)

lemma kept_as_user: "(\<And>user w1. rooms_kept w1 (snd (h user w1))) \<Longrightarrow> rooms_kept w (snd (as_user env req now w h))"
  unfolding as_user_def by (intro kept_anyone kept_pure)

lemma view_updateMe [simp]:
  "room_view (snd (on_db (\<lambda>d. case updateProfile u name now d of Inl e \<Rightarrow> (Inl e, d) | Inr (row, d') \<Rightarrow> (Inr row, d')) w)) = room_view w"
  by (auto simp: on_db_def dest: pairs_updateProfile split: sum.split)

lemma view_read_db [simp]: "room_view (snd (read_db f w)) = room_view w"
  by (simp add: read_db_def)

lemma kept_public: "is_public r \<Longrightarrow> rooms_kept w (snd (rest_handle env r req now w))"
  by (auto simp: is_public_def health_quiet public_routes kept_view intro!: kept_limited kept_anyone calm_rooms_kept[OF calm_register])

text \<open>The ids in the path of the request are spelled as in the table.\<close>

definition canonical_path :: "http_request \<Rightarrow> bool" where
  "canonical_path req \<longleftrightarrow> to_lower (hq_param req ''channelId'') = hq_param req ''channelId'' \<and>
     to_lower (hq_param req ''targetUserId'') = hq_param req ''targetUserId''"

lemma uuid_pipe_Inr: "uuid_pipe env s = Inr x \<Longrightarrow> x = s"
  by (simp add: uuid_pipe_def split: if_splits)

lemma kept_remove_route: "canonical_path req \<Longrightarrow> rooms_kept w (snd (ChannelsController_removeMember env req now w))"
  unfolding ChannelsController_removeMember_def canonical_path_def
  by (intro kept_as_user kept_pure) (auto dest!: uuid_pipe_Inr intro!: kept_removeMember)

lemma kept_guarded:
  assumes "\<not> is_public r" "r = R_Channels_removeMember \<longrightarrow> canonical_path req"
  shows "rooms_kept w (snd (rest_handle env r req now w))"
proof (cases "r = R_Channels_removeMember")
  case True
  then show ?thesis using assms kept_remove_route by simp
next
  case False
  then show ?thesis using assms(1)
    by (cases r) (auto simp: is_public_def is_health_def guarded_routes kept_view
        intro!: kept_as_user kept_pure kept_create kept_addMember calm_rooms_kept[OF calm_send] kept_route_limit)
qed

lemma kept_rest: "canonical_path req \<Longrightarrow> rooms_kept w (snd (rest_handle env r req now w))"
  using kept_public kept_guarded by blast

end
