(* ===== verification/Live_System.thy ===== *)
theory Live_System
  imports Rooms
begin

text \<open>
  The running server with its sockets: REST requests, connections, socket events, disconnections, typing timers, heartbeats, delivery jobs and
  the clock as actions on one state. What the handlers hand to Socket.IO is applied to the sockets by the library, which is the
  argument \<open>sio\<close>; the locale \<open>socket_io\<close> says what its documentation promises.
\<close>

section \<open>Socket.IO\<close>

text \<open>
  The effect of one operation on one socket: a packet reaches the connected sockets in one of its rooms, except those excluded by their id or
  one of their rooms; \<open>socketsJoin\<close> and \<open>socketsLeave\<close> move the connected sockets of the given rooms.
\<close>

definition in_rooms :: "string list \<Rightarrow> socket_client \<Rightarrow> bool" where
  "in_rooms rooms c \<longleftrightarrow> so_connected c \<and> (\<exists>r \<in> set rooms. r \<in> set (so_rooms c))"

definition receives :: "string list \<Rightarrow> string list \<Rightarrow> socket_client \<Rightarrow> bool" where
  "receives rooms except c \<longleftrightarrow> in_rooms rooms c \<and> \<not> (\<exists>x \<in> set except. x = so_id c \<or> x \<in> set (so_rooms c))"

locale socket_io =
  fixes sio :: "emit \<Rightarrow> socket_client \<Rightarrow> socket_client"
  assumes same_socket: "so_id (sio e c) = so_id c" "so_user (sio e c) = so_user c" "so_tokenExp (sio e c) = so_tokenExp c"
      "so_connected (sio e c) = so_connected c"
    and emitted: "so_sent (sio (Emit rooms except event data) c) = so_sent c @ (if receives rooms except c then [(event, data)] else [])"
      "set (so_rooms (sio (Emit rooms except event data) c)) = set (so_rooms c)"
    and joined: "set (so_rooms (sio (SocketsJoin rooms room) c)) = (if in_rooms rooms c then insert room (set (so_rooms c)) else set (so_rooms c))"
      "so_sent (sio (SocketsJoin rooms room) c) = so_sent c"
    and left_room: "set (so_rooms (sio (SocketsLeave rooms room) c)) = (if in_rooms rooms c then set (so_rooms c) - {room} else set (so_rooms c))"
      "so_sent (sio (SocketsLeave rooms room) c) = so_sent c"

section \<open>Actions\<close>

record live_system =
  sy_now :: time
  sy_gateway :: gateway
  sy_sockets :: "(handshake \<times> socket_client) list"

datatype action =
    Act_rest rest_env route http_request
  | Act_connect socket_env handshake string bool bool
  | Act_event socket_env string socket_event json
  | Act_disconnect socket_env string bool
  | Act_typing_timeout string
  | Act_heartbeat string
  | Act_job MessageDeliveryJob
  | Act_tick nat

definition find_socket :: "string \<Rightarrow> (handshake \<times> socket_client) list \<Rightarrow> (handshake \<times> socket_client) option" where
  "find_socket i socks = first_row (filter (\<lambda>s. so_id (snd s) = i) socks)"

definition replace_socket :: "socket_client \<Rightarrow> (handshake \<times> socket_client) list \<Rightarrow> (handshake \<times> socket_client) list" where
  "replace_socket c = map (\<lambda>(hs, x). (hs, if so_id x = so_id c then c else x))"

text \<open>After a handler the packets and room operations it handed to Socket.IO are applied, in order.\<close>

definition settle :: "(emit \<Rightarrow> socket_client \<Rightarrow> socket_client) \<Rightarrow> time \<Rightarrow> gateway \<Rightarrow> (handshake \<times> socket_client) list \<Rightarrow> live_system" where
  "settle sio now g socks = \<lparr>sy_now = now, sy_gateway = g\<lparr>gw_world := (gw_world g)\<lparr>w_out := []\<rparr>\<rparr>,
     sy_sockets = map (map_prod id (fold sio (w_out (gw_world g)))) socks\<rparr>"

definition new_socket :: "string \<Rightarrow> socket_client" where
  "new_socket i = \<lparr>so_id = i, so_user = None, so_tokenExp = None, so_connected = True, so_rooms = [], so_sent = []\<rparr>"

text \<open>A disconnected socket is gone before the gateways hear of it; \<open>fetched\<close> says whether the other sockets of the user could be listed.\<close>

definition socket_gone :: "socket_env \<Rightarrow> bool \<Rightarrow> time \<Rightarrow> socket_client \<Rightarrow> (handshake \<times> socket_client) list \<Rightarrow> gateway \<Rightarrow> gateway" where
  "socket_gone env fetched now c rest g =
     (let g1 = socket_handleDisconnect (ge_peersDb (se_gate env)) now c g;
          remaining = (case so_user c of
              Some u \<Rightarrow> if fetched then map (so_id \<circ> snd) (filter (in_rooms [userRoom (su_id u)] \<circ> snd) rest) else []
            | None \<Rightarrow> [])
      in upd_world (handleDisconnect (en_rerr (se_rest env)) (en_ids (se_rest env) 0) (\<lambda>k. en_ids (se_rest env) (Suc k))
           (calls_user c) (so_id c) remaining now) g1)"

fun system_step :: "(emit \<Rightarrow> socket_client \<Rightarrow> socket_client) \<Rightarrow> action \<Rightarrow> live_system \<Rightarrow> live_system" where
  "system_step sio (Act_rest env r req) s =
     settle sio (sy_now s) (upd_world (\<lambda>w. snd (rest_handle env r req (sy_now s) w)) (sy_gateway s)) (sy_sockets s)"
| "system_step sio (Act_connect env hs i conn1 conn2) s =
     (if find_socket i (sy_sockets s) \<noteq> None then s
      else let (c, g) = handleConnection (se_gate env) hs conn1 conn2 (sy_now s) (new_socket i) (sy_gateway s)
           in settle sio (sy_now s) g (sy_sockets s @ [(hs, c)]))"
| "system_step sio (Act_event env i e data) s =
     (case find_socket i (sy_sockets s) of
        None \<Rightarrow> s
      | Some (hs, c) \<Rightarrow>
          if \<not> so_connected c then s
          else let (a, c1, g) = socket_dispatch env hs (sy_now s) e data c (sy_gateway s)
               in settle sio (sy_now s) g (replace_socket c1 (sy_sockets s)))"
| "system_step sio (Act_disconnect env i fetched) s =
     (case find_socket i (sy_sockets s) of
        None \<Rightarrow> s
      | Some (hs, c) \<Rightarrow>
          let rest = filter (\<lambda>x. so_id (snd x) \<noteq> i) (sy_sockets s)
          in settle sio (sy_now s) (socket_gone env fetched (sy_now s) c rest (sy_gateway s)) rest)"
| "system_step sio (Act_typing_timeout key) s =
     (case map_of (gw_typing (sy_gateway s)) key of
        None \<Rightarrow> s
      | Some t \<Rightarrow> if sy_now s < tt_deadline t then s
                  else settle sio (sy_now s) (typing_timeout (sy_now s) key (sy_gateway s)) (sy_sockets s))"
| "system_step sio (Act_heartbeat i) s =
     (case find_socket i (sy_sockets s) of
        None \<Rightarrow> s
      | Some (hs, c) \<Rightarrow>
          if i \<notin> set (gw_heartbeats (sy_gateway s)) then s
          else let (c1, g) = heartbeat_tick (sy_now s) c (sy_gateway s)
               in settle sio (sy_now s) g (replace_socket c1 (sy_sockets s)))"
| "system_step sio (Act_job job) s =
     (if job \<notin> set (w_jobs (gw_world (sy_gateway s))) then s
      else settle sio (sy_now s) (upd_world (\<lambda>w. snd (runMessageDelivery (sy_now s) job w)) (sy_gateway s)) (sy_sockets s))"
| "system_step sio (Act_tick n) s = s\<lparr>sy_now := sy_now s + int n\<rparr>"

definition system_run :: "(emit \<Rightarrow> socket_client \<Rightarrow> socket_client) \<Rightarrow> action list \<Rightarrow> live_system \<Rightarrow> live_system" where
  "system_run sio = fold (system_step sio)"

text \<open>
  \<open>setServer\<close> of \<open>socket.service.ts\<close>, called by \<open>afterInit\<close>: from now on packets go out (the Redis adapter it also asks for, and whose
  failure it only logs, is \<open>attachRedisAdapter\<close> of theory \<open>Bootstrap\<close>). The server starts on the tables, the Redis and
  the queue of \<open>w\<close>.
\<close>

definition setServer :: "world \<Rightarrow> world" where
  "setServer w = w\<lparr>w_server := True\<rparr>"

definition afterInit :: "gateway \<Rightarrow> gateway" where
  "afterInit = upd_world setServer"

definition system_start :: "time \<Rightarrow> world \<Rightarrow> live_system" where
  "system_start now w = \<lparr>sy_now = now,
     sy_gateway = afterInit \<lparr>gw_world = w\<lparr>w_server := False, w_out := []\<rparr>, gw_heartbeats = [], gw_typing = []\<rparr>, sy_sockets = []\<rparr>"

section \<open>What events owe the rooms\<close>

lemma upd_world_simps [simp]: "gw_world (upd_world f g) = f (gw_world g)" "gw_heartbeats (upd_world f g) = gw_heartbeats g" "gw_typing (upd_world f g) = gw_typing g"
  by (simp_all add: upd_world_def)

lemma calm_chat_events:
  "calm w (snd (handleSendMessage v1 verify fault gen fetch q i u data now w))" "calm w (snd (handleGetMessages v2 u data now w))"
  "calm w (snd (handleMarkRead v3 readId u data now w))" "calm w (snd (handleGetPending u now w))"
  "calm w (snd (handleReactionAdd v4 newId usr data now w))" "calm w (snd (handleReactionRemove v4 usr data now w))"
proof -
  show "calm w (snd (handleSendMessage v1 verify fault gen fetch q i u data now w))"
    unfolding handleSendMessage_def socket_try_snd by (intro calm_bindW) (auto simp: view_calm intro!: calm_bindW calm_send)
  show "calm w (snd (handleGetMessages v2 u data now w))" unfolding handleGetMessages_def socket_try_snd
    by (intro calm_bindW) (auto simp: view_calm)
  show "calm w (snd (handleMarkRead v3 readId u data now w))" unfolding handleMarkRead_def socket_try_snd
    by (intro calm_bindW) (auto simp: view_calm)
  show "calm w (snd (handleGetPending u now w))" unfolding handleGetPending_def socket_try_snd
    by (intro calm_bindW) (auto simp: view_calm deliverPendingMessages_def split_beta)
  show "calm w (snd (handleReactionAdd v4 newId usr data now w))" unfolding handleReactionAdd_def socket_try_snd
    by (intro calm_bindW) (auto simp: view_calm)
  show "calm w (snd (handleReactionRemove v4 usr data now w))" unfolding handleReactionRemove_def socket_try_snd
    by (intro calm_bindW) (auto simp: view_calm)
qed

lemma in_world_gateway [simp]: "gw_world (snd (snd (in_world conv h c g))) = snd (h (gw_world g))"
  by (simp add: in_world_def split_beta)

lemma calm_chat_event: "calm (gw_world g) (gw_world (snd (snd (chat_event env now e data u c g))))"
  by (cases e) (simp_all add: calm_chat_events handleReactionRemoveLegacy_def)

lemma view_typing [simp]: "room_view (emitTyping ev u c w) = room_view w" "room_view (stopTyping now u c w) = room_view w"
  by (simp_all add: emitTyping_def stopTyping_def)

lemma calm_typing_events:
  "calm (gw_world g) (gw_world (snd (handleTypingStart v i u data now g)))" "calm (gw_world g) (gw_world (snd (handleTypingStop v i u data now g)))"
proof -
  obtain x w1 where x: "typing_checks v u data now (gw_world g) = (x, w1)" by fastforce
  then have "calm (gw_world g) w1" using calm_checks(1)[where w = "gw_world g" and valid = v and u = u and data = data and now = now] by simp
  then show "calm (gw_world g) (gw_world (snd (handleTypingStart v i u data now g)))" "calm (gw_world g) (gw_world (snd (handleTypingStop v i u data now g)))"
    using x by (auto simp: handleTypingStart_def handleTypingStop_def intro: calm_view split: sum.split)
qed

lemma calm_room_events:
  "calm w (snd (snd (handleJoinChannel v u data now c w)))" "calm w (snd (snd (handleLeaveChannel v u data now c w)))"
  "calm w (snd (snd (handleHeartbeat now c w)))"
proof -
  obtain x w1 where x: "join_checks v u data now w = (x, w1)" by fastforce
  then have "calm w w1" using calm_checks(2)[where w = w and valid = v and u = u and data = data and now = now] by simp
  then show "calm w (snd (snd (handleJoinChannel v u data now c w)))" "calm w (snd (snd (handleLeaveChannel v u data now c w)))"
    using x by (auto simp: handleJoinChannel_def handleLeaveChannel_def split: sum.split)
  show "calm w (snd (snd (handleHeartbeat now c w)))"
    by (simp add: handleHeartbeat_def beat_def view_calm split: option.split)
qed

lemma kept_room_event: "rooms_kept (gw_world g) (gw_world (snd (snd (room_event env now e data u c g))))"
proof -
  have create: "rooms_kept w (snd (snd (handleCreateOrJoin v newId memberId u data now c w)))" for v newId memberId w
    using kept_create[of w newId memberId "su_id u"]
    by (auto simp: handleCreateOrJoin_def Let_def split: sum.split prod.split) (metis snd_conv)+
  show ?thesis
    by (cases e) (simp_all add: with_client_def split_beta create calm_rooms_kept[OF calm_typing_events(1)] calm_rooms_kept[OF calm_typing_events(2)]
        calm_rooms_kept[OF calm_room_events(1)] calm_rooms_kept[OF calm_room_events(2)])
qed

lemma kept_open_event: "rooms_kept (gw_world g) (gw_world (snd (snd (open_event env now e data c g))))"
  by (cases e) (simp_all add: call_event_def split_beta kept_view calm_rooms_kept[OF calm_room_events(3)])

lemma kept_dispatch: "rooms_kept (gw_world g) (gw_world (snd (snd (socket_dispatch env hs now e data c g))))"
  using calm_rooms_kept[OF calm_chat_event] kept_room_event kept_open_event
  by (simp add: socket_dispatch_def guarded_def split_beta split: option.split)

lemma kept_connection: "rooms_kept (gw_world g) (gw_world (snd (handleConnection ge hs conn1 conn2 now c g)))"
proof -
  have p: "room_view (gw_world (snd (pushPresence pd now u fs c g))) = room_view (gw_world g)" for pd u fs c g
    by (simp add: pushPresence_def Let_def)
  have "room_view (gw_world (snd (finish_connection ge conn1 conn2 now u c g))) = room_view (gw_world g)" for u c g
    by (simp add: finish_connection_def Let_def split_beta p)
  then show ?thesis by (simp add: handleConnection_def Let_def split_beta kept_view split: sum.split)
qed

lemma view_clearTyping: "room_view (gw_world (clearTypingFor now c g)) = room_view (gw_world g)"
proof -
  have "room_view (fold (\<lambda>(key, t) w. case so_user c of None \<Rightarrow> w | Some u \<Rightarrow> stopTyping now u (f key) w) ts w) = room_view w" for ts f w
    by (induction ts arbitrary: w) (auto split: option.split)
  then show ?thesis by (simp add: clearTypingFor_def Let_def)
qed

lemma kept_gone: "rooms_kept (gw_world g) (gw_world (socket_gone env fetched now c rest g))"
proof -
  have "room_view (gw_world (socket_handleDisconnect pd now c g)) = room_view (gw_world g)" for pd
    by (simp add: socket_handleDisconnect_def Let_def split_beta view_clearTyping split: option.split)
  then show ?thesis by (simp add: socket_gone_def Let_def kept_view)
qed

lemma kept_timers:
  "rooms_kept (gw_world g) (gw_world (typing_timeout now key g))" "rooms_kept (gw_world g) (gw_world (snd (heartbeat_tick now c g)))"
  by (simp_all add: kept_view typing_timeout_def heartbeat_tick_def beat_def split_beta split: option.split)

section \<open>Actions as steps of the server\<close>

lemma signals_db [simp]:
  "w_db (handleOffer user data now w) = w_db w" "w_db (handleAnswer user data now w) = w_db w" "w_db (handleIceCandidate user data now w) = w_db w"
proof -
  have "w_db (snd (relayTarget user (jfield ''callId'' data) now w)) = w_db w"
    by (simp add: relayTarget_def call_allowed_def split_beta Let_def checkRateLimit_frame split: option.split)
  then have "w_db (relay ev body user data now w) = w_db w" for ev body
    by (cases "relayTarget user (jfield ''callId'' data) now w") (auto simp: relay_def split: option.split prod.split)
  then show "w_db (handleOffer user data now w) = w_db w" "w_db (handleAnswer user data now w) = w_db w" "w_db (handleIceCandidate user data now w) = w_db w"
    by (simp_all add: handleOffer_def handleAnswer_def handleIceCandidate_def split: option.split)
qed

lemma chat_event_run: "server_step\<^sup>*\<^sup>* (gw_world g) (gw_world (snd (snd (chat_event env now e data u c g))))"
  by (cases e) (simp_all add: chat_writes_run quiet_run handleReactionRemoveLegacy_def)

lemma room_event_run:
  "su_id u \<in> user_ids (w_db (gw_world g)) \<Longrightarrow> server_step\<^sup>*\<^sup>* (gw_world g) (gw_world (snd (snd (room_event env now e data u c g))))"
  by (cases e) (simp_all add: with_client_def split_beta create_event_run quiet_run)

lemma open_event_run: "server_step\<^sup>*\<^sup>* (gw_world g) (gw_world (snd (snd (open_event env now e data c g))))"
  by (cases e) (simp_all add: call_event_def split_beta quiet_run r_into_rtranclp[of server_step, OF step_invite]
      r_into_rtranclp[of server_step, OF step_accept] r_into_rtranclp[of server_step, OF step_reject] r_into_rtranclp[of server_step, OF step_hangup]
      r_into_rtranclp[of server_step, OF step_initiate] r_into_rtranclp[of server_step, OF step_fallback])

lemma canActivate_user:
  assumes "canActivate ge hs now d c = (True, c1)" "so_user c1 = Some u" "\<forall>x \<in> set_option (so_user c). su_id x \<in> user_ids d"
  shows "su_id u \<in> user_ids d"
proof (cases "so_user c")
  case None
  then have "\<exists>sub. active_user sub d = Some u"
    using assms(1,2) by (auto simp: canActivate_def split: option.splits sum.splits jwt_failure.splits if_splits)
  then show ?thesis using active_user_Some[of _ d u] by force
next
  case (Some x)
  then show ?thesis using assms by (auto simp: canActivate_def split: if_splits)
qed

lemma dispatch_run:
  assumes "\<forall>x \<in> set_option (so_user c). su_id x \<in> user_ids (w_db (gw_world g))"
  shows "server_step\<^sup>*\<^sup>* (gw_world g) (gw_world (snd (snd (socket_dispatch env hs now e data c g))))"
proof (cases rule: canActivate_cases[of "se_gate env" hs now "w_db (gw_world g)" c])
  case (admitted u c1)
  then show ?thesis using canActivate_user[OF admitted(1,2) assms] chat_event_run room_event_run open_event_run
    by (simp add: socket_dispatch_def guarded_def)
next
  case (stopped code m)
  then show ?thesis using open_event_run by (simp add: socket_dispatch_def guarded_def)
qed

lemma rest_route_run: "server_step\<^sup>*\<^sup>* w (snd (rest_handle env r req now w))"
  using public_route_run guarded_route_run by blast

lemma gone_run: "server_step\<^sup>*\<^sup>* (gw_world g) (gw_world (socket_gone env fetched now c rest g))"
  by (auto simp: socket_gone_def Let_def intro!: quiet_then[OF disconnect_db] step_callGone)

end
