(* ===== verification/Live_Rooms.thy ===== *)
theory Live_Rooms
  imports Live_System
begin

text \<open>
  What holds of the running server and its sockets after any sequence of actions: connected sockets are in the room of their user and in rooms
  of channels the user is a member of, and in no others; the cached members agree with the table; the database is well formed.
\<close>

section \<open>Sockets and their rooms\<close>

definition is_member :: "db \<Rightarrow> uid \<Rightarrow> cid \<Rightarrow> bool" where
  "is_member d u ch \<longleftrightarrow> u \<in> set (member_rows ch d)"

text \<open>A connected socket speaks for a user, is in the user's room, and otherwise in rooms of channels with \<open>M\<close> only.\<close>

definition allowed :: "(uid \<Rightarrow> cid \<Rightarrow> bool) \<Rightarrow> socket_client \<Rightarrow> bool" where
  "allowed M c \<longleftrightarrow> (so_connected c \<longrightarrow> (\<exists>u. so_user c = Some u \<and> userRoom (su_id u) \<in> set (so_rooms c) \<and>
     (\<forall>r \<in> set (so_rooms c). r = userRoom (su_id u) \<or> (\<exists>ch. r = channelRoom ch \<and> M (su_id u) ch))))"

definition known :: "db \<Rightarrow> socket_client \<Rightarrow> bool" where
  "known d c \<longleftrightarrow> (\<forall>u \<in> set_option (so_user c). su_id u \<in> user_ids d)"

lemma room_names [simp]: "channelRoom c \<noteq> userRoom u" "userRoom u \<noteq> channelRoom c" "channelRoom c = channelRoom d \<longleftrightarrow> c = d" "userRoom u = userRoom v \<longleftrightarrow> u = v"
  by (simp_all add: channelRoom_def userRoom_def)

lemma allowed_gone [simp]: "\<not> so_connected c \<Longrightarrow> allowed M c"
  by (simp add: allowed_def)

lemma allowed_mono: "allowed M c \<Longrightarrow> (\<And>u ch. M u ch \<Longrightarrow> M' u ch) \<Longrightarrow> allowed M' c"
  by (fastforce simp: allowed_def)

lemma allowed_grow:
  assumes "allowed M c" "so_user c = Some u" "so_user c' = so_user c" "so_connected c' = so_connected c"
    and "set (so_rooms c') \<subseteq> set (so_rooms c) \<union> {channelRoom ch |ch. M' (su_id u) ch}"
    and "userRoom (su_id u) \<in> set (so_rooms c) \<longrightarrow> userRoom (su_id u) \<in> set (so_rooms c')"
  shows "allowed (\<lambda>v ch. M v ch \<or> M' v ch) c'"
proof -
  have "r = userRoom (su_id u) \<or> (\<exists>ch. r = channelRoom ch \<and> (M (su_id u) ch \<or> M' (su_id u) ch))"
    if "r \<in> set (so_rooms c')" "so_connected c'" for r
  proof -
    have "r \<in> set (so_rooms c) \<or> (\<exists>ch. r = channelRoom ch \<and> M' (su_id u) ch)" using that(1) assms(5) by blast
    then show ?thesis using assms(1,2,4) that(2) by (auto simp: allowed_def)
  qed
  then show ?thesis using assms(1-4,6) by (simp add: allowed_def)
qed

context socket_io
begin

lemma flush_same [simp]:
  "so_id (fold sio es c) = so_id c" "so_user (fold sio es c) = so_user c" "so_connected (fold sio es c) = so_connected c"
  by (induction es arbitrary: c) (simp_all add: same_socket)

text \<open>One operation on a connected socket of the user \<open>u\<close>: joins are for members, leaves are from channels.\<close>

lemma op_rooms:
  assumes "so_connected c" "userRoom u \<in> set (so_rooms c)" "\<forall>r \<in> set (so_rooms c). r = userRoom u \<or> (\<exists>ch. r = channelRoom ch)"
    and "\<forall>rooms room. e = SocketsJoin rooms room \<longrightarrow> (\<exists>ch. room = channelRoom ch \<and> (\<forall>r \<in> set rooms. \<exists>v. r = userRoom v \<and> M v ch))"
    and "\<forall>rooms room. e = SocketsLeave rooms room \<longrightarrow> (\<exists>ch. room = channelRoom ch)"
  shows "userRoom u \<in> set (so_rooms (sio e c))"
    "set (so_rooms (sio e c)) \<subseteq> set (so_rooms c) \<union> {channelRoom ch |ch. M u ch}"
proof -
  show "userRoom u \<in> set (so_rooms (sio e c))"
  proof (cases e)
    case (SocketsLeave rooms room)
    then obtain ch where "room = channelRoom ch" using assms(5) by blast
    then show ?thesis using assms(2) SocketsLeave by (simp add: left_room)
  qed (use assms(2) in \<open>simp_all add: emitted joined\<close>)
  show "set (so_rooms (sio e c)) \<subseteq> set (so_rooms c) \<union> {channelRoom ch |ch. M u ch}"
  proof (cases e)
    case (SocketsJoin rooms room)
    then obtain ch where "room = channelRoom ch" "\<forall>r \<in> set rooms. \<exists>v. r = userRoom v \<and> M v ch" using assms(4) by blast
    moreover have "M u ch" if "in_rooms rooms c"
    proof -
      obtain r where r: "r \<in> set rooms" "r \<in> set (so_rooms c)" using \<open>in_rooms rooms c\<close> by (auto simp: in_rooms_def)
      then obtain v where "r = userRoom v" "M v ch" using calculation(2) by blast
      then show ?thesis using r(2) assms(3) by auto
    qed
    ultimately show ?thesis using SocketsJoin by (auto simp: joined)
  qed (auto simp: emitted left_room)
qed

lemma flush_rooms:
  assumes "so_connected c" "userRoom u \<in> set (so_rooms c)" "\<forall>r \<in> set (so_rooms c). r = userRoom u \<or> (\<exists>ch. r = channelRoom ch)"
    and "\<forall>rooms room. SocketsJoin rooms room \<in> set es \<longrightarrow> (\<exists>ch. room = channelRoom ch \<and> (\<forall>r \<in> set rooms. \<exists>v. r = userRoom v \<and> M v ch))"
    and "\<forall>rooms room. SocketsLeave rooms room \<in> set es \<longrightarrow> (\<exists>ch. room = channelRoom ch)"
  shows "userRoom u \<in> set (so_rooms (fold sio es c))"
    "set (so_rooms (fold sio es c)) \<subseteq> set (so_rooms c) \<union> {channelRoom ch |ch. M u ch}"
proof -
  have "userRoom u \<in> set (so_rooms (fold sio es c)) \<and> set (so_rooms (fold sio es c)) \<subseteq> set (so_rooms c) \<union> {channelRoom ch |ch. M u ch}"
    using assms
  proof (induction es arbitrary: c)
    case (Cons e es)
    have o: "userRoom u \<in> set (so_rooms (sio e c))" "set (so_rooms (sio e c)) \<subseteq> set (so_rooms c) \<union> {channelRoom ch |ch. M u ch}"
      using op_rooms[of c u e M] Cons.prems by simp_all
    have "userRoom u \<in> set (so_rooms (fold sio es (sio e c))) \<and> set (so_rooms (fold sio es (sio e c))) \<subseteq> set (so_rooms (sio e c)) \<union> {channelRoom ch |ch. M u ch}"
      by (rule Cons.IH) (use Cons.prems o in \<open>auto simp: same_socket\<close>)
    then show ?case using o(2) by auto
  qed auto
  then show "userRoom u \<in> set (so_rooms (fold sio es c))"
    "set (so_rooms (fold sio es c)) \<subseteq> set (so_rooms c) \<union> {channelRoom ch |ch. M u ch}" by simp_all
qed

lemma flush_left:
  assumes "so_connected c" "userRoom u \<in> set (so_rooms c)" "\<forall>r \<in> set (so_rooms c). r = userRoom u \<or> (\<exists>ch. r = channelRoom ch)"
    and "\<forall>rooms room. SocketsJoin rooms room \<notin> set es" "\<forall>rooms room. SocketsLeave rooms room \<in> set es \<longrightarrow> (\<exists>ch. room = channelRoom ch)"
    and "SocketsLeave [userRoom u] room \<in> set es"
  shows "room \<notin> set (so_rooms (fold sio es c))"
proof -
  obtain es1 es2 where es: "es = es1 @ SocketsLeave [userRoom u] room # es2" using split_list[OF assms(6)] by blast
  let ?c1 = "fold sio es1 c" let ?c2 = "sio (SocketsLeave [userRoom u] room) ?c1"
  have r1: "userRoom u \<in> set (so_rooms ?c1)" "set (so_rooms ?c1) \<subseteq> set (so_rooms c)"
    using flush_rooms[OF assms(1-3), of es1 "\<lambda>v ch. False"] assms(4,5) es by auto
  obtain ch where ch: "room = channelRoom ch" using assms(5,6) by blast
  have r2: "set (so_rooms ?c2) = set (so_rooms ?c1) - {room}" "so_connected ?c2" using r1(1) assms(1) by (simp_all add: left_room in_rooms_def same_socket)
  then have "set (so_rooms (fold sio es2 ?c2)) \<subseteq> set (so_rooms ?c2)"
    using flush_rooms(2)[of ?c2 u es2 "\<lambda>v ch. False"] r1 assms(3,4,5) es ch by auto
  then show ?thesis using es r2 by auto
qed

lemma flush_kept:
  assumes kept: "rooms_kept w w'" and w: "w_link w = Up" "w_server w" "members_coherent w" "channels_ok (w_db w)" "w_out w = []"
    and c: "allowed (\<lambda>u ch. is_member (w_db w) u ch \<or> is_member (w_db w') u ch) c"
  shows "allowed (is_member (w_db w')) (fold sio (w_out w') c)"
proof (cases "so_connected c")
  case True
  then obtain u where u: "so_user c = Some u" "userRoom (su_id u) \<in> set (so_rooms c)"
    "\<forall>r \<in> set (so_rooms c). r = userRoom (su_id u) \<or> (\<exists>ch. r = channelRoom ch \<and> (is_member (w_db w) (su_id u) ch \<or> is_member (w_db w') (su_id u) ch))"
    using c by (auto simp: allowed_def)
  then have names: "\<forall>r \<in> set (so_rooms c). r = userRoom (su_id u) \<or> (\<exists>ch. r = channelRoom ch)" by blast
  have ops: "e \<in> set (room_ops w') \<longleftrightarrow> e \<in> set (w_out w') \<and> \<not> is_packet e" for e by (auto simp: room_ops_def)
  have "room_ops w = []" using w(5) by (simp add: room_ops_def)
  then have j: "\<forall>rooms room. SocketsJoin rooms room \<in> set (w_out w') \<longrightarrow>
      (\<exists>ch. room = channelRoom ch \<and> (\<forall>r \<in> set rooms. \<exists>v. r = userRoom v \<and> is_member (w_db w') v ch))"
    and l: "\<forall>rooms room. SocketsLeave rooms room \<in> set (w_out w') \<longrightarrow> (\<exists>ch. room = channelRoom ch)"
    and g: "is_member (w_db w) v ch \<Longrightarrow> \<not> is_member (w_db w') v ch \<Longrightarrow> SocketsLeave [userRoom v] (channelRoom ch) \<in> set (w_out w') \<and>
      (\<forall>rooms room. SocketsJoin rooms room \<notin> set (w_out w'))" for v ch
    using kept w ops[of "SocketsJoin _ _"] ops[of "SocketsLeave _ _"] by (auto simp: rooms_kept_def is_member_def)
  note f = flush_rooms[OF True u(2) names j l]
  have "r = userRoom (su_id u) \<or> (\<exists>ch. r = channelRoom ch \<and> is_member (w_db w') (su_id u) ch)" if r: "r \<in> set (so_rooms (fold sio (w_out w') c))" for r
  proof (rule ccontr)
    assume n: "\<not> (r = userRoom (su_id u) \<or> (\<exists>ch. r = channelRoom ch \<and> is_member (w_db w') (su_id u) ch))"
    then have "r \<in> set (so_rooms c)" using f(2) r by blast
    then obtain ch where ch: "r = channelRoom ch" "is_member (w_db w) (su_id u) ch" "\<not> is_member (w_db w') (su_id u) ch" using u(3) n by blast
    then show False using flush_left[OF True u(2) names _ l, of "channelRoom ch"] g[OF ch(2,3)] r by blast
  qed
  then show ?thesis using True u(1) f(1) by (auto simp: allowed_def)
qed simp

end

section \<open>What an event does to its socket\<close>

lemma join_checks_member:
  assumes "fst (join_checks v u data now w) = Inr ch" "members_coherent w"
  shows "is_member (w_db w) (su_id u) ch"
  using assms redis_members.is_member_truth[OF assms(2)]
  by (auto simp: join_checks_def requireMember_def is_member_def split_beta bindW_def split: sum.splits if_splits)

lemma room_event_allowed:
  assumes "members_coherent (gw_world g)" "so_user c = Some u" "allowed M c"
  shows "allowed (\<lambda>v ch. M v ch \<or> is_member (w_db (gw_world (snd (snd (room_event env now e data u c g))))) v ch)
    (fst (snd (room_event env now e data u c g)))"
proof -
  let ?c = "fst (snd (room_event env now e data u c g))" let ?d = "w_db (gw_world (snd (snd (room_event env now e data u c g))))"
  have "set (so_rooms ?c) \<subseteq> set (so_rooms c) \<union> {channelRoom ch |ch. is_member ?d (su_id u) ch} \<and> (userRoom (su_id u) \<in> set (so_rooms c) \<longrightarrow> userRoom (su_id u) \<in> set (so_rooms ?c))"
  proof (cases e)
    case E_create_or_join
    then show ?thesis
      by (auto simp: with_client_def handleCreateOrJoin_def is_member_def Let_def split: sum.split prod.split elim!: create_rooms)
  next
    case E_join_channel
    then show ?thesis using join_checks_member[OF _ assms(1), of "valid_channelId env" u data now] join_checks_db[of "valid_channelId env" u data now "gw_world g"]
      by (auto simp: with_client_def handleJoinChannel_def split_beta split: sum.split prod.split)
  next
    case E_leave_channel
    then show ?thesis by (auto simp: with_client_def handleLeaveChannel_def split_beta split: sum.split prod.split)
  qed (simp_all add: in_world_def split_beta)
  then show ?thesis using room_event_client(1,4)[of env now e data u c g] by (intro allowed_grow[OF assms(3,2)]) simp_all
qed

lemma allowed_shrink:
  assumes "allowed M c" "so_rooms c' = so_rooms c" "so_user c' = so_user c" "so_connected c' \<longrightarrow> so_connected c"
  shows "allowed M c'"
  using assms by (auto simp: allowed_def)

lemma open_event_client:
  "so_rooms (fst (snd (open_event env now e data c g))) = so_rooms c" "so_user (fst (snd (open_event env now e data c g))) = so_user c"
  "so_connected (fst (snd (open_event env now e data c g))) \<longrightarrow> so_connected c"
  by (cases e; simp add: call_event_def split_beta handleHeartbeat_def beat_def split: option.split)+

lemma heartbeat_client:
  "so_rooms (fst (heartbeat_tick now c g)) = so_rooms c" "so_user (fst (heartbeat_tick now c g)) = so_user c"
  "so_connected (fst (heartbeat_tick now c g)) \<longrightarrow> so_connected c"
  by (simp_all add: heartbeat_tick_def beat_def split_beta split: option.split)

lemma dispatch_allowed:
  assumes "members_coherent (gw_world g)" "so_connected c" "allowed M c" "socket_dispatch env hs now e data c g = (a, c', g')"
  shows "allowed (\<lambda>v ch. M v ch \<or> is_member (w_db (gw_world g')) v ch) c' \<and> so_user c' = so_user c"
proof -
  let ?M = "\<lambda>v ch. M v ch \<or> is_member (w_db (gw_world g')) v ch"
  have M: "allowed ?M c" by (rule allowed_mono[OF assms(3)]) simp
  consider (unguarded) "\<not> is_chat e" "\<not> is_room e" | (guarded) "is_chat e \<or> is_room e" by blast
  then show ?thesis
  proof cases
    case unguarded
    then have c': "c' = fst (snd (open_event env now e data c g))" using assms(4) by (simp add: socket_dispatch_def)
    then show ?thesis using allowed_shrink[OF M, of c'] open_event_client[of env now e data c g] by simp
  next
    case guarded
    show ?thesis
    proof (cases rule: canActivate_cases[of "se_gate env" hs now "w_db (gw_world g)" c])
      case (admitted u c1)
      then have "c1 = c" using assms(2,3) by (auto simp: allowed_def)
      note adm = admitted[unfolded this]
      show ?thesis using guarded assms(4) adm M chat_event_client[of "se_rest env" now e data u c g]
          room_event_client(1)[of "se_rest env" now e data u c g] room_event_allowed[OF assms(1) adm(2) assms(3), of "se_rest env" now e data]
        by (auto simp: socket_dispatch_def guarded_def split: if_splits)
    next
      case (stopped code m)
      then show ?thesis using assms(4) guarded by (auto simp: socket_dispatch_def guarded_def split: if_splits)
    qed
  qed
qed

lemma connection_allowed:
  "allowed (is_member (w_db (gw_world g))) (fst (handleConnection ge hs conn1 conn2 now (new_socket i) g)) \<and>
   known (w_db (gw_world g)) (fst (handleConnection ge hs conn1 conn2 now (new_socket i) g))"
proof -
  have ids: "ch \<in> set (getUserChannelIds u d) \<Longrightarrow> is_member d u ch" for ch u d by (auto simp: getUserChannelIds_def is_member_def member_rows_def)
  have fin: "allowed (is_member (w_db (gw_world g))) (fst (finish_connection ge conn1 conn2 now u ((new_socket i)\<lparr>so_user := Some u, so_tokenExp := x\<rparr>) g1)) \<and>
      so_user (fst (finish_connection ge conn1 conn2 now u ((new_socket i)\<lparr>so_user := Some u, so_tokenExp := x\<rparr>) g1)) = Some u"
    if "w_db (gw_world g1) = w_db (gw_world g)" for u x g1
    using that ids by (auto simp: finish_connection_def Let_def split_beta pushPresence_client allowed_def connect_rooms_def new_socket_def)
  have "active_user sub d = Some u \<Longrightarrow> su_id u \<in> user_ids d" for sub u d using active_user_Some[of sub d u] by force
  then show ?thesis
    using fin[of "g\<lparr>gw_world := snd (checkRateLimit (''conn-ip:'' @ clientIp (ge_trustProxy ge) hs) RL_CONNECTION_PER_IP now (gw_world g))\<rparr>"]
    by (auto simp: handleConnection_def Let_def split_beta checkRateLimit_frame known_def new_socket_def authenticate_Inr split: sum.split)
qed

section \<open>Every action keeps the agreement\<close>

lemma removeMember_users: "user_ids (w_db (snd (removeMember c req v now w))) = user_ids (w_db w)"
proof (cases "removeMember c req v now w")
  case (Pair r w')
  then show ?thesis
    using removeMember_Inl[of c req v now w] removeMember_Inr(1)[of c req v now w] by (cases r) (auto elim!: remove_member_tx_Inr)
qed

text \<open>No step of the server deletes a user.\<close>

lemma step_users: "server_step w w' \<Longrightarrow> user_ids (w_db w) \<subseteq> user_ids (w_db w')"
proof -
  have v: "user_ids (w_db w) \<subseteq> user_ids (w_db w')" if "room_view w' = room_view w" for w w'
    using view_calm[OF that] by (simp add: calm_def)
  have k: "user_ids (w_db w) \<subseteq> user_ids (w_db w')" if "rooms_kept w w'" for w w' using that by (simp add: rooms_kept_def)
  have p: "user_ids d \<subseteq> user_ids d'" if "people d' = people d" for d d' using people_same[OF that] by simp
  show "server_step w w' \<Longrightarrow> user_ids (w_db w) \<subseteq> user_ids (w_db w')"
    by (induction rule: server_step.induct)
      (simp_all add: people_register k[OF kept_create] k[OF kept_addMember] removeMember_users k[OF calm_rooms_kept[OF calm_send]] v p pairs_updateProfile)
qed

lemma run_users: "server_step\<^sup>*\<^sup>* w w' \<Longrightarrow> user_ids (w_db w) \<subseteq> user_ids (w_db w')"
  by (induction rule: rtranclp_induct) (use step_users in \<open>blast+\<close>)

lemma known_mono: "known d c \<Longrightarrow> user_ids d \<subseteq> user_ids d' \<Longrightarrow> known d' c"
  by (auto simp: known_def)

abbreviation socket_ids :: "(handshake \<times> socket_client) list \<Rightarrow> string list" where
  "socket_ids socks \<equiv> map (so_id \<circ> snd) socks"

abbreviation sy_world :: "live_system \<Rightarrow> world" where
  "sy_world s \<equiv> gw_world (sy_gateway s)"

definition all_known :: "live_system \<Rightarrow> bool" where
  "all_known s \<longleftrightarrow> (\<forall>(hs, c) \<in> set (sy_sockets s). known (w_db (sy_world s)) c)"

text \<open>The invariant of the running server.\<close>

definition live_ok :: "live_system \<Rightarrow> bool" where
  "live_ok s \<longleftrightarrow> db_inv (w_db (sy_world s)) \<and> w_link (sy_world s) = Up \<and> w_server (sy_world s) \<and> members_coherent (sy_world s) \<and>
     w_out (sy_world s) = [] \<and> all_known s \<and> distinct (socket_ids (sy_sockets s)) \<and>
     (\<forall>(hs, c) \<in> set (sy_sockets s). allowed (is_member (w_db (sy_world s))) c)"

lemma settle_simps [simp]: "sy_world (settle sio now g socks) = (gw_world g)\<lparr>w_out := []\<rparr>"
  by (simp add: settle_def)

lemma find_socket_in: "find_socket i socks = Some (hs, c) \<Longrightarrow> (hs, c) \<in> set socks \<and> so_id c = i"
  by (auto simp: find_socket_def dest!: first_row_filterD)

lemma replace_socket_ids [simp]: "socket_ids (replace_socket c socks) = socket_ids socks"
  by (auto simp: replace_socket_def)

lemma find_socket_None: "find_socket i socks = None \<longleftrightarrow> i \<notin> set (socket_ids socks)"
  by (induction socks) (auto simp: find_socket_def)

lemma replace_socket_in: "(hs, x) \<in> set (replace_socket c socks) \<Longrightarrow> x = c \<or> (hs, x) \<in> set socks"
  by (auto simp: replace_socket_def split: if_splits)

text \<open>The ids a client sends, in the path and in the payload, are spelled as in the tables.\<close>

definition lower_ids :: "json \<Rightarrow> bool" where
  "lower_ids j \<longleftrightarrow> list_all (\<lambda>n. case jfield n j of
       Some (JStr s) \<Rightarrow> to_lower s = s
     | Some (JArr xs) \<Rightarrow> list_all (\<lambda>x. case x of JStr s \<Rightarrow> to_lower s = s | _ \<Rightarrow> True) xs
     | _ \<Rightarrow> True) [''channelId'', ''userId'', ''participantIds'']"

fun canonical :: "action \<Rightarrow> bool" where
  "canonical (Act_rest env r req) \<longleftrightarrow> canonical_path req \<and> lower_ids (hq_body req)"
| "canonical (Act_event env i e data) \<longleftrightarrow> lower_ids data"
| "canonical _ \<longleftrightarrow> True"

context socket_io
begin

lemma settle_known:
  assumes "server_step\<^sup>*\<^sup>* w (gw_world g)" "\<And>hs c. (hs, c) \<in> set socks \<Longrightarrow> known (w_db w) c \<or> known (w_db (gw_world g)) c"
  shows "all_known (settle sio now g socks) \<and> server_step\<^sup>*\<^sup>* w (sy_world (settle sio now g socks))"
proof
  have "known (w_db (gw_world g)) c" if "(hs, c) \<in> set socks" for hs c using assms(2)[OF that] known_mono[OF _ run_users[OF assms(1)]] by blast
  then show "all_known (settle sio now g socks)" by (fastforce simp: all_known_def settle_def known_def)
  show "server_step\<^sup>*\<^sup>* w (sy_world (settle sio now g socks))" using rtranclp.rtrancl_into_rtrancl[OF assms(1) quiet] by simp
qed

lemma settle_ok:
  assumes "live_ok s" "w = sy_world s" "server_step\<^sup>*\<^sup>* w (gw_world g)" "rooms_kept w (gw_world g)"
    and socks: "\<And>hs c. (hs, c) \<in> set socks \<Longrightarrow> (known (w_db w) c \<or> known (w_db (gw_world g)) c) \<and>
      allowed (\<lambda>u ch. is_member (w_db w) u ch \<or> is_member (w_db (gw_world g)) u ch) c"
    and ids: "distinct (socket_ids socks)"
  shows "live_ok (settle sio now g socks)"
proof -
  have w: "w_link w = Up" "w_server w" "members_coherent w" "channels_ok (w_db w)" "w_out w = []" "db_inv (w_db w)"
    using assms(1,2) by (simp_all add: live_ok_def db_inv_def)
  have "w_link (gw_world g) = Up" "w_server (gw_world g)" "members_coherent (gw_world g)" using assms(4) w by (simp_all add: rooms_kept_def)
  moreover have "members_coherent ((gw_world g)\<lparr>w_out := []\<rparr>)" using calculation(3) by (simp add: members_coherent_def)
  moreover have "db_inv (w_db (gw_world g))" using server.run_inv[OF assms(3)] w(6) by blast
  moreover have "all_known (settle sio now g socks)" using settle_known[OF assms(3)] socks by blast
  moreover have "\<forall>(hs, c) \<in> set (sy_sockets (settle sio now g socks)). allowed (is_member (w_db (gw_world g))) c"
    using flush_kept[OF assms(4) w(1-5)] socks by (fastforce simp: settle_def)
  moreover have "socket_ids (sy_sockets (settle sio now g socks)) = socket_ids socks" by (simp add: settle_def)
  ultimately show ?thesis using ids by (simp add: live_ok_def)
qed

end

section \<open>Actions\<close>

lemma allowed_now:
  "live_ok s \<Longrightarrow> (hs, c) \<in> set (sy_sockets s) \<Longrightarrow> allowed (\<lambda>u ch. is_member (w_db (sy_world s)) u ch \<or> P u ch) c"
  using allowed_mono[of "is_member (w_db (sy_world s))" c] by (auto simp: live_ok_def)

lemma dispatch_known:
  assumes "known (w_db (gw_world g)) c" "socket_dispatch env hs now e data c g = (a, c', g')"
  shows "known (w_db (gw_world g)) c'"
proof (cases "is_chat e \<or> is_room e")
  case True
  note u = guarded_client[OF True, of env hs now data c g]
  show ?thesis
  proof (cases rule: canActivate_cases[of "se_gate env" hs now "w_db (gw_world g)" c])
    case (admitted u1 c1)
    then show ?thesis using u assms(2) canActivate_user[OF admitted(1,2)] assms(1) by (simp add: known_def)
  next
    case (stopped code m)
    then show ?thesis using u assms by (simp add: known_def)
  qed
next
  case False
  then show ?thesis using assms open_event_client(2)[of env now e data c g] by (simp add: socket_dispatch_def known_def)
qed

lemma connection_id: "so_id (fst (handleConnection ge hs conn1 conn2 now c g)) = so_id c"
  by (simp add: handleConnection_def finish_connection_def pushPresence_def Let_def split_beta split: sum.split)

text \<open>
  What the sockets of a state become before their packets are delivered: the sockets there were, and one that an action has created or changed, which
  speaks for a known user and, in a state of the invariant, is in allowed rooms.
\<close>

definition successor :: "live_system \<Rightarrow> gateway \<Rightarrow> (handshake \<times> socket_client) list \<Rightarrow> bool" where
  "successor s g socks \<longleftrightarrow> (distinct (socket_ids (sy_sockets s)) \<longrightarrow> distinct (socket_ids socks)) \<and> (\<forall>(hs, c) \<in> set socks. (hs, c) \<in> set (sy_sockets s) \<or> known (w_db (sy_world s)) c \<and>
     (live_ok s \<longrightarrow> allowed (\<lambda>u ch. is_member (w_db (sy_world s)) u ch \<or> is_member (w_db (gw_world g)) u ch) c))"

lemma successor_old [simp]: "successor s g (sy_sockets s)" "successor s g (filter P (sy_sockets s))"
  by (auto simp: successor_def distinct_map_filter)

lemma successor_replace:
  assumes "known (w_db (sy_world s)) c" "live_ok s \<Longrightarrow> allowed (\<lambda>u ch. is_member (w_db (sy_world s)) u ch \<or> is_member (w_db (gw_world g)) u ch) c"
  shows "successor s g (replace_socket c (sy_sockets s))" "find_socket (so_id c) (sy_sockets s) = None \<Longrightarrow> successor s g (sy_sockets s @ [(hs, c)])"
  using assms by (auto simp: successor_def find_socket_None dest!: replace_socket_in simp del: map_map)

text \<open>An action is idle, or a run of the server whose packets are then delivered.\<close>

definition served :: "(emit \<Rightarrow> socket_client \<Rightarrow> socket_client) \<Rightarrow> action \<Rightarrow> live_system \<Rightarrow> live_system \<Rightarrow> bool" where
  "served sio a s s' \<longleftrightarrow> sy_gateway s' = sy_gateway s \<and> sy_sockets s' = sy_sockets s \<or>
     (\<exists>now g socks. s' = settle sio now g socks \<and> server_step\<^sup>*\<^sup>* (sy_world s) (gw_world g) \<and>
        (canonical a \<longrightarrow> rooms_kept (sy_world s) (gw_world g)) \<and> successor s g socks)"

lemma served_idle [simp]: "served sio a s s"
  by (simp add: served_def)

lemma served_settle:
  "server_step\<^sup>*\<^sup>* (sy_world s) (gw_world g) \<Longrightarrow> (canonical a \<Longrightarrow> rooms_kept (sy_world s) (gw_world g)) \<Longrightarrow> successor s g socks \<Longrightarrow>
   served sio a s (settle sio now g socks)"
  by (auto simp: served_def)

lemma served_connect: "served sio (Act_connect env hs i conn1 conn2) s (system_step sio (Act_connect env hs i conn1 conn2) s)"
proof -
  obtain c g where h: "handleConnection (se_gate env) hs conn1 conn2 (sy_now s) (new_socket i) (sy_gateway s) = (c, g)" by fastforce
  have d: "w_db (gw_world g) = w_db (sy_world s)" using connection_db[of "se_gate env" hs conn1 conn2 "sy_now s" "new_socket i" "sy_gateway s"] h by simp
  have "known (w_db (sy_world s)) c" "allowed (is_member (w_db (sy_world s))) c"
    using connection_allowed[of "sy_gateway s" "se_gate env" hs conn1 conn2 "sy_now s" i] h by simp_all
  moreover have "so_id c = i" using connection_id[of "se_gate env" hs conn1 conn2 "sy_now s" "new_socket i" "sy_gateway s"] h by (simp add: new_socket_def)
  ultimately have "successor s g (sy_sockets s @ [(hs, c)])" if "find_socket i (sy_sockets s) = None"
    using that by (intro successor_replace) (simp_all add: d)
  moreover have "rooms_kept (sy_world s) (gw_world g)" using kept_connection[of "sy_gateway s" "se_gate env" hs conn1 conn2 "sy_now s" "new_socket i"] h by simp
  ultimately show ?thesis using h by (cases "find_socket i (sy_sockets s)") (simp_all add: served_settle quiet_run d)
qed

lemma served_event:
  assumes "all_known s"
  shows "served sio (Act_event env i e data) s (system_step sio (Act_event env i e data) s)"
proof (cases "\<exists>hs c. find_socket i (sy_sockets s) = Some (hs, c) \<and> so_connected c")
  case True
  then obtain hs c where f: "find_socket i (sy_sockets s) = Some (hs, c)" "so_connected c" by blast
  obtain b c' g where d: "socket_dispatch env hs (sy_now s) e data c (sy_gateway s) = (b, c', g)" by (metis prod_cases3)
  have k: "known (w_db (sy_world s)) c" using assms find_socket_in[OF f(1)] by (auto simp: all_known_def)
  have "server_step\<^sup>*\<^sup>* (sy_world s) (gw_world g)" using dispatch_run[of c "sy_gateway s" env hs "sy_now s" e data] k d by (simp add: known_def)
  moreover have "rooms_kept (sy_world s) (gw_world g)" using kept_dispatch[of "sy_gateway s" env hs "sy_now s" e data c] d by simp
  moreover have "successor s g (replace_socket c' (sy_sockets s))"
  proof (rule successor_replace)
    show "known (w_db (sy_world s)) c'" by (rule dispatch_known[OF k d])
    show "allowed (\<lambda>u ch. is_member (w_db (sy_world s)) u ch \<or> is_member (w_db (gw_world g)) u ch) c'" if "live_ok s"
      using dispatch_allowed[OF _ f(2) _ d, of "is_member (w_db (sy_world s))"] that find_socket_in[OF f(1)] by (auto simp: live_ok_def)
  qed
  ultimately show ?thesis using f d by (simp add: served_settle)
qed (auto split: option.split)

lemma served_heartbeat:
  assumes "all_known s"
  shows "served sio (Act_heartbeat i) s (system_step sio (Act_heartbeat i) s)"
proof (cases "find_socket i (sy_sockets s)")
  case (Some x)
  obtain hs c where x: "x = (hs, c)" by fastforce
  obtain c' g where d: "heartbeat_tick (sy_now s) c (sy_gateway s) = (c', g)" by fastforce
  have c: "(hs, c) \<in> set (sy_sockets s)" using find_socket_in Some x by blast
  have w: "w_db (gw_world g) = w_db (sy_world s)" "rooms_kept (sy_world s) (gw_world g)"
    using room_events_db(4)[of "sy_now s" c "sy_gateway s"] kept_timers(2)[of "sy_gateway s" "sy_now s" c] d by simp_all
  have "successor s g (replace_socket c' (sy_sockets s))"
  proof (rule successor_replace)
    show "known (w_db (sy_world s)) c'" using assms c heartbeat_client(2)[of "sy_now s" c "sy_gateway s"] d by (auto simp: all_known_def known_def)
    show "allowed (\<lambda>u ch. is_member (w_db (sy_world s)) u ch \<or> is_member (w_db (gw_world g)) u ch) c'" if "live_ok s"
      using allowed_shrink[OF allowed_now[OF that c]] heartbeat_client[of "sy_now s" c "sy_gateway s"] d by simp
  qed
  then show ?thesis using Some x d w by (simp add: served_settle quiet_run)
qed simp

lemma served_step: "all_known s \<Longrightarrow> served sio a s (system_step sio a s)"
proof (cases a)
  case (Act_rest env r req)
  then show ?thesis by (auto intro!: served_settle simp: rest_route_run kept_rest)
next
  case (Act_disconnect env i fetched)
  then show ?thesis by (auto intro!: served_settle simp: Let_def gone_run kept_gone split: option.split)
next
  case (Act_typing_timeout key)
  then show ?thesis by (auto intro!: served_settle simp: quiet_run kept_timers split: option.split)
next
  case (Act_job job)
  then show ?thesis by (auto intro!: served_settle quiet_run simp: runMessageDelivery_def kept_view)
next
  case (Act_tick n)
  then show ?thesis by (simp add: served_def)
qed (use served_connect served_event served_heartbeat in \<open>auto simp del: system_step.simps\<close>)

context socket_io
begin

lemma served_run:
  assumes "all_known s" "served sio a s s'"
  shows "all_known s' \<and> server_step\<^sup>*\<^sup>* (sy_world s) (sy_world s')"
proof (cases "sy_gateway s' = sy_gateway s \<and> sy_sockets s' = sy_sockets s")
  case True
  then show ?thesis using assms(1) by (simp add: all_known_def)
next
  case False
  then obtain now g socks where s': "s' = settle sio now g socks" "server_step\<^sup>*\<^sup>* (sy_world s) (gw_world g)" "successor s g socks"
    using assms(2) by (auto simp: served_def)
  then show ?thesis using settle_known[OF s'(2), of socks] assms(1) by (fastforce simp: successor_def all_known_def)
qed

lemma served_ok:
  assumes "live_ok s" "served sio a s s'" "canonical a"
  shows "live_ok s'"
proof (cases "sy_gateway s' = sy_gateway s \<and> sy_sockets s' = sy_sockets s")
  case True
  then show ?thesis using assms(1) by (simp add: live_ok_def all_known_def)
next
  case False
  then obtain now g socks where s': "s' = settle sio now g socks" "server_step\<^sup>*\<^sup>* (sy_world s) (gw_world g)"
    "rooms_kept (sy_world s) (gw_world g)" "successor s g socks"
    using assms(2,3) by (auto simp: served_def)
  have "(known (w_db (sy_world s)) c \<or> known (w_db (gw_world g)) c) \<and>
      allowed (\<lambda>u ch. is_member (w_db (sy_world s)) u ch \<or> is_member (w_db (gw_world g)) u ch) c" if "(hs, c) \<in> set socks" for hs c
    using that s'(4) assms(1) allowed_now[OF assms(1), of hs c] by (fastforce simp: successor_def live_ok_def all_known_def)
  moreover have "distinct (socket_ids socks)" using s'(4) assms(1) by (simp add: successor_def live_ok_def)
  ultimately show ?thesis unfolding s'(1) by (rule settle_ok[OF assms(1) refl s'(2,3)])
qed

end

text \<open>The sockets as a state machine: its invariant holds after any sequence of actions.\<close>

sublocale socket_io \<subseteq> live: state_machine "\<lambda>s s'. \<exists>a. canonical a \<and> s' = system_step sio a s" live_ok
proof
  show "live_ok s'" if "\<exists>a. canonical a \<and> s' = system_step sio a s" "live_ok s" for s s'
  proof -
    from that(1) obtain a where a: "canonical a" "s' = system_step sio a s" by blast
    have "all_known s" using that(2) by (simp add: live_ok_def)
    then show ?thesis unfolding a(2) by (rule served_ok[OF that(2) served_step a(1)])
  qed
qed

lemma system_run_simps [simp]: "system_run sio [] s = s" "system_run sio (a # acts) s = system_run sio acts (system_step sio a s)"
  by (simp_all add: system_run_def)

lemma start_world: "sy_world (system_start t w) = w\<lparr>w_server := True, w_out := []\<rparr>"
  by (simp add: system_start_def afterInit_def setServer_def)

lemma start_known: "all_known (system_start t w)"
  by (simp add: all_known_def system_start_def)

text \<open>A world the server may be started on: a well-formed database, and a Redis that answers and whose sets of members agree with it.\<close>

definition startable :: "world \<Rightarrow> bool" where
  "startable w \<longleftrightarrow> db_inv (w_db w) \<and> w_link w = Up \<and> members_coherent w"

lemma start_ok: "startable w \<Longrightarrow> live_ok (system_start t w)"
  by (simp add: live_ok_def startable_def start_world start_known) (simp add: members_coherent_def system_start_def)

context socket_io
begin

lemma system_run_ok:
  assumes "startable w" "\<forall>a \<in> set acts. canonical a"
  shows "live_ok (system_run sio acts (system_start t w))"
proof -
  have "(\<lambda>s s'. \<exists>a. canonical a \<and> s' = system_step sio a s)\<^sup>*\<^sup>* s (system_run sio acts s)" for s
    using assms(2)
  proof (induction acts arbitrary: s)
    case (Cons a acts)
    then show ?case by (auto intro: converse_rtranclp_into_rtranclp)
  qed simp
  then show ?thesis by (rule live.run_inv) (rule start_ok[OF assms(1)])
qed

lemma system_run_steps:
  "all_known s \<Longrightarrow> all_known (system_run sio acts s) \<and> server_step\<^sup>*\<^sup>* (sy_world s) (sy_world (system_run sio acts s))"
proof (induction acts arbitrary: s)
  case (Cons a acts)
  then show ?case using served_run[OF Cons.prems served_step[OF Cons.prems, of sio a]] by (auto intro: rtranclp_trans)
qed simp

lemma packet_rooms:
  assumes "live_ok s" "(hs, c) \<in> set (sy_sockets s)" "so_sent (sio (Emit rooms except event data) c) \<noteq> so_sent c"
  obtains u where "so_connected c" "so_user c = Some u" "su_id u \<in> user_ids (w_db (sy_world s))"
    "userRoom (su_id u) \<in> set rooms \<or> (\<exists>ch. channelRoom ch \<in> set rooms \<and> is_member (w_db (sy_world s)) (su_id u) ch)"
proof -
  have r: "receives rooms except c" using assms(3) by (auto simp: emitted split: if_splits)
  have a: "allowed (is_member (w_db (sy_world s))) c" "known (w_db (sy_world s)) c" using assms(1,2) by (auto simp: live_ok_def all_known_def)
  have c: "so_connected c" using r by (simp add: receives_def in_rooms_def)
  obtain u where u: "so_user c = Some u"
    "\<forall>r \<in> set (so_rooms c). r = userRoom (su_id u) \<or> (\<exists>ch. r = channelRoom ch \<and> is_member (w_db (sy_world s)) (su_id u) ch)"
    using a(1) c by (auto simp: allowed_def)
  obtain r where r: "r \<in> set rooms" "r \<in> set (so_rooms c)" using \<open>receives rooms except c\<close> by (auto simp: receives_def in_rooms_def)
  have "su_id u \<in> user_ids (w_db (sy_world s))" using a(2) u(1) by (simp add: known_def)
  moreover have "userRoom (su_id u) \<in> set rooms \<or> (\<exists>ch. channelRoom ch \<in> set rooms \<and> is_member (w_db (sy_world s)) (su_id u) ch)"
    using bspec[OF u(2) r(2)] r(1) by auto
  ultimately show thesis by (rule that[OF c u(1)])
qed

end

section \<open>The in-memory adapter\<close>

text \<open>What the adapter of one node does, and that it keeps the promises.\<close>

definition adapter :: "emit \<Rightarrow> socket_client \<Rightarrow> socket_client" where
  "adapter e c = (case e of
       Emit rooms except event data \<Rightarrow> if receives rooms except c then client_emit event data c else c
     | SocketsJoin rooms room \<Rightarrow> if in_rooms rooms c then c\<lparr>so_rooms := so_rooms c @ [room]\<rparr> else c
     | SocketsLeave rooms room \<Rightarrow> if in_rooms rooms c then c\<lparr>so_rooms := filter (\<lambda>r. r \<noteq> room) (so_rooms c)\<rparr> else c)"

interpretation in_memory: socket_io adapter
  by unfold_locales (auto simp: adapter_def split: emit.split)

section \<open>Sending over a socket\<close>

lemma send_event_out:
  assumes v: "\<forall>data errors input. v data = (errors, input) \<longrightarrow> si_userId (input u) = u"
    and "fst (handleSendMessage v verify fault gen fetch q i u data now w) = Inr p"
  shows "w_out (snd (handleSendMessage v verify fault gen fetch q i u data now w)) = w_out w @ (if w_server w
      then [Emit [channelRoom (pl_channelId p)] (emit_except (no_options\<lparr>exceptSocketId := Some i\<rparr>)) ''message:new'' (payload_json p)] else [])"
    "is_member (w_db w) u (pl_channelId p)" "pl_senderId p = u"
proof -
  obtain x w1 where l: "limit (''send:'' @ u) RL_SEND_MESSAGE ''Too many messages'' now w = (x, w1)" by fastforce
  obtain ks where w1: "w1 = w\<lparr>w_redis := (w_redis w)\<lparr>r_counters := ks\<rparr>\<rparr>" using limit_frame[of "''send:'' @ u"] l by (metis snd_conv)
  obtain input w' where s: "send verify fault gen fetch q input (Some i) now w1 = (Inr p, w')" "si_userId input = u"
      "snd (handleSendMessage v verify fault gen fetch q i u data now w) = w'"
    using assms(2) l v[rule_format, of data "fst (v data)" "snd (v data)"]
    by (auto simp: handleSendMessage_def bindW_def socket_try_def validatePayload_def split: sum.splits if_splits prod.splits)
  from s(1) obtain us c row d k where t: "send_member (si_userId input) (si_channelId input) (w_db w1) = Some (us, c)"
      "insert_message_tx (gen k) input now (w_db w1) = Inr (row, d)" "p = toMessagePayload row (Some (u_username us))"
      "w' = dispatchNewMessage fetch q p (Some i) now (w1\<lparr>w_db := d\<rparr>)"
    by (rule send_commit)
  have row: "ms_senderId row = u" "ms_channelId row = si_channelId input"
    using t(2) s(2) by (simp_all add: insert_message_tx_Inr)
  then show "pl_senderId p = u" using t(3) by simp
  show "w_out (snd (handleSendMessage v verify fault gen fetch q i u data now w)) = w_out w @ (if w_server w
      then [Emit [channelRoom (pl_channelId p)] (emit_except (no_options\<lparr>exceptSocketId := Some i\<rparr>)) ''message:new'' (payload_json p)] else [])"
    unfolding s(3) t(4) dispatch_out by (simp add: w1)
  have "is_channel_member u (pl_channelId p) (w_db w)"
    using send_member_Some(5)[OF t(1)] row(2) t(3) s(2) w1 by simp
  then show "is_member (w_db w) u (pl_channelId p)"
    by (auto simp: is_member_def member_rows_def is_channel_member_def list_ex_iff)
qed

lemma send_dispatch:
  assumes "socket_dispatch env hs now E_send_message data c g = (A_message p, c', g')" "so_user c = Some u"
  shows "c' = c" "w_out (gw_world g') = w_out (gw_world g) @ (if w_server (gw_world g)
      then [Emit [channelRoom (pl_channelId p)] (emit_except (no_options\<lparr>exceptSocketId := Some (so_id c)\<rparr>)) ''message:new'' (payload_json p)] else [])"
    "is_member (w_db (gw_world g)) (su_id u) (pl_channelId p)" "pl_senderId p = su_id u"
proof -
  let ?h = "handleSendMessage (valid_message (se_rest env)) (en_signed (se_rest env)) (en_fault (se_rest env)) (en_ids (se_rest env))
    (en_fetch (se_rest env)) (en_queueUp (se_rest env)) (so_id c) (su_id u) data now (gw_world g)"
  have "fst (canActivate (se_gate env) hs now (w_db (gw_world g)) c)"
    using assms(1) by (auto simp: socket_dispatch_def guarded_def is_chat_def split_beta split: if_splits)
  then have "canActivate (se_gate env) hs now (w_db (gw_world g)) c = (True, c)" using assms(2) by (auto simp: canActivate_def split: if_splits)
  then have *: "in_world A_message (handleSendMessage (valid_message (se_rest env)) (en_signed (se_rest env)) (en_fault (se_rest env)) (en_ids (se_rest env))
    (en_fetch (se_rest env)) (en_queueUp (se_rest env)) (so_id c) (su_id u) data now) c g = (A_message p, c', g')"
    using assms by (simp add: socket_dispatch_def guarded_def is_chat_def)
  then show "c' = c" by (simp add: in_world_def split_beta)
  have r: "fst ?h = Inr p" "gw_world g' = snd ?h" using * by (auto simp: in_world_def split_beta split: sum.splits)
  have sender: "\<forall>data errors input. valid_message (se_rest env) data = (errors, input) \<longrightarrow> si_userId (input (su_id u)) = su_id u"
    by (auto simp: valid_message_def validateSync_def map_prod_def split: prod.splits)
  note s = send_event_out[OF sender r(1)]
  show "w_out (gw_world g') = w_out (gw_world g) @ (if w_server (gw_world g)
      then [Emit [channelRoom (pl_channelId p)] (emit_except (no_options\<lparr>exceptSocketId := Some (so_id c)\<rparr>)) ''message:new'' (payload_json p)] else [])"
    "is_member (w_db (gw_world g)) (su_id u) (pl_channelId p)" "pl_senderId p = su_id u"
    using s by (simp_all add: r(2))
qed

lemma replace_same:
  assumes "distinct (socket_ids socks)" "(hs, c) \<in> set socks"
  shows "replace_socket c socks = socks"
proof -
  have "inj_on (so_id \<circ> snd) (set socks)" using assms(1) by (simp add: distinct_map)
  then have "x = c" if "(hs', x) \<in> set socks" "so_id x = so_id c" for hs' x
    using inj_onD[of "so_id \<circ> snd" "set socks" "(hs', x)" "(hs, c)"] that assms(2) by simp
  then show ?thesis unfolding replace_socket_def by (intro map_idI) fastforce
qed

context socket_io
begin

lemma send_settles:
  assumes "live_ok s" "find_socket i (sy_sockets s) = Some (hs, c)" "so_connected c" "i \<noteq> []"
    and "socket_dispatch env hs (sy_now s) E_send_message data c (sy_gateway s) = (A_message p, c', g)"
  shows "sy_sockets (system_step sio (Act_event env i E_send_message data) s) =
      map (map_prod id (sio (Emit [channelRoom (pl_channelId p)] [i] ''message:new'' (payload_json p)))) (sy_sockets s)"
    "\<exists>u. so_user c = Some u \<and> pl_senderId p = su_id u \<and> is_member (w_db (sy_world s)) (su_id u) (pl_channelId p)"
proof -
  have c: "(hs, c) \<in> set (sy_sockets s)" "so_id c = i" using find_socket_in[OF assms(2)] by simp_all
  obtain u where u: "so_user c = Some u" using assms(1,3) c(1) by (auto simp: live_ok_def allowed_def)
  note d = send_dispatch[OF assms(5) u]
  have "w_out (sy_world s) = []" "w_server (sy_world s)" "distinct (socket_ids (sy_sockets s))" using assms(1) by (simp_all add: live_ok_def)
  then show "sy_sockets (system_step sio (Act_event env i E_send_message data) s) =
      map (map_prod id (sio (Emit [channelRoom (pl_channelId p)] [i] ''message:new'' (payload_json p)))) (sy_sockets s)"
    using assms(2-5) d(1,2) c replace_same[of "sy_sockets s" hs c] by (simp add: settle_def emit_except_def no_options_def)
  show "\<exists>u. so_user c = Some u \<and> pl_senderId p = su_id u \<and> is_member (w_db (sy_world s)) (su_id u) (pl_channelId p)" using u d(3,4) by blast
qed

end

section \<open>Who hears what\<close>

text \<open>
  C2: Packets for a channel reach its members only. Started on a well-formed database, with a Redis that answers and agrees with it, after any
  sequence of requests, connections, socket events, disconnections, timers, jobs and passing time, in any order and from any clients, each run to its
  end: whatever is emitted to the room of a channel arrives at connected sockets of users who are members of the channel at that
  moment, whatever is emitted to a user at sockets of that user, and the cached members are those of the table. The ids in paths and payloads are spelled as in
  the tables.
\<close>

theorem messages_reach_only_members:
  assumes "socket_io sio" "startable w" "\<forall>a \<in> set acts. canonical a" "s = system_run sio acts (system_start t w)"
  shows "(\<forall>(hs, c) \<in> set (sy_sockets s).
      (so_sent (sio (Emit [channelRoom ch] except event data) c) \<noteq> so_sent c \<longrightarrow>
         so_connected c \<and> (\<exists>u. so_user c = Some u \<and> su_id u \<in> set (member_rows ch (w_db (sy_world s))))) \<and>
      (so_sent (sio (Emit [userRoom v] except event data) c) \<noteq> so_sent c \<longrightarrow>
         so_connected c \<and> (\<exists>u. so_user c = Some u \<and> su_id u = v \<and> v \<in> user_ids (w_db (sy_world s))))) \<and>
    (fst (isMember now ch v (sy_world s)) \<longleftrightarrow> v \<in> set (member_rows ch (w_db (sy_world s))))"
proof -
  have ok: "live_ok s" using socket_io.system_run_ok[OF assms(1-3)] assms(4) by simp
  note packet = socket_io.packet_rooms[OF assms(1) ok]
  have "so_connected c \<and> (\<exists>u. so_user c = Some u \<and> su_id u \<in> set (member_rows ch (w_db (sy_world s))))"
    if "(hs, c) \<in> set (sy_sockets s)" "so_sent (sio (Emit [channelRoom ch] except event data) c) \<noteq> so_sent c" for hs c
    by (rule packet[OF that]) (auto simp: is_member_def)
  moreover have "so_connected c \<and> (\<exists>u. so_user c = Some u \<and> su_id u = v \<and> v \<in> user_ids (w_db (sy_world s)))"
    if "(hs, c) \<in> set (sy_sockets s)" "so_sent (sio (Emit [userRoom v] except event data) c) \<noteq> so_sent c" for hs c
    by (rule packet[OF that]) auto
  moreover have "fst (isMember now ch v (sy_world s)) \<longleftrightarrow> v \<in> set (member_rows ch (w_db (sy_world s)))"
    using redis_members.is_member_truth ok by (simp add: live_ok_def)
  ultimately show ?thesis by blast
qed

text \<open>
  C5: A message accepted on a socket is delivered to the room at once. In every state with the invariant of the running server, which all sequences of actions keep, when the \<open>send-message\<close> event of a
  connected socket is acknowledged with a payload, its sender is the user of the socket and a member of the channel, and exactly the other
  connected sockets in the room of the channel, all of which belong to members, receive the payload as \<open>message:new\<close>, once.
\<close>

theorem accepted_message_reaches_the_room:
  assumes "socket_io sio" "live_ok s" "find_socket i (sy_sockets s) = Some (hs, c)" "so_connected c" "i \<noteq> []"
    and "fst (socket_dispatch env hs (sy_now s) E_send_message data c (sy_gateway s)) = A_message p"
  shows "(\<exists>u. so_user c = Some u \<and> pl_senderId p = su_id u \<and> su_id u \<in> set (member_rows (pl_channelId p) (w_db (sy_world s)))) \<and>
    list_all2 (\<lambda>(h, x) (h', x'). h' = h \<and> so_id x' = so_id x \<and> so_user x' = so_user x \<and>
        so_sent x' = so_sent x @ (if receives [channelRoom (pl_channelId p)] [i] x then [(''message:new'', payload_json p)] else []) \<and>
        (receives [channelRoom (pl_channelId p)] [i] x \<longrightarrow> x \<noteq> c \<and> (\<exists>u. so_user x = Some u \<and> su_id u \<in> set (member_rows (pl_channelId p) (w_db (sy_world s))))))
      (sy_sockets s) (sy_sockets (system_step sio (Act_event env i E_send_message data) s))"
proof -
  obtain c' g where d: "socket_dispatch env hs (sy_now s) E_send_message data c (sy_gateway s) = (A_message p, c', g)"
    using assms(6) by (metis prod.collapse)
  let ?e = "Emit [channelRoom (pl_channelId p)] [i] ''message:new'' (payload_json p)"
  note s = socket_io.send_settles[OF assms(1-5) d]
  have "\<exists>u. so_user x = Some u \<and> su_id u \<in> set (member_rows (pl_channelId p) (w_db (sy_world s)))"
    if "(h, x) \<in> set (sy_sockets s)" "receives [channelRoom (pl_channelId p)] [i] x" for h x
    by (rule socket_io.packet_rooms[OF assms(1,2) that(1), of "[channelRoom (pl_channelId p)]" "[i]" "''message:new''" "payload_json p"])
      (use that(2) in \<open>auto simp: socket_io.emitted[OF assms(1)] is_member_def\<close>)
  moreover have "so_id c = i" using find_socket_in[OF assms(3)] by simp
  ultimately have "list_all2 (\<lambda>(h, x) (h', x'). h' = h \<and> so_id x' = so_id x \<and> so_user x' = so_user x \<and>
        so_sent x' = so_sent x @ (if receives [channelRoom (pl_channelId p)] [i] x then [(''message:new'', payload_json p)] else []) \<and>
        (receives [channelRoom (pl_channelId p)] [i] x \<longrightarrow> x \<noteq> c \<and> (\<exists>u. so_user x = Some u \<and> su_id u \<in> set (member_rows (pl_channelId p) (w_db (sy_world s))))))
      (sy_sockets s) (map (map_prod id (sio ?e)) (sy_sockets s))"
    unfolding list.rel_map by (intro list.rel_refl_strong) (auto simp: socket_io.emitted[OF assms(1)] socket_io.same_socket[OF assms(1)] receives_def)
  then show ?thesis using s by (simp add: is_member_def)
qed

text \<open>The tables of a server with two users in one group channel.\<close>

definition live_world :: world where
  "live_world = empty_world\<lparr>w_db := empty_db\<lparr>users := [sample_user, sample_user\<lparr>u_id := ''u2'', u_username := ''bob'', u_email := ''b@x''\<rparr>],
     channels := [sample_channel], memberships := [sample_membership ''u1'', sample_membership ''u2'']\<rparr>\<rparr>"

lemma live_world_startable: "startable live_world"
  by (auto simp: startable_def live_world_def members_coherent_def db_inv_def db_keys_ok_def refs_ok_def sequences_ok_def preview_ok_def
      channels_ok_def one_reaction_each_def channel_messages_def admins_in_def direct_unique_def direct_between_def is_direct_def members_have_channel_def
      sizes_ok_def MAX_CHANNEL_PARTICIPANTS_def newest_visible_def member_rows_def keys_unique_def sample_defs user_conflict_def channel_conflict_def membership_conflict_def)

definition live_env :: socket_env where
  "live_env = \<lparr>se_gate = \<lparr>ge_verify = (\<lambda>t. Inr \<lparr>jp_sub = t, jp_exp = Some 900\<rparr>), ge_trustProxy = False, ge_userDb = True, ge_channelsDb = True, ge_peersDb = True\<rparr>,
     se_rest = sample_env\<lparr>en_run := (\<lambda>forbid rules body. ([], body)), en_isUUID := (\<lambda>s. True), en_ids := (\<lambda>k. ''m'' @ show_nat k)\<rparr>, se_participants = (\<lambda>r. Some [])\<rparr>"

definition live_hs :: "string \<Rightarrow> handshake" where
  "live_hs tok = \<lparr>hs_authToken = Some (JStr tok), hs_authorization = None, hs_forwardedFor = [], hs_address = ''10.0.0.1''\<rparr>"

definition live_message :: json where
  "live_message = JObj [(''channelId'', JStr ''c1''), (''encryptedContent'', JStr ''x''), (''contentIv'', JStr ''iv''),
     (''contentTag'', JStr ''tag''), (''signature'', JStr []), (''sequenceNumber'', JNum 0), (''senderKeyEpoch'', JNum 0)]"

definition live_acts :: "action list" where
  "live_acts = [Act_connect live_env (live_hs ''u1'') ''s1'' True True]"

lemma live_connected:
  "\<exists>c. (live_hs ''u1'', c) \<in> set (sy_sockets (system_run adapter live_acts (system_start 5 live_world))) \<and>
     so_connected c \<and> so_id c = ''s1'' \<and> so_rooms c = [userRoom ''u1'', channelRoom ''c1'']"
proof -
  let ?g = "sy_gateway (system_start 5 live_world)" let ?k = "''conn-ip:'' @ clientIp (ge_trustProxy (se_gate live_env)) (live_hs ''u1'')"
  let ?u = "\<lparr>su_id = ''u1'', su_username = ''alice'', su_status = ''ACTIVE''\<rparr>"
  have g: "gw_world ?g = live_world" by (simp add: system_start_def afterInit_def setServer_def live_world_def empty_world_def)
  have l: "rl_allowed (fst (checkRateLimit ?k RL_CONNECTION_PER_IP 5 live_world))" by code_simp
  have a: "authenticate (se_gate live_env) (live_hs ''u1'') (w_db live_world) = Inr (?u, Some 900)" by code_simp
  have d: "getUserDMPeers ''u1'' (w_db live_world) = []" "getUserChannelIds ''u1'' (w_db live_world) = [''c1'']" by code_simp+
  have o: "w_out live_world = []" by (simp add: live_world_def)
  obtain c g' where h: "handleConnection (se_gate live_env) (live_hs ''u1'') True True 5 (new_socket ''s1'') ?g = (c, g')" by fastforce
  then have "so_connected c" "so_id c = ''s1''" "so_rooms c = [userRoom ''u1'', channelRoom ''c1'']" "w_out (gw_world g') = []"
    using g l a d o
    by (auto simp: handleConnection_def Let_def split_beta checkRateLimit_frame finish_connection_def pushPresence_def connect_rooms_def new_socket_def live_env_def)
  then show ?thesis using h by (auto simp: live_acts_def settle_def system_start_def find_socket_def)
qed

theorem messages_reach_only_members_witness:
  "\<exists>c. (live_hs ''u1'', c) \<in> set (sy_sockets (system_run adapter live_acts (system_start 5 live_world))) \<and>
     so_sent (adapter (Emit [channelRoom ''c1''] [] ''message:new'' JNull) c) = so_sent c @ [(''message:new'', JNull)] \<and>
     map_option su_id (so_user c) \<in> Some ` set (member_rows ''c1'' (w_db (sy_world (system_run adapter live_acts (system_start 5 live_world)))))"
proof -
  obtain c where c: "(live_hs ''u1'', c) \<in> set (sy_sockets (system_run adapter live_acts (system_start 5 live_world)))"
    "so_connected c" "so_rooms c = [userRoom ''u1'', channelRoom ''c1'']" using live_connected by blast
  then have p: "so_sent (adapter (Emit [channelRoom ''c1''] [] ''message:new'' JNull) c) = so_sent c @ [(''message:new'', JNull)]"
    by (simp add: in_memory.emitted receives_def in_rooms_def)
  have "\<forall>a \<in> set live_acts. canonical a" by (simp add: live_acts_def)
  from messages_reach_only_members[OF in_memory.socket_io_axioms live_world_startable this refl,
      of 5 "''c1''" "[]" "''message:new''" JNull "''u1''" 0]
  show ?thesis using c p by fastforce
qed

definition live_socket :: "string \<Rightarrow> string \<Rightarrow> socket_client" where
  "live_socket i u = \<lparr>so_id = i, so_user = Some \<lparr>su_id = u, su_username = u, su_status = ''ONLINE''\<rparr>, so_tokenExp = None, so_connected = True,
     so_rooms = [userRoom u, channelRoom ''c1''], so_sent = []\<rparr>"

definition live_state :: live_system where
  "live_state = \<lparr>sy_now = 5, sy_gateway = \<lparr>gw_world = live_world, gw_heartbeats = [], gw_typing = []\<rparr>,
     sy_sockets = [(live_hs ''u1'', live_socket ''s1'' ''u1''), (live_hs ''u2'', live_socket ''s2'' ''u2'')]\<rparr>"

lemma live_state_ok: "live_ok live_state"
  using live_world_startable
  by (simp add: live_ok_def startable_def live_state_def all_known_def known_def allowed_def is_member_def live_socket_def)
    (simp add: live_world_def member_rows_def sample_defs)

theorem accepted_message_reaches_the_room_witness:
  "\<exists>p. pl_channelId p = ''c1'' \<and> map (so_sent \<circ> snd) (sy_sockets (system_step adapter (Act_event live_env ''s1'' E_send_message live_message) live_state)) =
     [[], [(''message:new'', payload_json p)]]"
proof -
  let ?c = "live_socket ''s1'' ''u1''" let ?s' = "system_step adapter (Act_event live_env ''s1'' E_send_message live_message) live_state"
  have f: "find_socket ''s1'' (sy_sockets live_state) = Some (live_hs ''u1'', ?c)" "so_connected ?c"
    by (simp_all add: find_socket_def live_state_def live_socket_def)
  have "case fst (socket_dispatch live_env (live_hs ''u1'') (sy_now live_state) E_send_message live_message ?c (sy_gateway live_state)) of
      A_message p \<Rightarrow> pl_channelId p = ''c1'' | _ \<Rightarrow> False" by code_simp
  then obtain p where p: "fst (socket_dispatch live_env (live_hs ''u1'') (sy_now live_state) E_send_message live_message ?c (sy_gateway live_state)) = A_message p"
      "pl_channelId p = ''c1''" by (auto split: event_answer.splits)
  have "receives [channelRoom ''c1''] [''s1''] (live_socket ''s2'' ''u2'')" "\<not> receives [channelRoom ''c1''] [''s1''] ?c"
    by (simp_all add: receives_def in_rooms_def live_socket_def userRoom_def channelRoom_def)
  then show ?thesis using accepted_message_reaches_the_room[OF in_memory.socket_io_axioms live_state_ok f _ p(1)] p(2)
    by (auto simp: live_state_def live_socket_def list_all2_Cons1 simp del: system_step.simps)
qed

section \<open>The whole system refines the server\<close>

text \<open>
  C3: The running system refines the server's state machine. Whatever happens, REST requests, connections, events of all gateways,
  disconnections, timers, heartbeats and jobs, in any order and with any payloads, tokens, random values and failing
  services, what it does to the world is a run of the machine's steps: writing events go through the same step of the service as the REST route, all
  others leave the tables alone. So a well-formed database stays well formed.
\<close>

theorem system_refines_server:
  assumes "socket_io sio"
  shows "server_step\<^sup>*\<^sup>* w (sy_world (system_run sio acts (system_start t w))) \<and>
    (db_inv (w_db w) \<longrightarrow> db_inv (w_db (sy_world (system_run sio acts (system_start t w)))))"
proof -
  have "server_step w (sy_world (system_start t w))" by (rule quiet) (simp add: start_world)
  then have "server_step\<^sup>*\<^sup>* w (sy_world (system_run sio acts (system_start t w)))"
    using socket_io.system_run_steps[OF assms start_known] by (blast intro: converse_rtranclp_into_rtranclp)
  then show ?thesis using server.run_inv by blast
qed

theorem system_refines_server_witness:
  "db_inv (w_db (sy_world (system_run adapter (live_acts @ [Act_event live_env ''s1'' E_send_message live_message]) (system_start 5 live_world))))"
  using system_refines_server[OF in_memory.socket_io_axioms, of live_world "live_acts @ [Act_event live_env ''s1'' E_send_message live_message]" 5]
    live_world_startable by (simp add: startable_def)

section \<open>Ids in capitals\<close>

text \<open>
  Why the spelling matters. PostgreSQL compares uuids, Redis and Socket.IO compare texts: removing a member under an id of the channel with capital letters
  deletes the row, but tells no socket to leave the room of the channel and drops no cached set of members, so the removed user keeps receiving its packets and
  keeps passing the cached check of membership.
\<close>

theorem removal_in_capitals_keeps_listening:
  assumes "removeMember c req v now w = (Inr r, w')" "to_lower c \<noteq> c"
  shows "to_lower v \<notin> set (member_rows (to_lower c) (w_db w')) \<and>
    (SocketsLeave rooms (channelRoom (to_lower c)) \<in> set (w_out w') \<longleftrightarrow> SocketsLeave rooms (channelRoom (to_lower c)) \<in> set (w_out w)) \<and>
    r_sets (w_redis w') (RedisKeys_channelMembers (to_lower c)) = r_sets (w_redis w) (RedisKeys_channelMembers (to_lower c))"
proof -
  have w': "w' = removeUserFromChannel v c (emitToChannelAndUsers c [v] ''channel:member-removed'' (member_json c v)
      (resetUnread v c (invalidate c (w\<lparr>w_db := w_db w'\<rparr>))))"
    using assms(1) removeMember_Inr(1)[OF assms(1)] by (auto simp: removeMember_def split: if_splits)
  have "to_lower v \<notin> set (member_rows (to_lower c) (w_db w'))" using remove_member_rows(1)[OF removeMember_Inr(1)[OF assms(1)]] by simp
  moreover have "r_sets (w_redis w') (RedisKeys_channelMembers (to_lower c)) = r_sets (w_redis w) (RedisKeys_channelMembers (to_lower c))"
    using assms(2) by (subst w') (auto simp: invalidate_def with_redis_def del_key_def split: link.split)
  moreover have "SocketsLeave rooms (channelRoom (to_lower c)) \<in> set (w_out w') \<longleftrightarrow> SocketsLeave rooms (channelRoom (to_lower c)) \<in> set (w_out w)"
    using assms(2) by (subst w') (auto simp: removeUserFromChannel_def emitToChannelAndUsers_def send_out_def invalidate_def resetUnread_def with_redis_def split: link.split)
  ultimately show ?thesis by blast
qed

theorem removal_in_capitals_keeps_listening_witness:
  "\<exists>r w'. removeMember ''C1'' ''u1'' ''u2'' 5 live_world = (Inr r, w') \<and> ''u2'' \<notin> set (member_rows ''c1'' (w_db w')) \<and>
     SocketsLeave [userRoom ''u2''] (channelRoom ''c1'') \<notin> set (w_out w')"
proof -
  have "case fst (removeMember ''C1'' ''u1'' ''u2'' 5 live_world) of Inr r \<Rightarrow> True | _ \<Rightarrow> False" by code_simp
  then obtain r w' where r: "removeMember ''C1'' ''u1'' ''u2'' 5 live_world = (Inr r, w')"
    by (cases "removeMember ''C1'' ''u1'' ''u2'' 5 live_world") (auto split: sum.splits)
  have l: "to_lower ''C1'' = ''c1''" "to_lower ''u2'' = ''u2''" by code_simp+
  from removal_in_capitals_keeps_listening[OF r, of "[userRoom ''u2'']"] show ?thesis using r l by (simp add: live_world_def)
qed

section \<open>Connecting while members change\<close>

text \<open>
  \<open>handleConnection\<close> reads the channels of the user and then joins their rooms, and awaits in between. What was read and what is
  joined, as two statements; \<open>finish_connection\<close> is the two without anything in between.
\<close>

definition setup_join :: "string list \<Rightarrow> socket_client \<Rightarrow> socket_client" where
  "setup_join rooms c = c\<lparr>so_rooms := so_rooms c @ rooms\<rparr>"

lemma finish_connection_joins:
  "ge_channelsDb env \<Longrightarrow> so_rooms (fst (finish_connection env conn1 conn2 now u c g)) = so_rooms (setup_join (connect_rooms (su_id u) (w_db (gw_world g))) c)"
  by (simp add: finish_connection_def Let_def split_beta pushPresence_client setup_join_def)

context socket_io
begin

lemma flush_no_rooms: "so_rooms c = [] \<Longrightarrow> so_rooms (fold sio es c) = []"
proof (induction es arbitrary: c)
  case (Cons e es)
  have "set (so_rooms (sio e c)) = {}" using Cons.prems by (cases e) (simp_all add: emitted joined left_room in_rooms_def)
  then show ?case using Cons.IH[of "sio e c"] by simp
qed simp

end

text \<open>
  The set-up of a connection races with changes of members. When a member is removed between the two statements, the new socket joins the room of the channel
  after the removed user's sockets were told to leave it, and listens on; when a user is added in between, the new socket is not in the room although
  the user is a member, and misses what is sent until it asks to join.
\<close>

theorem connecting_races_with_members:
  assumes "socket_io sio" "so_rooms x = []" "to_lower c = c" "to_lower v = v"
  shows "(removeMember c req v now w = (Inr r, w') \<longrightarrow>
      channelRoom c \<in> set (so_rooms (setup_join (connect_rooms v (w_db w)) (fold sio (w_out w') x))) \<and> v \<notin> set (member_rows c (w_db w'))) \<and>
    (addMember i c req v role now w = (Inr m, w') \<longrightarrow>
      channelRoom c \<notin> set (so_rooms (setup_join (connect_rooms v (w_db w)) (fold sio (w_out w') x))) \<and> v \<in> set (member_rows c (w_db w')))"
proof -
  have rooms: "channelRoom c \<in> set (so_rooms (setup_join (connect_rooms v (w_db w)) (fold sio (w_out w') x))) \<longleftrightarrow> in_channel v c (w_db w)"
    using socket_io.flush_no_rooms[OF assms(1,2)]
    by (auto simp: setup_join_def connect_rooms_def getUserChannelIds_def in_channel_iff)
  have "in_channel v c (w_db w) \<and> v \<notin> set (member_rows c (w_db w'))" if "removeMember c req v now w = (Inr r, w')"
    using remove_member_rows(1,3)[OF removeMember_Inr(1)[OF that]] assms(3,4) by simp
  moreover have "\<not> in_channel v c (w_db w) \<and> v \<in> set (member_rows c (w_db w'))" if "addMember i c req v role now w = (Inr m, w')"
    using add_member_rows(1,3)[OF addMember_Inr(1)[OF that]] by simp
  ultimately show ?thesis using rooms by blast
qed

theorem connecting_races_with_members_witness:
  "\<exists>r w'. removeMember ''c1'' ''u1'' ''u2'' 5 live_world = (Inr r, w') \<and> ''u2'' \<notin> set (member_rows ''c1'' (w_db w')) \<and>
     channelRoom ''c1'' \<in> set (so_rooms (setup_join (connect_rooms ''u2'' (w_db live_world)) (fold adapter (w_out w') (new_socket ''s2''))))"
proof -
  have "case fst (removeMember ''c1'' ''u1'' ''u2'' 5 live_world) of Inr r \<Rightarrow> True | _ \<Rightarrow> False" by code_simp
  then obtain r w' where r: "removeMember ''c1'' ''u1'' ''u2'' 5 live_world = (Inr r, w')"
    by (cases "removeMember ''c1'' ''u1'' ''u2'' 5 live_world") (auto split: sum.splits)
  have l: "to_lower ''c1'' = ''c1''" "to_lower ''u2'' = ''u2''" "so_rooms (new_socket ''s2'') = []" by code_simp+
  from connecting_races_with_members[OF in_memory.socket_io_axioms l(3,1,2), of "''u1''" 5 live_world r w' "''m9''" None _] show ?thesis using r by blast
qed

end
