(* ===== verification/Spec2Isabelle.thy ===== *)
theory Spec2Isabelle
  imports Send_Paths Bootstrap Columns Live_Rooms
begin

text \<open>
  Verification of the ZEVRA chat server (\<open>src/src\<close>, TypeScript on NestJS): an end-to-end encrypted messenger with REST
  controllers, Socket.IO gateways, PostgreSQL behind drizzle-orm, Redis for presence, caches, counters and call state, a BullMQ queue and
  LiveKit for group calls.

  \<^bold>\<open>How the program is modelled.\<close> A world (\<open>w_db\<close>, \<open>w_redis\<close>, \<open>w_link\<close>, \<open>w_server\<close>, \<open>w_out\<close>, \<open>w_jobs\<close>, \<open>w_rooms\<close>) holds the tables as
  lists of rows, Redis as typed keyspaces with expiry times, whether Redis answers, is unreachable or rejects commands, what was emitted to
  sockets, the queued jobs and the rooms. A handler is a function from its arguments, the time and the world to \<open>thrown + result\<close> and
  the world it leaves; every \<open>throw\<close>, early return and \<open>catch\<close> is a branch. A handler reads the clock once, as \<open>now\<close>. Code outside the repository is
  an argument: hashes, argon2, AES-GCM, key generation, signatures and JWT, LiveKit, Cloudinary, class-validator, passport, random ids, the
  failures of single statements. A failing statement throws the driver's error with its SQLSTATE on the \<open>cause\<close> (\<open>wrap_cause\<close>), as the query
  builder does. Statements that race with others are also given as separate definitions (\<open>mark_read_select\<close> and
  \<open>mark_read_update\<close>, \<open>pop_read\<close> and \<open>pop_remove\<close>, \<open>username_taken\<close> and \<open>update_username\<close>, \<open>insert_attempts\<close>, \<open>connect_rooms\<close> and \<open>setup_join\<close>), whose interleavings the
  theorems cover. Ids are texts in canonical lower-case form; where a raw id of a client meets a uuid column (tokens, LiveKit rooms, calls, the removal of members), the
  comparison is the column's, on lower-case texts. The theorems on rooms ask for canonical ids in paths and payloads, and one shows what a removal in capitals leaves behind.
  Numbers are exact integers, also where the source computes with JavaScript numbers (\<open>read_decimal\<close> for the token lifetime) or a column has four bytes (epochs, key versions);
  texts are made of characters below 256, so that \<open>utf8\<close> has sequences of one and two bytes.

  \<^bold>\<open>Theories and sources.\<close>
  \<^item> \<open>Zevra_Prelude\<close>: JSON values and the JavaScript string and array functions in use. \<open>Zevra_Errors\<close>: \<open>common/errors\<close>, the exception filter,
    validation reports, request ids. \<open>Zevra_Schema\<close>: \<open>database/schema.ts\<close>, unique indexes as the locale \<open>unique_index\<close> interpreted for every table.
    \<open>Zevra_Redis\<close>: \<open>redis-keys.ts\<close> and the Redis commands, sorted sets as a locale. \<open>Zevra_World\<close>: \<open>socket.service.ts\<close>.
  \<^item> \<open>Rate_Limits\<close>: the Lua script, its two services, the route guard and the throttler; the locale \<open>window_limiter\<close> has one interpretation for each.
    \<open>Redis_Services\<close>: session, cache, member cache and the delivery job; the locale \<open>membership_lookup\<close>.
  \<^item> \<open>Messages_Service\<close>, \<open>Channels_Service\<close>, \<open>Reactions_Keys\<close>, \<open>Users_Audit\<close>: the services of the same names under \<open>modules\<close>.
  \<^item> \<open>Srp\<close>, \<open>Crypto_Service\<close>, \<open>Auth_Service\<close>: \<open>srp.service.ts\<close> over integers and bytes, \<open>crypto.service.ts\<close>, \<open>auth.service.ts\<close> and the login state.
  \<^item> \<open>Livekit\<close>, \<open>Calls\<close>, \<open>Call_Flows\<close>: room access, tokens, the webhook and its logs; calls in Redis and all events of \<open>calls.gateway.ts\<close>.
  \<^item> \<open>Chat_Gateway\<close>, \<open>Socket_Gateway\<close>: the socket events, authentication, typing, presence, heartbeat.
  \<^item> \<open>Uploads\<close>, \<open>Config\<close>, \<open>Bootstrap\<close>: file types and the endpoint; the environment, the Redis client, readiness; \<open>main.ts\<close> and the queue's connection.
  \<^item> \<open>Dto\<close>: every payload class as a list of rules, transforms and patterns; class-validator is the locale \<open>class_validator\<close>, whose run takes a flag
    for \<open>forbidNonWhitelisted\<close>: set by the REST pipe, which refuses unknown properties, and not by \<open>validatePayload\<close> of the sockets, which drops them.
    \<open>Rest_Api\<close>: every REST route behind throttler, guards and pipes, and the open routes of \<open>health.controller.ts\<close>. \<open>Columns\<close>: what REST requests store fits the
    bounded columns of the schema. \<open>Send_Paths\<close>: REST against socket sending, repeated jobs, signatures.
    \<open>Socket_Events\<close>: every socket event of the three gateways, the guard before it and the handler it reaches.
  \<^item> \<open>Rooms\<close>: what each handler does to rooms, members and their cached sets. \<open>Live_System\<close>: the sockets with their rooms, and requests, connections, events,
    disconnections, timers, heartbeats, jobs and the clock as actions; Socket.IO is the locale \<open>socket_io\<close>, with the in-memory adapter as an
    instance. \<open>Live_Rooms\<close>: what holds after any sequence of actions; the locale is a \<open>state_machine\<close>.
  \<^item> \<open>Database_Invariant\<close>: what every writing handler keeps of the tables. \<open>Server\<close>: the server and its calls as state machines, both interpretations of the
    locale \<open>state_machine\<close>. This theory: what holds in every state the server reaches.

  \<^bold>\<open>What the theorems show.\<close> In every state reachable from empty tables keys are unique, references resolve, messages are numbered without
  gaps, previews, roles and sizes are right; the running system, with all its requests, socket events, timers and jobs, refines that machine. Packets for a channel reach
  sockets of its present members only, and a message accepted on a socket arrives at exactly the other sockets in the room. A sent message is stored once, emitted and
  delivered to every other member, online or through the queue, alike over REST and socket for payloads without unknown properties; paging returns the whole history once; cached pages equal database pages
  while the cache is coherent, and lost cache writes are shown to break that. A registered user can log in and recover the private keys, nobody logs in
  without a fresh proof, login states and refresh tokens work once, an unknown user looks like a registered one, and ten guesses per user name and window of a minute is the limit while Redis is up.
  Sockets and requests act for active users with valid tokens only, the call events excepted, which ignore the expiry of the token. Users in a call agree on it, signals and group calls stay among their members. What REST requests store fits its columns, except for salts of a key rotation that are too long. The texts of errors that are not the framework's or the
  server's own are hidden from clients. Limits, file types and the environment check do what they promise.

  \<^bold>\<open>Bounds.\<close> Loops of the source are structural recursion or have a termination proof; \<open>insert_attempts\<close> counts down from the source's own bound of
  retries, \<open>findPgError_loop\<close> from its depth; \<open>read_back\<close> and the drain of the pending queue take a number of requests and the theorems say how
  many are enough. The square-and-multiply loop ends for every exponent.

  \<^bold>\<open>Not modelled.\<close> NestJS modules and dependency injection (\<open>*.module.ts\<close>, \<open>socket-redis-adapter.ts\<close>): declarations without logic. The table
  \<open>pending_messages\<close>, which nothing uses. The interceptor that parses multipart bodies and its size limit, HTTP headers and status codes of successful answers, log lines except
  where they are the behaviour (outages, fatal errors). Changes of the Redis connection are not actions of the running system: the theorems on rooms hold while Redis answers, and a separate
  theorem shows what a removal leaves cached when it does not. Handlers run one after the other except for the interleavings named above; for the
  rooms this matters, and the last theorem of \<open>Live_Rooms\<close> shows how a change of members during the set-up of a connection gets past them.
\<close>

section \<open>The database of a running server\<close>

text \<open>
  C1: The database of a running server is well formed. Started on empty tables, after any sequence of requests and events of any
  clients, in any order and with any arguments, no two rows of a table share a unique key; every reference of a row to
  another table resolves, although no handler checks foreign keys; the messages of each channel are numbered from one
  without gaps; each channel's preview names its newest message that is not deleted; every channel with members has an
  administrator, two users have at most one direct channel and no channel is too large; and a user has at most one reaction to a message.
\<close>

theorem reachable_database_ok:
  assumes "server_step\<^sup>*\<^sup>* empty_world w"
  shows "db_keys_ok (w_db w) \<and> refs_ok (w_db w) \<and> sequences_ok (w_db w) \<and> preview_ok (w_db w) \<and> channels_ok (w_db w) \<and>
    one_reaction_each (w_db w)"
  using server.run_inv[OF assms] db_inv_empty by (simp add: db_inv_def)

text \<open>Two users register and open a direct channel.\<close>

definition sample_registered :: world where
  "sample_registered = empty_world\<lparr>w_db := snd (register sample_cf (sample_rr\<lparr>rr_id := ''u2''\<rparr>) ''a2'' True ''bob'' ''bob@x.org'' ''pw'' 2
     (snd (register sample_cf (sample_rr\<lparr>rr_id := ''u1''\<rparr>) ''a1'' True ''ann'' ''ann@x.org'' ''pw'' 1 empty_db)))\<rparr>"

definition sample_opened :: world where
  "sample_opened = snd (create ''c1'' (\<lambda>k. if k = 0 then ''m0'' else ''m1'') ''u1'' [''u2''] ''DIRECT'' None 3 sample_registered)"

lemma sample_registered_users:
  "map u_id (users (w_db sample_registered)) = [''u1'', ''u2'']" "list_all u_isActive (users (w_db sample_registered))"
  "channels (w_db sample_registered) = []" "memberships (w_db sample_registered) = []"
  by (simp_all add: sample_registered_def register_def new_user_def Let_def insert_row_def user_conflict_def auth_audit_def)

lemma sample_run: "server_step\<^sup>*\<^sup>* empty_world sample_opened"
proof -
  let ?w = "empty_world\<lparr>w_db := snd (register sample_cf (sample_rr\<lparr>rr_id := ''u1''\<rparr>) ''a1'' True ''ann'' ''ann@x.org'' ''pw'' 1 empty_db)\<rparr>"
  have "server_step empty_world ?w"
    using step_register[of empty_world sample_cf "sample_rr\<lparr>rr_id := ''u1''\<rparr>" "''a1''" True "''ann''" "''ann@x.org''" "''pw''" 1] by simp
  moreover have "server_step ?w sample_registered"
    using step_register[of ?w sample_cf "sample_rr\<lparr>rr_id := ''u2''\<rparr>" "''a2''" True "''bob''" "''bob@x.org''" "''pw''" 2]
    by (simp add: sample_registered_def)
  moreover have "''u1'' \<in> user_ids (w_db sample_registered)"
    using sample_registered_users(1) by (metis list.set_intros(1) list.set_map)
  then have "server_step sample_registered sample_opened" unfolding sample_opened_def by (rule step_create)
  ultimately show ?thesis by (meson r_into_rtranclp rtranclp.rtrancl_into_rtrancl)
qed

lemma sample_opened_members: "map mb_userId (memberships (w_db sample_opened)) = [''u1'', ''u2'']"
proof -
  obtain a b where u: "users (w_db sample_registered) = [a, b]" using sample_registered_users(1) by auto
  then have ab: "u_id a = ''u1''" "u_id b = ''u2''" "u_isActive b" using sample_registered_users(1,2) by simp_all
  have "create_checks ''u1'' [''u2''] ''DIRECT'' (w_db sample_registered) = Inr [''u2'']"
    by (simp add: create_checks_def u ab)
  then show ?thesis
    by (simp add: sample_opened_def create_def createDirect_def existing_direct_def insertChannel_def sample_registered_users
        insert_row_def initial_members_def new_membership_def membership_conflict_def Let_def)
qed

theorem reachable_database_ok_witness:
  "map mb_userId (memberships (w_db sample_opened)) = [''u1'', ''u2''] \<and> refs_ok (w_db sample_opened) \<and> channels_ok (w_db sample_opened)"
  using reachable_database_ok[OF sample_run] sample_opened_members by simp

section \<open>Calls of a running server\<close>

text \<open>
  C26: A user is in at most one call and both parties agree on it. Started without calls, after any sequence of call events, each run
  to its end, and while time passes and keys expire, the call a user is in names that user, and the other party, a different user,
  is in the same call.
\<close>

theorem reachable_calls_agree:
  assumes "call_step\<^sup>*\<^sup>* (t, empty_world) (now, w)" "getActiveCall now u w = Some call"
  shows "(u = ac_initiatorId call \<or> u = ac_targetId call) \<and> getOtherUserId call u \<noteq> u \<and>
    getActiveCall now (getOtherUserId call u) w = Some call"
proof -
  have ok: "calls_ok now (w_redis w)" using calls.run_inv[OF assms(1)] by (simp add: calls_ok_empty)
  have rc: "w_link w = Up" "read_call now u (w_redis w) = Some call" using assms(2) by (simp_all add: getActiveCall_Some)
  note sym = read_call_sym[OF ok rc(2)]
  show ?thesis using sym rc(1) by (simp add: getActiveCall_Some)
qed

theorem reachable_calls_agree_witness:
  "\<exists>w call. getActiveCall 6 (su_id sample_ann) w = Some call \<and> ac_targetId call = su_id sample_cleo \<and>
     getActiveCall 6 (su_id sample_cleo) w = Some call"
proof -
  let ?c = "''11111111-0000-0000-0000-000000000001''"
  note f = sample_call_world_facts
  obtain x w where inv: "handleInvite JNull ?c ''l1'' (Some sample_ann) (JObj [(''targetUserId'', JStr (su_id sample_cleo))]) 5 sample_call_world = (AckOk x, w)"
    using sample_invite_AckOk[OF f(1,3,4,6,7,7) refl] by blast
  have "call_step (5, empty_world) (5, sample_call_world)"
    by (rule elsewhere) (simp add: call_keys_same_def f(2), simp add: sample_call_world_def put_ex_def userCallKey_def RedisKeys_presence_def)
  moreover have "call_step (5, sample_call_world) (5, w)"
    using call_invite[of sample_call_world ?c "Some sample_ann" 5 JNull "''l1''" "JObj [(''targetUserId'', JStr (su_id sample_cleo))]"] inv
    by (simp add: f(2) sample_ann_def)
  moreover have "call_step (5, w) (6, w)" by (rule call_tick) simp
  ultimately have run: "call_step\<^sup>*\<^sup>* (5, empty_world) (6, w)" by (meson rtranclp.rtrancl_into_rtrancl rtranclp.rtrancl_refl)
  note i = handleInvite_AckOk[OF inv, of "su_id sample_cleo"]
  obtain R where R: "w_redis w = create_keys ?c (su_id sample_ann) (su_id sample_cleo) (Some ''l1'') 5 R" using i(1) by auto
  have ids: "?c \<noteq> ([] :: char list)" "su_id sample_ann \<noteq> []" "su_id sample_cleo \<noteq> []" "su_id sample_ann \<noteq> su_id sample_cleo" "(6 :: int) < 5 + 1000 * RINGING_TTL_SECONDS"
    by (simp_all add: sample_ann_def sample_cleo_def RINGING_TTL_SECONDS_def)
  obtain call where call: "getActiveCall 6 (su_id sample_cleo) w = Some call" "ac_initiatorId call = su_id sample_ann" "ac_targetId call = su_id sample_cleo"
    using ringing_call(3)[OF R i(2) ids] ids(2) i(2) by (auto simp: toActiveCall_def call_hash_def hfield_def)
  from reachable_calls_agree[OF run call(1)] show ?thesis using call ids(4) by (auto simp: getOtherUserId_def)
qed

end
